(* ===== verification/Prelude.thy ===== *)
theory Prelude
  imports Main "HOL-Library.Word"
begin

text \<open>
  Shared vocabulary of the development: the machine integer types of the i686 kernel, the
  byte-addressed memory every pointer of the C code reads and writes, little-endian access
  to it at 16 and 32 bits, and the frame lemmas that say which bytes an access touches.
\<close>

unbundle bit_operations_syntax

section \<open>Machine types\<close>

type_synonym u8 = "8 word"
type_synonym u16 = "16 word"
type_synonym u32 = "32 word"
type_synonym u64 = "64 word"

text \<open>A pointer is a 32-bit address (\<open>pointer_t\<close>); \<open>NULL\<close> is 0.\<close>

type_synonym addr = u32
type_synonym memory = "addr \<Rightarrow> u8"

named_theorems mem_simps \<open>evaluation of memory accesses\<close>
named_theorems frame_simps \<open>what an operation leaves unchanged\<close>

lemma unat_lt_2p32: "unat (w :: u32) < 2 ^ 32"
  using unsigned_less [of w] by simp

section \<open>Regions\<close>

text \<open>
  The \<open>n\<close> bytes from \<open>a\<close> on. The subtraction wraps, so the region is right also where it
  crosses the top of the address space.
\<close>

definition region :: "addr \<Rightarrow> nat \<Rightarrow> addr set" where
  "region a n = {x. unat (x - a) < n}"

lemma region_iff: "x \<in> region a n \<longleftrightarrow> unat (x - a) < n"
  by (simp add: region_def)

lemma region_0 [simp]: "region a 0 = {}"
  by (simp add: region_def)

lemma region_nat:
  assumes "unat a + n \<le> 2 ^ 32"
  shows "x \<in> region a n \<longleftrightarrow> unat a \<le> unat x \<and> unat x < unat a + n"
proof (cases "a \<le> x")
  case True
  then have "unat (x - a) = unat x - unat a" and "unat a \<le> unat x"
    by (auto simp: unat_sub word_le_nat_alt)
  then show ?thesis by (auto simp: region_iff)
next
  case False
  then have lt: "unat x < unat a" by (simp add: word_le_nat_alt)
  then have "unat (x - a) = 2 ^ 32 + unat x - unat a"
    by (simp add: unat_sub_if_size word_size)
  with assms lt show ?thesis by (auto simp: region_iff)
qed

lemma region_disjoint_nat:
  assumes "unat a + n \<le> 2 ^ 32" "unat b + k \<le> 2 ^ 32"
    and "unat a + n \<le> unat b \<or> unat b + k \<le> unat a"
  shows "region a n \<inter> region b k = {}"
  using assms(3) by (auto simp: region_nat [OF assms(1)] region_nat [OF assms(2)])

lemma region_mono: "n \<le> k \<Longrightarrow> region a n \<subseteq> region a k"
  by (auto simp: region_iff)

lemma region_base [simp]: "0 < n \<Longrightarrow> a \<in> region a n"
  by (simp add: region_iff)

lemma region_offset: "unat i < n \<Longrightarrow> a + i \<in> region a n"
  by (simp add: region_iff)

lemma region_sub:
  assumes "unat i + k \<le> n"
  shows "region (a + i) k \<subseteq> region a n"
proof
  fix x assume "x \<in> region (a + i) k"
  then have k: "unat (x - a - i) < k" by (simp add: region_iff diff_diff_eq)
  have "x - a = (x - a - i) + i" by simp
  then have "unat (x - a) \<le> unat (x - a - i) + unat i"
    by (metis unat_word_ariths(1) mod_less_eq_dividend)
  with k assms have "unat (x - a) < n" by linarith
  then show "x \<in> region a n" by (simp add: region_iff)
qed

section \<open>Little-endian access\<close>

definition read16 :: "memory \<Rightarrow> addr \<Rightarrow> u16" where
  "read16 m a = ucast (m a) OR push_bit 8 (ucast (m (a + 1)))"

definition write16 :: "memory \<Rightarrow> addr \<Rightarrow> u16 \<Rightarrow> memory" where
  "write16 m a v = m(a := ucast v, a + 1 := ucast (drop_bit 8 v))"

definition read32 :: "memory \<Rightarrow> addr \<Rightarrow> u32" where
  "read32 m a = ucast (m a) OR push_bit 8 (ucast (m (a + 1)))
     OR push_bit 16 (ucast (m (a + 2))) OR push_bit 24 (ucast (m (a + 3)))"

definition write32 :: "memory \<Rightarrow> addr \<Rightarrow> u32 \<Rightarrow> memory" where
  "write32 m a v = m(a := ucast v, a + 1 := ucast (drop_bit 8 v),
     a + 2 := ucast (drop_bit 16 v), a + 3 := ucast (drop_bit 24 v))"

lemma word_bytes32:
  "ucast (ucast v :: u8) OR push_bit 8 (ucast (ucast (drop_bit 8 v) :: u8))
     OR push_bit 16 (ucast (ucast (drop_bit 16 v) :: u8))
     OR push_bit 24 (ucast (ucast (drop_bit 24 v) :: u8)) = (v :: u32)"
proof (rule bit_word_eqI)
  fix n :: nat
  assume "n < LENGTH(32)"
  then consider "n < 8" | "8 \<le> n" "n < 16" | "16 \<le> n" "n < 24" | "24 \<le> n" "n < 32"
    by fastforce
  then show "bit (ucast (ucast v :: u8) OR push_bit 8 (ucast (ucast (drop_bit 8 v) :: u8))
     OR push_bit 16 (ucast (ucast (drop_bit 16 v) :: u8))
     OR push_bit 24 (ucast (ucast (drop_bit 24 v) :: u8)) :: u32) n = bit v n"
    by cases (auto simp: bit_simps not_less)
qed

lemma read32_write32_same [simp, mem_simps]: "read32 (write32 m a v) a = v"
proof -
  have ne: "a \<noteq> a + 1" "a \<noteq> a + 2" "a \<noteq> a + 3" "a + 1 \<noteq> a + 2" "a + 1 \<noteq> a + 3" "a + 2 \<noteq> a + 3"
    by simp_all
  show ?thesis unfolding read32_def write32_def using ne word_bytes32 [of v] by simp
qed

lemma write32_outside [frame_simps]:
  assumes "x \<notin> region a 4" shows "write32 m a v x = m x"
proof -
  have "x \<noteq> a + i" if "unat i < 4" for i
    using assms region_offset [OF that, of a] by auto
  from this [of 0] this [of 1] this [of 2] this [of 3] show ?thesis
    by (simp add: write32_def)
qed

lemma read32_cong:
  assumes "\<And>x. x \<in> region a 4 \<Longrightarrow> m x = m' x" shows "read32 m a = read32 m' a"
proof -
  have "m (a + i) = m' (a + i)" if "unat i < 4" for i
    using assms region_offset [OF that] by simp
  from this [of 0] this [of 1] this [of 2] this [of 3] show ?thesis
    by (simp add: read32_def)
qed

lemma read32_upd [mem_simps]: "x \<notin> region a 4 \<Longrightarrow> read32 (m(x := v)) a = read32 m a"
  by (intro read32_cong) auto

lemma read32_write32_disjoint:
  assumes "region a 4 \<inter> region b 4 = {}" shows "read32 (write32 m a v) b = read32 m b"
  using assms by (intro read32_cong write32_outside) auto

lemma read32_write32_other [mem_simps]:
  assumes "unat a + 4 \<le> 2 ^ 32" "unat b + 4 \<le> 2 ^ 32"
    and "unat a + 4 \<le> unat b \<or> unat b + 4 \<le> unat a"
  shows "read32 (write32 m a v) b = read32 m b"
  using assms by (intro read32_write32_disjoint region_disjoint_nat) auto

lemma unat_plus_small:
  assumes "unat (a :: u32) + n < 2 ^ 32" shows "unat (a + of_nat n) = unat a + n"
  using assms by (simp add: unat_word_ariths unat_of_nat take_bit_eq_mod)

section \<open>What a run of writes leaves unchanged\<close>

definition unchanged_outside :: "addr set \<Rightarrow> memory \<Rightarrow> memory \<Rightarrow> bool" where
  "unchanged_outside S m m' \<longleftrightarrow> (\<forall>x. x \<notin> S \<longrightarrow> m' x = m x)"

lemma unchanged_refl [simp, intro]: "unchanged_outside S m m"
  by (simp add: unchanged_outside_def)

lemma unchanged_trans [trans]:
  "unchanged_outside S m m' \<Longrightarrow> unchanged_outside S m' m'' \<Longrightarrow> unchanged_outside S m m''"
  by (simp add: unchanged_outside_def)

lemma unchanged_mono: "unchanged_outside S m m' \<Longrightarrow> S \<subseteq> T \<Longrightarrow> unchanged_outside T m m'"
  by (auto simp: unchanged_outside_def)

lemma unchangedD: "unchanged_outside S m m' \<Longrightarrow> x \<notin> S \<Longrightarrow> m' x = m x"
  by (simp add: unchanged_outside_def)

lemma unchanged_upd: "x \<in> S \<Longrightarrow> unchanged_outside S m m' \<Longrightarrow> unchanged_outside S m (m'(x := v))"
  by (auto simp: unchanged_outside_def)

lemma unchanged_write32:
  "region a 4 \<subseteq> S \<Longrightarrow> unchanged_outside S m m' \<Longrightarrow> unchanged_outside S m (write32 m' a v)"
  by (auto simp: unchanged_outside_def intro!: trans [OF write32_outside])

lemma unchanged_read32:
  assumes "unchanged_outside S m m'" "region a 4 \<inter> S = {}" shows "read32 m' a = read32 m a"
  using assms by (intro read32_cong) (auto simp: unchanged_outside_def)

end
