(* ===== verification/Allocator.thy ===== *)
theory Allocator
  imports Prelude
begin

text \<open>
  The kernel heap of \<open>libc/memory.c\<close>: a list of free nodes threaded through the free memory
  itself, sorted by address, coalesced by \<open>free_memory\<close> and searched best-fit by
  \<open>aligned_alloc\<close>. The nodes and the headers of allocated blocks live in the byte memory of
  theory \<open>Prelude\<close>, at the offsets the C structs have on i686. A walk over the list is a
  \<open>partial_function\<close>: \<open>None\<close> means that it does not end (a cyclic list) or that the code
  divides by zero. \<open>blocks\<close> is the abstract free list the lemmas relate the memory to.
\<close>

section \<open>State and layout\<close>

text \<open>
  \<open>MemoryNode\<close> is \<open>size\<close> at offset 0 and \<open>next\<close> at offset 4; \<open>AllocatedRegionHeader\<close> is
  \<open>total_size\<close> at 0, \<open>requested_size\<close> at 4 and the char \<open>offset\<close> at 8, padded to 12 bytes.
\<close>

record heap =
  hmem :: memory
  free_start :: addr

definition sizeof_MemoryNode :: u32 where "sizeof_MemoryNode = 8"
definition sizeof_AllocatedRegionHeader :: u32 where "sizeof_AllocatedRegionHeader = 12"
definition malloc_align_size :: u32 where "malloc_align_size = 8"

definition node_size :: "memory \<Rightarrow> addr \<Rightarrow> u32" where
  "node_size m p = read32 m p"

definition node_next :: "memory \<Rightarrow> addr \<Rightarrow> addr" where
  "node_next m p = read32 m (p + 4)"

definition set_node_size :: "memory \<Rightarrow> addr \<Rightarrow> u32 \<Rightarrow> memory" where
  "set_node_size m p v = write32 m p v"

definition set_node_next :: "memory \<Rightarrow> addr \<Rightarrow> addr \<Rightarrow> memory" where
  "set_node_next m p v = write32 m (p + 4) v"

lemmas node_defs = node_size_def node_next_def set_node_size_def set_node_next_def
  sizeof_MemoryNode_def sizeof_AllocatedRegionHeader_def malloc_align_size_def

section \<open>free_memory\<close>

text \<open>The walk to the node before the memory to free.\<close>

partial_function (option) fm_find :: "memory \<Rightarrow> addr \<Rightarrow> addr \<Rightarrow> addr \<Rightarrow> (addr \<times> addr) option" where
  "fm_find m base previous nxt =
     (if nxt \<noteq> 0 \<and> base > nxt then fm_find m base nxt (node_next m nxt)
      else Some (previous, nxt))"

text \<open>Saving the freed memory in \<open>current\<close> and combining it with the next section.\<close>

definition fm_write_node :: "memory \<Rightarrow> addr \<Rightarrow> addr \<Rightarrow> addr \<Rightarrow> memory" where
  "fm_write_node m current nxt end_addr =
     (let m = set_node_size m current (end_addr - current);
          m = set_node_next m current nxt
      in if nxt \<noteq> 0 \<and> nxt \<le> end_addr
         then let next_end = nxt + node_size m nxt;
                  m = set_node_size m current (next_end - current)
              in set_node_next m current (node_next m nxt)
         else m)"

text \<open>
  \<open>base + length\<close> is computed at 64 bits and truncated to the 32 bits of \<open>pointer_t\<close>.
\<close>

definition free_memory :: "heap \<Rightarrow> addr \<Rightarrow> u64 \<Rightarrow> heap option" where
  "free_memory h base len =
     (let end_addr = ucast (ucast base + len :: u64) :: addr
      in case fm_find (hmem h) base 0 (free_start h) of
           None \<Rightarrow> None
         | Some (previous, nxt) \<Rightarrow>
             let joins = previous \<noteq> 0 \<and> previous + node_size (hmem h) previous \<ge> base;
                 current = (if joins then previous else base);
                 m = (if joins \<or> previous = 0 then hmem h
                      else set_node_next (hmem h) previous current);
                 m = fm_write_node m current nxt end_addr
             in Some \<lparr>hmem = m,
                      free_start = (if nxt = free_start h then current else free_start h)\<rparr>)"

section \<open>aligned_alloc, calloc, malloc, free, realloc\<close>

text \<open>The size required in front of the object in node \<open>current\<close>; all at 32 bits.\<close>

definition node_offset :: "u32 \<Rightarrow> addr \<Rightarrow> u32" where
  "node_offset alignment current =
     (let align_offset = alignment - (current + sizeof_AllocatedRegionHeader) mod alignment
      in sizeof_AllocatedRegionHeader + (alignment - align_offset) mod alignment)"

text \<open>The best-fit search. \<open>alignment_offset\<close> is a C \<open>char\<close>: 8 bits, read back signed.\<close>

partial_function (option) aa_scan ::
  "memory \<Rightarrow> u32 \<Rightarrow> u32 \<Rightarrow> addr \<Rightarrow> addr \<Rightarrow> addr \<Rightarrow> addr \<Rightarrow> u8 \<Rightarrow> (addr \<times> addr \<times> u8) option" where
  "aa_scan m alignment sz best_prev best_fit previous current alignment_offset =
     (if current = 0 then Some (best_prev, best_fit, alignment_offset)
      else if best_fit \<noteq> 0 \<and> node_size m best_fit \<le> node_size m current
      then aa_scan m alignment sz best_prev best_fit current (node_next m current) alignment_offset
      else if alignment = 0 then None
      else if sz + node_offset alignment current \<le> node_size m current
      then aa_scan m alignment sz previous current current (node_next m current)
             (ucast (node_offset alignment current))
      else aa_scan m alignment sz best_prev best_fit current (node_next m current) alignment_offset)"

text \<open>The header of the allocated block, and the char right before the object.\<close>

definition aa_header :: "memory \<Rightarrow> addr \<Rightarrow> u32 \<Rightarrow> u32 \<Rightarrow> u8 \<Rightarrow> memory" where
  "aa_header m header total_sz sz alignment_offset =
     (let m = write32 m header total_sz;
          m = write32 m (header + 4) sz;
          m = m(header + 8 := alignment_offset);
          allocated_start = header + scast alignment_offset
      in m(allocated_start - 1 := alignment_offset))"

text \<open>Splitting or using up the node found, and linking its predecessor to what is left.\<close>

definition aa_take :: "heap \<Rightarrow> u32 \<Rightarrow> addr \<Rightarrow> addr \<Rightarrow> u8 \<Rightarrow> addr \<times> heap" where
  "aa_take h sz best_prev best_fit alignment_offset =
     (let m = hmem h;
          size_with_header = sz + scast alignment_offset;
          split = size_with_header + sizeof_MemoryNode < node_size m best_fit;
          nxt = (if split then best_fit + size_with_header else node_next m best_fit);
          total_sz = (if split then size_with_header else node_size m best_fit);
          m1 = (if split
                then (let m' = set_node_next m nxt (node_next m best_fit)
                      in set_node_size m' nxt (node_size m' best_fit - size_with_header))
                else m);
          m2 = (if best_prev = 0 then m1 else set_node_next m1 best_prev nxt)
      in (best_fit + scast alignment_offset,
          \<lparr>hmem = aa_header m2 best_fit total_sz sz alignment_offset,
           free_start = (if best_prev = 0 then nxt else free_start h)\<rparr>))"

definition aligned_alloc :: "heap \<Rightarrow> u32 \<Rightarrow> u32 \<Rightarrow> (addr \<times> heap) option" where
  "aligned_alloc h alignment sz =
     (if sz = 0 then Some (0, h)
      else case aa_scan (hmem h) alignment sz 0 0 0 (free_start h) 0 of
             None \<Rightarrow> None
           | Some (best_prev, best_fit, alignment_offset) \<Rightarrow>
               if best_fit = 0 then Some (0, h)
               else Some (aa_take h sz best_prev best_fit alignment_offset))"

definition calloc :: "heap \<Rightarrow> u32 \<Rightarrow> u32 \<Rightarrow> (addr \<times> heap) option" where
  "calloc h n_memb sz = aligned_alloc h malloc_align_size (sz * n_memb)"

definition malloc :: "heap \<Rightarrow> u32 \<Rightarrow> (addr \<times> heap) option" where
  "malloc h sz = aligned_alloc h malloc_align_size sz"

text \<open>The header of an allocated block, found through the char before the object.\<close>

definition header_of :: "memory \<Rightarrow> addr \<Rightarrow> addr" where
  "header_of m ptr = ptr - scast (m (ptr - 1))"

definition free :: "heap \<Rightarrow> addr \<Rightarrow> heap option" where
  "free h ptr =
     (let header = header_of (hmem h) ptr
      in free_memory h header (ucast (read32 (hmem h) header)))"

text \<open>The copy loop of \<open>realloc\<close>, in the direction the code has: from the new to the old object.\<close>

definition realloc_copy :: "memory \<Rightarrow> addr \<Rightarrow> addr \<Rightarrow> nat \<Rightarrow> memory" where
  "realloc_copy m old_bytes new_bytes n =
     fold (\<lambda>i m. m(old_bytes + of_nat i := m (new_bytes + of_nat i))) [0..<n] m"

definition realloc :: "heap \<Rightarrow> addr \<Rightarrow> u32 \<Rightarrow> (addr \<times> heap) option" where
  "realloc h ptr sz =
     (let header = header_of (hmem h) ptr
      in case malloc h sz of
           None \<Rightarrow> None
         | Some (new_object, h1) \<Rightarrow>
             let requested = read32 (hmem h1) (header + 4);
                 to_copy = (if requested < sz then requested else sz);
                 h2 = h1\<lparr>hmem := realloc_copy (hmem h1) ptr new_object (unat to_copy)\<rparr>
             in case free h2 ptr of None \<Rightarrow> None | Some h3 \<Rightarrow> Some (new_object, h3))"

end
