(* ===== verification/FreeList.thy ===== *)
theory FreeList
  imports Main
begin

text \<open>
  The abstract free list: a list of blocks \<open>(address, size)\<close> over the natural numbers, the
  specification the kernel heap refines. It is sorted by address, no two blocks touch, every
  block can hold a \<open>MemoryNode\<close> (8 bytes) and none reaches the top of the 32-bit address
  space. \<open>insert_block\<close> is the specification of \<open>free_memory\<close>, \<open>take_block\<close> that of the
  list update of \<open>aligned_alloc\<close>.
\<close>

type_synonym blocks = "(nat \<times> nat) list"

fun wf_from :: "nat \<Rightarrow> blocks \<Rightarrow> bool" where
  "wf_from lo [] = True"
| "wf_from lo ((a, s) # xs) = (lo < a \<and> 8 \<le> s \<and> a + s < 2 ^ 32 \<and> wf_from (a + s) xs)"

definition free_bytes :: "blocks \<Rightarrow> nat set" where
  "free_bytes xs = (\<Union>(a, s) \<in> set xs. {a..<a + s})"

lemma free_bytes_simps [simp]:
  "free_bytes [] = {}"
  "free_bytes ((a, s) # xs) = {a..<a + s} \<union> free_bytes xs"
  "free_bytes (xs @ ys) = free_bytes xs \<union> free_bytes ys"
  by (auto simp: free_bytes_def)

lemma wf_from_mono: "wf_from lo xs \<Longrightarrow> k \<le> lo \<Longrightarrow> wf_from k xs"
  by (cases xs) auto

lemma wf_from_append:
  "wf_from lo (xs @ ys) \<longleftrightarrow>
     wf_from lo xs \<and> wf_from (if xs = [] then lo else fst (last xs) + snd (last xs)) ys"
  by (induction lo xs rule: wf_from.induct) auto

lemma wf_from_bounds:
  "wf_from lo xs \<Longrightarrow> (a, s) \<in> set xs \<Longrightarrow> lo < a \<and> 8 \<le> s \<and> a + s < 2 ^ 32"
  by (induction lo xs rule: wf_from.induct) force+

lemma free_bytes_bounds:
  "wf_from lo xs \<Longrightarrow> x \<in> free_bytes xs \<Longrightarrow> lo < x \<and> x < 2 ^ 32"
  unfolding free_bytes_def using wf_from_bounds by fastforce

lemma block_free: "(a, s) \<in> set xs \<Longrightarrow> {a..<a + s} \<subseteq> free_bytes xs"
  by (auto simp: free_bytes_def)

text \<open>Blocks of a well-formed list are apart.\<close>

lemma wf_from_apart:
  assumes "wf_from lo xs" "(a, s) \<in> set xs" "(b, t) \<in> set xs" "a < b"
  shows "a + s < b"
  using assms
proof (induction lo xs rule: wf_from.induct)
  case (2 lo c r xs)
  then show ?case using wf_from_bounds [of "c + r" xs] by fastforce
qed simp

lemma wf_from_addr_unique:
  assumes "wf_from lo xs" "(a, s) \<in> set xs" "(a, t) \<in> set xs" shows "s = t"
  using assms
proof (induction lo xs rule: wf_from.induct)
  case (2 lo c r xs)
  then show ?case using wf_from_bounds [of "c + r" xs] by fastforce
qed simp

lemma wf_from_last:
  "wf_from lo (ys @ [(c, s)]) \<Longrightarrow> (a, t) \<in> set ys \<Longrightarrow> 8 \<le> t \<and> a + t < c"
proof (induction ys arbitrary: lo)
  case (Cons n ys)
  obtain b u where n: "n = (b, u)" by force
  with Cons.prems(1) have b: "8 \<le> u" "wf_from (b + u) (ys @ [(c, s)])" by auto
  then have "b + u < c" using wf_from_bounds [of "b + u" "ys @ [(c, s)]" c s] by auto
  with b Cons n show ?case by auto
qed simp

section \<open>Inserting a block\<close>

fun join_block :: "nat \<Rightarrow> nat \<Rightarrow> blocks \<Rightarrow> blocks" where
  "join_block c e [] = [(c, e - c)]"
| "join_block c e ((a, s) # xs) =
     (if a \<le> e then (c, a + s - c) # xs else (c, e - c) # (a, s) # xs)"

fun insert_block :: "nat \<Rightarrow> nat \<Rightarrow> blocks \<Rightarrow> blocks" where
  "insert_block b e [] = [(b, e - b)]"
| "insert_block b e ((a, s) # xs) =
     (if b \<le> a then join_block b e ((a, s) # xs)
      else if b \<le> a + s then join_block a e xs
      else (a, s) # insert_block b e xs)"

lemma join_block_correct:
  assumes "wf_from lo xs" "c + 8 \<le> e" "e < 2 ^ 32" "c \<le> lo + 1"
    and "k < c" "{c + 1..<e} \<inter> free_bytes xs = {}" "\<forall>(a, s) \<in> set xs. c < a"
  shows "wf_from k (join_block c e xs)"
    and "free_bytes (join_block c e xs) = {c..<e} \<union> free_bytes xs"
proof (atomize (full), cases xs)
  case Nil
  with assms show "wf_from k (join_block c e xs) \<and>
    free_bytes (join_block c e xs) = {c..<e} \<union> free_bytes xs" by auto
next
  case (Cons n ys)
  obtain a s where n: "n = (a, s)" by force
  from assms Cons n have a: "8 \<le> s" "a + s < 2 ^ 32" "wf_from (a + s) ys" "c < a" by auto
  have "e \<le> a"
  proof (rule ccontr)
    assume "\<not> e \<le> a"
    with a Cons n have "a \<in> {c + 1..<e} \<inter> free_bytes xs" by auto
    with assms(6) show False by blast
  qed
  then show "wf_from k (join_block c e xs) \<and>
    free_bytes (join_block c e xs) = {c..<e} \<union> free_bytes xs"
    using a assms Cons n by auto
qed

lemma insert_block_correct:
  assumes "wf_from lo xs" "lo < b" "b + 8 \<le> e" "e < 2 ^ 32" "{b..<e} \<inter> free_bytes xs = {}"
  shows "wf_from lo (insert_block b e xs) \<and>
    free_bytes (insert_block b e xs) = {b..<e} \<union> free_bytes xs"
  using assms
proof (induction b e xs arbitrary: lo rule: insert_block.induct)
  case (1 b e)
  then show ?case by auto
next
  case (2 b e a s xs)
  note wf = "2.prems"(1)
  from wf have a: "lo < a" "8 \<le> s" "a + s < 2 ^ 32" "wf_from (a + s) xs" by auto
  have above: "\<forall>(c, r) \<in> set xs. a + s < c" using wf_from_bounds [OF a(4)] by auto
  consider "b \<le> a" | "a < b" "b \<le> a + s" | "a + s < b" by linarith
  then show ?case
  proof cases
    case 1
    have "a \<in> free_bytes ((a, s) # xs)" using a by auto
    with "2.prems"(5) have "a \<notin> {b..<e}" by blast
    with 1 "2.prems"(3) have "e \<le> a" by auto
    with 1 "2.prems" above a show ?thesis by auto
  next
    case 2
    have "b = a + s"
    proof (rule ccontr)
      assume "b \<noteq> a + s"
      with 2 "2.prems"(3) have "b \<in> {b..<e} \<inter> free_bytes ((a, s) # xs)" by auto
      with "2.prems"(5) show False by blast
    qed
    moreover have "{a + 1..<e} \<inter> free_bytes xs = {}"
    proof -
      have "x \<notin> free_bytes xs" if "x \<in> {a + 1..<e}" for x
      proof (cases "x < b")
        case True
        then show ?thesis using free_bytes_bounds [OF a(4), of x] \<open>b = a + s\<close> by auto
      next
        case False
        with that have "x \<in> {b..<e}" by auto
        with "2.prems"(5) have "x \<notin> free_bytes ((a, s) # xs)" by blast
        then show ?thesis by simp
      qed
      then show ?thesis by blast
    qed
    ultimately show ?thesis
      using join_block_correct [of "a + s" xs a e lo] a above "2.prems" 2 by fastforce
  next
    case 3
    then show ?thesis using "2.IH" [of "a + s"] "2.prems" a by auto
  qed
qed

section \<open>Taking the front of a block\<close>

fun take_block :: "nat \<Rightarrow> nat \<Rightarrow> blocks \<Rightarrow> blocks" where
  "take_block a t [] = []"
| "take_block a t ((x, s) # xs) =
     (if x = a then (if t < s then (a + t, s - t) # xs else xs)
      else (x, s) # take_block a t xs)"

lemma take_block_correct:
  assumes "wf_from lo xs" "(a, s) \<in> set xs" "t = s \<or> t + 8 < s"
  shows "wf_from lo (take_block a t xs) \<and>
    free_bytes (take_block a t xs) = free_bytes xs - {a..<a + t}"
  using assms
proof (induction a t xs arbitrary: lo rule: take_block.induct)
  case (2 a t x r xs)
  from "2.prems"(1) have x: "lo < x" "8 \<le> r" "x + r < 2 ^ 32" "wf_from (x + r) xs" by auto
  have above: "y \<in> free_bytes xs \<Longrightarrow> x + r < y" for y using free_bytes_bounds [OF x(4)] by auto
  show ?case
  proof (cases "x = a")
    case True
    have "r = s"
      using "2.prems" True wf_from_addr_unique [of lo "(x, r) # xs" a r s] by auto
    have "y \<notin> {a..<a + s}" if "y \<in> free_bytes xs" for y
      using above [OF that] True \<open>r = s\<close> by simp
    then have gone: "free_bytes xs - {a..<a + s} = free_bytes xs" by blast
    have "{a..<a + t} \<subseteq> {a..<a + s}" if "t \<le> s" using that by simp
    with gone have sub: "free_bytes xs - {a..<a + t} = free_bytes xs" if "t \<le> s"
      using that by blast
    have "wf_from lo xs" using x by (meson wf_from_mono less_imp_le trans_less_add1)
    with True \<open>r = s\<close> "2.prems"(3) x sub show ?thesis by (auto simp: Un_Diff)
  next
    case False
    with "2.prems" have "(a, s) \<in> set xs" by auto
    then have "x + r < a" using wf_from_bounds [OF x(4)] by auto
    then have "{x..<x + r} - {a..<a + t} = {x..<x + r}" by auto
    moreover have "wf_from (x + r) (take_block a t xs) \<and>
        free_bytes (take_block a t xs) = free_bytes xs - {a..<a + t}"
      using "2.IH" [OF False x(4) \<open>(a, s) \<in> set xs\<close> "2.prems"(3)] .
    ultimately show ?thesis using False x by (simp add: Un_Diff)
  qed
qed simp

lemma take_block_at:
  assumes "wf_from lo (us @ (a, s) # ws)"
  shows "take_block a t (us @ (a, s) # ws) = us @ (if t < s then [(a + t, s - t)] else []) @ ws"
proof -
  from assms have "wf_from lo (us @ [(a, s)])"
    by (cases "us = []") (simp_all add: wf_from_append)
  then have "\<forall>(b, t) \<in> set us. b \<noteq> a" using wf_from_last by fastforce
  then show ?thesis by (induction us) auto
qed

section \<open>The free list is determined by its bytes\<close>

lemma wf_head_least:
  assumes "wf_from lo ((a, s) # xs)" "x \<in> free_bytes ((a, s) # xs)" shows "a \<le> x"
  using assms free_bytes_bounds [of "a + s" xs x] by auto

lemma wf_gap: "wf_from lo ((a, s) # xs) \<Longrightarrow> a + s \<notin> free_bytes ((a, s) # xs)"
  using free_bytes_bounds [of "a + s" xs "a + s"] by auto

lemma head_size_le:
  assumes wf: "wf_from lo ((a, s) # xs)" and eq: "free_bytes ((a, s) # xs) = free_bytes ((a, t) # ys)"
  shows "t \<le> s"
proof (rule ccontr)
  assume "\<not> t \<le> s"
  then have "a + s \<in> free_bytes ((a, t) # ys)" by auto
  with eq wf_gap [OF wf] show False by auto
qed

lemma free_bytes_canonical:
  assumes "wf_from lo xs" "wf_from lo' ys" "free_bytes xs = free_bytes ys"
  shows "xs = ys"
  using assms
proof (induction lo xs arbitrary: lo' ys rule: wf_from.induct)
  case (1 lo)
  then show ?case by (cases ys) (auto dest: sym)
next
  case (2 lo a s xs)
  from "2.prems"(1) have "a \<in> free_bytes ((a, s) # xs)" by auto
  with "2.prems"(3) obtain b t zs where ys: "ys = (b, t) # zs" by (cases ys) auto
  note wfy = "2.prems"(2) [unfolded ys] and eq = "2.prems"(3) [unfolded ys]
  have "b \<in> free_bytes ((b, t) # zs)" using wfy by auto
  with eq have "a \<le> b" using wf_head_least [OF "2.prems"(1), of b] by simp
  moreover have "b \<le> a"
    using wf_head_least [OF wfy, of a] eq \<open>a \<in> free_bytes ((a, s) # xs)\<close> by simp
  ultimately have "a = b" by simp
  have "s = t"
    using head_size_le [OF "2.prems"(1), of t zs] head_size_le [OF wfy, of s xs] eq \<open>a = b\<close>
    by auto
  moreover have "free_bytes xs = free_bytes zs"
  proof -
    have tl: "free_bytes us = free_bytes ((a, s) # us) - {..<a + s}"
      if "wf_from (a + s) us" for us
      using free_bytes_bounds [OF that] by fastforce
    show ?thesis
      using tl [of xs] tl [of zs] "2.prems"(1) wfy eq \<open>a = b\<close> \<open>s = t\<close> by simp
  qed
  ultimately show ?case using "2.IH" [of "b + t" zs] "2.prems"(1) wfy ys \<open>a = b\<close> by auto
qed

lemma insert_take_block:
  assumes "wf_from lo xs" "(a, s) \<in> set xs" "t = s \<or> t + 8 < s" "8 \<le> t"
  shows "insert_block a (a + t) (take_block a t xs) = xs"
proof (rule free_bytes_canonical)
  from wf_from_bounds [OF assms(1,2)] have a: "lo < a" "a + s < 2 ^ 32" by auto
  note tk = take_block_correct [OF assms(1-3)]
  have ins: "wf_from lo (insert_block a (a + t) (take_block a t xs)) \<and>
     free_bytes (insert_block a (a + t) (take_block a t xs)) =
       {a..<a + t} \<union> free_bytes (take_block a t xs)"
    using tk a assms(3,4) by (intro insert_block_correct) auto
  show "wf_from lo (insert_block a (a + t) (take_block a t xs))" using ins by simp
  show "free_bytes (insert_block a (a + t) (take_block a t xs)) = free_bytes xs"
    using ins tk block_free [OF assms(2)] assms(3) by auto
qed (rule assms(1))

end
