(* ===== verification/AllocatorCorrect.thy ===== *)
theory AllocatorCorrect
  imports Allocator FreeList
begin

text \<open>
  The kernel heap refines the abstract free list of \<open>FreeList\<close>. \<open>free_ok h xs\<close> says that the
  nodes threaded through the memory of \<open>h\<close> are exactly the blocks \<open>xs\<close> and that \<open>xs\<close> is well
  formed; under it every walk ends, \<open>free_memory\<close> is \<open>insert_block\<close> and a successful
  \<open>aligned_alloc\<close> is \<open>take_block\<close>, and nothing but free memory is written.
\<close>

section \<open>The nodes in memory\<close>

fun fseg :: "memory \<Rightarrow> addr \<Rightarrow> blocks \<Rightarrow> addr \<Rightarrow> bool" where
  "fseg m p [] q \<longleftrightarrow> p = q"
| "fseg m p ((a, s) # xs) q \<longleftrightarrow>
     unat p = a \<and> p \<noteq> 0 \<and> unat (node_size m p) = s \<and> fseg m (node_next m p) xs q"

definition free_ok :: "heap \<Rightarrow> blocks \<Rightarrow> bool" where
  "free_ok h xs \<longleftrightarrow> wf_from 0 xs \<and> fseg (hmem h) (free_start h) xs 0"

lemma fseg_append: "fseg m p (xs @ ys) q \<longleftrightarrow> (\<exists>r. fseg m p xs r \<and> fseg m r ys q)"
  by (induction m p xs q rule: fseg.induct) auto

lemma fseg_snoc:
  "fseg m p (xs @ [(a, s)]) q \<longleftrightarrow>
     (\<exists>r. fseg m p xs r \<and> unat r = a \<and> r \<noteq> 0 \<and> unat (node_size m r) = s \<and> node_next m r = q)"
  by (auto simp: fseg_append)

lemma fseg_snocD:
  assumes "fseg m p (xs @ [(a, s)]) q" "unat r = a"
  shows "fseg m p xs r" "unat (node_size m r) = s" "node_next m r = q"
proof -
  from assms(1) obtain r' where r': "fseg m p xs r'" "unat r' = a" "unat (node_size m r') = s"
    "node_next m r' = q" by (auto simp: fseg_snoc)
  with assms(2) have "r' = r" by (simp add: word_unat_eq_iff)
  with r' show "fseg m p xs r" "unat (node_size m r) = s" "node_next m r = q" by auto
qed

lemma fseg_at:
  assumes "fseg m p (us @ (unat b, s) # ws) q"
  shows "fseg m p us b" "fseg m b ((unat b, s) # ws) q"
proof -
  from assms obtain r where "fseg m p us r" "unat r = unat b" "fseg m r ((unat b, s) # ws) q"
    by (auto simp: fseg_append)
  moreover from this have "r = b" by (simp add: word_unat_eq_iff)
  ultimately show "fseg m p us b" "fseg m b ((unat b, s) # ws) q" by simp_all
qed

lemma node_region: "region p 4 \<subseteq> region p 8" "region (p + 4) 4 \<subseteq> region p 8"
  using region_mono [of 4 8 p] region_sub [of 4 4 8 p] by auto

text \<open>Reading a node only looks at its own 8 bytes.\<close>

lemma node_read_cong:
  assumes "unchanged_outside S m m'" "region p 8 \<inter> S = {}"
  shows "node_size m' p = node_size m p" "node_next m' p = node_next m p"
  using assms node_region [of p] unfolding node_defs by (blast intro: unchanged_read32)+

lemma fseg_unchanged:
  assumes "unchanged_outside S m m'" "\<forall>(a, s) \<in> set xs. region (of_nat a) 8 \<inter> S = {}"
  shows "fseg m' p xs q = fseg m p xs q"
  using assms
proof (induction m p xs q rule: fseg.induct)
  case (2 m p a s xs q)
  show ?case
  proof (cases "unat p = a")
    case True
    then have "of_nat a = p" by auto
    with "2.prems"(2) have "region p 8 \<inter> S = {}" by simp
    from node_read_cong [OF "2.prems"(1) this] "2.IH" [OF "2.prems"(1)] "2.prems"(2)
    show ?thesis by simp
  qed auto
qed simp

lemma node_apart:
  assumes "unat c + 8 \<le> a" "a + 8 \<le> 2 ^ 32"
  shows "region (of_nat a) 8 \<inter> region c 8 = {}"
  using assms by (intro region_disjoint_nat) (auto simp: unat_of_nat take_bit_eq_mod)

lemma node_apart':
  assumes "a + 8 \<le> unat c" "unat c + 8 \<le> 2 ^ 32"
  shows "region (of_nat a) 8 \<inter> region c 8 = {}"
  using assms by (intro region_disjoint_nat) (auto simp: unat_of_nat take_bit_eq_mod)

lemma set_node_unchanged:
  "unchanged_outside (region c 8) m m' \<Longrightarrow> unchanged_outside (region c 8) m (set_node_size m' c v)"
  "unchanged_outside (region c 8) m m' \<Longrightarrow> unchanged_outside (region c 8) m (set_node_next m' c v)"
  using node_region [of c] by (simp_all add: node_defs unchanged_write32)

lemma node_fields_apart: "region p 4 \<inter> region (p + 4) 4 = {}"
proof -
  have "\<not> unat (x - (p + 4)) < 4" if "unat (x - p) < 4" for x
  proof -
    define d where "d = x - p"
    have "x - (p + 4) = d - 4" by (simp add: d_def diff_diff_eq)
    moreover have "unat d < 4 \<Longrightarrow> \<not> unat (d - 4) < 4"
      by (simp add: unat_sub_if_size word_size)
    ultimately show ?thesis using that by (simp add: d_def diff_diff_eq)
  qed
  then show ?thesis by (auto simp: region_iff)
qed

lemma node_set_get [simp]:
  "node_size (set_node_size m p v) p = v" "node_next (set_node_next m p v) p = v"
  "node_size (set_node_next m p v) p = node_size m p"
  "node_next (set_node_size m p v) p = node_next m p"
  using node_fields_apart [of p]
  by (simp_all add: node_defs read32_write32_disjoint Int_commute)

section \<open>free_memory refines insert_block\<close>

lemma fm_find_walk:
  assumes "fseg m nxt zs 0"
  shows "\<exists>ys ws r previous. zs = ys @ ws \<and> fseg m nxt ys r \<and> fseg m r ws 0 \<and>
    fm_find m base prev nxt = Some (previous, r) \<and>
    (\<forall>(a, s) \<in> set ys. a < unat base) \<and> (ws \<noteq> [] \<longrightarrow> unat base \<le> fst (hd ws)) \<and>
    (if ys = [] then previous = prev else previous \<noteq> 0 \<and> unat previous = fst (last ys))"
  using assms
proof (induction zs arbitrary: nxt prev)
  case Nil
  then show ?case by (intro exI [of _ "[]"]) (simp add: fm_find.simps)
next
  case (Cons n zs)
  obtain a s where n: "n = (a, s)" by force
  from Cons.prems n have nx: "unat nxt = a" "nxt \<noteq> 0" "unat (node_size m nxt) = s"
    and tl: "fseg m (node_next m nxt) zs 0" by auto
  show ?case
  proof (cases "base > nxt")
    case False
    then have "fm_find m base prev nxt = Some (prev, nxt)" by (subst fm_find.simps) simp
    with False Cons.prems nx n show ?thesis
      by (intro exI [of _ "[]"] exI [of _ "n # zs"] exI [of _ nxt] exI [of _ prev])
        (auto simp: word_less_nat_alt)
  next
    case True
    then have step: "fm_find m base prev nxt = fm_find m base nxt (node_next m nxt)"
      using nx by (subst fm_find.simps) simp
    from Cons.IH [OF tl, of nxt] obtain ys ws r previous where
      IH: "zs = ys @ ws" "fseg m (node_next m nxt) ys r" "fseg m r ws 0"
        "fm_find m base nxt (node_next m nxt) = Some (previous, r)"
        "\<forall>(a, s) \<in> set ys. a < unat base" "ws \<noteq> [] \<longrightarrow> unat base \<le> fst (hd ws)"
        "if ys = [] then previous = nxt else previous \<noteq> 0 \<and> unat previous = fst (last ys)"
      by blast
    have "unat nxt < unat base" using True by (simp add: word_less_nat_alt)
    with IH step nx n show ?thesis
      by (intro exI [of _ "n # ys"] exI [of _ ws] exI [of _ r] exI [of _ previous]) auto
  qed
qed

lemma insert_block_at:
  assumes "wf_from lo (ys @ ws)" "\<forall>(a, s) \<in> set ys. a < b" "ws \<noteq> [] \<longrightarrow> b \<le> fst (hd ws)"
  shows "insert_block b e (ys @ ws) =
    (if ys = [] then join_block b e ws
     else if b \<le> fst (last ys) + snd (last ys) then butlast ys @ join_block (fst (last ys)) e ws
     else ys @ join_block b e ws)"
  using assms
proof (induction ys arbitrary: lo)
  case Nil
  then show ?case by (cases ws) auto
next
  case (Cons n ys)
  obtain a s where n: "n = (a, s)" by force
  from Cons.prems n have "a < b" and tl: "wf_from (a + s) (ys @ ws)" by auto
  show ?case
  proof (cases ys)
    case Nil
    have "insert_block b e ws = join_block b e ws"
      using Cons.prems(3) by (cases ws) auto
    with Nil \<open>a < b\<close> n show ?thesis by auto
  next
    case (Cons k zs)
    then have "a + s < b" using tl Cons.prems(2) by (cases k) auto
    then show ?thesis using Cons.IH [OF tl] Cons.prems Cons n \<open>a < b\<close> by auto
  qed
qed

text \<open>Writing the freed node in front of the rest of the list.\<close>

lemma fm_write_node_correct:
  assumes seg: "fseg m q ws 0" and wf: "wf_from lo ws" and c: "c \<noteq> 0" "unat c + 8 \<le> unat e"
    and above: "\<forall>(a, s) \<in> set ws. unat e \<le> a"
  shows "fseg (fm_write_node m c q e) c (join_block (unat c) (unat e) ws) 0"
    and "unchanged_outside (region c 8) m (fm_write_node m c q e)"
proof -
  define m2 where "m2 = set_node_next (set_node_size m c (e - c)) c q"
  define m3 where "m3 = set_node_size m2 c (q + node_size m2 q - c)"
  define m4 where "m4 = set_node_next m3 c (node_next m3 q)"
  have fm: "fm_write_node m c q e = (if q \<noteq> 0 \<and> q \<le> e then m4 else m2)"
    by (simp add: fm_write_node_def m2_def m3_def m4_def Let_def)
  have u: "unchanged_outside (region c 8) m m2" "unchanged_outside (region c 8) m m3"
    "unchanged_outside (region c 8) m m4"
    unfolding m4_def m3_def m2_def by (intro set_node_unchanged unchanged_refl)+
  then show un: "unchanged_outside (region c 8) m (fm_write_node m c q e)" by (simp add: fm)
  have apart: "\<forall>(a, s) \<in> set ws. region (of_nat a) 8 \<inter> region c 8 = {}"
    using above c wf_from_bounds [OF wf] by (fastforce intro!: node_apart)
  have kept: "fseg m' p ws' 0 = fseg m p ws' 0"
    if "unchanged_outside (region c 8) m m'" "set ws' \<subseteq> set ws" for m' p ws'
    using fseg_unchanged [OF that(1)] apart that(2) by blast
  have ec: "unat (e - c) = unat e - unat c"
    using c by (simp add: unat_sub word_le_nat_alt)
  show "fseg (fm_write_node m c q e) c (join_block (unat c) (unat e) ws) 0"
  proof (cases ws)
    case Nil
    with seg c ec show ?thesis unfolding fm by (simp add: m2_def)
  next
    case (Cons n zs)
    obtain a s where n: "n = (a, s)" by force
    with Cons seg wf have q: "unat q = a" "q \<noteq> 0" "unat (node_size m q) = s" "a + s < 2 ^ 32"
      and tl: "fseg m (node_next m q) zs 0" by auto
    have qa: "region q 8 \<inter> region c 8 = {}" using apart Cons n q(1) by auto
    note rd = node_read_cong [OF u(1) qa] node_read_cong [OF u(2) qa]
    show ?thesis
    proof (cases "q \<le> e")
      case True
      have "unat (q + node_size m q) = a + s" using q by (simp add: unat_word_ariths)
      then have "unat (q + node_size m q - c) = a + s - unat c"
        using c q Cons n above by (subst unat_sub) (auto simp: word_le_nat_alt)
      then have "fseg m4 c ((unat c, a + s - unat c) # zs) 0"
        using c rd tl kept [OF u(3), of zs] Cons by (auto simp: m4_def m3_def)
      with True q n Cons show ?thesis by (simp add: fm word_le_nat_alt)
    next
      case False
      then have "\<not> a \<le> unat e" using q by (simp add: word_le_nat_alt)
      moreover have "fseg m2 q ws 0" using kept [OF u(1)] seg by simp
      then have "fseg m2 c ((unat c, unat e - unat c) # ws) 0"
        using c ec by (simp add: m2_def)
      ultimately show ?thesis using False Cons n by (simp add: fm)
    qed
  qed
qed

text \<open>Redirecting the last node of a segment.\<close>

lemma fseg_prefix_unchanged:
  assumes "wf_from lo (ys @ [(unat c, s)])" "unchanged_outside (region c 8) m m'"
  shows "fseg m' p ys q = fseg m p ys q"
proof (rule fseg_unchanged [OF assms(2)], clarify)
  fix a t assume "(a, t) \<in> set ys"
  with wf_from_last [OF assms(1)] wf_from_bounds [OF assms(1), of "unat c" s]
  have "a + t < unat c" "8 \<le> t" "8 \<le> s" "unat c + s < 2 ^ 32" by auto
  then show "region (of_nat a) 8 \<inter> region c 8 = {}" by (intro node_apart') auto
qed

lemma fseg_redirect:
  assumes "fseg m p (ys @ [(a, s)]) q" "wf_from lo (ys @ [(a, s)])" "unat r = a"
  shows "fseg (set_node_next m r v) p (ys @ [(a, s)]) v"
proof -
  note r = fseg_snocD [OF assms(1,3)]
  have "r \<noteq> 0" using wf_from_bounds [OF assms(2), of a s] assms(3) by auto
  moreover have "fseg (set_node_next m r v) p ys r = fseg m p ys r"
    using assms by (intro fseg_prefix_unchanged [of lo _ r s] set_node_unchanged) auto
  ultimately show ?thesis using r assms(3) by (auto simp: fseg_snoc)
qed

definition free_region :: "blocks \<Rightarrow> addr set" where
  "free_region xs = {x. unat x \<in> free_bytes xs}"

lemma free_region_node:
  assumes "wf_from lo xs" "(a, s) \<in> set xs" "unat c = a" shows "region c 8 \<subseteq> free_region xs"
proof -
  have "8 \<le> s" "a + s < 2 ^ 32" using wf_from_bounds [OF assms(1,2)] by auto
  then show ?thesis
    using assms(3) block_free [OF assms(2)]
    by (auto simp: free_region_def region_nat)
qed

text \<open>Writing the freed node between a prefix and the rest of the list.\<close>

lemma fm_write_node_after:
  assumes "fseg m p zs c" "wf_from 0 (zs @ [(unat c, n)])"
    and "fseg m r ws 0" "wf_from lo ws" "c \<noteq> 0" "unat c + 8 \<le> unat e"
    and "\<forall>(a, s) \<in> set ws. unat e \<le> a"
  shows "fseg (fm_write_node m c r e) p (zs @ join_block (unat c) (unat e) ws) 0"
proof -
  note fm = fm_write_node_correct [OF assms(3-7)]
  have "fseg (fm_write_node m c r e) p zs c"
    using fseg_prefix_unchanged [OF assms(2) fm(2)] assms(1) by simp
  with fm(1) show ?thesis by (auto simp: fseg_append)
qed

text \<open>The blocks after the insertion point start at or after the end of the freed memory.\<close>

lemma blocks_above:
  assumes "wf_from lo ws" "ws \<noteq> [] \<longrightarrow> b \<le> fst (hd ws)" "{b..<e} \<inter> free_bytes ws = {}"
  shows "\<forall>(a, s) \<in> set ws. e \<le> a"
proof clarify
  fix a s assume a: "(a, s) \<in> set ws"
  then obtain c t zs where ws: "ws = (c, t) # zs" by (cases ws) auto
  with assms(2) have "b \<le> c" by simp
  then have "b \<le> a" using a ws assms(1) wf_from_bounds [of "c + t" zs a s] by auto
  moreover have "a \<in> free_bytes ws"
    using wf_from_bounds [OF assms(1) a] block_free [OF a] by fastforce
  with assms(3) have "a \<notin> {b..<e}" by blast
  ultimately show "e \<le> a" by simp
qed

text \<open>The three ways \<open>free_memory\<close> can go, each as an equation between lists.\<close>

lemma free_memory_first:
  assumes "fm_find (hmem h) base 0 (free_start h) = Some (0, free_start h)"
    and "e = ucast (ucast base + len :: u64)"
  shows "free_memory h base len =
    Some \<lparr>hmem = fm_write_node (hmem h) base (free_start h) e, free_start = base\<rparr>"
  using assms by (simp add: free_memory_def Let_def)

lemma free_memory_joins:
  assumes "fm_find (hmem h) base 0 (free_start h) = Some (previous, r)"
    and "e = ucast (ucast base + len :: u64)" "previous \<noteq> 0" "r \<noteq> free_start h"
    and "base \<le> previous + node_size (hmem h) previous"
  shows "free_memory h base len =
    Some \<lparr>hmem = fm_write_node (hmem h) previous r e, free_start = free_start h\<rparr>"
  using assms by (simp add: free_memory_def Let_def)

lemma free_memory_gap:
  assumes "fm_find (hmem h) base 0 (free_start h) = Some (previous, r)"
    and "e = ucast (ucast base + len :: u64)" "previous \<noteq> 0" "r \<noteq> free_start h"
    and "\<not> base \<le> previous + node_size (hmem h) previous"
  shows "free_memory h base len =
    Some \<lparr>hmem = fm_write_node (set_node_next (hmem h) previous base) base r e,
          free_start = free_start h\<rparr>"
  using assms by (simp add: free_memory_def Let_def)

lemma end_addr_nat:
  assumes "unat (base :: addr) + unat (len :: u64) < 2 ^ 32"
  shows "unat (ucast (ucast base + len :: u64) :: addr) = unat base + unat len"
  using assms by (simp add: unat_word_ariths unsigned_ucast_eq take_bit_eq_mod)

lemma wf_from_grow:
  assumes "wf_from lo (ys @ [(a, s)])" "a + s < b" "8 \<le> n" "b + n < 2 ^ 32"
  shows "wf_from lo (ys @ [(a, s), (b, n)])"
  using assms by (auto simp: wf_from_append split: if_splits)

text \<open>The list left in memory is the specification's.\<close>

lemma free_memory_seg:
  assumes wf: "wf_from 0 xs" and seg: "fseg (hmem h) (free_start h) xs 0"
    and b: "0 < unat base" "8 \<le> unat len" "unat base + unat len < 2 ^ 32"
    and fresh: "{unat base..<unat base + unat len} \<inter> free_bytes xs = {}"
  shows "\<exists>h'. free_memory h base len = Some h' \<and>
    fseg (hmem h') (free_start h') (insert_block (unat base) (unat base + unat len) xs) 0 \<and>
    unchanged_outside (free_region xs \<union> region base (unat len)) (hmem h) (hmem h')"
proof -
  define e :: addr where e_def: "e = ucast (ucast base + len :: u64)"
  have e: "unat e = unat base + unat len" using end_addr_nat [OF b(3)] by (simp add: e_def)
  obtain ys ws r previous where
    w: "xs = ys @ ws" "fseg (hmem h) (free_start h) ys r" "fseg (hmem h) r ws 0"
      "fm_find (hmem h) base 0 (free_start h) = Some (previous, r)"
      "\<forall>(a, s) \<in> set ys. a < unat base" "ws \<noteq> [] \<longrightarrow> unat base \<le> fst (hd ws)"
      "if ys = [] then previous = 0 else previous \<noteq> 0 \<and> unat previous = fst (last ys)"
    using fm_find_walk [OF seg, of base 0] by blast
  note at = insert_block_at [OF wf [unfolded w(1)] w(5,6), of "unat e"]
  have wfw: "wf_from 0 ys" "wf_from (if ys = [] then 0 else fst (last ys) + snd (last ys)) ws"
    using wf w(1) by (auto simp: wf_from_append)
  have above: "\<forall>(a, s) \<in> set ws. unat e \<le> a"
    using fresh w(1) e by (intro blocks_above [OF wfw(2) w(6)]) auto
  have base: "base \<noteq> 0" and len: "unat base + 8 \<le> unat e" using b e by auto
  let ?S = "free_region xs \<union> region base (unat len)"
  have bS: "region base 8 \<subseteq> ?S" using region_mono [OF b(2)] by blast
  show ?thesis
  proof (cases "ys = []")
    case True
    with w have pr: "previous = 0" "r = free_start h" by auto
    have "wf_from 0 [(unat base, unat len)]" using b by simp
    from fm_write_node_after [of _ _ "[]", OF _ _ w(3) wfw(2) base len above] this
      fm_write_node_correct(2) [OF w(3) wfw(2) base len above]
    show ?thesis
      using free_memory_first [OF _ e_def, of h] w(1,4) pr at True e bS
      by (auto intro: unchanged_mono)
  next
    case False
    then obtain zs a s where ys: "ys = zs @ [(a, s)]" by (metis prod.exhaust rev_exhaust)
    with w(7) have pr: "previous \<noteq> 0" "unat previous = a" by auto
    then have pv: "fseg (hmem h) (free_start h) zs previous"
      "unat (node_size (hmem h) previous) = s"
      using fseg_snocD [OF w(2) [unfolded ys] pr(2)] by auto
    have mem: "(a, s) \<in> set xs" using w(1) ys by simp
    note as = wf_from_bounds [OF wf mem]
    have ab: "a < unat base" using w(5) ys by auto
    have pS: "region previous 8 \<subseteq> ?S" using free_region_node [OF wf mem pr(2)] by blast
    have rst: "r \<noteq> free_start h"
    proof
      assume r: "r = free_start h"
      then have "r \<noteq> 0" "unat r \<in> fst ` set ys" using w(2) ys by (cases zs; auto)+
      with w(3,5,6) show False by (cases ws) auto
    qed
    have joins: "base \<le> previous + node_size (hmem h) previous \<longleftrightarrow> unat base \<le> a + s"
      using pr pv as by (simp add: word_le_nat_alt unat_word_ariths)
    show ?thesis
    proof (cases "unat base \<le> a + s")
      case True
      have len': "unat previous + 8 \<le> unat e" using len pr ab by simp
      have "wf_from 0 (zs @ [(unat previous, s)])" using wfw(1) ys pr by simp
      from fm_write_node_after [OF pv(1) this w(3) wfw(2) pr(1) len' above]
        fm_write_node_correct(2) [OF w(3) wfw(2) pr(1) len' above]
      show ?thesis
        using free_memory_joins [OF w(4) e_def pr(1) rst] joins True at w(1) ys pr e pS
        by (auto intro: unchanged_mono)
    next
      case False
      let ?m0 = "set_node_next (hmem h) previous base"
      have u0: "unchanged_outside (region previous 8) (hmem h) ?m0"
        by (intro set_node_unchanged unchanged_refl)
      have apart: "\<forall>(c, t) \<in> set ws. region (of_nat c) 8 \<inter> region previous 8 = {}"
      proof clarify
        fix c t assume ct: "(c, t) \<in> set ws"
        then have "unat previous + 8 \<le> c" using above e b ab pr by fastforce
        then have "region (of_nat c) 8 \<inter> region previous 8 = {}"
          using wf_from_bounds [OF wfw(2) ct] by (intro node_apart) auto
        then show "region (of_nat c) 8 \<inter> region previous 8 = {}" .
      qed
      have seg1: "fseg ?m0 r ws 0" using fseg_unchanged [OF u0 apart] w(3) by simp
      have seg0: "fseg ?m0 (free_start h) ys base"
        using fseg_redirect [of _ _ zs a s r 0] w(2) ys wfw(1) pr by simp
      have "wf_from 0 (ys @ [(unat base, unat len)])"
        using wf_from_grow [of 0 zs a s "unat base" "unat len"] wfw(1) ys False b by simp
      from fm_write_node_after [OF seg0 this seg1 wfw(2) base len above]
        fm_write_node_correct(2) [OF seg1 wfw(2) base len above]
      show ?thesis
        using free_memory_gap [OF w(4) e_def pr(1) rst] joins False at w(1) ys e
          unchanged_trans [OF unchanged_mono [OF u0 pS] unchanged_mono [OF _ bS]]
        by auto
    qed
  qed
qed

theorem free_memory_correct:
  assumes "free_ok h xs" "0 < unat base" "8 \<le> unat len" "unat base + unat len < 2 ^ 32"
    and "{unat base..<unat base + unat len} \<inter> free_bytes xs = {}"
  shows "\<exists>h'. free_memory h base len = Some h' \<and>
    free_ok h' (insert_block (unat base) (unat base + unat len) xs) \<and>
    unchanged_outside (free_region xs \<union> region base (unat len)) (hmem h) (hmem h')"
  using assms free_memory_seg [of xs h base len]
    insert_block_correct [of 0 xs "unat base" "unat base + unat len"]
  by (auto simp: free_ok_def)

section \<open>The best-fit search\<close>

definition fits :: "u32 \<Rightarrow> u32 \<Rightarrow> nat \<times> nat \<Rightarrow> bool" where
  "fits alignment sz b \<longleftrightarrow> unat (sz + node_offset alignment (of_nat (fst b))) \<le> snd b"

definition pred_is :: "blocks \<Rightarrow> addr \<Rightarrow> bool" where
  "pred_is us q \<longleftrightarrow> (if us = [] then q = 0 else q \<noteq> 0 \<and> unat q = fst (last us))"

definition best_is ::
  "memory \<Rightarrow> u32 \<Rightarrow> u32 \<Rightarrow> blocks \<Rightarrow> addr \<Rightarrow> addr \<Rightarrow> u8 \<Rightarrow> bool" where
  "best_is m alignment sz vs bp bf off \<longleftrightarrow>
     (if bf = 0 then \<forall>b \<in> set vs. \<not> fits alignment sz b
      else (\<exists>us s ws. vs = us @ (unat bf, s) # ws \<and> pred_is us bp \<and>
        unat (node_size m bf) = s \<and> fits alignment sz (unat bf, s) \<and>
        off = ucast (node_offset alignment bf) \<and>
        (\<forall>b \<in> set vs. fits alignment sz b \<longrightarrow> s \<le> snd b)))"

lemma best_is_skip:
  assumes "best_is m al sz vs bp bf off"
    and "if bf = 0 then \<not> fits al sz n else fits al sz n \<longrightarrow> unat (node_size m bf) \<le> snd n"
  shows "best_is m al sz (vs @ [n]) bp bf off"
  using assms unfolding best_is_def by (cases "bf = 0") fastforce+

lemma best_is_new:
  assumes best: "best_is m al sz vs bp bf off" and prev: "pred_is vs previous"
    and cur: "current \<noteq> 0" "unat (node_size m current) = s" "fits al sz (unat current, s)"
    and less: "bf \<noteq> 0 \<Longrightarrow> s \<le> unat (node_size m bf)"
  shows "best_is m al sz (vs @ [(unat current, s)]) previous current
    (ucast (node_offset al current))"
proof -
  have "\<forall>b \<in> set vs. fits al sz b \<longrightarrow> s \<le> snd b"
    using best less unfolding best_is_def by (cases "bf = 0") fastforce+
  then show ?thesis using prev cur unfolding best_is_def by auto
qed

lemma aa_scan_best:
  assumes "al \<noteq> 0" "fseg m current zs 0" "pred_is vs previous" "best_is m al sz vs bp bf off"
  shows "\<exists>bp' bf' off'. aa_scan m al sz bp bf previous current off = Some (bp', bf', off') \<and>
    best_is m al sz (vs @ zs) bp' bf' off'"
  using assms(2-)
proof (induction zs arbitrary: vs bp bf off previous current)
  case Nil
  then show ?case by (simp add: aa_scan.simps)
next
  case (Cons n zs)
  obtain a s where n: "n = (a, s)" by force
  with Cons.prems(1) have cur: "unat current = a" "current \<noteq> 0" "unat (node_size m current) = s"
    "fseg m (node_next m current) zs 0" by auto
  have pr: "pred_is (vs @ [n]) current" using cur n by (simp add: pred_is_def)
  note IH = Cons.IH [OF cur(4) pr]
  let ?next = "node_next m current"
  have fit: "fits al sz n \<longleftrightarrow> sz + node_offset al current \<le> node_size m current"
    using cur n by (auto simp: fits_def word_le_nat_alt)
  show ?case
  proof (cases "bf \<noteq> 0 \<and> node_size m bf \<le> node_size m current")
    case True
    then have "aa_scan m al sz bp bf previous current off = aa_scan m al sz bp bf current ?next off"
      using cur by (subst aa_scan.simps) simp
    moreover have "best_is m al sz (vs @ [n]) bp bf off"
      using best_is_skip [OF Cons.prems(3), of n] True cur n by (simp add: word_le_nat_alt)
    ultimately show ?thesis using IH by fastforce
  next
    case False
    then have skip: "\<not> (bf \<noteq> 0 \<and> node_size m bf \<le> node_size m current)" by simp
    show ?thesis
    proof (cases "fits al sz n")
      case True
      then have "aa_scan m al sz bp bf previous current off =
          aa_scan m al sz previous current current ?next (ucast (node_offset al current))"
        using cur fit \<open>al \<noteq> 0\<close> by (subst aa_scan.simps) (simp add: skip)
      moreover have less: "s \<le> unat (node_size m bf)" if "bf \<noteq> 0"
        using False that cur by (auto simp: word_le_nat_alt)
      have "best_is m al sz (vs @ [n]) previous current (ucast (node_offset al current))"
        using best_is_new [OF Cons.prems(3,2) cur(2,3)] less True cur n by simp
      ultimately show ?thesis using IH by fastforce
    next
      case nofit: False
      then have "aa_scan m al sz bp bf previous current off = aa_scan m al sz bp bf current ?next off"
        using cur fit \<open>al \<noteq> 0\<close> by (subst aa_scan.simps) (simp add: skip)
      moreover have "best_is m al sz (vs @ [n]) bp bf off"
        using best_is_skip [OF Cons.prems(3), of n] nofit by simp
      ultimately show ?thesis using IH by fastforce
    qed
  qed
qed

section \<open>Offsets and headers\<close>

lemma node_offset_eq:
  assumes "al \<noteq> 0"
  shows "node_offset al current = 12 + (current + 12) mod al"
proof -
  have "(current + 12) mod al < al" using assms by (simp add: word_mod_less_divisor word_gt_0)
  then have "(current + 12) mod al mod al = (current + 12) mod al"
    by (simp add: word_arith_nat_mod unat_arith_simps)
  then show ?thesis by (simp add: node_offset_def Let_def sizeof_AllocatedRegionHeader_def)
qed

lemma node_offset_bounds:
  assumes "0 < unat al" "unat al \<le> 116"
  shows "12 \<le> unat (node_offset al current)" "unat (node_offset al current) \<le> 127"
    "unat (node_offset al current) = 12 + unat (current + 12) mod unat al"
proof -
  have r: "unat ((current + 12) mod al) = unat (current + 12) mod unat al" by (rule unat_mod)
  have "unat (current + 12) mod unat al < unat al" using assms(1) by simp
  then have lt: "unat ((current + 12) mod al) < 116" using assms(2) r by simp
  have "al \<noteq> 0" using assms(1) by auto
  then have "unat (node_offset al current) = 12 + unat ((current + 12) mod al)"
    using lt by (simp add: node_offset_eq unat_word_ariths)
  with lt r show "12 \<le> unat (node_offset al current)" "unat (node_offset al current) \<le> 127"
    "unat (node_offset al current) = 12 + unat (current + 12) mod unat al" by simp_all
qed

lemma scast_ucast_char:
  assumes "unat (w :: u32) \<le> 127" shows "scast (ucast w :: u8) = w"
proof -
  have "uint w = int (unat w)" by simp
  with assms have "- 128 \<le> uint w" "uint w < 128" by linarith+
  then have "sint (ucast w :: u8) = uint w"
    using signed_take_bit_int_eq_self [of 7 "uint w"] by (simp add: signed_ucast_eq)
  then show ?thesis by (simp add: scast_eq)
qed

text \<open>What the header stores, and that it is written inside the first \<open>off\<close> bytes.\<close>

lemma aa_header_correct:
  assumes off: "12 \<le> unat off" "unat off \<le> 127"
  shows "read32 (aa_header m p t sz (ucast off)) p = t"
    and "read32 (aa_header m p t sz (ucast off)) (p + 4) = sz"
    and "aa_header m p t sz (ucast off) (p + off - 1) = ucast off"
    and "unchanged_outside (region p (unat off)) m (aa_header m p t sz (ucast off))"
proof -
  have off1: "unat (off - 1) = unat off - 1" using off by (subst unat_sub) (auto simp: word_le_nat_alt)
  have d: "p + off - 1 - p = off - 1" "p + off - 1 - (p + 4) = off - 5" "p + 8 - (p + 4) = 4" by simp_all
  have off5: "unat (off - 5) = unat off - 5" using off by (subst unat_sub) (auto simp: word_le_nat_alt)
  have hd: "aa_header m p t sz (ucast off) =
      (write32 (write32 m p t) (p + 4) sz)(p + 8 := ucast off, p + off - 1 := ucast off)"
    using off by (simp add: aa_header_def scast_ucast_char Let_def)
  have out: "p + 8 \<notin> region p 4" "p + off - 1 \<notin> region p 4"
    "p + 8 \<notin> region (p + 4) 4" "p + off - 1 \<notin> region (p + 4) 4"
    unfolding region_iff d using off off1 off5 by simp_all
  show "read32 (aa_header m p t sz (ucast off)) p = t"
    unfolding hd using out node_fields_apart [of p]
    by (simp add: read32_upd read32_write32_disjoint Int_commute)
  show "read32 (aa_header m p t sz (ucast off)) (p + 4) = sz"
    unfolding hd using out by (simp add: read32_upd)
  show "aa_header m p t sz (ucast off) (p + off - 1) = ucast off" unfolding hd by simp
  have "p + 8 \<in> region p (unat off)" "p + off - 1 \<in> region p (unat off)"
    unfolding region_iff d using off off1 by simp_all
  moreover have "region p 4 \<subseteq> region p (unat off)" "region (p + 4) 4 \<subseteq> region p (unat off)"
    using off region_mono [of 8 "unat off" p] node_region [of p] by auto
  ultimately show "unchanged_outside (region p (unat off)) m (aa_header m p t sz (ucast off))"
    unfolding hd by (intro unchanged_upd unchanged_write32 unchanged_refl)
qed

lemma free_region_block:
  assumes "wf_from lo xs" "(unat a, s) \<in> set xs" shows "region a s \<subseteq> free_region xs"
  using wf_from_bounds [OF assms] block_free [OF assms(2)]
  by (auto simp: free_region_def region_nat)

text \<open>The part of a node left over after a split, and the nodes behind it.\<close>

lemma aa_split_correct:
  assumes seg: "fseg m bf ((unat bf, s) # ws) 0" and wf: "wf_from lo ((unat bf, s) # ws)"
    and t: "unat t + 8 < s" "8 \<le> unat t"
    and m1: "m1 = set_node_size (set_node_next m (bf + t) (node_next m bf)) (bf + t)
      (node_size (set_node_next m (bf + t) (node_next m bf)) bf - t)"
  shows "fseg m1 (bf + t) ((unat bf + unat t, s - unat t) # ws) 0"
    and "unchanged_outside (region bf s) m m1"
proof -
  let ?n = "bf + t"
  from wf have s: "8 \<le> s" "unat bf + s < 2 ^ 32" "wf_from (unat bf + s) ws" by auto
  then have n: "unat ?n = unat bf + unat t" using t by (simp add: unat_word_ariths)
  have u: "unchanged_outside (region ?n 8) m (set_node_next m ?n (node_next m bf))"
    "unchanged_outside (region ?n 8) m m1"
    unfolding m1 by (intro set_node_unchanged unchanged_refl)+
  have "region (of_nat (unat bf)) 8 \<inter> region ?n 8 = {}"
    using n t s by (intro node_apart') auto
  then have bf: "node_size (set_node_next m ?n (node_next m bf)) bf = node_size m bf"
    using node_read_cong [OF u(1), of bf] by simp
  have ws: "fseg m1 q ws 0 = fseg m q ws 0" for q
  proof (rule fseg_unchanged [OF u(2)], clarify)
    fix c r assume "(c, r) \<in> set ws"
    with wf_from_bounds [OF s(3)] have "unat bf + s < c" "8 \<le> r" "c + r < 2 ^ 32" by auto
    then show "region (of_nat c) 8 \<inter> region ?n 8 = {}" using n t by (intro node_apart) auto
  qed
  have "unat (node_size m bf - t) = s - unat t"
    using seg t by (subst unat_sub) (auto simp: word_le_nat_alt)
  then have "unat (node_size m1 ?n) = s - unat t" "node_next m1 ?n = node_next m bf"
    using bf by (simp_all add: m1)
  moreover have "?n \<noteq> 0" using n t by (auto simp: unat_eq_0)
  ultimately show "fseg m1 ?n ((unat bf + unat t, s - unat t) # ws) 0"
    using n ws seg by simp
  have "region ?n 8 \<subseteq> region bf s" using t by (intro region_sub) simp
  with u(2) show "unchanged_outside (region bf s) m m1" by (rule unchanged_mono)
qed

text \<open>Linking the predecessor to what is left.\<close>

lemma aa_link_correct:
  assumes us: "fseg m st us bf" and wf: "wf_from 0 (us @ (unat bf, s) # ws)"
    and pr: "pred_is us bp" and m1: "unchanged_outside (region bf s) m m1"
    and rest: "fseg m1 nxt rest 0" "\<forall>(c, r) \<in> set rest. unat bf + 8 \<le> c \<and> c + 8 \<le> 2 ^ 32"
    and m2: "m2 = (if bp = 0 then m1 else set_node_next m1 bp nxt)"
  shows "fseg m2 (if bp = 0 then nxt else st) (us @ rest) 0"
    and "unchanged_outside (free_region (us @ (unat bf, s) # ws)) m m2"
proof -
  let ?xs = "us @ (unat bf, s) # ws"
  have wf1: "wf_from 0 (us @ [(unat bf, s)])" using wf by (cases "us = []") (simp_all add: wf_from_append)
  have bfs: "region bf s \<subseteq> free_region ?xs" using free_region_block [OF wf, of bf s] by simp
  have "fseg m2 (if bp = 0 then nxt else st) (us @ rest) 0 \<and> unchanged_outside (free_region ?xs) m m2"
  proof (cases "us = []")
    case True
    with pr have "bp = 0" by (simp add: pred_is_def)
    with True m2 rest(1) m1 bfs show ?thesis by (auto intro: unchanged_mono)
  next
    case False
    then obtain zs a r where ys: "us = zs @ [(a, r)]" by (metis prod.exhaust rev_exhaust)
    with pr have bp: "bp \<noteq> 0" "unat bp = a" by (auto simp: pred_is_def)
    have mem: "(a, r) \<in> set ?xs" using ys by simp
    have ab: "8 \<le> r" "a + r < unat bf" "unat bf + s < 2 ^ 32"
      using wf_from_last [OF wf1, of a r] wf_from_bounds [OF wf1, of "unat bf" s] ys by auto
    have "fseg m1 st us bf = fseg m st us bf"
    proof (rule fseg_unchanged [OF m1], clarify)
      fix c t assume "(c, t) \<in> set us"
      with wf_from_last [OF wf1] have "8 \<le> t" "c + t < unat bf" by auto
      with ab show "region (of_nat c) 8 \<inter> region bf s = {}"
        by (intro region_disjoint_nat) (auto simp: unat_of_nat take_bit_eq_mod)
    qed
    with us have us1: "fseg m1 st us bf" by simp
    have wfu: "wf_from 0 us" using wf by (simp add: wf_from_append)
    have us2: "fseg m2 st us nxt"
      using fseg_redirect [OF us1 [unfolded ys] wfu [unfolded ys] bp(2)] bp(1) m2 ys by simp
    have u2: "unchanged_outside (region bp 8) m1 m2"
      using m2 bp by (auto intro: set_node_unchanged)
    have "fseg m2 nxt rest 0 = fseg m1 nxt rest 0"
    proof (rule fseg_unchanged [OF u2], clarify)
      fix c t assume "(c, t) \<in> set rest"
      with rest(2) have "unat bf + 8 \<le> c" "c + 8 \<le> 2 ^ 32" by auto
      then show "region (of_nat c) 8 \<inter> region bp 8 = {}" using ab bp by (intro node_apart) auto
    qed
    with rest(1) us2 bp have "fseg m2 (if bp = 0 then nxt else st) (us @ rest) 0"
      by (auto simp: fseg_append)
    moreover have "unchanged_outside (free_region ?xs) m m2"
      using unchanged_trans [OF unchanged_mono [OF m1 bfs]
          unchanged_mono [OF u2 free_region_node [OF wf mem bp(2)]]] .
    ultimately show ?thesis by simp
  qed
  then show "fseg m2 (if bp = 0 then nxt else st) (us @ rest) 0"
    and "unchanged_outside (free_region ?xs) m m2" by simp_all
qed

text \<open>The size of the allocated block: what was asked for, or the whole node.\<close>

definition taken :: "nat \<Rightarrow> nat \<Rightarrow> nat" where
  "taken t s = (if t + 8 < s then t else s)"

definition block_at :: "memory \<Rightarrow> addr \<Rightarrow> addr \<Rightarrow> nat \<Rightarrow> u32 \<Rightarrow> bool" where
  "block_at m p a n sz \<longleftrightarrow> header_of m p = a \<and> unat (read32 m a) = n \<and> read32 m (a + 4) = sz"

lemma aa_take_correct:
  assumes wf: "wf_from 0 (us @ (unat bf, s) # ws)"
    and seg: "fseg (hmem h) (free_start h) (us @ (unat bf, s) # ws) 0"
    and pr: "pred_is us bp" and off: "12 \<le> unat off" "unat off \<le> 127"
    and t: "unat sz + unat off + 8 < 2 ^ 32" "unat sz + unat off \<le> s"
    and run: "aa_take h sz bp bf (ucast off) = (p, h')"
  shows "p = bf + off"
    and "fseg (hmem h') (free_start h')
      (take_block (unat bf) (taken (unat sz + unat off) s) (us @ (unat bf, s) # ws)) 0"
    and "block_at (hmem h') p bf (taken (unat sz + unat off) s) sz"
    and "unchanged_outside (free_region (us @ (unat bf, s) # ws)) (hmem h) (hmem h')"
proof -
  let ?xs = "us @ (unat bf, s) # ws" and ?m = "hmem h" and ?t = "sz + off"
  define split where "split \<longleftrightarrow> unat sz + unat off + 8 < s"
  define nxt where "nxt = (if split then bf + ?t else node_next ?m bf)"
  define total_sz where "total_sz = (if split then ?t else node_size ?m bf)"
  define m1 where "m1 = (if split then set_node_size (set_node_next ?m nxt (node_next ?m bf)) nxt
    (node_size (set_node_next ?m nxt (node_next ?m bf)) bf - ?t) else ?m)"
  define m2 where "m2 = (if bp = 0 then m1 else set_node_next m1 bp nxt)"
  define rest where "rest = (if split then [(unat bf + unat ?t, s - unat ?t)] else []) @ ws"
  define n where "n = taken (unat sz + unat off) s"
  have tn: "unat ?t = unat sz + unat off" using t(1) by (simp add: unat_word_ariths)
  have us: "fseg ?m (free_start h) us bf" and bs: "fseg ?m bf ((unat bf, s) # ws) 0"
    using fseg_at [OF seg] .
  have wfb: "0 < unat bf" "unat bf + s < 2 ^ 32" "wf_from (unat bf + s) ws"
    using wf by (auto simp: wf_from_append split: if_splits)
  have sp: "?t + sizeof_MemoryNode < node_size ?m bf \<longleftrightarrow> split"
    using bs t(1) tn by (simp add: split_def sizeof_MemoryNode_def word_less_nat_alt unat_word_ariths)
  have "aa_take h sz bp bf (ucast off) = (bf + off,
      \<lparr>hmem = aa_header m2 bf total_sz sz (ucast off),
       free_start = (if bp = 0 then nxt else free_start h)\<rparr>)"
    unfolding aa_take_def Let_def scast_ucast_char [OF off(2)] sp
    unfolding m2_def m1_def nxt_def total_sz_def ..
  with run have ph: "(p, h') = (bf + off,
      \<lparr>hmem = aa_header m2 bf total_sz sz (ucast off),
       free_start = (if bp = 0 then nxt else free_start h)\<rparr>)" by simp
  then show "p = bf + off" by simp
  have A: "fseg m1 nxt rest 0" "unchanged_outside (region bf s) ?m m1"
    using aa_split_correct [OF bs, of "unat bf - 1" ?t m1] wfb off tn bs
    by (auto simp: m1_def nxt_def rest_def split_def)
  have B: "\<forall>(c, r) \<in> set rest. unat bf + n \<le> c \<and> c + 8 \<le> 2 ^ 32"
    using wf_from_bounds [OF wfb(3)] wfb(2) tn t(2)
    by (fastforce simp: rest_def split_def n_def taken_def)
  have n: "unat off \<le> n" "n \<le> s" using t(2) by (auto simp: n_def taken_def)
  have B': "\<forall>(c, r) \<in> set rest. unat bf + 8 \<le> c \<and> c + 8 \<le> 2 ^ 32" using B n off by fastforce
  note link = aa_link_correct [OF us wf pr A(2,1) B' m2_def]
  note hdr = aa_header_correct [OF off, where m = m2 and p = bf and t = total_sz and sz = sz]
  have H: "unchanged_outside (region bf n) m2 (hmem h')"
    using hdr(4) ph region_mono [OF n(1), of bf] by (auto intro: unchanged_mono)
  have keep: "\<forall>(c, r) \<in> set (us @ rest). region (of_nat c) 8 \<inter> region bf n = {}"
  proof clarify
    fix c r assume cr: "(c, r) \<in> set (us @ rest)"
    have "wf_from 0 (us @ [(unat bf, s)])"
      using wf by (cases "us = []") (simp_all add: wf_from_append)
    then have "c + 8 \<le> unat bf \<or> unat bf + n \<le> c \<and> c + 8 \<le> 2 ^ 32"
      using cr B wf_from_last [of 0 us "unat bf" s c r] by fastforce
    then show "region (of_nat c) 8 \<inter> region bf n = {}"
      using wfb n by (intro region_disjoint_nat) (auto simp: unat_of_nat take_bit_eq_mod)
  qed
  have "n < s \<longleftrightarrow> split" by (auto simp: n_def taken_def split_def)
  then have "take_block (unat bf) n ?xs = us @ rest"
    using take_block_at [OF wf, of n] tn by (simp add: rest_def n_def taken_def split_def)
  then show "fseg (hmem h') (free_start h') (take_block (unat bf) n ?xs) 0"
    using fseg_unchanged [OF H keep] link(1) ph by simp
  have "unat total_sz = n" using tn bs by (simp add: total_sz_def n_def taken_def split_def)
  then show "block_at (hmem h') p bf n sz"
    using hdr(1-3) ph off by (simp add: block_at_def header_of_def scast_ucast_char)
  have "region bf n \<subseteq> free_region ?xs"
    using free_region_block [OF wf, of bf s] region_mono [OF n(2), of bf] by auto
  with link(2) H show "unchanged_outside (free_region ?xs) ?m (hmem h')"
    by (blast intro: unchanged_mono unchanged_trans)
qed

section \<open>aligned_alloc refines take_block\<close>

text \<open>What a successful allocation from node \<open>(unat a, s)\<close> leaves behind.\<close>

definition allocated_from ::
  "heap \<Rightarrow> blocks \<Rightarrow> u32 \<Rightarrow> u32 \<Rightarrow> addr \<Rightarrow> nat \<Rightarrow> addr \<Rightarrow> heap \<Rightarrow> bool" where
  "allocated_from h xs alignment sz a s p h' \<longleftrightarrow>
     (let n = taken (unat sz + unat (node_offset alignment a)) s
      in p = a + node_offset alignment a \<and>
         free_ok h' (take_block (unat a) n xs) \<and>
         block_at (hmem h') p a n sz \<and>
         unchanged_outside (free_region xs) (hmem h) (hmem h'))"

lemma fits_nat:
  assumes "0 < unat al" "unat al \<le> 116" "unat sz + 135 < 2 ^ 32"
  shows "fits al sz (unat a, s) \<longleftrightarrow> unat sz + unat (node_offset al a) \<le> s"
    and "unat sz + unat (node_offset al a) + 8 < 2 ^ 32"
  using node_offset_bounds [OF assms(1,2), of a] assms(3)
  by (simp_all add: fits_def unat_word_ariths)

lemma aligned_alloc_correct:
  assumes ok: "free_ok h xs" and sz: "sz \<noteq> 0" "unat sz + 135 < 2 ^ 32"
    and al: "0 < unat al" "unat al \<le> 116"
  shows "(\<forall>b \<in> set xs. \<not> fits al sz b) \<and> aligned_alloc h al sz = Some (0, h) \<or>
    (\<exists>a s p h'. (unat a, s) \<in> set xs \<and> fits al sz (unat a, s) \<and>
       (\<forall>b \<in> set xs. fits al sz b \<longrightarrow> s \<le> snd b) \<and>
       aligned_alloc h al sz = Some (p, h') \<and> p \<noteq> 0 \<and> allocated_from h xs al sz a s p h')"
proof -
  from ok have wf: "wf_from 0 xs" and seg: "fseg (hmem h) (free_start h) xs 0"
    by (auto simp: free_ok_def)
  have "al \<noteq> 0" using al by auto
  from aa_scan_best [OF this seg, of "[]" 0 sz 0 0 0] obtain bp bf off where
    scan: "aa_scan (hmem h) al sz 0 0 0 (free_start h) 0 = Some (bp, bf, off)"
    and best: "best_is (hmem h) al sz xs bp bf off"
    by (auto simp: pred_is_def best_is_def)
  show ?thesis
  proof (cases "bf = 0")
    case True
    with scan best sz show ?thesis by (simp add: aligned_alloc_def best_is_def)
  next
    case False
    with best obtain us s ws where
      b: "xs = us @ (unat bf, s) # ws" "pred_is us bp" "fits al sz (unat bf, s)"
        "off = ucast (node_offset al bf)" "\<forall>b \<in> set xs. fits al sz b \<longrightarrow> s \<le> snd b"
      unfolding best_is_def by (auto split: if_splits)
    obtain p h' where take: "aa_take h sz bp bf off = (p, h')" by force
    note off = node_offset_bounds(1,2) [OF al, of bf]
    have run: "aligned_alloc h al sz = Some (p, h')"
      using scan sz False take by (simp add: aligned_alloc_def)
    note tc = aa_take_correct [OF wf [unfolded b(1)] seg [unfolded b(1)] b(2) off
        fits_nat(2) [OF al sz(2)] fits_nat(1) [OF al sz(2), THEN iffD1, OF b(3)]
        take [unfolded b(4)]]
    have mem: "(unat bf, s) \<in> set xs" using b(1) by simp
    note bnd = wf_from_bounds [OF wf mem]
    have "unat p = unat bf + unat (node_offset al bf)"
      using tc(1) bnd b(3) fits_nat(1) [OF al sz(2), of bf s]
      by (simp add: unat_word_ariths)
    then have "p \<noteq> 0" using off by auto
    moreover have "wf_from 0 (take_block (unat bf) (taken (unat sz + unat (node_offset al bf)) s) xs)"
      using take_block_correct [OF wf mem] by (simp add: taken_def)
    ultimately show ?thesis
      using run tc b mem by (auto simp: allocated_from_def free_ok_def Let_def)
  qed
qed

section \<open>free\<close>

lemma free_correct:
  assumes ok: "free_ok h xs" and blk: "block_at (hmem h) p a n sz"
    and a: "0 < unat a" "8 \<le> n" "unat a + n < 2 ^ 32"
    and fresh: "{unat a..<unat a + n} \<inter> free_bytes xs = {}"
  shows "\<exists>h'. free h p = Some h' \<and> free_ok h' (insert_block (unat a) (unat a + n) xs) \<and>
    unchanged_outside (free_region xs \<union> region a n) (hmem h) (hmem h')"
proof -
  let ?len = "ucast (read32 (hmem h) a) :: u64"
  have "unat ?len = n"
    using blk unat_lt_2p32 [of "read32 (hmem h) a"]
    by (simp add: block_at_def unsigned_ucast_eq take_bit_eq_mod)
  moreover have "free h p = free_memory h a ?len"
    using blk by (simp add: free_def block_at_def Let_def)
  ultimately show ?thesis using free_memory_correct [OF ok a(1), of ?len] a fresh by simp
qed

text \<open>The block survives whatever the owner writes into the object.\<close>

lemma block_at_object:
  assumes blk: "block_at m p a n sz" and p: "p = a + off" "12 \<le> unat off" "unat off + k \<le> 2 ^ 32"
    and m': "unchanged_outside (region p k) m m'"
  shows "block_at m' p a n sz"
proof -
  have o: "unat (off - 1) = unat off - 1" using p(2) by (subst unat_sub) (auto simp: word_le_nat_alt)
  have kept: "x \<notin> region p k" if "unat (x - a) < unat off" for x
  proof -
    have "unat (d - off) = 2 ^ 32 + unat d - unat off" if "unat d < unat off" for d :: addr
      using that by (simp add: unat_sub_if_size word_size)
    from this [OF that] have "unat (x - p) = 2 ^ 32 + unat (x - a) - unat off"
      by (simp add: p(1) diff_diff_eq)
    with p(3) show ?thesis by (simp add: region_iff)
  qed
  have "region a 4 \<inter> region p k = {}" "region (a + 4) 4 \<inter> region p k = {}"
    using kept p(2) node_region [of a] by (fastforce simp: region_iff)+
  then have "read32 m' a = read32 m a" "read32 m' (a + 4) = read32 m (a + 4)"
    by (auto intro: unchanged_read32 [OF m'])
  moreover have "m' (p - 1) = m (p - 1)"
    using kept [of "p - 1"] o p by (intro unchangedD [OF m']) (simp add: diff_add_eq)
  ultimately show ?thesis using blk by (simp add: block_at_def header_of_def)
qed

text \<open>
  Freeing what \<open>aligned_alloc\<close> returned, after any writes to the object, gives back the free
  list it was taken from.
\<close>

lemma alloc_free_correct:
  assumes ok: "free_ok h xs" and mem: "(unat a, s) \<in> set xs" "fits al sz (unat a, s)"
    and sz: "unat sz + 135 < 2 ^ 32" and al: "0 < unat al" "unat al \<le> 116"
    and alc: "allocated_from h xs al sz a s p h1"
    and m: "unchanged_outside (region p (unat sz)) (hmem h1) m"
  shows "\<exists>h2. free (h1\<lparr>hmem := m\<rparr>) p = Some h2 \<and> free_ok h2 xs"
proof -
  let ?off = "node_offset al a"
  define n where "n = taken (unat sz + unat ?off) s"
  have wf: "wf_from 0 xs" using ok by (simp add: free_ok_def)
  note a = wf_from_bounds [OF wf mem(1)] and off = node_offset_bounds(1,2) [OF al, of a]
  have f: "unat sz + unat ?off \<le> s" using fits_nat(1) [OF al sz] mem(2) by simp
  then have n: "n = s \<or> n + 8 < s" "12 \<le> n" "unat sz + unat ?off \<le> n" "n \<le> s"
    using off by (auto simp: n_def taken_def)
  from alc have fr: "p = a + ?off" "free_ok h1 (take_block (unat a) n xs)"
    "block_at (hmem h1) p a n sz"
    by (auto simp: allocated_from_def n_def Let_def)
  note tk = take_block_correct [OF wf mem(1) n(1)]
  have unat_p: "unat p = unat a + unat ?off" using fr(1) a f by (simp add: unat_word_ariths)
  have "region p (unat sz) \<inter> free_region (take_block (unat a) n xs) = {}"
  proof -
    have "x \<in> region p (unat sz) \<Longrightarrow> unat x \<in> {unat a..<unat a + n}" for x
      using region_nat [of p "unat sz" x] unat_p a n by auto
    then show ?thesis using tk by (auto simp: free_region_def)
  qed
  moreover have "region (of_nat c) 8 \<subseteq> free_region (take_block (unat a) n xs)"
    if "(c, r) \<in> set (take_block (unat a) n xs)" for c r
    using free_region_node [OF tk [THEN conjunct1] that]
      wf_from_bounds [OF tk [THEN conjunct1] that] by (simp add: unat_of_nat take_bit_eq_mod)
  ultimately have "free_ok (h1\<lparr>hmem := m\<rparr>) (take_block (unat a) n xs)"
    using fr(2) fseg_unchanged [OF m] unfolding free_ok_def by fastforce
  moreover have "block_at (hmem (h1\<lparr>hmem := m\<rparr>)) p a n sz"
    using block_at_object [OF fr(3,1) off(1) _ m] sz off by simp
  moreover have "{unat a..<unat a + n} \<inter> free_bytes (take_block (unat a) n xs) = {}"
    using tk by auto
  ultimately obtain h2 where "free (h1\<lparr>hmem := m\<rparr>) p = Some h2"
    "free_ok h2 (insert_block (unat a) (unat a + n) (take_block (unat a) n xs))"
    using free_correct [of "h1\<lparr>hmem := m\<rparr>" _ p a n sz] a n by auto
  then show ?thesis using insert_take_block [OF wf mem(1) n(1)] n by auto
qed

end
