(* ===== verification/HeapInterface.thy ===== *)
theory HeapInterface
  imports AllocatorCorrect
begin

text \<open>
  The interface between the kernel heap and the code that calls \<open>malloc\<close> and \<open>free\<close>
  (\<open>util/list.c\<close>, \<open>events.c\<close>): two locales with the laws a client relies on, stated over
  sets of bytes, and their interpretation on the model of \<open>libc/memory.c\<close>. \<open>F\<close> is the set of
  free bytes, \<open>B\<close> the bytes of an allocated block (its header included), \<open>owned\<close> says that
  the header of \<open>B\<close> is intact.
\<close>

section \<open>The contract\<close>

locale heap_allocator =
  fixes ok :: "'h \<Rightarrow> addr set \<Rightarrow> bool"
    and memory_of :: "'h \<Rightarrow> memory"
    and with_memory :: "memory \<Rightarrow> 'h \<Rightarrow> 'h"
    and alloc :: "'h \<Rightarrow> u32 \<Rightarrow> (addr \<times> 'h) option"
    and owned :: "memory \<Rightarrow> addr \<Rightarrow> u32 \<Rightarrow> addr set \<Rightarrow> bool"
  assumes memory_with [simp]: "memory_of (with_memory m h) = m"
    and write_ok: "ok h F \<Longrightarrow> unchanged_outside (- F) (memory_of h) m \<Longrightarrow> ok (with_memory m h) F"
    and alloc_total: "ok h F \<Longrightarrow> unat n + 135 < 2 ^ 32 \<Longrightarrow> \<exists>p h'. alloc h n = Some (p, h')"
    and alloc_null: "ok h F \<Longrightarrow> unat n + 135 < 2 ^ 32 \<Longrightarrow> alloc h n = Some (0, h') \<Longrightarrow> h' = h"
    and alloc_ok: "ok h F \<Longrightarrow> n \<noteq> 0 \<Longrightarrow> unat n + 135 < 2 ^ 32 \<Longrightarrow>
      alloc h n = Some (p, h') \<Longrightarrow> p \<noteq> 0 \<Longrightarrow>
      \<exists>B. B \<subseteq> F \<and> ok h' (F - B) \<and> owned (memory_of h') p n B \<and>
        unchanged_outside F (memory_of h) (memory_of h')"
    and owned_region: "owned m p n B \<Longrightarrow>
      p \<noteq> 0 \<and> unat p + unat n < 2 ^ 32 \<and> region p (unat n) \<subseteq> B"
    and owned_stable: "owned m p n B \<Longrightarrow>
      unchanged_outside (region p (unat n) \<union> - B) m m' \<Longrightarrow> owned m' p n B"
begin

text \<open>Memory outside the free bytes keeps its contents over an allocation.\<close>

lemma alloc_frame:
  assumes "ok h F" "unat n + 135 < 2 ^ 32" "alloc h n = Some (p, h')" "n \<noteq> 0"
  shows "unchanged_outside F (memory_of h) (memory_of h')"
  using assms alloc_null [OF assms(1,2)] alloc_ok [OF assms(1,4,2,3)] by (cases "p = 0") auto

text \<open>A new block is apart from every block that is not free.\<close>

lemma alloc_fresh:
  assumes "ok h F" "n \<noteq> 0" "unat n + 135 < 2 ^ 32" "alloc h n = Some (p, h')" "p \<noteq> 0"
    and "S \<inter> F = {}"
  shows "region p (unat n) \<inter> S = {}"
  using alloc_ok [OF assms(1-5)] owned_region assms(6) by blast

text \<open>Writing inside a block keeps the heap in order.\<close>

lemma write_block_ok:
  assumes "ok h F" "B \<inter> F = {}" "unchanged_outside B (memory_of h) m"
  shows "ok (with_memory m h) F"
  using assms by (intro write_ok) (auto elim: unchanged_mono)

end

locale heap_manager = heap_allocator +
  fixes release :: "'h \<Rightarrow> addr \<Rightarrow> 'h option"
  assumes release_ok: "ok h F \<Longrightarrow> owned (memory_of h) p n B \<Longrightarrow> B \<inter> F = {} \<Longrightarrow>
    \<exists>h'. release h p = Some h' \<and> ok h' (F \<union> B) \<and>
      unchanged_outside (F \<union> B) (memory_of h) (memory_of h')"
begin

text \<open>Releasing a fresh block undoes the allocation, as far as the free bytes go.\<close>

lemma alloc_release:
  assumes "ok h F" "n \<noteq> 0" "unat n + 135 < 2 ^ 32" "alloc h n = Some (p, h')" "p \<noteq> 0"
  shows "\<exists>h''. release h' p = Some h'' \<and> ok h'' F"
proof -
  obtain B where B: "B \<subseteq> F" "ok h' (F - B)" "owned (memory_of h') p n B"
    using alloc_ok [OF assms] by blast
  moreover have "B \<inter> (F - B) = {}" "F - B \<union> B = F" using B(1) by auto
  ultimately show ?thesis using release_ok [of h' "F - B" p n B] by auto
qed

end

section \<open>The kernel heap provides it\<close>

definition heap_ok :: "heap \<Rightarrow> addr set \<Rightarrow> bool" where
  "heap_ok h F \<longleftrightarrow> (\<exists>xs. free_ok h xs \<and> F = free_region xs)"

definition heap_write :: "memory \<Rightarrow> heap \<Rightarrow> heap" where
  "heap_write m h = h\<lparr>hmem := m\<rparr>"

definition heap_owned :: "memory \<Rightarrow> addr \<Rightarrow> u32 \<Rightarrow> addr set \<Rightarrow> bool" where
  "heap_owned m p n B \<longleftrightarrow> (\<exists>a off k. block_at m p a k n \<and> p = a + off \<and>
     12 \<le> unat off \<and> unat off + unat n \<le> k \<and> 0 < unat a \<and> unat a + k < 2 ^ 32 \<and> B = region a k)"

lemma free_region_take:
  assumes "wf_from 0 xs" "(unat a, s) \<in> set xs" "n = s \<or> n + 8 < s"
  shows "free_region (take_block (unat a) n xs) = free_region xs - region a n"
    and "region a n \<subseteq> free_region xs"
proof -
  have "unat a + n \<le> 2 ^ 32" using wf_from_bounds [OF assms(1,2)] assms(3) by auto
  note reg = region_nat [OF this]
  show "free_region (take_block (unat a) n xs) = free_region xs - region a n"
    using take_block_correct [OF assms] by (auto simp: free_region_def reg)
  show "region a n \<subseteq> free_region xs"
  proof -
    have "{unat a..<unat a + n} \<subseteq> {unat a..<unat a + s}" using assms(3) by auto
    with block_free [OF assms(2)] have "{unat a..<unat a + n} \<subseteq> free_bytes xs" by blast
    then show ?thesis by (auto simp: free_region_def reg)
  qed
qed

lemma malloc_bounds: "0 < unat malloc_align_size" "unat malloc_align_size \<le> 116"
  by (simp_all add: malloc_align_size_def)

lemma malloc_zero: "malloc h 0 = Some (0, h)"
  by (simp add: malloc_def aligned_alloc_def)

lemma heap_malloc_cases:
  assumes ok: "free_ok h xs" and n: "n \<noteq> 0" "unat n + 135 < 2 ^ 32"
  shows "malloc h n = Some (0, h) \<or>
    (\<exists>a s k p h'. (unat a, s) \<in> set xs \<and> (k = s \<or> k + 8 < s) \<and> malloc h n = Some (p, h') \<and>
       free_ok h' (take_block (unat a) k xs) \<and> heap_owned (hmem h') p n (region a k) \<and>
       unchanged_outside (free_region xs) (hmem h) (hmem h'))"
proof -
  consider "malloc h n = Some (0, h)" | a s p h' where
    "(unat a, s) \<in> set xs" "fits malloc_align_size n (unat a, s)" "malloc h n = Some (p, h')"
    "allocated_from h xs malloc_align_size n a s p h'"
    using aligned_alloc_correct [OF ok n malloc_bounds] unfolding malloc_def by blast
  then show ?thesis
  proof cases
    case 2
    let ?off = "node_offset malloc_align_size a"
    define k where "k = taken (unat n + unat ?off) s"
    have f: "unat n + unat ?off \<le> s" using fits_nat(1) [OF malloc_bounds n(2)] 2(2) by simp
    then have k: "k = s \<or> k + 8 < s" "unat ?off + unat n \<le> k" "k \<le> s"
      by (auto simp: k_def taken_def)
    have a: "0 < unat a" "unat a + s < 2 ^ 32"
      using wf_from_bounds [OF _ 2(1)] ok by (auto simp: free_ok_def)
    have "heap_owned (hmem h') p n (region a k)"
      using 2(4) k a node_offset_bounds(1) [OF malloc_bounds, of a]
      unfolding heap_owned_def allocated_from_def Let_def k_def [symmetric]
      by (intro exI [of _ a] exI [of _ ?off] exI [of _ k]) auto
    then show ?thesis
      using 2 k(1) unfolding allocated_from_def Let_def k_def [symmetric] by blast
  qed blast
qed

lemma heap_ok_write:
  assumes "heap_ok h F" "unchanged_outside (- F) (hmem h) m" shows "heap_ok (heap_write m h) F"
proof -
  from assms(1) obtain xs where xs: "free_ok h xs" "F = free_region xs" by (auto simp: heap_ok_def)
  then have wf: "wf_from 0 xs" by (simp add: free_ok_def)
  have "region (of_nat a) 8 \<inter> - F = {}" if "(a, s) \<in> set xs" for a s
    using free_region_node [OF wf that, of "of_nat a"] wf_from_bounds [OF wf that] xs(2)
    by (auto simp: unat_of_nat take_bit_eq_mod)
  then have "fseg m (free_start h) xs 0 = fseg (hmem h) (free_start h) xs 0"
    using assms(2) by (intro fseg_unchanged [of "- F"]) auto
  with xs wf show ?thesis by (auto simp: heap_ok_def heap_write_def free_ok_def)
qed

lemma heap_owned_stable:
  assumes "heap_owned m p n B" "unchanged_outside (region p (unat n) \<union> - B) m m'"
  shows "heap_owned m' p n B"
proof -
  from assms(1) obtain a off k where o: "block_at m p a k n" "p = a + off" "12 \<le> unat off"
    "unat off + unat n \<le> k" "0 < unat a" "unat a + k < 2 ^ 32" "B = region a k"
    unfolding heap_owned_def by blast
  define m1 where "m1 = (\<lambda>x. if x \<in> B then m' x else m x)"
  have un: "unchanged_outside (region p (unat n)) m m1"
    using assms(2) by (auto simp: unchanged_outside_def m1_def)
  have blk: "block_at m1 p a k n"
    using o(4,6) by (intro block_at_object [OF o(1-3) _ un]) simp
  have eq: "m1 x = m' x" if "unat (x - a) < k" for x using that o(7) by (simp add: m1_def region_iff)
  have "read32 m1 a = read32 m' a" "read32 m1 (a + 4) = read32 m' (a + 4)"
    using o(3,4) node_region [of a] by (auto intro!: read32_cong eq simp: region_iff)
  moreover have "m1 (p - 1) = m' (p - 1)"
  proof (rule eq)
    have "unat (off - 1) = unat off - 1" using o(3) by (subst unat_sub) (auto simp: word_le_nat_alt)
    then show "unat (p - 1 - a) < k" using o(2-4) by (simp add: algebra_simps)
  qed
  ultimately have "block_at m' p a k n" using blk by (simp add: block_at_def header_of_def)
  with o show ?thesis unfolding heap_owned_def by blast
qed

lemma heap_free_ok:
  assumes "heap_ok h F" "heap_owned (hmem h) p n B" "B \<inter> F = {}"
  shows "\<exists>h'. free h p = Some h' \<and> heap_ok h' (F \<union> B) \<and> unchanged_outside (F \<union> B) (hmem h) (hmem h')"
proof -
  from assms(1) obtain xs where xs: "free_ok h xs" "F = free_region xs" by (auto simp: heap_ok_def)
  from assms(2) obtain a off k where o: "block_at (hmem h) p a k n" "p = a + off" "12 \<le> unat off"
    "unat off + unat n \<le> k" "0 < unat a" "unat a + k < 2 ^ 32" "B = region a k"
    unfolding heap_owned_def by blast
  have reg: "x \<in> region a k \<longleftrightarrow> unat a \<le> unat x \<and> unat x < unat a + k" for x
    using o(6) by (simp add: region_nat)
  have fresh: "{unat a..<unat a + k} \<inter> free_bytes xs = {}"
  proof -
    have "x \<notin> free_bytes xs" if "x \<in> {unat a..<unat a + k}" for x
    proof -
      have "unat (of_nat x :: addr) = x" using that o(6) by (simp add: unat_of_nat take_bit_eq_mod)
      then have "(of_nat x :: addr) \<in> B" using that reg o(7) by simp
      then have "(of_nat x :: addr) \<notin> F" using assms(3) by blast
      then show ?thesis using xs(2) \<open>unat (of_nat x :: addr) = x\<close> by (simp add: free_region_def)
    qed
    then show ?thesis by blast
  qed
  have k: "8 \<le> k" using o(3,4) by simp
  obtain h' where h': "free h p = Some h'" "free_ok h' (insert_block (unat a) (unat a + k) xs)"
    "unchanged_outside (free_region xs \<union> region a k) (hmem h) (hmem h')"
    using free_correct [OF xs(1) o(1,5) k o(6) fresh] by blast
  have "free_region (insert_block (unat a) (unat a + k) xs) = F \<union> B"
    using insert_block_correct [of 0 xs "unat a" "unat a + k"] xs o(5-7) k fresh reg
    by (auto simp: free_region_def free_ok_def)
  with h' xs(2) o(7) show ?thesis unfolding heap_ok_def by blast
qed

lemma heap_owned_region:
  assumes "heap_owned m p n B"
  shows "p \<noteq> 0 \<and> unat p + unat n < 2 ^ 32 \<and> region p (unat n) \<subseteq> B"
proof -
  obtain a off k where o: "p = a + off" "12 \<le> unat off"
    "unat off + unat n \<le> k" "unat a + k < 2 ^ 32" "B = region a k"
    using assms unfolding heap_owned_def by blast
  then have "unat p = unat a + unat off" by (simp add: unat_word_ariths)
  with o show ?thesis using region_sub [of off "unat n" k a] by auto
qed

interpretation kheap: heap_manager heap_ok hmem heap_write malloc heap_owned free
proof unfold_locales
  fix m h show "hmem (heap_write m h) = m" by (simp add: heap_write_def)
next
  fix h F m assume "heap_ok h F" "unchanged_outside (- F) (hmem h) m"
  then show "heap_ok (heap_write m h) F" by (rule heap_ok_write)
next
  fix h F n assume *: "heap_ok h F" "unat (n :: u32) + 135 < 2 ^ 32"
  then obtain xs where "free_ok h xs" by (auto simp: heap_ok_def)
  from heap_malloc_cases [OF this _ *(2)] malloc_zero [of h]
  show "\<exists>p h'. malloc h n = Some (p, h')" by (cases "n = 0") blast+
next
  fix h F n h' assume *: "heap_ok h F" "unat (n :: u32) + 135 < 2 ^ 32" "malloc h n = Some (0, h')"
  then obtain xs where "free_ok h xs" by (auto simp: heap_ok_def)
  from heap_malloc_cases [OF this _ *(2)] malloc_zero [of h] *(3) heap_owned_region
  show "h' = h" by (cases "n = 0") fastforce+
next
  fix h F n p h'
  assume "heap_ok h F" "n \<noteq> 0" "unat (n :: u32) + 135 < 2 ^ 32" "malloc h n = Some (p, h')" "p \<noteq> 0"
  then obtain xs a s k where x: "free_ok h xs" "F = free_region xs" "(unat a, s) \<in> set xs"
    "k = s \<or> k + 8 < s" "free_ok h' (take_block (unat a) k xs)"
    "heap_owned (hmem h') p n (region a k)" "unchanged_outside (free_region xs) (hmem h) (hmem h')"
    using heap_malloc_cases [of h _ n] unfolding heap_ok_def by fastforce
  then have "wf_from 0 xs" by (simp add: free_ok_def)
  from free_region_take [OF this x(3,4)] x
  show "\<exists>B. B \<subseteq> F \<and> heap_ok h' (F - B) \<and> heap_owned (hmem h') p n B \<and>
      unchanged_outside F (hmem h) (hmem h')"
    unfolding heap_ok_def by blast
next
  fix m p n B assume "heap_owned m p n B"
  then show "p \<noteq> 0 \<and> unat p + unat n < 2 ^ 32 \<and> region p (unat n) \<subseteq> B"
    by (rule heap_owned_region)
next
  fix m p n B m' assume "heap_owned m p n B" "unchanged_outside (region p (unat n) \<union> - B) m m'"
  then show "heap_owned m' p n B" by (rule heap_owned_stable)
next
  fix h F p n B assume "heap_ok h F" "heap_owned (hmem h) p n B" "B \<inter> F = {}"
  then show "\<exists>h'. free h p = Some h' \<and> heap_ok h' (F \<union> B) \<and>
      unchanged_outside (F \<union> B) (hmem h) (hmem h')" by (rule heap_free_ok)
qed

end
