(* ===== verification/Bytes.thy ===== *)
theory Bytes
  imports Prelude
begin

text \<open>
  Runs of bytes: what a driver stores into a buffer, and the little-endian fields of packed
  structures that lie in a sector.
\<close>

section \<open>Fields of a list of bytes\<close>

definition le16 :: "u8 list \<Rightarrow> nat \<Rightarrow> u16" where
  "le16 bs i = ucast (bs ! i) OR push_bit 8 (ucast (bs ! (i + 1)))"

definition le32 :: "u8 list \<Rightarrow> nat \<Rightarrow> u32" where
  "le32 bs i = ucast (bs ! i) OR push_bit 8 (ucast (bs ! (i + 1)))
     OR push_bit 16 (ucast (bs ! (i + 2))) OR push_bit 24 (ucast (bs ! (i + 3)))"

definition le64 :: "u8 list \<Rightarrow> nat \<Rightarrow> u64" where
  "le64 bs i = ucast (le32 bs i) OR push_bit 32 (ucast (le32 bs (i + 4)))"

definition read64 :: "memory \<Rightarrow> addr \<Rightarrow> u64" where
  "read64 m a = ucast (read32 m a) OR push_bit 32 (ucast (read32 m (a + 4)))"

definition write64 :: "memory \<Rightarrow> addr \<Rightarrow> u64 \<Rightarrow> memory" where
  "write64 m a v = write32 (write32 m a (ucast v)) (a + 4) (ucast (drop_bit 32 v))"

lemma read64_cong:
  assumes "\<And>x. x \<in> region a 8 \<Longrightarrow> m x = m' x" shows "read64 m a = read64 m' a"
proof -
  have "region a 4 \<subseteq> region a 8" "region (a + 4) 4 \<subseteq> region a 8"
    by (simp_all add: region_mono region_sub)
  then have "read32 m a = read32 m' a" "read32 m (a + 4) = read32 m' (a + 4)"
    using assms by (auto intro!: read32_cong)
  then show ?thesis by (simp add: read64_def)
qed

lemma unat_ucast_up [simp]: "unat (ucast (w :: u32) :: u64) = unat w"
  using unat_lt_2p32 [of w] by (simp add: unsigned_ucast_eq take_bit_nat_eq_self_iff)

lemma unat_ucast_down: "unat (w :: u64) < 2 ^ 32 \<Longrightarrow> unat (ucast w :: u32) = unat w"
  by (simp add: unsigned_ucast_eq take_bit_nat_eq_self_iff)

lemma unat_add_small:
  assumes "unat (a :: u32) + unat b < 2 ^ 32" shows "unat (a + b) = unat a + unat b"
  using assms unfolding unat_word_ariths(1) by simp

lemma unat_mult_small:
  assumes "unat (a :: u32) * unat b < 2 ^ 32" shows "unat (a * b) = unat a * unat b"
  using assms unfolding unat_word_ariths(2) by simp

section \<open>Storing and loading\<close>

text \<open>The bytes \<open>bs\<close> go to the addresses from \<open>a\<close> on.\<close>

definition store_bytes :: "memory \<Rightarrow> addr \<Rightarrow> u8 list \<Rightarrow> memory" where
  "store_bytes m a bs = (\<lambda>x. if unat (x - a) < length bs then bs ! unat (x - a) else m x)"

definition load_bytes :: "memory \<Rightarrow> addr \<Rightarrow> nat \<Rightarrow> u8 list" where
  "load_bytes m a n = map (\<lambda>i. m (a + of_nat i)) [0..<n]"

text \<open>The same for a static array, which is a list here.\<close>

definition overwrite :: "u8 list \<Rightarrow> u8 list \<Rightarrow> u8 list" where
  "overwrite bs old = bs @ drop (length bs) old"

lemma length_load_bytes [simp]: "length (load_bytes m a n) = n"
  by (simp add: load_bytes_def)

lemma nth_load_bytes [simp]: "i < n \<Longrightarrow> load_bytes m a n ! i = m (a + of_nat i)"
  by (simp add: load_bytes_def)

lemma store_bytes_outside [frame_simps]:
  "x \<notin> region a (length bs) \<Longrightarrow> store_bytes m a bs x = m x"
  by (simp add: store_bytes_def region_iff)

lemma unat_of_nat_small: "i < 2 ^ 32 \<Longrightarrow> unat (of_nat i :: addr) = i"
  by (simp add: unat_of_nat take_bit_eq_mod)

lemma store_bytes_nth:
  assumes "i < length bs" "length bs \<le> 2 ^ 32" shows "store_bytes m a bs (a + of_nat i) = bs ! i"
proof -
  have "unat (of_nat i :: addr) = i" using assms by (intro unat_of_nat_small) simp
  then show ?thesis using assms(1) by (simp add: store_bytes_def)
qed

lemma load_store_bytes [simp]:
  assumes "length bs \<le> 2 ^ 32" shows "load_bytes (store_bytes m a bs) a (length bs) = bs"
  using assms by (intro nth_equalityI) (simp_all add: store_bytes_nth)

lemma load_bytes_cong:
  assumes "\<And>x. x \<in> region a n \<Longrightarrow> m x = m' x" "n \<le> 2 ^ 32" shows "load_bytes m a n = load_bytes m' a n"
proof (intro nth_equalityI)
  fix i assume "i < length (load_bytes m a n)"
  then have "i < n" by simp
  moreover have "unat (of_nat i :: addr) = i" using \<open>i < n\<close> assms(2) by (intro unat_of_nat_small) simp
  ultimately show "load_bytes m a n ! i = load_bytes m' a n ! i"
    using assms(1) [of "a + of_nat i"] by (simp add: region_offset)
qed simp

lemma load_bytes_append: "load_bytes m a (n + k) = load_bytes m a n @ load_bytes m (a + of_nat n) k"
  by (intro nth_equalityI) (auto simp: nth_append ac_simps)

lemma unchanged_store_bytes:
  "region a (length bs) \<subseteq> S \<Longrightarrow> unchanged_outside S m (store_bytes m a bs)"
  by (auto simp: unchanged_outside_def intro!: store_bytes_outside)

lemma length_overwrite [simp]: "length bs \<le> length old \<Longrightarrow> length (overwrite bs old) = length old"
  by (simp add: overwrite_def)

lemma overwrite_all [simp]: "length bs = length old \<Longrightarrow> overwrite bs old = bs"
  by (simp add: overwrite_def)

lemma read32_load:
  assumes "i + 4 \<le> n" shows "read32 m (a + of_nat i) = le32 (load_bytes m a n) i"
  using assms by (simp add: read32_def le32_def ac_simps)

lemma read16_load:
  assumes "i + 2 \<le> n" shows "read16 m (a + of_nat i) = le16 (load_bytes m a n) i"
  using assms by (simp add: read16_def le16_def ac_simps)

end
