(* ===== verification/MemoryInit.thy ===== *)
theory MemoryInit
  imports AllocatorCorrect Bytes
begin

text \<open>
  Building the free list at boot (\<open>libc/memory.c\<close>, \<open>memory_initialize\<close> and below): sorting
  the BIOS memory map and freeing what the map marks as available, less the kernel image and
  the memory below \<open>FirstAvailiableMemory\<close>. The map is an array the bootloader leaves in
  memory; here it is a list, one element per entry, apart from the memory being freed. The
  linker symbols \<open>__start\<close> and \<open>__end\<close> are the parameters \<open>kernel_start\<close> and \<open>kernel_end\<close>.
\<close>

section \<open>The memory map\<close>

record MemoryRegion =
  BaseAddress :: u64
  Length :: u64
  Type :: u32
  ExtendedAttributes :: u32

definition AVAILIABLE :: u32 where "AVAILIABLE = 1"

text \<open>
  The insertion sort. One pass of the inner loop moves region \<open>j\<close> backwards; the swap writes
  \<open>memory_regions[j-1]\<close> first and then copies it back, so the old value (kept in \<open>temp\<close>) is lost.
\<close>

fun sort_inner :: "MemoryRegion list \<Rightarrow> nat \<Rightarrow> MemoryRegion list" where
  "sort_inner rs 0 = rs"
| "sort_inner rs (Suc j) =
     (if BaseAddress (rs ! j) \<le> BaseAddress (rs ! Suc j) then rs
      else let rs1 = rs[j := rs ! Suc j];
               rs2 = rs1[Suc j := rs1 ! j]
           in sort_inner rs2 j)"

definition sort_regions :: "MemoryRegion list \<Rightarrow> MemoryRegion list" where
  "sort_regions rs = fold (\<lambda>i rs. sort_inner rs i) [1..<length rs] rs"

section \<open>Freeing the available memory\<close>

definition region_base :: "MemoryRegion \<Rightarrow> addr" where
  "region_base r = ucast (BaseAddress r)"

definition region_end :: "MemoryRegion \<Rightarrow> addr" where
  "region_end r = ucast (ucast (region_base r) + Length r :: u64)"

text \<open>The loop over the regions; \<open>i\<close> is the index of the head of the list.\<close>

fun fnm_loop ::
  "heap \<Rightarrow> MemoryRegion list \<Rightarrow> nat \<Rightarrow> nat \<Rightarrow> addr \<Rightarrow> addr \<Rightarrow> u64 \<Rightarrow> (heap \<times> addr \<times> u64) option" where
  "fnm_loop h [] i ignore_index base end_addr bytes_added = Some (h, base, bytes_added)"
| "fnm_loop h (r # rs) i ignore_index base end_addr bytes_added =
     (if ignore_index = i
      then fnm_loop h rs (Suc i) ignore_index base end_addr bytes_added
      else if base \<ge> region_end r
      then fnm_loop h rs (Suc i) ignore_index base end_addr bytes_added
      else if region_base r \<ge> end_addr then Some (h, base, bytes_added)
      else if base > region_base r \<and> Type r = AVAILIABLE
      then fnm_loop h rs (Suc i) ignore_index base end_addr bytes_added
      else
        (case (if base \<le> region_base r
               then map_option (\<lambda>h. (h, bytes_added + ucast (region_base r - base)))
                      (free_memory h base (ucast (region_base r - base)))
               else Some (h, bytes_added)) of
           None \<Rightarrow> None
         | Some (h', bytes') \<Rightarrow>
             if region_base r \<ge> end_addr then Some (h', region_base r, bytes')
             else fnm_loop h' rs (Suc i) ignore_index (region_base r) end_addr bytes'))"

definition free_nonrestricted_mem ::
  "heap \<Rightarrow> MemoryRegion list \<Rightarrow> addr \<Rightarrow> addr \<Rightarrow> nat \<Rightarrow> (heap \<times> u64) option" where
  "free_nonrestricted_mem h rs base end_addr ignore_index =
     (case fnm_loop h rs 0 ignore_index base end_addr 0 of
        None \<Rightarrow> None
      | Some (h', base', bytes_added) \<Rightarrow>
          if base' < end_addr
          then map_option (\<lambda>h. (h, bytes_added + ucast (end_addr - base')))
                 (free_memory h' base' (ucast (end_addr - base')))
          else Some (h', bytes_added))"

text \<open>
  One iteration of \<open>free_availiable_regions\<close>. \<open>start_bytes\<close> and \<open>end_bytes\<close> are unsigned
  differences widened to 64 bits, so "greater than 0" only excludes 0.
\<close>

definition far_region ::
  "heap \<Rightarrow> MemoryRegion list \<Rightarrow> addr \<Rightarrow> addr \<Rightarrow> nat \<Rightarrow> u64 \<Rightarrow> (heap \<times> u64) option" where
  "far_region h rs kernel_start kernel_end i availiable_bytes =
     (if Type (rs ! i) \<noteq> AVAILIABLE then Some (h, availiable_bytes)
      else
        let base = region_base (rs ! i);
            end_addr = region_end (rs ! i)
        in if base < kernel_end \<and> kernel_start < end_addr
           then case (if kernel_start - base \<noteq> 0
                      then free_nonrestricted_mem h rs base kernel_start i else Some (h, 0)) of
                  None \<Rightarrow> None
                | Some (h1, b1) \<Rightarrow>
                    map_option (\<lambda>(h2, b2). (h2, availiable_bytes + b1 + b2))
                      (if end_addr - kernel_end \<noteq> 0
                       then free_nonrestricted_mem h1 rs kernel_end end_addr i else Some (h1, 0))
           else map_option (\<lambda>(h', b). (h', availiable_bytes + b))
                  (free_nonrestricted_mem h rs base end_addr i))"

fun far_loop ::
  "heap \<Rightarrow> MemoryRegion list \<Rightarrow> addr \<Rightarrow> addr \<Rightarrow> nat list \<Rightarrow> u64 \<Rightarrow> (heap \<times> u64) option" where
  "far_loop h rs kernel_start kernel_end [] availiable_bytes = Some (h, availiable_bytes)"
| "far_loop h rs kernel_start kernel_end (i # is) availiable_bytes =
     (case far_region h rs kernel_start kernel_end i availiable_bytes of
        None \<Rightarrow> None
      | Some (h', b) \<Rightarrow> far_loop h' rs kernel_start kernel_end is b)"

text \<open>The first region is cut to start at the first available byte.\<close>

definition clip_first :: "MemoryRegion \<Rightarrow> addr \<Rightarrow> MemoryRegion" where
  "clip_first r first_aviliable_memory =
     (if BaseAddress r < ucast first_aviliable_memory
      then r\<lparr>Length := BaseAddress r + Length r - ucast first_aviliable_memory,
             BaseAddress := ucast first_aviliable_memory\<rparr>
      else r)"

text \<open>\<open>memory_regions[0]\<close> is read whatever the count: an empty map is \<open>None\<close>.\<close>

definition free_availiable_regions ::
  "heap \<Rightarrow> MemoryRegion list \<Rightarrow> addr \<Rightarrow> addr \<Rightarrow> addr \<Rightarrow> (heap \<times> u64) option" where
  "free_availiable_regions h rs kernel_start kernel_end first_aviliable_memory =
     (case rs of
        [] \<Rightarrow> None
      | r # rest \<Rightarrow>
          let rs' = clip_first r first_aviliable_memory # rest
          in far_loop h rs' kernel_start kernel_end [0..<length rs'] 0)"

definition memory_initialize ::
  "heap \<Rightarrow> MemoryRegion list \<Rightarrow> addr \<Rightarrow> addr \<Rightarrow> addr \<Rightarrow> (heap \<times> u64) option" where
  "memory_initialize h rs kernel_start kernel_end first_availiable_memory =
     free_availiable_regions h (sort_regions rs) kernel_start kernel_end first_availiable_memory"

section \<open>What the sort does\<close>

definition regions_sorted :: "MemoryRegion list \<Rightarrow> bool" where
  "regions_sorted rs \<longleftrightarrow> sorted (map BaseAddress rs)"

lemma sort_inner_prefix:
  assumes "j < length rs" "regions_sorted (take j rs)" "rs ! j = x"
  shows "sort_inner rs j =
    map (\<lambda>r. if BaseAddress r \<le> BaseAddress x then r else x) (take j rs) @ drop j rs"
  using assms
proof (induction j arbitrary: rs)
  case (Suc j)
  have j: "j < length rs" and tk: "take (Suc j) rs = take j rs @ [rs ! j]"
    using Suc.prems(1) by (simp_all add: take_Suc_conv_app_nth)
  from Suc.prems(2) tk have srt: "regions_sorted (take j rs)"
    and below: "\<forall>r \<in> set (take j rs). BaseAddress r \<le> BaseAddress (rs ! j)"
    by (auto simp: regions_sorted_def sorted_append)
  show ?case
  proof (cases "BaseAddress (rs ! j) \<le> BaseAddress (rs ! Suc j)")
    case True
    have "map (\<lambda>r. if BaseAddress r \<le> BaseAddress x then r else x) (take (Suc j) rs) =
        take (Suc j) rs"
      using True below Suc.prems(3) tk by (intro map_idI) fastforce
    with True show ?thesis by simp
  next
    case False
    have swap: "rs[j := rs ! Suc j, Suc j := rs[j := rs ! Suc j] ! j] = rs[j := x]"
      using Suc.prems j by (auto simp: list_eq_iff_nth_eq nth_list_update)
    have "drop j (rs[j := x]) = x # drop (Suc j) rs"
      using j by (simp add: drop_update_swap Cons_nth_drop_Suc [symmetric])
    then show ?thesis
      using Suc.IH [of "rs[j := x]"] False swap srt j tk Suc.prems(3) by (simp add: Let_def)
  qed
qed simp

lemma sort_inner_length [simp]: "length (sort_inner rs j) = length rs"
  by (induction rs j rule: sort_inner.induct) (simp_all add: Let_def)

lemma sort_inner_step:
  assumes "j < length rs" "regions_sorted (take j rs)"
  shows "regions_sorted (take (Suc j) (sort_inner rs j))"
    and "set (sort_inner rs j) \<subseteq> set rs"
proof -
  let ?f = "\<lambda>r. if BaseAddress r \<le> BaseAddress (rs ! j) then r else rs ! j"
  note pre = sort_inner_prefix [OF assms refl]
  have hd: "drop j rs = rs ! j # drop (Suc j) rs" using assms(1) by (simp add: Cons_nth_drop_Suc)
  have "sorted (map BaseAddress (map ?f xs) @ [BaseAddress (rs ! j)])"
    if "sorted (map BaseAddress xs)" for xs
    using that by (induction xs) (auto simp: sorted_append)
  then show "regions_sorted (take (Suc j) (sort_inner rs j))"
    using assms hd by (simp add: pre regions_sorted_def)
  show "set (sort_inner rs j) \<subseteq> set rs"
    using assms(1) by (auto simp: pre dest: in_set_takeD in_set_dropD)
qed

lemma sort_regions_prefix:
  assumes "n \<le> length rs" "1 \<le> n"
  shows "regions_sorted (take n (fold (\<lambda>i rs. sort_inner rs i) [1..<n] rs)) \<and>
    length (fold (\<lambda>i rs. sort_inner rs i) [1..<n] rs) = length rs \<and>
    set (fold (\<lambda>i rs. sort_inner rs i) [1..<n] rs) \<subseteq> set rs"
  using assms(2,1)
proof (induction n rule: dec_induct)
  case base
  then show ?case by (cases rs) (auto simp: regions_sorted_def)
next
  case (step n)
  then show ?case using sort_inner_step [of n "fold (\<lambda>i rs. sort_inner rs i) [1..<n] rs"] by auto
qed

lemma sort_inner_sorted:
  "regions_sorted rs \<Longrightarrow> j < length rs \<Longrightarrow> sort_inner rs j = rs"
  by (cases j) (simp_all add: regions_sorted_def sorted_iff_nth_mono)

lemma sort_regions_id: "regions_sorted rs \<Longrightarrow> sort_regions rs = rs"
proof -
  assume srt: "regions_sorted rs"
  have "fold (\<lambda>i rs. sort_inner rs i) is rs = rs" if "\<forall>i \<in> set is. i < length rs" for "is"
    using that by (induction "is") (simp_all add: sort_inner_sorted [OF srt])
  then show ?thesis by (simp add: sort_regions_def)
qed

lemma sort_regions_sorted:
  "regions_sorted (sort_regions rs) \<and> length (sort_regions rs) = length rs \<and>
   set (sort_regions rs) \<subseteq> set rs"
proof (cases "rs = []")
  case False
  then have "1 \<le> length rs" by (cases rs) auto
  from sort_regions_prefix [OF order_refl this] show ?thesis by (auto simp: sort_regions_def)
qed (simp add: sort_regions_def regions_sorted_def)

section \<open>Disjoint maps\<close>

text \<open>
  The case the code is right in: regions that do not overlap. Then the loop over the other
  regions frees nothing and keeps \<open>base\<close>, and exactly the memory asked for is freed.
\<close>

definition clear_of :: "MemoryRegion \<Rightarrow> addr \<Rightarrow> addr \<Rightarrow> bool" where
  "clear_of r base end_addr \<longleftrightarrow> region_end r \<le> base \<or> end_addr \<le> region_base r"

lemma fnm_loop_clear:
  assumes "\<forall>k < length rs. i + k \<noteq> ign \<longrightarrow> clear_of (rs ! k) base end_addr"
  shows "fnm_loop h rs i ign base end_addr b = Some (h, base, b)"
  using assms
proof (induction rs arbitrary: i)
  case (Cons r rs)
  have "\<forall>k < length rs. Suc i + k \<noteq> ign \<longrightarrow> clear_of (rs ! k) base end_addr"
    using Cons.prems by fastforce
  note IH = Cons.IH [OF this]
  show ?case using Cons.prems IH by (fastforce simp: clear_of_def)
qed simp

lemma free_nonrestricted_clear:
  assumes "\<forall>k < length rs. k \<noteq> ign \<longrightarrow> clear_of (rs ! k) base end_addr" "base < end_addr"
  shows "free_nonrestricted_mem h rs base end_addr ign =
    map_option (\<lambda>h. (h, ucast (end_addr - base))) (free_memory h base (ucast (end_addr - base)))"
  using assms fnm_loop_clear [of rs 0] by (simp add: free_nonrestricted_mem_def)

lemma unat_len64: "unat (ucast (w :: u32) :: u64) = unat w"
  using unat_lt_2p32 [of w] by (simp add: unsigned_ucast_eq take_bit_eq_mod)

lemma free_span:
  assumes ok: "free_ok h xs" and b: "0 < unat base" "unat base + 8 \<le> unat end_addr"
    and fresh: "{unat base..<unat end_addr} \<inter> free_bytes xs = {}"
  shows "\<exists>h' ys. free_memory h base (ucast (end_addr - base)) = Some h' \<and> free_ok h' ys \<and>
    free_bytes ys = free_bytes xs \<union> {unat base..<unat end_addr}"
proof -
  have len: "unat (ucast (end_addr - base) :: u64) = unat end_addr - unat base"
    using b by (simp add: unat_len64 unat_sub word_le_nat_alt)
  then have sum: "unat base + unat (ucast (end_addr - base) :: u64) = unat end_addr" using b by simp
  have "8 \<le> unat end_addr - unat base" using b by linarith
  then have "\<exists>h'. free_memory h base (ucast (end_addr - base)) = Some h' \<and>
      free_ok h' (insert_block (unat base) (unat end_addr) xs)"
    using free_memory_correct [OF ok b(1), of "ucast (end_addr - base)", unfolded sum len]
      b fresh unat_lt_2p32 [of end_addr] by auto
  moreover have "free_bytes (insert_block (unat base) (unat end_addr) xs) =
      free_bytes xs \<union> {unat base..<unat end_addr}"
    using insert_block_correct [of 0 xs "unat base" "unat end_addr"] ok b fresh
      unat_lt_2p32 [of end_addr] by (auto simp: free_ok_def)
  ultimately show ?thesis by blast
qed

lemma free_nonrestricted_correct:
  assumes "free_ok h xs" "0 < unat base" "unat base + 8 \<le> unat end_addr"
    and "{unat base..<unat end_addr} \<inter> free_bytes xs = {}"
    and "\<forall>k < length rs. k \<noteq> ign \<longrightarrow> clear_of (rs ! k) base end_addr"
  shows "\<exists>h' ys. free_nonrestricted_mem h rs base end_addr ign = Some (h', ucast (end_addr - base)) \<and>
    free_ok h' ys \<and> free_bytes ys = free_bytes xs \<union> {unat base..<unat end_addr}"
proof -
  have "base < end_addr" using assms(3) by (simp add: word_less_nat_alt)
  then show ?thesis
    using free_span [OF assms(1-4)] free_nonrestricted_clear [OF assms(5)] by fastforce
qed

text \<open>A region the loop can handle: not overlapping any other, and at least a node on
  either side of the kernel, if it is in there.\<close>

definition region_span :: "MemoryRegion \<Rightarrow> nat set" where
  "region_span r = {unat (region_base r)..<unat (region_end r)}"

definition good_region :: "MemoryRegion list \<Rightarrow> addr \<Rightarrow> addr \<Rightarrow> nat \<Rightarrow> bool" where
  "good_region rs kernel_start kernel_end i \<longleftrightarrow>
     (let r = rs ! i; b = region_base r; e = region_end r
      in 0 < unat b \<and> unat b + 8 \<le> unat e \<and>
         (\<forall>k < length rs. k \<noteq> i \<longrightarrow> clear_of (rs ! k) b e) \<and>
         (b < kernel_end \<and> kernel_start < e \<longrightarrow>
            (kernel_start = b \<or> unat b + 8 \<le> unat kernel_start) \<and> unat kernel_start \<le> unat kernel_end \<and>
            (e = kernel_end \<or> unat kernel_end + 8 \<le> unat e)))"

definition kernel_span :: "addr \<Rightarrow> addr \<Rightarrow> nat set" where
  "kernel_span kernel_start kernel_end = {unat kernel_start..<unat kernel_end}"

lemma clear_of_part:
  "clear_of r b e \<Longrightarrow> b \<le> b' \<Longrightarrow> e' \<le> e \<Longrightarrow> clear_of r b' e'"
  by (auto simp: clear_of_def)

lemma len64_add:
  assumes "unat b \<le> unat e" shows "unat (ucast (e - b :: u32) :: u64) = unat e - unat b"
  using assms by (simp add: unat_len64 unat_sub word_le_nat_alt)

lemma ucast_len64:
  assumes "unat b \<le> unat e" shows "(ucast (e - b :: u32) :: u64) = of_nat (unat e - unat b)"
  using arg_cong [OF len64_add [OF assms], of "of_nat :: nat \<Rightarrow> u64"] by simp

lemma card_minus_span:
  assumes "b \<le> ks" "ks \<le> ke" "ke \<le> (e :: nat)"
  shows "{b..<e} - {ks..<ke} = {b..<ks} \<union> {ke..<e}" "card ({b..<e} - {ks..<ke}) = (ks - b) + (e - ke)"
proof -
  show eq: "{b..<e} - {ks..<ke} = {b..<ks} \<union> {ke..<e}" using assms by auto
  show "card ({b..<e} - {ks..<ke}) = (ks - b) + (e - ke)"
    unfolding eq using assms by (subst card_Un_disjoint) auto
qed

text \<open>One side of the kernel: nothing to free, or a span that is freed exactly.\<close>

lemma free_side:
  assumes "free_ok h xs" "0 < unat b" "e = b \<or> unat b + 8 \<le> unat e"
    and "{unat b..<unat e} \<inter> free_bytes xs = {}"
    and "\<forall>k < length rs. k \<noteq> i \<longrightarrow> clear_of (rs ! k) b e"
  shows "\<exists>h' ys. (if e - b \<noteq> 0 then free_nonrestricted_mem h rs b e i else Some (h, 0)) =
      Some (h', of_nat (unat e - unat b)) \<and> free_ok h' ys \<and>
    free_bytes ys = free_bytes xs \<union> {unat b..<unat e}"
proof (cases "e = b")
  case True
  with assms(1) show ?thesis by auto
next
  case False
  with assms(3) have "unat b + 8 \<le> unat e" by simp
  with free_nonrestricted_correct [OF assms(1,2) this assms(4,5)] False ucast_len64 [of b e]
  show ?thesis by auto
qed

lemma far_region_correct:
  assumes ok: "free_ok h xs" and avail: "Type (rs ! i) = AVAILIABLE"
    and good: "good_region rs ks ke i" and fresh: "region_span (rs ! i) \<inter> free_bytes xs = {}"
  shows "\<exists>h' ys. far_region h rs ks ke i b =
      Some (h', b + of_nat (card (region_span (rs ! i) - kernel_span ks ke))) \<and>
    free_ok h' ys \<and> free_bytes ys = free_bytes xs \<union> (region_span (rs ! i) - kernel_span ks ke)"
proof -
  define lo hi where "lo = region_base (rs ! i)" and "hi = region_end (rs ! i)"
  note g = good [unfolded good_region_def Let_def, folded lo_def hi_def]
  have fresh': "{unat lo..<unat hi} \<inter> free_bytes xs = {}"
    using fresh by (simp add: region_span_def lo_def hi_def)
  have clear: "\<forall>k < length rs. k \<noteq> i \<longrightarrow> clear_of (rs ! k) lo hi" using g by blast
  show ?thesis
  proof (cases "lo < ke \<and> ks < hi")
    case False
    then have out: "{unat lo..<unat hi} - kernel_span ks ke = {unat lo..<unat hi}"
      by (auto simp: kernel_span_def word_less_nat_alt not_less)
    have far: "far_region h rs ks ke i b =
        map_option (\<lambda>(h', n). (h', b + n)) (free_nonrestricted_mem h rs lo hi i)"
      using avail False by (auto simp: far_region_def lo_def hi_def)
    have "unat lo \<le> unat hi" using g by simp
    with free_nonrestricted_correct [OF ok _ _ fresh' clear] g ucast_len64 [of lo hi] far out
    show ?thesis by (fastforce simp: region_span_def simp flip: lo_def hi_def)
  next
    case True
    then have k: "ks = lo \<or> unat lo + 8 \<le> unat ks" "unat ks \<le> unat ke"
      "hi = ke \<or> unat ke + 8 \<le> unat hi" using g by auto
    then have ord: "unat lo \<le> unat ks" "unat ks \<le> unat ke" "unat ke \<le> unat hi" "0 < unat ke"
      using g by auto
    have lo0: "0 < unat lo" using g by simp
    note cs = card_minus_span [OF ord(1-3)]
    have cl: "\<forall>k < length rs. k \<noteq> i \<longrightarrow> clear_of (rs ! k) lo ks"
      "\<forall>k < length rs. k \<noteq> i \<longrightarrow> clear_of (rs ! k) ke hi"
      using clear ord by (auto intro: clear_of_part simp: word_le_nat_alt)
    have fr1: "{unat lo..<unat ks} \<inter> free_bytes xs = {}"
      using fresh' ord by (fastforce simp: disjoint_iff)
    obtain h1 ys where s1: "(if ks - lo \<noteq> 0 then free_nonrestricted_mem h rs lo ks i else Some (h, 0)) =
        Some (h1, of_nat (unat ks - unat lo))" "free_ok h1 ys"
        "free_bytes ys = free_bytes xs \<union> {unat lo..<unat ks}"
      using free_side [OF ok lo0 k(1) fr1 cl(1)] by (elim exE conjE)
    have fr2: "{unat ke..<unat hi} \<inter> free_bytes ys = {}"
      using fresh' s1(3) ord by (fastforce simp: disjoint_iff)
    obtain h2 zs where s2: "(if hi - ke \<noteq> 0 then free_nonrestricted_mem h1 rs ke hi i else Some (h1, 0)) =
        Some (h2, of_nat (unat hi - unat ke))" "free_ok h2 zs"
        "free_bytes zs = free_bytes ys \<union> {unat ke..<unat hi}"
      using free_side [OF s1(2) ord(4) k(3) fr2 cl(2)] by (elim exE conjE)
    have "far_region h rs ks ke i b =
        Some (h2, b + of_nat (unat ks - unat lo) + of_nat (unat hi - unat ke))"
      unfolding far_region_def Let_def lo_def [symmetric] hi_def [symmetric]
      using avail True s1(1) s2(1) by simp
    then show ?thesis
      using s2(2,3) s1(3) cs unfolding region_span_def kernel_span_def lo_def [symmetric] hi_def [symmetric]
      by (intro exI [of _ h2] exI [of _ zs]) (simp add: add.assoc Un_assoc)
  qed
qed

definition available :: "MemoryRegion list \<Rightarrow> nat list \<Rightarrow> nat set" where
  "available rs is = (\<Union>i \<in> {i \<in> set is. Type (rs ! i) = AVAILIABLE}. region_span (rs ! i))"

lemma finite_free_bytes: "finite (free_bytes xs)"
  by (auto simp: free_bytes_def)

lemma good_regions_apart:
  assumes "good_region rs ks ke i" "j < length rs" "i \<noteq> j"
  shows "region_span (rs ! i) \<inter> region_span (rs ! j) = {}"
proof -
  have "clear_of (rs ! j) (region_base (rs ! i)) (region_end (rs ! i))"
    using assms by (simp add: good_region_def Let_def)
  then show ?thesis by (auto simp: clear_of_def region_span_def word_le_nat_alt)
qed

lemma far_loop_correct:
  assumes "free_ok h xs" "b = of_nat (card (free_bytes xs))" "distinct is"
    and "\<forall>i \<in> set is. i < length rs \<and> (Type (rs ! i) = AVAILIABLE \<longrightarrow>
      good_region rs ks ke i \<and> region_span (rs ! i) \<inter> free_bytes xs = {})"
  shows "\<exists>h' ys. far_loop h rs ks ke is b = Some (h', of_nat (card (free_bytes ys))) \<and>
    free_ok h' ys \<and> free_bytes ys = free_bytes xs \<union> (available rs is - kernel_span ks ke)"
  using assms
proof (induction "is" arbitrary: h xs b)
  case Nil
  then show ?case by (auto simp: available_def)
next
  case (Cons i "is")
  let ?K = "kernel_span ks ke"
  show ?case
  proof (cases "Type (rs ! i) = AVAILIABLE")
    case False
    then have "available rs (i # is) = available rs is" by (auto simp: available_def)
    with False Cons.IH [of h xs b] Cons.prems show ?thesis by (simp add: far_region_def)
  next
    case True
    with Cons.prems have g: "good_region rs ks ke i" "region_span (rs ! i) \<inter> free_bytes xs = {}"
      by auto
    then obtain h1 ys where s: "far_region h rs ks ke i b =
        Some (h1, b + of_nat (card (region_span (rs ! i) - ?K)))" "free_ok h1 ys"
        "free_bytes ys = free_bytes xs \<union> (region_span (rs ! i) - ?K)"
      using far_region_correct [OF Cons.prems(1) True g] by blast
    have "card (free_bytes ys) = card (free_bytes xs) + card (region_span (rs ! i) - ?K)"
      unfolding s(3) using g(2)
      by (intro card_Un_disjoint) (auto simp: finite_free_bytes region_span_def)
    with Cons.prems(2) have b: "b + of_nat (card (region_span (rs ! i) - ?K)) =
        of_nat (card (free_bytes ys))" by simp
    have "region_span (rs ! j) \<inter> free_bytes ys = {}"
      if "j \<in> set is" "Type (rs ! j) = AVAILIABLE" for j
      using that Cons.prems(3,4) good_regions_apart [OF g(1), of j] unfolding s(3) by fastforce
    then have "\<forall>j \<in> set is. j < length rs \<and> (Type (rs ! j) = AVAILIABLE \<longrightarrow>
        good_region rs ks ke j \<and> region_span (rs ! j) \<inter> free_bytes ys = {})"
      using Cons.prems(4) by simp
    from Cons.IH [OF s(2) refl _ this] Cons.prems(3) obtain h' zs where
      "far_loop h1 rs ks ke is (of_nat (card (free_bytes ys))) = Some (h', of_nat (card (free_bytes zs)))"
      "free_ok h' zs" "free_bytes zs = free_bytes ys \<union> (available rs is - ?K)" by auto
    moreover have "available rs (i # is) = region_span (rs ! i) \<union> available rs is"
      using True by (auto simp: available_def)
    ultimately show ?thesis
      using s(1,3) b by (intro exI [of _ h'] exI [of _ zs]) (simp add: Un_Diff Un_assoc)
  qed
qed

lemma free_availiable_regions_correct:
  assumes "free_start h = 0" "rs' = clip_first r first # rest"
    and "\<forall>i < length rs'. Type (rs' ! i) = AVAILIABLE \<longrightarrow> good_region rs' ks ke i"
  shows "\<exists>h' xs. free_availiable_regions h (r # rest) ks ke first =
      Some (h', of_nat (card (free_bytes xs))) \<and>
    free_ok h' xs \<and> free_bytes xs = available rs' [0..<length rs'] - kernel_span ks ke"
proof -
  have "free_ok h []" using assms(1) by (simp add: free_ok_def)
  from far_loop_correct [OF this, of 0 "[0..<length rs']" rs' ks ke] assms(2,3)
  show ?thesis by (simp add: free_availiable_regions_def)
qed

section \<open>The bytes of the map\<close>

text \<open>The available bytes as the map gives them, for regions that end below 4 GB.\<close>

definition below_4g :: "MemoryRegion \<Rightarrow> bool" where
  "below_4g m \<longleftrightarrow> unat (BaseAddress m) + unat (Length m) < 2 ^ 32"

definition map_bytes :: "MemoryRegion list \<Rightarrow> nat set" where
  "map_bytes ms = (\<Union>m \<in> {m \<in> set ms. Type m = AVAILIABLE}.
     {unat (BaseAddress m)..<unat (BaseAddress m) + unat (Length m)})"

lemma below_4g_region:
  assumes "below_4g m"
  shows "unat (region_base m) = unat (BaseAddress m)" "unat (region_end m) = unat (BaseAddress m) + unat (Length m)"
proof -
  have b: "unat (BaseAddress m) < 2 ^ 32" and e: "unat (BaseAddress m) + unat (Length m) < 2 ^ 32"
    using assms by (simp_all add: below_4g_def)
  show base: "unat (region_base m) = unat (BaseAddress m)"
    unfolding region_base_def using b by (intro unat_ucast_down) simp
  have "unat (ucast (region_base m) + Length m :: u64) = unat (BaseAddress m) + unat (Length m)"
    using e base by (simp add: unat_word_ariths unat_len64)
  then show "unat (region_end m) = unat (BaseAddress m) + unat (Length m)"
    unfolding region_end_def using e by (simp add: unat_ucast_down)
qed

text \<open>The first region is cut, the others are not.\<close>

lemma clip_first_span:
  assumes "below_4g r" "unat (region_base (clip_first r first)) < unat (region_end (clip_first r first))"
  shows "region_span (clip_first r first) =
    {a \<in> {unat (BaseAddress r)..<unat (BaseAddress r) + unat (Length r)}. unat first \<le> a}"
proof (cases "BaseAddress r < ucast first")
  case False
  then have "unat first \<le> unat (BaseAddress r)" by (simp add: word_le_nat_alt not_less unat_len64)
  with False show ?thesis using below_4g_region [OF assms(1)] by (auto simp: clip_first_def region_span_def)
next
  case True
  have "unat (ucast (ucast first :: u64) :: u32) = unat first"
    using unat_lt_2p32 [of first] by (subst unat_ucast_down) (simp_all only: unat_len64)
  then have "(ucast (ucast first :: u64) :: u32) = first" by (simp only: word_unat_eq_iff)
  with True have base: "region_base (clip_first r first) = first"
    by (simp add: clip_first_def region_base_def)
  have e: "region_end (clip_first r first) = region_end r"
  proof -
    have "ucast (region_base r) = BaseAddress r"
      using below_4g_region(1) [OF assms(1)] by (simp add: word_unat_eq_iff unat_len64)
    with True base show ?thesis by (simp add: region_end_def clip_first_def)
  qed
  have "unat (BaseAddress r) < unat first" using True by (simp add: word_less_nat_alt unat_len64)
  then show ?thesis using below_4g_region(2) [OF assms(1)] by (auto simp: region_span_def base e)
qed

lemma available_map:
  assumes "rs = clip_first r first # rest" "\<forall>m \<in> set (r # rest). Type m = AVAILIABLE \<longrightarrow> below_4g m"
    and "\<forall>i < length rs. Type (rs ! i) = AVAILIABLE \<longrightarrow> good_region rs ks ke i"
  shows "available rs [0..<length rs] = {a \<in> map_bytes [r]. unat first \<le> a} \<union> map_bytes rest"
proof -
  have ty: "Type (clip_first r first) = Type r" by (simp add: clip_first_def)
  have first: "region_span (clip_first r first) =
      {a \<in> {unat (BaseAddress r)..<unat (BaseAddress r) + unat (Length r)}. unat first \<le> a}"
    if "Type r = AVAILIABLE"
  proof (rule clip_first_span)
    show "below_4g r" using assms(2) that by simp
    have "good_region rs ks ke 0" using assms(1,3) that ty by simp
    then show "unat (region_base (clip_first r first)) < unat (region_end (clip_first r first))"
      using assms(1) by (simp add: good_region_def Let_def)
  qed
  have "region_span m = {unat (BaseAddress m)..<unat (BaseAddress m) + unat (Length m)}"
    if "m \<in> set rest" "Type m = AVAILIABLE" for m
    using below_4g_region [of m] assms(2) that by (simp add: region_span_def)
  moreover have "available rs [0..<length rs] = (\<Union>m \<in> {m \<in> set rs. Type m = AVAILIABLE}. region_span m)"
    by (auto simp: available_def in_set_conv_nth)
  ultimately show ?thesis using first unfolding assms(1) map_bytes_def by (auto simp: ty)
qed

end
