(* ===== verification/HeapProperties.thy ===== *)
theory HeapProperties
  imports HeapInterface MemoryInit
begin

text \<open>
  What the kernel heap guarantees to its callers, stated on the model of \<open>libc/memory.c\<close>, with
  a small concrete heap the statements are evaluated on, and the places where the code does
  not do what its comments say.
\<close>

section \<open>A concrete heap\<close>

text \<open>One free node of 8192 bytes at address 4096.\<close>

definition example_heap :: heap where
  "example_heap =
     \<lparr>hmem = write32 (write32 (\<lambda>_. 0) 4096 8192) 4100 0, free_start = 4096\<rparr>"

lemma example_heap_ok: "free_ok example_heap [(4096, 8192)]"
  by (simp add: free_ok_def example_heap_def node_defs mem_simps)

section \<open>Serving a request\<close>

text \<open>What \<open>malloc\<close> does, from what \<open>aligned_alloc\<close> does at \<open>malloc_align_size\<close>.\<close>

lemma malloc_cases:
  assumes "free_ok h xs" "sz \<noteq> 0" "unat sz + 135 < 2 ^ 32"
  obtains (none) "\<forall>b \<in> set xs. \<not> fits 8 sz b" "malloc h sz = Some (0, h)"
  | (some) a s p h' where "(unat a, s) \<in> set xs" "fits 8 sz (unat a, s)"
    "\<forall>b \<in> set xs. fits 8 sz b \<longrightarrow> s \<le> snd b" "malloc h sz = Some (p, h')" "p \<noteq> 0"
    "allocated_from h xs 8 sz a s p h'"
  using aligned_alloc_correct [OF assms malloc_bounds]
  unfolding malloc_def malloc_align_size_def by blast

lemma malloc_one_node:
  assumes "free_ok h [(unat a, s)]" "sz \<noteq> 0" "unat sz + 135 < 2 ^ 32" "fits 8 sz (unat a, s)"
  obtains p h' where "malloc h sz = Some (p, h')" "p \<noteq> 0"
    "allocated_from h [(unat a, s)] 8 sz a s p h'"
  using assms(4) by (cases rule: malloc_cases [OF assms(1-3)]) (auto simp flip: word_unat_eq_iff)

lemma example_malloc:
  obtains h' where "malloc example_heap 100 = Some (4112, h')" "free_ok h' [(4212, 8076)]"
proof -
  have "fits 8 100 (4096, 8192)"
    by (simp add: fits_def node_offset_def sizeof_AllocatedRegionHeader_def)
  then obtain p h' where
    "malloc example_heap 100 = Some (p, h')" "p \<noteq> 0"
    "allocated_from example_heap [(4096, 8192)] 8 100 4096 8192 p h'"
    using malloc_one_node [of example_heap 4096 8192 100] example_heap_ok by auto
  then show thesis
    by (intro that [of h']) (simp_all add: allocated_from_def node_offset_def
        sizeof_AllocatedRegionHeader_def taken_def Let_def)
qed

section \<open>Properties\<close>

text \<open>
  C1: \<open>free_memory\<close> refines the insertion of a block into the abstract free list: freeing a
  range of at least 8 bytes that is not free yet always returns, leaves exactly the coalesced
  list in memory, and writes nothing but memory that was free or is being freed.
\<close>

theorem free_memory_refines:
  assumes "free_ok h xs" "0 < unat base" "8 \<le> unat len" "unat base + unat len < 2 ^ 32"
    and "{unat base..<unat base + unat len} \<inter> free_bytes xs = {}"
  shows "\<exists>h'. free_memory h base len = Some h' \<and>
    free_ok h' (insert_block (unat base) (unat base + unat len) xs) \<and>
    unchanged_outside (free_region xs \<union> region base (unat len)) (hmem h) (hmem h')"
  using assms by (rule free_memory_correct)

theorem free_memory_refines_witness:
  "\<exists>h'. free_memory example_heap 12288 256 = Some h' \<and> free_ok h' [(4096, 8448)]"
  using free_memory_refines [OF example_heap_ok, of 12288 256] by auto

text \<open>
  C2: a request that \<open>malloc\<close> can represent is served best-fit: it always returns; it returns
  \<open>NULL\<close>, with the heap untouched, only when no free node is large enough; otherwise the object
  comes from a smallest node that fits, the node is cut from the free list, and the header in
  front of the object describes the block.
\<close>

theorem malloc_best_fit:
  assumes "free_ok h xs" "sz \<noteq> 0" "unat sz + 135 < 2 ^ 32"
  shows "(\<forall>b \<in> set xs. \<not> fits 8 sz b) \<and> malloc h sz = Some (0, h) \<or>
    (\<exists>a s p h'. (unat a, s) \<in> set xs \<and> fits 8 sz (unat a, s) \<and>
       (\<forall>b \<in> set xs. fits 8 sz b \<longrightarrow> s \<le> snd b) \<and>
       malloc h sz = Some (p, h') \<and> p \<noteq> 0 \<and> allocated_from h xs 8 sz a s p h')"
  by (cases rule: malloc_cases [OF assms]) blast+

theorem malloc_best_fit_witness:
  "\<exists>p h'. malloc example_heap 100 = Some (p, h') \<and> unat p = 4112 \<and> free_ok h' [(4212, 8076)]"
proof -
  have f: "fits 8 100 (4096, 8192)"
    by (simp add: fits_def node_offset_def sizeof_AllocatedRegionHeader_def)
  with malloc_best_fit [OF example_heap_ok, of 100] obtain a p h' where
    r: "unat a = 4096" "malloc example_heap 100 = Some (p, h')"
      "allocated_from example_heap [(4096, 8192)] 8 100 a 8192 p h'" by auto
  have "a = 4096" using r(1) by (simp add: word_unat_eq_iff)
  with r(3) have "p = 4112" "free_ok h' [(4212, 8076)]"
    by (simp_all add: allocated_from_def node_offset_def sizeof_AllocatedRegionHeader_def taken_def Let_def)
  with r(2) show ?thesis by auto
qed

text \<open>
  C3: freeing what \<open>malloc\<close> returned gives back exactly the free list the block was taken
  from, whatever the owner wrote into the object in between.
\<close>

theorem malloc_free_roundtrip:
  assumes "free_ok h xs" "sz \<noteq> 0" "unat sz + 135 < 2 ^ 32"
    and "malloc h sz = Some (p, h1)" "p \<noteq> 0"
    and "unchanged_outside (region p (unat sz)) (hmem h1) m"
  shows "\<exists>h2. free (h1\<lparr>hmem := m\<rparr>) p = Some h2 \<and> free_ok h2 xs"
proof -
  obtain a s where "(unat a, s) \<in> set xs" "fits malloc_align_size sz (unat a, s)"
    "allocated_from h xs malloc_align_size sz a s p h1"
    using aligned_alloc_correct [OF assms(1-3) malloc_bounds] assms(4,5)
    by (auto simp: malloc_def)
  from alloc_free_correct [OF assms(1) this(1,2) assms(3) malloc_bounds this(3) assms(6)]
  show ?thesis .
qed

theorem malloc_free_roundtrip_witness:
  "\<exists>h1 h2. malloc example_heap 100 = Some (4112, h1) \<and>
     free (h1\<lparr>hmem := (hmem h1)(4112 := 7)\<rparr>) 4112 = Some h2 \<and> free_ok h2 [(4096, 8192)]"
proof -
  obtain h1 where r: "malloc example_heap 100 = Some (4112, h1)" by (rule example_malloc)
  have "unchanged_outside (region 4112 100) (hmem h1) ((hmem h1)(4112 := 7))"
    by (auto simp: unchanged_outside_def)
  with malloc_free_roundtrip [OF example_heap_ok _ _ r] r show ?thesis by fastforce
qed

text \<open>
  C4: two objects allocated one after the other do not overlap, and the second allocation
  leaves the bytes of the first as they were.
\<close>

theorem live_objects_disjoint:
  assumes "heap_ok h F" "n \<noteq> 0" "k \<noteq> 0" "unat n + 135 < 2 ^ 32" "unat k + 135 < 2 ^ 32"
    and "malloc h n = Some (p, h1)" "p \<noteq> 0" "malloc h1 k = Some (q, h2)" "q \<noteq> 0"
  shows "region p (unat n) \<inter> region q (unat k) = {} \<and>
    (\<forall>x \<in> region p (unat n). hmem h2 x = hmem h1 x)"
proof -
  obtain B where B: "heap_ok h1 (F - B)" "heap_owned (hmem h1) p n B"
    using kheap.alloc_ok [OF assms(1,2,4,6,7)] by blast
  then have "region p (unat n) \<inter> (F - B) = {}" using kheap.owned_region by blast
  with kheap.alloc_fresh [OF B(1) assms(3,5,8,9)] kheap.alloc_frame [OF B(1) assms(5,8,3)]
  show ?thesis by (auto simp: unchanged_outside_def)
qed

theorem live_objects_disjoint_witness:
  "\<exists>h1 q h2. malloc example_heap 100 = Some (4112, h1) \<and> malloc h1 50 = Some (q, h2) \<and> q \<noteq> 0 \<and>
     region 4112 100 \<inter> region q 50 = {}"
proof -
  obtain h1 where r: "malloc example_heap 100 = Some (4112, h1)" "free_ok h1 [(4212, 8076)]"
    by (rule example_malloc)
  have "fits 8 50 (4212, 8076)"
    by (simp add: fits_def node_offset_def sizeof_AllocatedRegionHeader_def)
  then obtain q h2 where q: "malloc h1 50 = Some (q, h2)" "q \<noteq> 0"
    using malloc_one_node [of h1 4212 8076 50 thesis] r(2) by auto
  have "heap_ok example_heap (free_region [(4096, 8192)])"
    using example_heap_ok by (auto simp: heap_ok_def)
  from live_objects_disjoint [OF this _ _ _ _ r(1) _ q] r(1) q show ?thesis by auto
qed

lemma unat_mod8_add: "unat (a + b :: addr) mod 8 = (unat a + unat b) mod 8"
proof -
  have "unat (a + b) = (unat a + unat b) mod 2 ^ 32" by (simp add: unat_word_ariths)
  then show ?thesis using mod_mod_cancel [of 8 "2 ^ 32" "unat a + unat b"] by simp
qed

lemma mod8_double: "((n :: nat) + n mod 8) mod 8 = 2 * (n mod 8) mod 8"
  by (simp only: mult_2 mod_add_left_eq)

lemma node_offset_8: "unat (a + node_offset 8 a) mod 8 = 2 * (unat a + 12) mod 8"
proof -
  define b where "b = a + 12"
  have "node_offset 8 a = 12 + b mod 8" unfolding b_def by (rule node_offset_eq) simp
  then have eq: "a + node_offset 8 a = b + b mod 8" unfolding b_def by (simp only: add.assoc)
  have "unat (8 :: addr) = 8" by simp
  then have "unat (b mod 8) = unat b mod 8" by (simp only: unat_mod)
  then have "unat (a + node_offset 8 a) mod 8 = (unat b + unat b mod 8) mod 8"
    unfolding eq unat_mod8_add by (rule arg_cong)
  also have "\<dots> = 2 * (unat b mod 8) mod 8" by (rule mod8_double)
  also have "unat b mod 8 = (unat a + 12) mod 8"
    unfolding b_def unat_mod8_add by simp
  finally show ?thesis by (simp only: mod_mult_right_eq)
qed

lemma dvd8_iff:
  assumes "(p :: nat) mod 8 = 2 * (a + 12) mod 8" shows "8 dvd p \<longleftrightarrow> 4 dvd a"
proof -
  have "2 * (a + 12) mod 8 = 2 * ((a + 4 * 3) mod 4)" by (simp add: mult_mod_right)
  then have "p mod 8 = 2 * (a mod 4)" using assms by (simp only: mod_mult_self2)
  then show ?thesis by (simp add: dvd_eq_mod_eq_0)
qed

lemma malloc_unaligned_node:
  assumes "free_ok h xs" "sz \<noteq> 0" "unat sz + 135 < 2 ^ 32" "malloc h sz = Some (p, h')" "p \<noteq> 0"
  obtains a :: addr and s where "(unat a, s) \<in> set xs" "8 dvd unat p \<longleftrightarrow> 4 dvd unat a"
proof (rule malloc_cases [OF assms(1-3)])
  fix a :: addr and s q h''
  assume as: "(unat a, s) \<in> set xs" "malloc h sz = Some (q, h'')" "allocated_from h xs 8 sz a s q h''"
  then have "p = a + node_offset 8 a" using assms(4) by (simp add: allocated_from_def Let_def)
  with as(1) node_offset_8 [of a] show thesis by (intro that [of a s] dvd8_iff) simp_all
qed (use assms(4,5) in simp)

text \<open>
  as long as every free node is 4-aligned, \<open>malloc\<close> returns 8-aligned pointers.
\<close>

theorem malloc_aligned:
  assumes "free_ok h xs" "sz \<noteq> 0" "unat sz + 135 < 2 ^ 32"
    and "\<forall>(a, s) \<in> set xs. 4 dvd a" "malloc h sz = Some (p, h')"
  shows "8 dvd unat p"
proof (cases "p = 0")
  case False
  then obtain a :: addr and s where as: "(unat a, s) \<in> set xs" "8 dvd unat p \<longleftrightarrow> 4 dvd unat a"
    by (rule malloc_unaligned_node [OF assms(1-3,5)])
  then have "4 dvd unat a" using assms(4) by auto
  with as(2) show ?thesis by blast
qed simp

theorem malloc_aligned_witness:
  "\<exists>p h'. malloc example_heap 100 = Some (p, h') \<and> 8 dvd unat p"
proof -
  obtain h' where "malloc example_heap 100 = Some (4112, h')" by (rule example_malloc)
  with malloc_aligned [OF example_heap_ok _ _ _ this] show ?thesis by auto
qed

text \<open>Booting on a map of regions that do not overlap.\<close>

lemma memory_initialize_correct:
  assumes "free_start h = 0" "regions_sorted (r # rest)" "rs = clip_first r first # rest"
    and "\<forall>i < length rs. Type (rs ! i) = AVAILIABLE \<longrightarrow> good_region rs ks ke i"
    and "\<forall>m \<in> set (r # rest). Type m = AVAILIABLE \<longrightarrow> below_4g m"
  shows "\<exists>h' xs. memory_initialize h (r # rest) ks ke first =
      Some (h', of_nat (card (free_bytes xs))) \<and> free_ok h' xs \<and>
    free_bytes xs = ({a \<in> map_bytes [r]. unat first \<le> a} \<union> map_bytes rest) - kernel_span ks ke"
  using free_availiable_regions_correct [OF assms(1,3,4)] sort_regions_id [OF assms(2)]
    available_map [OF assms(3,5,4)] by (simp add: memory_initialize_def)

text \<open>
  C5: on a memory map that is sorted, whose available regions end below 4 GB, do not overlap, and
  are not cut closer than a node to the kernel, booting frees exactly the available memory of the
  map less the kernel image, with only the first region of the map cut at the first available
  byte; the value returned is its size. When no other available region starts below that byte,
  what is freed is the available memory from there on, less the kernel image.
\<close>

theorem memory_initialize_frees_available:
  assumes "free_start h = 0" "regions_sorted (r # rest)" "rs = clip_first r first # rest"
    and "\<forall>i < length rs. Type (rs ! i) = AVAILIABLE \<longrightarrow> good_region rs ks ke i"
    and "\<forall>m \<in> set (r # rest). Type m = AVAILIABLE \<longrightarrow> below_4g m"
  shows "\<exists>h' xs. memory_initialize h (r # rest) ks ke first =
      Some (h', of_nat (card (free_bytes xs))) \<and> free_ok h' xs \<and>
    free_bytes xs = ({a \<in> map_bytes [r]. unat first \<le> a} \<union> map_bytes rest) - kernel_span ks ke \<and>
    ((\<forall>m \<in> set rest. Type m = AVAILIABLE \<longrightarrow> unat first \<le> unat (BaseAddress m)) \<longrightarrow>
     free_bytes xs = {a \<in> map_bytes (r # rest). unat first \<le> a} - kernel_span ks ke)"
proof -
  have "{a \<in> map_bytes [r]. unat first \<le> a} \<union> map_bytes rest = {a \<in> map_bytes (r # rest). unat first \<le> a}"
    if "\<forall>m \<in> set rest. Type m = AVAILIABLE \<longrightarrow> unat first \<le> unat (BaseAddress m)"
  proof -
    have "unat first \<le> a" if "a \<in> map_bytes rest" for a
      using that \<open>\<forall>m \<in> set rest. _ m\<close> by (fastforce simp: map_bytes_def)
    moreover have "map_bytes (r # rest) = map_bytes [r] \<union> map_bytes rest" by (auto simp: map_bytes_def)
    ultimately show ?thesis by auto
  qed
  moreover obtain h' xs where "memory_initialize h (r # rest) ks ke first = Some (h', of_nat (card (free_bytes xs)))"
    "free_ok h' xs"
    "free_bytes xs = ({a \<in> map_bytes [r]. unat first \<le> a} \<union> map_bytes rest) - kernel_span ks ke"
    using memory_initialize_correct [OF assms] by (elim exE conjE)
  ultimately show ?thesis by (intro exI [of _ h'] exI [of _ xs]) simp
qed

text \<open>Low memory, a reserved hole and one megabyte of memory that holds the kernel.\<close>

definition example_map :: "MemoryRegion list" where
  "example_map =
     [\<lparr>BaseAddress = 0, Length = 0x9F000, Type = 1, ExtendedAttributes = 1\<rparr>,
      \<lparr>BaseAddress = 0x9F000, Length = 0x61000, Type = 2, ExtendedAttributes = 1\<rparr>,
      \<lparr>BaseAddress = 0x100000, Length = 0x100000, Type = 1, ExtendedAttributes = 1\<rparr>]"

lemma map_bytes_simps [simp]:
  "map_bytes [] = {}"
  "map_bytes (m # ms) = (if Type m = AVAILIABLE
     then {unat (BaseAddress m)..<unat (BaseAddress m) + unat (Length m)} \<union> map_bytes ms else map_bytes ms)"
  by (auto simp: map_bytes_def)

lemma example_map_bytes: "map_bytes [hd example_map] = {0..<0x9F000}"
  "map_bytes (tl example_map) = {0x100000..<0x200000}"
  by (simp_all add: example_map_def AVAILIABLE_def)

lemma example_kernel_span: "kernel_span 0x100000 0x110000 = {0x100000..<0x110000}" "unat (0x8000 :: addr) = 0x8000"
  by (simp_all add: kernel_span_def)

lemma example_left: "{a \<in> {0..<0x9F000 :: nat}. 0x8000 \<le> a} \<union> {0x100000..<0x200000} - {0x100000..<0x110000} =
    {0x8000..<0x9F000} \<union> {0x110000..<0x200000}"
  by (rule set_eqI) (simp only: Un_iff Diff_iff mem_Collect_eq atLeastLessThan_iff, linarith)

theorem memory_initialize_frees_available_witness:
  "\<exists>h' xs. memory_initialize \<lparr>hmem = (\<lambda>_. 0), free_start = 0\<rparr> example_map 0x100000 0x110000 0x8000 =
      Some (h', of_nat (card (free_bytes xs))) \<and> free_ok h' xs \<and>
    free_bytes xs = {0x8000..<0x9F000} \<union> {0x110000..<0x200000}"
proof -
  let ?rs = "clip_first (hd example_map) 0x8000 # tl example_map"
  have srt: "regions_sorted (hd example_map # tl example_map)"
    by (simp add: regions_sorted_def example_map_def)
  have len: "length ?rs = 3" by (simp add: example_map_def)
  have all3: "(\<forall>k < 3. P k) \<longleftrightarrow> P 0 \<and> P 1 \<and> P 2" for P :: "nat \<Rightarrow> bool"
    by (auto simp: less_Suc_eq numeral_3_eq_3 numeral_2_eq_2)
  have nth: "?rs ! 0 = clip_first (hd example_map) 0x8000"
    "?rs ! 1 = example_map ! 1" "?rs ! 2 = example_map ! 2"
    by (simp_all add: example_map_def)
  have span: "region_base (?rs ! 0) = 0x8000" "region_end (?rs ! 0) = 0x9F000"
    "region_base (?rs ! 1) = 0x9F000" "region_end (?rs ! 1) = 0x100000"
    "region_base (?rs ! 2) = 0x100000" "region_end (?rs ! 2) = 0x200000"
    unfolding nth by (simp_all add: example_map_def clip_first_def region_base_def region_end_def)
  have ty1: "Type (?rs ! 1) = 2" unfolding nth by (simp add: example_map_def)
  have good: "\<forall>i < length ?rs. Type (?rs ! i) = AVAILIABLE \<longrightarrow> good_region ?rs 0x100000 0x110000 i"
    unfolding len all3 good_region_def Let_def clear_of_def span ty1
    by (simp add: AVAILIABLE_def)
  have b4: "\<forall>m \<in> set (hd example_map # tl example_map). Type m = AVAILIABLE \<longrightarrow> below_4g m"
    by (simp add: example_map_def below_4g_def)
  have left: "{a \<in> map_bytes [hd example_map]. unat (0x8000 :: addr) \<le> a} \<union> map_bytes (tl example_map) -
      kernel_span 0x100000 0x110000 = {0x8000..<0x9F000} \<union> {0x110000..<0x200000}"
    unfolding example_map_bytes example_kernel_span by (rule example_left)
  have map: "hd example_map # tl example_map = example_map" by (simp add: example_map_def)
  have start: "free_start \<lparr>hmem = (\<lambda>_. 0), free_start = 0\<rparr> = 0" by simp
  obtain h' xs where "memory_initialize \<lparr>hmem = (\<lambda>_. 0), free_start = 0\<rparr> example_map 0x100000 0x110000 0x8000 =
      Some (h', of_nat (card (free_bytes xs)))" "free_ok h' xs"
    "free_bytes xs = {0x8000..<0x9F000} \<union> {0x110000..<0x200000}"
    using memory_initialize_frees_available [OF start srt refl good b4] unfolding left map
    by (elim exE conjE) (rule that)
  then show ?thesis by (intro exI conjI)
qed

text \<open>
  whatever the order of the memory map, \<open>sort_regions\<close> leaves it sorted by base address,
  with as many entries and no entry that was not in the map; a sorted map it leaves alone.
\<close>

theorem sort_regions_sorts:
  "regions_sorted (sort_regions rs) \<and> length (sort_regions rs) = length rs \<and>
   set (sort_regions rs) \<subseteq> set rs \<and> (regions_sorted rs \<longrightarrow> sort_regions rs = rs)"
  using sort_regions_sorted sort_regions_id by auto

theorem sort_regions_sorts_witness:
  "regions_sorted example_map \<and> sort_regions example_map = example_map"
  using sort_regions_sorts [of example_map]
  by (simp add: regions_sorted_def example_map_def)

section \<open>Where the code departs from its comments\<close>

text \<open>
  Only the first region of the map is cut at the first available byte: behind a reserved region, an
  available one is freed from its start on, below that byte.
\<close>

lemma memory_below_first_is_freed:
  "\<exists>h' xs. memory_initialize \<lparr>hmem = (\<lambda>_. 0), free_start = 0\<rparr>
      [\<lparr>BaseAddress = 0, Length = 0x1000, Type = 2, ExtendedAttributes = 1\<rparr>,
       \<lparr>BaseAddress = 0x3000, Length = 0x6000, Type = 1, ExtendedAttributes = 1\<rparr>] 0x100000 0x110000 0x8000 =
      Some (h', of_nat (card (free_bytes xs))) \<and> free_ok h' xs \<and> 0x3000 \<in> free_bytes xs"
proof -
  let ?r = "\<lparr>BaseAddress = 0, Length = 0x1000, Type = 2, ExtendedAttributes = 1\<rparr> :: MemoryRegion"
  let ?rest = "[\<lparr>BaseAddress = 0x3000, Length = 0x6000, Type = 1, ExtendedAttributes = 1\<rparr>] :: MemoryRegion list"
  let ?rs = "clip_first ?r 0x8000 # ?rest"
  have "regions_sorted (?r # ?rest)" by (simp add: regions_sorted_def)
  moreover have "\<forall>i < length ?rs. Type (?rs ! i) = AVAILIABLE \<longrightarrow> good_region ?rs 0x100000 0x110000 i"
    by (auto simp: less_Suc_eq AVAILIABLE_def clip_first_def good_region_def region_base_def region_end_def
        clear_of_def)
  moreover have "\<forall>m \<in> set (?r # ?rest). Type m = AVAILIABLE \<longrightarrow> below_4g m"
    by (simp add: below_4g_def)
  moreover have "0x3000 \<in> ({a \<in> map_bytes [?r]. unat (0x8000 :: addr) \<le> a} \<union> map_bytes ?rest) -
      kernel_span 0x100000 0x110000"
    by (simp add: map_bytes_def AVAILIABLE_def kernel_span_def)
  ultimately show ?thesis
    using memory_initialize_correct [OF _ _ refl, of "\<lparr>hmem = (\<lambda>_. 0), free_start = 0\<rparr>" ?r ?rest "0x8000"
        "0x100000" "0x110000"] by auto
qed

text \<open>The swap of the sort loses the larger region: the entry moved down is written twice.\<close>

lemma sort_regions_loses_region:
  assumes "BaseAddress b < BaseAddress a" shows "sort_regions [a, b] = [b, b]"
proof -
  have "[1..<length [a, b]] = [Suc 0]" by (simp add: upt_rec)
  with assms show ?thesis by (simp add: sort_regions_def)
qed

text \<open>
  A reserved region inside an available one is freed with it: after the part in front of the
  overlap, the loop goes on from the start of the reserved region, not from its end.
\<close>

lemma reserved_inside_is_freed:
  assumes "free_ok h []" "Type r1 = 2" "0 < unat b" "unat b + 8 \<le> unat (region_base r1)"
    and "unat (region_base r1) + 8 \<le> unat e" "region_base r1 < region_end r1"
  shows "\<exists>h' n ys. free_nonrestricted_mem h [r0, r1] b e 0 = Some (h', n) \<and>
    free_ok h' ys \<and> free_bytes ys = {unat b..<unat e}"
proof -
  let ?m = "region_base r1"
  obtain h1 xs where 1: "free_memory h b (ucast (?m - b)) = Some h1" "free_ok h1 xs"
    "free_bytes xs = {unat b..<unat ?m}"
    using free_span [OF assms(1,3,4)] by auto
  have "{unat ?m..<unat e} \<inter> free_bytes xs = {}" unfolding 1(3) by auto
  moreover have "0 < unat ?m" using assms(3,4) by simp
  ultimately obtain h2 ys where 2: "free_memory h1 ?m (ucast (e - ?m)) = Some h2" "free_ok h2 ys"
    "free_bytes ys = free_bytes xs \<union> {unat ?m..<unat e}"
    using free_span [OF 1(2) _ assms(5)] by blast
  have ord: "b < region_end r1" "?m < e" "b \<le> ?m"
    using assms(4-6) by (auto simp: word_less_nat_alt word_le_nat_alt)
  have "fnm_loop h [r0, r1] 0 0 b e 0 = Some (h1, ?m, ucast (?m - b))"
    using 1(1) ord(1,2) [folded not_le] ord(3) assms(2) by (simp add: AVAILIABLE_def)
  then have "free_nonrestricted_mem h [r0, r1] b e 0 =
      Some (h2, ucast (?m - b) + ucast (e - ?m))"
    using 2(1) ord by (simp add: free_nonrestricted_mem_def)
  moreover have "free_bytes ys = {unat b..<unat e}"
    using 1(3) 2(3) assms(4,5) by auto
  ultimately show ?thesis using 2(2) by blast
qed

text \<open>
  Freeing no bytes and then some bytes at the same address, as the loop does for two regions
  with the same base, makes the node its own successor: the next search never ends.
\<close>

definition after_zero_free :: "heap \<Rightarrow> addr \<Rightarrow> u64 \<Rightarrow> heap option" where
  "after_zero_free h base len =
     (case free_memory h base 0 of None \<Rightarrow> None | Some h1 \<Rightarrow> free_memory h1 base len)"

lemma zero_free_cycle:
  assumes "free_start h = 0" "base \<noteq> 0" "unat base + unat len < 2 ^ 32"
  shows "\<exists>h'. after_zero_free h base len = Some h' \<and> free_start h' = base \<and>
    node_next (hmem h') base = base"
proof -
  have zero: "(ucast (ucast base :: u64) :: addr) = base"
    by (rule bit_word_eqI) (simp add: bit_simps)
  have le: "base \<le> ucast (ucast base + len :: u64)"
    using end_addr_nat [OF assms(3)] by (simp add: word_le_nat_alt)
  show ?thesis
    using assms(1,2) le
    by (simp add: after_zero_free_def free_memory_def fm_find.simps fm_write_node_def zero Let_def)
qed

lemma aa_scan_cycle:
  assumes "node_next m base = base" "base \<noteq> 0"
  shows "aa_scan m al sz bp bf previous base off = None"
proof (rule ccontr)
  assume "aa_scan m al sz bp bf previous base off \<noteq> None"
  then obtain r where r: "aa_scan m al sz bp bf previous base off = Some r" by auto
  have "base \<noteq> base \<or> m \<noteq> m"
    by (rule aa_scan.raw_induct [where P = "\<lambda>m' al sz bp bf previous c off r. c \<noteq> base \<or> m' \<noteq> m", OF _ r])
      (use assms in \<open>fastforce split: if_splits\<close>)
  then show False by simp
qed

text \<open>
  \<open>malloc\<close> asks for 8-aligned objects, but the offset it computes only gives them when the node
  is 4-aligned; nodes left over by a split are not, in general.
\<close>

lemma malloc_misaligned:
  assumes "free_ok h xs" "sz \<noteq> 0" "unat sz + 135 < 2 ^ 32"
    and "\<forall>(a, s) \<in> set xs. \<not> 4 dvd a" "malloc h sz = Some (p, h')" "p \<noteq> 0"
  shows "\<not> 8 dvd unat p"
proof -
  obtain a :: addr and s where as: "(unat a, s) \<in> set xs" "8 dvd unat p \<longleftrightarrow> 4 dvd unat a"
    by (rule malloc_unaligned_node [OF assms(1-3,5,6)])
  then have "\<not> 4 dvd unat a" using assms(4) by auto
  with as(2) show ?thesis by blast
qed

text \<open>A request close to 4 GB wraps when the header is added, and is granted from a small node.\<close>

lemma malloc_overflow:
  "\<exists>h'. malloc example_heap 0xFFFFFFF8 = Some (4112, h') \<and>
     unat (read32 (hmem h') 4096) = 8"
  by (simp add: malloc_def aligned_alloc_def example_heap_def aa_scan.simps node_offset_def
      node_defs aa_take_def aa_header_def mem_simps region_iff Let_def)

text \<open>The copy loop of \<open>realloc\<close> writes the old object only: the new one is left as allocated.\<close>

lemma realloc_copy_frame:
  assumes "n \<le> 2 ^ 32"
  shows "unchanged_outside (region old n) m (realloc_copy m old new n)"
  using assms
proof (induction n)
  case 0
  then show ?case by (simp add: realloc_copy_def)
next
  case (Suc n)
  have "old + of_nat n \<in> region old (Suc n)"
    using Suc.prems by (intro region_offset) (simp add: unat_of_nat take_bit_eq_mod)
  moreover have "unchanged_outside (region old (Suc n)) m (realloc_copy m old new n)"
    using Suc by (auto intro: unchanged_mono [OF _ region_mono])
  ultimately show ?case by (auto simp: realloc_copy_def unchanged_outside_def)
qed

end
