(* ===== verification/HeapChain.thy ===== *)
theory HeapChain
  imports HeapInterface
begin

text \<open>
  Singly linked lists of heap objects, as \<open>util/list.c\<close> and \<open>events.c\<close> build them: each cell is
  an object of its own, with some 32-bit fields and a pointer to the next cell. \<open>chain\<close> relates
  a pointer to the list of the cells' contents and to the bytes the cells own; its laws are
  proved once, for every allocator that meets the contract of theory \<open>HeapInterface\<close>.
\<close>

section \<open>Layouts and chains\<close>

text \<open>A cell has \<open>cell_size\<close> bytes, fields at \<open>cell_offsets\<close> and the link at \<open>link\<close>.\<close>

record layout =
  cell_size :: u32
  cell_offsets :: "u32 list"
  link :: u32

definition layout_ok :: "layout \<Rightarrow> bool" where
  "layout_ok L \<longleftrightarrow> cell_size L \<noteq> 0 \<and> unat (cell_size L) < 64 \<and>
     unat (link L) + 4 \<le> unat (cell_size L) \<and>
     (\<forall>f \<in> set (cell_offsets L). unat f + 4 \<le> unat (cell_size L) \<and>
       (unat f + 4 \<le> unat (link L) \<or> unat (link L) + 4 \<le> unat f))"

definition cell_fields :: "layout \<Rightarrow> memory \<Rightarrow> addr \<Rightarrow> u32 list" where
  "cell_fields L m p = map (\<lambda>f. read32 m (p + f)) (cell_offsets L)"

definition cell_next :: "layout \<Rightarrow> memory \<Rightarrow> addr \<Rightarrow> addr" where
  "cell_next L m p = read32 m (p + link L)"

text \<open>
  \<open>chain own L m p vs q U\<close>: from \<open>p\<close>, the cells hold \<open>vs\<close> and the last link is \<open>q\<close>; their blocks
  are disjoint and make up \<open>U\<close>.
\<close>

fun chain :: "(memory \<Rightarrow> addr \<Rightarrow> u32 \<Rightarrow> addr set \<Rightarrow> bool) \<Rightarrow> layout \<Rightarrow> memory \<Rightarrow> addr \<Rightarrow>
    u32 list list \<Rightarrow> addr \<Rightarrow> addr set \<Rightarrow> bool" where
  "chain own L m p [] q U \<longleftrightarrow> p = q \<and> U = {}"
| "chain own L m p (v # vs) q U \<longleftrightarrow> (\<exists>B V. own m p (cell_size L) B \<and> B \<inter> V = {} \<and> U = B \<union> V \<and>
     cell_fields L m p = v \<and> chain own L m (cell_next L m p) vs q V)"

lemma chain_Cons:
  assumes "own m p (cell_size L) B" "B \<inter> V = {}" "cell_fields L m p = v"
    and "chain own L m (cell_next L m p) vs q V" "U = B \<union> V"
  shows "chain own L m p (v # vs) q U"
  using assms by auto

lemma chain_append:
  "chain own L m p (vs @ ws) q U \<longleftrightarrow>
    (\<exists>r V W. chain own L m p vs r V \<and> chain own L m r ws q W \<and> V \<inter> W = {} \<and> U = V \<union> W)"
proof (induction vs arbitrary: p U)
  case (Cons v vs)
  show ?case
  proof
    assume "chain own L m p ((v # vs) @ ws) q U"
    then obtain B C where *: "own m p (cell_size L) B" "B \<inter> C = {}" "U = B \<union> C"
      "cell_fields L m p = v" "chain own L m (cell_next L m p) (vs @ ws) q C" by auto
    then obtain r V W where "chain own L m (cell_next L m p) vs r V" "chain own L m r ws q W"
      "V \<inter> W = {}" "C = V \<union> W" using Cons.IH by auto
    with * have "chain own L m p (v # vs) r (B \<union> V)" "(B \<union> V) \<inter> W = {}" "U = (B \<union> V) \<union> W" by auto
    with \<open>chain own L m r ws q W\<close>
    show "\<exists>r V W. chain own L m p (v # vs) r V \<and> chain own L m r ws q W \<and> V \<inter> W = {} \<and> U = V \<union> W"
      by blast
  next
    assume "\<exists>r V W. chain own L m p (v # vs) r V \<and> chain own L m r ws q W \<and> V \<inter> W = {} \<and> U = V \<union> W"
    then obtain r V W B C where *: "chain own L m r ws q W" "V \<inter> W = {}" "U = V \<union> W"
      "own m p (cell_size L) B" "B \<inter> C = {}" "V = B \<union> C" "cell_fields L m p = v"
      "chain own L m (cell_next L m p) vs r C" by auto
    then have "chain own L m (cell_next L m p) (vs @ ws) q (C \<union> W)"
      using Cons.IH by blast
    moreover have "B \<inter> (C \<union> W) = {}" "U = B \<union> (C \<union> W)" using * by auto
    ultimately show "chain own L m p ((v # vs) @ ws) q U"
      using *(4,7) unfolding append_Cons by (intro chain_Cons [of own m p L B "C \<union> W"])
  qed
qed auto

lemma chain_appendI:
  assumes "chain own L m p vs r V" "chain own L m r ws q W" "V \<inter> W = {}" "U = V \<union> W"
  shows "chain own L m p (vs @ ws) q U"
  using assms unfolding chain_append by blast

lemma cell_cong:
  assumes "layout_ok L" "\<And>x. x \<in> region p (unat (cell_size L)) \<Longrightarrow> m' x = m x"
  shows "cell_fields L m' p = cell_fields L m p" "cell_next L m' p = cell_next L m p"
proof -
  have "read32 m' (p + f) = read32 m (p + f)" if "unat f + 4 \<le> unat (cell_size L)" for f
    using region_sub [OF that, of p] assms(2) by (intro read32_cong) auto
  then show "cell_fields L m' p = cell_fields L m p" "cell_next L m' p = cell_next L m p"
    using assms(1) by (auto simp: cell_fields_def cell_next_def layout_ok_def)
qed

text \<open>Writing the link of a cell leaves its fields.\<close>

lemma cell_set_next:
  assumes "layout_ok L" "unat p + unat (cell_size L) \<le> 2 ^ 32"
  shows "cell_fields L (write32 m (p + link L) q) p = cell_fields L m p"
    and "cell_next L (write32 m (p + link L) q) p = q"
    and "unchanged_outside (region p (unat (cell_size L))) m (write32 m (p + link L) q)"
proof -
  have un: "unat (p + f) = unat p + unat f" if "unat f + 4 \<le> unat (cell_size L)" for f
    using unat_plus_small [of p "unat f"] that assms(2) by simp
  have "read32 (write32 m (p + link L) q) (p + f) = read32 m (p + f)" if "f \<in> set (cell_offsets L)" for f
    using that assms un [of f] un [of "link L"]
    by (intro read32_write32_other) (auto simp: layout_ok_def)
  then show "cell_fields L (write32 m (p + link L) q) p = cell_fields L m p"
    by (simp add: cell_fields_def)
  show "cell_next L (write32 m (p + link L) q) p = q" by (simp add: cell_next_def)
  show "unchanged_outside (region p (unat (cell_size L))) m (write32 m (p + link L) q)"
    using assms(1) by (intro unchanged_write32 region_sub) (auto simp: layout_ok_def)
qed

section \<open>Chains over an allocator\<close>

context heap_allocator
begin

lemma chain_null:
  "chain owned L m p vs 0 U \<Longrightarrow> p = 0 \<longleftrightarrow> vs = []"
  using owned_region by (cases vs) auto

text \<open>What does not touch a chain's blocks does not change the chain.\<close>

lemma chain_frame:
  assumes "layout_ok L" "chain owned L m p vs q U" "unchanged_outside S m m'" "S \<inter> U = {}"
  shows "chain owned L m' p vs q U"
  using assms(2,4)
proof (induction vs arbitrary: p U)
  case (Cons v vs)
  then obtain B V where *: "owned m p (cell_size L) B" "B \<inter> V = {}" "U = B \<union> V"
    "cell_fields L m p = v" "chain owned L m (cell_next L m p) vs q V" by auto
  have same: "m' x = m x" if "x \<in> B" for x
    using that *(3) Cons.prems(2) assms(3) by (auto simp: unchanged_outside_def)
  have "unchanged_outside (- B) m m'" using same by (auto simp: unchanged_outside_def)
  then have "owned m' p (cell_size L) B"
    using owned_stable [OF *(1)] by (blast intro: unchanged_mono)
  moreover have "cell_fields L m' p = v" "cell_next L m' p = cell_next L m p"
    using cell_cong [OF assms(1), of p m' m] owned_region [OF *(1)] same *(4) by auto
  moreover have "chain owned L m' (cell_next L m p) vs q V"
    using Cons.IH *(3,5) Cons.prems(2) by blast
  ultimately show ?case using *(2,3) by auto
qed simp

text \<open>Linking the last cell of a chain to something else.\<close>

lemma chain_relink:
  assumes L: "layout_ok L" and c: "chain owned L m p (vs @ [v]) q U"
  obtains t V where "chain owned L m p vs t V" "V \<subseteq> U" "cell_next L m t = q" "t \<noteq> 0"
    "cell_fields L m t = v" "\<And>r. chain owned L (write32 m (t + link L) r) p (vs @ [v]) r U"
    "\<And>r. unchanged_outside U m (write32 m (t + link L) r)"
proof -
  from c obtain t V W where *: "chain owned L m p vs t V" "V \<inter> W = {}" "U = V \<union> W"
    "owned m t (cell_size L) W" "cell_fields L m t = v" "cell_next L m t = q"
    by (fastforce simp: chain_append)
  have t: "t \<noteq> 0" "unat t + unat (cell_size L) \<le> 2 ^ 32" "region t (unat (cell_size L)) \<subseteq> W"
    using owned_region [OF *(4)] by auto
  note set = cell_set_next [OF L t(2)]
  have un: "unchanged_outside W m (write32 m (t + link L) r)" for r
    using set(3) t(3) by (rule unchanged_mono)
  have "chain owned L (write32 m (t + link L) r) p (vs @ [v]) r U" for r
  proof -
    have "chain owned L (write32 m (t + link L) r) p vs t V"
      using chain_frame [OF L *(1) un] *(2) by blast
    moreover have "owned (write32 m (t + link L) r) t (cell_size L) W"
      using owned_stable [OF *(4)] set(3) by (blast intro: unchanged_mono)
    then have "chain owned L (write32 m (t + link L) r) t [v] r W"
      using set(1,2) *(5) by (intro chain_Cons [of _ _ _ _ W "{}"]) auto
    ultimately show ?thesis unfolding chain_append using *(2,3) by blast
  qed
  then show thesis
    using * t(1) unchanged_mono [OF un] by (intro that [of t V]) auto
qed

text \<open>A block just written as a cell is a chain of one.\<close>

lemma chain_single:
  assumes "owned m p (cell_size L) B" "cell_fields L m p = v" "cell_next L m p = q"
  shows "chain owned L m p [v] q B"
  using assms by auto

text \<open>
  A chain kept in allocated memory: its blocks are not free. Allocating a cell and writing it
  keeps the chain, and the new block is apart from it.
\<close>

lemma write_cell:
  assumes L: "layout_ok L" and h: "ok h1 (F - B)" "owned (memory_of h1) c (cell_size L) B" "B \<subseteq> F"
      "unchanged_outside F (memory_of h) (memory_of h1)"
    and ch: "chain owned L (memory_of h) p vs q U" "U \<inter> F = {}"
    and m: "unchanged_outside (region c (unat (cell_size L))) (memory_of h1) m"
  shows "ok (with_memory m h1) (F - B) \<and> owned m c (cell_size L) B \<and> chain owned L m p vs q U"
proof -
  have "region c (unat (cell_size L)) \<subseteq> B" using owned_region [OF h(2)] by simp
  then have mB: "unchanged_outside B (memory_of h1) m" using m by (blast intro: unchanged_mono)
  have ch1: "chain owned L (memory_of h1) p vs q U"
    using chain_frame [OF L ch(1) h(4)] ch(2) by blast
  have "ok (with_memory m h1) (F - B)" using write_block_ok [OF h(1) _ mB] by blast
  moreover have "owned m c (cell_size L) B"
    using owned_stable [OF h(2)] m by (blast intro: unchanged_mono)
  moreover have "chain owned L m p vs q U"
    using chain_frame [OF L ch1 mB] h(3) ch(2) by blast
  ultimately show ?thesis by blast
qed

lemma new_cell:
  assumes L: "layout_ok L" and h: "ok h F" "chain owned L (memory_of h) p vs q U" "U \<inter> F = {}"
    and al: "alloc h (cell_size L) = Some (c, h1)" "c \<noteq> 0"
  obtains B where "B \<subseteq> F" "unat c + unat (cell_size L) \<le> 2 ^ 32" "region c (unat (cell_size L)) \<subseteq> B"
    "\<And>m. unchanged_outside (region c (unat (cell_size L))) (memory_of h1) m \<Longrightarrow>
      ok (with_memory m h1) (F - B) \<and> owned m c (cell_size L) B \<and> chain owned L m p vs q U"
proof -
  have n: "cell_size L \<noteq> 0" "unat (cell_size L) + 135 < 2 ^ 32"
    using L by (auto simp: layout_ok_def)
  obtain B where B: "B \<subseteq> F" "ok h1 (F - B)" "owned (memory_of h1) c (cell_size L) B"
    "unchanged_outside F (memory_of h) (memory_of h1)"
    using alloc_ok [OF h(1) n al] by blast
  have c: "unat c + unat (cell_size L) \<le> 2 ^ 32" "region c (unat (cell_size L)) \<subseteq> B"
    using owned_region [OF B(3)] by auto
  show thesis using that [OF B(1) c] write_cell [OF L B(2,3,1,4) h(2,3)] by blast
qed

end

context heap_manager
begin

text \<open>Releasing a block apart from a chain keeps the chain.\<close>

lemma release_cell:
  assumes "layout_ok L" "ok h F" "owned (memory_of h) c (cell_size L) B" "B \<inter> F = {}"
    and "chain owned L (memory_of h) p vs q U" "U \<inter> (F \<union> B) = {}"
  obtains h' where "release h c = Some h'" "ok h' (F \<union> B)" "chain owned L (memory_of h') p vs q U"
    "unchanged_outside (F \<union> B) (memory_of h) (memory_of h')"
  using release_ok [OF assms(2-4)] chain_frame [OF assms(1,5)] assms(6) by (metis inf_commute)

end

end
