(* ===== verification/LinkedList.thy ===== *)
theory LinkedList
  imports HeapChain HeapProperties
begin

text \<open>
  The linked lists of \<open>util/list.c\<close>. A \<open>ListNode\<close> is two words on the kernel heap, \<open>value\<close> at
  offset 0 and \<open>next\<close> at 4. \<open>ListNode **head\<close> is passed as the head's value and the new value is
  returned with the C result; \<open>None\<close> is a walk that does not end.
\<close>

section \<open>The operations\<close>

definition sizeof_ListNode :: u32 where "sizeof_ListNode = 8"

definition list_value :: "memory \<Rightarrow> addr \<Rightarrow> u32" where "list_value m p = read32 m p"
definition list_next :: "memory \<Rightarrow> addr \<Rightarrow> addr" where "list_next m p = read32 m (p + 4)"

definition set_list_value :: "memory \<Rightarrow> addr \<Rightarrow> u32 \<Rightarrow> memory" where
  "set_list_value m p v = write32 m p v"

definition set_list_next :: "memory \<Rightarrow> addr \<Rightarrow> addr \<Rightarrow> memory" where
  "set_list_next m p q = write32 m (p + 4) q"

partial_function (option) list_last :: "memory \<Rightarrow> addr \<Rightarrow> addr option" where
  "list_last m current =
     (if list_next m current \<noteq> 0 then list_last m (list_next m current) else Some current)"

definition list_add_tail :: "heap \<Rightarrow> addr \<Rightarrow> u32 \<Rightarrow> (int \<times> addr \<times> heap) option" where
  "list_add_tail h head item =
     (case malloc h sizeof_ListNode of
        None \<Rightarrow> None
      | Some (new_node, h1) \<Rightarrow>
          if new_node = 0 then Some (-1, head, h1)
          else let m = set_list_value (hmem h1) new_node item;
                   m = set_list_next m new_node 0
               in if head = 0 then Some (0, new_node, heap_write m h1)
                  else case list_last m head of
                         None \<Rightarrow> None
                       | Some current \<Rightarrow>
                           Some (0, head, heap_write (set_list_next m current new_node) h1))"

definition list_add_head :: "heap \<Rightarrow> addr \<Rightarrow> u32 \<Rightarrow> (int \<times> addr \<times> heap) option" where
  "list_add_head h head item =
     (case malloc h sizeof_ListNode of
        None \<Rightarrow> None
      | Some (new_node, h1) \<Rightarrow>
          if new_node = 0 then Some (-1, head, h1)
          else let m = set_list_value (hmem h1) new_node item;
                   m = set_list_next m new_node head
               in Some (0, new_node, heap_write m h1))"

partial_function (option) list_find ::
  "memory \<Rightarrow> u32 \<Rightarrow> addr \<Rightarrow> addr \<Rightarrow> (addr \<times> addr) option" where
  "list_find m item prev current =
     (if current \<noteq> 0 \<and> list_value m current \<noteq> item
      then list_find m item current (list_next m current) else Some (prev, current))"

definition list_remove :: "heap \<Rightarrow> addr \<Rightarrow> u32 \<Rightarrow> (int \<times> addr \<times> heap) option" where
  "list_remove h head item =
     (if head \<noteq> 0 \<and> list_value (hmem h) head = item
      then let head' = list_next (hmem h) head
           in case free h head of None \<Rightarrow> None | Some h' \<Rightarrow> Some (0, head', h')
      else case list_find (hmem h) item 0 head of
             None \<Rightarrow> None
           | Some (prev, current) \<Rightarrow>
               if current = 0 then Some (-1, head, h)
               else let m = set_list_next (hmem h) prev (list_next (hmem h) current)
                    in case free (heap_write m h) current of
                         None \<Rightarrow> None | Some h' \<Rightarrow> Some (0, head, h'))"

section \<open>Abstraction\<close>

definition list_layout :: layout where
  "list_layout = \<lparr>cell_size = sizeof_ListNode, cell_offsets = [0], link = 4\<rparr>"

text \<open>The list at \<open>head\<close> holds \<open>vs\<close> in the bytes \<open>U\<close>, and \<open>F\<close> is free.\<close>

definition list_rep :: "heap \<Rightarrow> addr \<Rightarrow> u32 list \<Rightarrow> addr set \<Rightarrow> addr set \<Rightarrow> bool" where
  "list_rep h head vs F U \<longleftrightarrow> heap_ok h F \<and> U \<inter> F = {} \<and>
     chain heap_owned list_layout (hmem h) head (map (\<lambda>v. [v]) vs) 0 U"

lemma list_layout_ok [simp]: "layout_ok list_layout"
  by (simp add: layout_ok_def list_layout_def sizeof_ListNode_def)

lemma unat_8: "unat (8 :: u32) = 8" by simp

lemma list_layout_simps [simp]:
  "cell_size list_layout = 8" "cell_fields list_layout m p = [list_value m p]"
  "cell_next list_layout m p = list_next m p" "link list_layout = 4"
  by (simp_all add: list_layout_def sizeof_ListNode_def cell_fields_def cell_next_def
      list_value_def list_next_def)

lemmas list_relink =
  kheap.chain_relink [OF list_layout_ok, unfolded list_layout_simps, folded set_list_next_def]

text \<open>The walks end where the chain does.\<close>

lemma list_last_chain:
  assumes "chain heap_owned list_layout m p vs t V" "t \<noteq> 0" "list_next m t = 0"
  shows "list_last m p = Some t"
  using assms(1)
proof (induction vs arbitrary: p V)
  case Nil
  then show ?case using assms(3) by (simp add: list_last.simps)
next
  case (Cons v vs)
  then obtain V' where c: "chain heap_owned list_layout m (list_next m p) vs t V'" by auto
  then have "list_next m p \<noteq> 0"
    using assms(2) heap_owned_region by (cases vs) auto
  then show ?case using Cons.IH [OF c] by (simp add: list_last.simps [of m p])
qed

lemma list_find_stop: "p = 0 \<or> list_value m p = item \<Longrightarrow> list_find m item prev p = Some (prev, p)"
  by (subst list_find.simps) auto

lemma list_find_step:
  "p \<noteq> 0 \<Longrightarrow> list_value m p \<noteq> item \<Longrightarrow>
    list_find m item prev p = list_find m item p (list_next m p)"
  by (subst list_find.simps) auto

lemma list_find_chain:
  assumes "chain heap_owned list_layout m p (map (\<lambda>v. [v]) vs) t V"
    and "t \<noteq> 0" "list_value m t = u" "list_next m t = q"
    and "item \<notin> set vs" "u \<noteq> item" "q = 0 \<or> list_value m q = item"
  shows "list_find m item prev p = Some (t, q)"
  using assms(1,5)
proof (induction vs arbitrary: p V prev)
  case Nil
  have "p = t" using Nil by simp
  with list_find_step [of t m item prev] list_find_stop [OF assms(7)] assms(2-4,6) show ?case
    by simp
next
  case (Cons v vs)
  then obtain B V' where c: "heap_owned m p 8 B" "list_value m p = v"
    "chain heap_owned list_layout m (list_next m p) (map (\<lambda>v. [v]) vs) t V'" by auto
  then have "p \<noteq> 0" using heap_owned_region by blast
  then have "list_find m item prev p = list_find m item p (list_next m p)"
    using c(2) Cons.prems(2) by (intro list_find_step) auto
  with Cons.IH [OF c(3)] Cons.prems(2) show ?case by simp
qed

lemma list_find_absent:
  assumes "chain heap_owned list_layout m p (map (\<lambda>v. [v]) vs) 0 V" "item \<notin> set vs"
  shows "\<exists>r. list_find m item prev p = Some (r, 0)"
  using assms
proof (induction vs arbitrary: p V prev)
  case Nil
  then show ?case by (simp add: list_find_stop)
next
  case (Cons v vs)
  then obtain B V' where c: "heap_owned m p 8 B" "list_value m p = v"
    "chain heap_owned list_layout m (list_next m p) (map (\<lambda>v. [v]) vs) 0 V'" by auto
  then have "p \<noteq> 0" using heap_owned_region by blast
  then have "list_find m item prev p = list_find m item p (list_next m p)"
    using c(2) Cons.prems(2) by (intro list_find_step) auto
  with Cons.IH [OF c(3)] Cons.prems(2) show ?case by simp
qed

section \<open>Adding\<close>

text \<open>A new cell, written: the list is as it was, and the cell is a list of its own.\<close>

lemma new_list_node:
  assumes "list_rep h head vs F U" "malloc h sizeof_ListNode = Some (c, h1)" "c \<noteq> 0"
    and "m = set_list_next (set_list_value (hmem h1) c v) c q"
  obtains B where "B \<subseteq> F" "heap_ok (heap_write m h1) (F - B)"
    "chain heap_owned list_layout m c [[v]] q B"
    "chain heap_owned list_layout m head (map (\<lambda>v. [v]) vs) 0 U"
proof -
  have *: "malloc h (cell_size list_layout) = Some (c, h1)"
    using assms(2) by (simp add: sizeof_ListNode_def)
  from assms(1) have l: "heap_ok h F" "chain heap_owned list_layout (hmem h) head (map (\<lambda>v. [v]) vs) 0 U"
    "U \<inter> F = {}" by (simp_all add: list_rep_def)
  obtain B where B: "B \<subseteq> F" "unat c + 8 \<le> 2 ^ 32" "region c 8 \<subseteq> B"
    "\<And>m. unchanged_outside (region c 8) (hmem h1) m \<Longrightarrow>
      heap_ok (heap_write m h1) (F - B) \<and> heap_owned m c 8 B \<and>
      chain heap_owned list_layout m head (map (\<lambda>v. [v]) vs) 0 U"
    by (rule kheap.new_cell [OF list_layout_ok l * assms(3)], unfold list_layout_simps unat_8) rule
  have un: "unat (c + 4) = unat c + 4" using unat_plus_small [of c 4] B(2) by simp
  have "region c 4 \<subseteq> region c 8" "region (c + 4) 4 \<subseteq> region c 8"
    using region_mono [of 4 8 c] region_sub [of 4 4 8 c] by auto
  then have "unchanged_outside (region c 8) (hmem h1) m"
    unfolding assms(4) set_list_next_def set_list_value_def by (intro unchanged_write32) auto
  from B(4) [OF this] have b: "heap_ok (heap_write m h1) (F - B)" "heap_owned m c 8 B"
    "chain heap_owned list_layout m head (map (\<lambda>v. [v]) vs) 0 U" by blast+
  have "list_value m c = v" "list_next m c = q"
    using B(2) un by (simp_all add: assms(4) list_value_def list_next_def set_list_next_def
        set_list_value_def mem_simps)
  then have "chain heap_owned list_layout m c [[v]] q B"
    using b(2) by (intro kheap.chain_single) auto
  with B(1) b show thesis by (blast intro: that)
qed

lemma list_add_head_correct:
  assumes "list_rep h head vs F U"
  shows "list_add_head h head v = Some (-1, head, h) \<or>
    (\<exists>head' h' F' U'. list_add_head h head v = Some (0, head', h') \<and>
      list_rep h' head' (v # vs) F' U' \<and> F' \<union> U' = F \<union> U)"
proof -
  have ok: "heap_ok h F" "unat sizeof_ListNode + 135 < 2 ^ 32"
    using assms by (simp_all add: list_rep_def sizeof_ListNode_def)
  obtain c h1 where al: "malloc h sizeof_ListNode = Some (c, h1)"
    using kheap.alloc_total [OF ok] by blast
  show ?thesis
  proof (cases "c = 0")
    case True
    with al kheap.alloc_null [OF ok] show ?thesis by (simp add: list_add_head_def)
  next
    case False
    define m where "m = set_list_next (set_list_value (hmem h1) c v) c head"
    obtain B where B: "B \<subseteq> F" "heap_ok (heap_write m h1) (F - B)"
      "chain heap_owned list_layout m c [[v]] head B"
      "chain heap_owned list_layout m head (map (\<lambda>v. [v]) vs) 0 U"
      by (rule new_list_node [OF assms al False m_def])
    have "U \<inter> F = {}" using assms by (simp add: list_rep_def)
    with B have "chain heap_owned list_layout m c ([[v]] @ map (\<lambda>v. [v]) vs) 0 (B \<union> U)"
      unfolding chain_append by blast
    then have "list_rep (heap_write m h1) c (v # vs) (F - B) (B \<union> U)"
      using B(1,2) \<open>U \<inter> F = {}\<close> by (auto simp: list_rep_def heap_write_def)
    moreover have "list_add_head h head v = Some (0, c, heap_write m h1)"
      using al False by (simp add: list_add_head_def m_def Let_def)
    moreover have "(F - B) \<union> (B \<union> U) = F \<union> U" using B(1) by blast
    ultimately show ?thesis by blast
  qed
qed

lemma list_add_tail_correct:
  assumes "list_rep h head vs F U"
  shows "\<exists>p h1. malloc h sizeof_ListNode = Some (p, h1) \<and>
    (if p = 0 then list_add_tail h head v = Some (-1, head, h)
     else \<exists>head' h' F' U'. list_add_tail h head v = Some (0, head', h') \<and>
       list_rep h' head' (vs @ [v]) F' U' \<and> F' \<union> U' = F \<union> U)"
proof -
  have ok: "heap_ok h F" "unat sizeof_ListNode + 135 < 2 ^ 32"
    using assms by (simp_all add: list_rep_def sizeof_ListNode_def)
  obtain c h1 where al: "malloc h sizeof_ListNode = Some (c, h1)"
    using kheap.alloc_total [OF ok] by blast
  show ?thesis
  proof (cases "c = 0")
    case True
    with al kheap.alloc_null [OF ok] show ?thesis by (simp add: list_add_tail_def)
  next
    case False
    define m where "m = set_list_next (set_list_value (hmem h1) c v) c 0"
    obtain B where B: "B \<subseteq> F" "heap_ok (heap_write m h1) (F - B)"
      "chain heap_owned list_layout m c [[v]] 0 B"
      "chain heap_owned list_layout m head (map (\<lambda>v. [v]) vs) 0 U"
      by (rule new_list_node [OF assms al False m_def])
    have UF: "U \<inter> F = {}" using assms by (simp add: list_rep_def)
    have FU: "(F - B) \<union> (U \<union> B) = F \<union> U" using B(1) by blast
    show ?thesis
    proof (cases "vs = []")
      case True
      with B(4) have "head = 0" "U = {}" by auto
      moreover have "list_rep (heap_write m h1) c [v] (F - B) B"
        using B(2,3) by (auto simp: list_rep_def heap_write_def)
      ultimately show ?thesis using al False True FU
        by (auto simp: list_add_tail_def m_def [symmetric] Let_def)
    next
      case False2: False
      then obtain us u where vs: "vs = us @ [u]" by (meson rev_exhaust)
      have "head \<noteq> 0" using kheap.chain_null [OF B(4)] False2 by simp
      obtain t V where t: "chain heap_owned list_layout m head (map (\<lambda>v. [v]) us) t V"
        "V \<subseteq> U" "list_next m t = 0" "t \<noteq> 0" "[list_value m t] = [u]"
        "\<And>r. chain heap_owned list_layout (set_list_next m t r) head (map (\<lambda>v. [v]) us @ [[u]]) r U"
        "\<And>r. unchanged_outside U m (set_list_next m t r)"
        by (rule list_relink [OF B(4) [unfolded vs map_append list.map]]) (rule that)
      let ?m = "set_list_next m t c"
      have "U \<inter> B = {}" using B(1) UF by blast
      then have "chain heap_owned list_layout ?m c [[v]] 0 B"
        using kheap.chain_frame [OF list_layout_ok B(3) t(7)] by blast
      with t(6) [of c] \<open>U \<inter> B = {}\<close>
      have "chain heap_owned list_layout ?m head (map (\<lambda>v. [v]) (vs @ [v])) 0 (U \<union> B)"
        unfolding vs map_append list.map using chain_appendI by blast
      moreover have "heap_ok (heap_write ?m h1) (F - B)"
      proof -
        have "unchanged_outside (- (F - B)) (hmem (heap_write m h1)) ?m"
          using t(7) [of c] UF by (auto simp: heap_write_def elim!: unchanged_mono)
        from heap_ok_write [OF B(2) this] show ?thesis by (simp add: heap_write_def)
      qed
      ultimately have "list_rep (heap_write ?m h1) head (vs @ [v]) (F - B) (U \<union> B)"
        using UF by (auto simp: list_rep_def heap_write_def)
      moreover have "list_add_tail h head v = Some (0, head, heap_write ?m h1)"
        using al False \<open>head \<noteq> 0\<close> list_last_chain [OF t(1,4,3)]
        by (simp add: list_add_tail_def m_def [symmetric] Let_def)
      ultimately show ?thesis using FU al False by auto
    qed
  qed
qed

section \<open>Removing\<close>

lemma free_list_node:
  assumes "heap_ok h F" "chain heap_owned list_layout (hmem h) head (map (\<lambda>v. [v]) vs) 0 V"
    and "heap_owned (hmem h) c 8 B" "B \<inter> F = {}" "V \<inter> (F \<union> B) = {}"
  obtains h' where "free h c = Some h'" "list_rep h' head vs (F \<union> B) V"
proof -
  have c: "heap_owned (hmem h) c (cell_size list_layout) B" using assms(3) by simp
  obtain h' where "free h c = Some h'" "heap_ok h' (F \<union> B)"
    "chain heap_owned list_layout (hmem h') head (map (\<lambda>v. [v]) vs) 0 V"
    by (rule kheap.release_cell [OF list_layout_ok assms(1) c assms(4,2,5)])
  then show thesis using assms(5) by (intro that) (simp_all add: list_rep_def)
qed

lemma list_remove_head:
  assumes "list_rep h head (v # vs) F U"
  shows "\<exists>head' h' F' U'. list_remove h head v = Some (0, head', h') \<and>
    list_rep h' head' vs F' U' \<and> F' \<union> U' = F \<union> U"
proof -
  from assms have l: "heap_ok h F" "U \<inter> F = {}"
    "chain heap_owned list_layout (hmem h) head (map (\<lambda>v. [v]) (v # vs)) 0 U"
    by (simp_all add: list_rep_def)
  from l(3) obtain B V where c: "heap_owned (hmem h) head 8 B" "B \<inter> V = {}" "U = B \<union> V"
    "list_value (hmem h) head = v"
    "chain heap_owned list_layout (hmem h) (list_next (hmem h) head) (map (\<lambda>v. [v]) vs) 0 V" by auto
  have "B \<inter> F = {}" "V \<inter> (F \<union> B) = {}" using c(2,3) l(2) by auto
  with free_list_node [OF l(1) c(5,1)] obtain h' where
    "free h head = Some h'" "list_rep h' (list_next (hmem h) head) vs (F \<union> B) V" by blast
  moreover have "head \<noteq> 0" using heap_owned_region [OF c(1)] by simp
  moreover have "(F \<union> B) \<union> V = F \<union> U" using c(3) by blast
  ultimately show ?thesis using c(4) by (auto simp: list_remove_def Let_def)
qed

lemma list_remove_later:
  assumes "list_rep h head ((us @ [u]) @ v # ws) F U" "v \<notin> set (us @ [u])"
  shows "\<exists>h' F' U'. list_remove h head v = Some (0, head, h') \<and>
    list_rep h' head ((us @ [u]) @ ws) F' U' \<and> F' \<union> U' = F \<union> U"
proof -
  let ?c = "chain heap_owned list_layout" and ?f = "map (\<lambda>v. [v])" and ?m = "hmem h"
  from assms(1) have l: "heap_ok h F" "U \<inter> F = {}"
    "?c ?m head (?f (us @ [u]) @ ?f (v # ws)) 0 U" by (simp_all add: list_rep_def)
  from l(3) obtain q V W where s: "?c ?m head (?f (us @ [u])) q V" "?c ?m q (?f (v # ws)) 0 W"
    "V \<inter> W = {}" "U = V \<union> W" unfolding chain_append [of _ _ _ _ "?f (us @ [u])"] by blast
  from s(2) obtain B X where c: "heap_owned ?m q 8 B" "B \<inter> X = {}" "W = B \<union> X"
    "list_value ?m q = v" "?c ?m (list_next ?m q) (?f ws) 0 X" by auto
  have q: "q \<noteq> 0" using heap_owned_region [OF c(1)] by simp
  obtain t T where t: "?c ?m head (?f us) t T" "T \<subseteq> V" "list_next ?m t = q" "t \<noteq> 0"
    "[list_value ?m t] = [u]" "\<And>r. ?c (set_list_next ?m t r) head (?f us @ [[u]]) r V"
    "\<And>r. unchanged_outside V ?m (set_list_next ?m t r)"
    by (rule list_relink [OF s(1) [unfolded map_append list.map]]) (rule that)
  have find: "list_find ?m v 0 head = Some (t, q)"
    using t(3-5) assms(2) c(4) by (intro list_find_chain [OF t(1)]) auto
  have head: "head = 0 \<or> list_value ?m head \<noteq> v"
  proof (cases us)
    case Nil
    then show ?thesis using t(1,5) assms(2) by auto
  next
    case (Cons a as)
    then show ?thesis using t(1) assms(2) by auto
  qed
  let ?m' = "set_list_next ?m t (list_next ?m q)"
  let ?h = "heap_write ?m' h"
  have VX: "V \<inter> X = {}" "V \<inter> B = {}" using s(3) c(3) by auto
  have rest: "?c ?m' (list_next ?m q) (?f ws) 0 X"
    using kheap.chain_frame [OF list_layout_ok c(5) t(7)] VX(1) by blast
  have "?c ?m' head ((?f us @ [[u]]) @ ?f ws) 0 (V \<union> X)"
    using chain_appendI [OF t(6) rest VX(1) refl] .
  then have chain': "?c (hmem ?h) head (?f ((us @ [u]) @ ws)) 0 (V \<union> X)" by (simp add: heap_write_def)
  have "V \<subseteq> - F" using s(4) l(2) by blast
  then have ok': "heap_ok ?h F" by (rule heap_ok_write [OF l(1) unchanged_mono [OF t(7)]])
  have own': "heap_owned (hmem ?h) q 8 B"
  proof -
    have "unchanged_outside (region q (unat (8 :: u32)) \<union> - B) ?m ?m'"
      by (rule unchanged_mono [OF t(7)]) (use VX(2) in blast)
    from heap_owned_stable [OF c(1) this] show ?thesis by (simp add: heap_write_def)
  qed
  have "B \<inter> F = {}" "(V \<union> X) \<inter> (F \<union> B) = {}" using s(4) c(2,3) l(2) VX by auto
  with free_list_node [OF ok' chain' own'] obtain h' where
    "free ?h q = Some h'" "list_rep h' head ((us @ [u]) @ ws) (F \<union> B) (V \<union> X)" by blast
  moreover have "list_remove h head v = (case free ?h q of None \<Rightarrow> None | Some h' \<Rightarrow> Some (0, head, h'))"
    using head find q by (auto simp: list_remove_def Let_def)
  moreover have "(F \<union> B) \<union> (V \<union> X) = F \<union> U" using s(4) c(3) by blast
  ultimately show ?thesis by auto
qed

lemma list_remove_absent:
  assumes "list_rep h head vs F U" "v \<notin> set vs"
  shows "list_remove h head v = Some (-1, head, h)"
proof -
  from assms(1) have c: "chain heap_owned list_layout (hmem h) head (map (\<lambda>v. [v]) vs) 0 U"
    by (simp add: list_rep_def)
  then have "\<not> (head \<noteq> 0 \<and> list_value (hmem h) head = v)"
    using assms(2) by (cases vs) auto
  with list_find_absent [OF c assms(2), of 0] show ?thesis by (auto simp: list_remove_def)
qed

lemma list_remove_correct:
  assumes "list_rep h head vs F U"
  shows "if v \<in> set vs
    then \<exists>head' h' F' U'. list_remove h head v = Some (0, head', h') \<and>
      list_rep h' head' (remove1 v vs) F' U' \<and> F' \<union> U' = F \<union> U
    else list_remove h head v = Some (-1, head, h)"
proof (cases "v \<in> set vs")
  case True
  then obtain us ws where vs: "vs = us @ v # ws" "v \<notin> set us" by (meson split_list_first)
  then have rm: "remove1 v vs = us @ ws" by (simp add: remove1_append)
  show ?thesis
  proof (cases us rule: rev_cases)
    case Nil
    with list_remove_head [of h head v ws F U] assms vs True show ?thesis by simp
  next
    case (snoc us' u)
    with list_remove_later [of h head us' u v ws F U] assms vs True rm show ?thesis by fastforce
  qed
qed (use list_remove_absent [OF assms] in simp)

section \<open>Properties\<close>

text \<open>
  C11: \<open>list_add_tail\<close> appends: it always returns; \<open>-1\<close> with nothing changed exactly when \<open>malloc\<close>
  has no node to give, otherwise 0 with the value at the end, and the only bytes that change hands
  are those of the new node.
\<close>

theorem list_add_tail_appends:
  assumes "list_rep h head vs F U"
  shows "\<exists>p h1. malloc h sizeof_ListNode = Some (p, h1) \<and>
    (if p = 0 then list_add_tail h head v = Some (-1, head, h)
     else \<exists>head' h' F' U'. list_add_tail h head v = Some (0, head', h') \<and>
       list_rep h' head' (vs @ [v]) F' U' \<and> F' \<union> U' = F \<union> U)"
  using assms by (rule list_add_tail_correct)

lemma list_rep_empty: "heap_ok h F \<Longrightarrow> list_rep h 0 [] F {}"
  by (simp add: list_rep_def)

lemma example_heap_F: "heap_ok example_heap (free_region [(4096, 8192)])"
  using example_heap_ok by (auto simp: heap_ok_def)

lemma example_node: obtains p h' where "malloc example_heap 8 = Some (p, h')" "p \<noteq> 0"
proof -
  have "fits 8 8 (4096, 8192)"
    by (simp add: fits_def node_offset_def sizeof_AllocatedRegionHeader_def)
  then show thesis using that malloc_one_node [of example_heap 4096 8192 8 thesis] example_heap_ok by auto
qed

theorem list_add_tail_appends_witness:
  "\<exists>head' h' F U. list_add_tail example_heap 0 42 = Some (0, head', h') \<and> list_rep h' head' [42] F U"
proof -
  obtain p h' where "malloc example_heap 8 = Some (p, h')" "p \<noteq> 0" by (rule example_node)
  then show ?thesis
    using list_add_tail_appends [OF list_rep_empty [OF example_heap_F], of 42] by (auto simp: sizeof_ListNode_def)
qed

text \<open>\<open>list_add_head\<close> puts the value in front, under the same conditions.\<close>

theorem list_add_head_conses:
  assumes "list_rep h head vs F U"
  shows "list_add_head h head v = Some (-1, head, h) \<or>
    (\<exists>head' h' F' U'. list_add_head h head v = Some (0, head', h') \<and>
      list_rep h' head' (v # vs) F' U' \<and> F' \<union> U' = F \<union> U)"
  using assms by (rule list_add_head_correct)

theorem list_add_head_conses_witness:
  "\<exists>r head' h' vs F U. list_add_head example_heap 0 42 = Some (r, head', h') \<and> list_rep h' head' vs F U"
  using list_add_head_conses [OF list_rep_empty [OF example_heap_F], of 42] list_rep_empty [OF example_heap_F] by blast

text \<open>
  C12: \<open>list_remove\<close> removes the first node with the value and frees exactly its block; when no
  node has the value it returns \<open>-1\<close> and changes nothing.
\<close>

theorem list_remove_removes:
  assumes "list_rep h head vs F U"
  shows "if v \<in> set vs
    then \<exists>head' h' F' U'. list_remove h head v = Some (0, head', h') \<and>
      list_rep h' head' (remove1 v vs) F' U' \<and> F' \<union> U' = F \<union> U
    else list_remove h head v = Some (-1, head, h)"
  using assms by (rule list_remove_correct)

lemma example_list:
  obtains head h1 F U where "list_add_head example_heap 0 7 = Some (0, head, h1)" "list_rep h1 head [7] F U"
proof -
  obtain p h' where "malloc example_heap 8 = Some (p, h')" "p \<noteq> 0" by (rule example_node)
  then have "list_add_head example_heap 0 7 \<noteq> Some (-1, 0, example_heap)"
    by (simp add: list_add_head_def sizeof_ListNode_def)
  with list_add_head_correct [OF list_rep_empty [OF example_heap_F], of 7] that show thesis by blast
qed

text \<open>Adding 7 and removing it gives the empty list and all the memory back.\<close>

theorem list_remove_removes_witness:
  "\<exists>head h1 head' h2 F. list_add_head example_heap 0 7 = Some (0, head, h1) \<and>
     list_remove h1 head 7 = Some (0, head', h2) \<and> list_rep h2 head' [] F {}"
proof -
  obtain head h1 F U where l: "list_add_head example_heap 0 7 = Some (0, head, h1)"
    "list_rep h1 head [7] F U" by (rule example_list)
  from list_remove_removes [OF l(2), of 7] obtain head' h2 F' U' where
    "list_remove h1 head 7 = Some (0, head', h2)" "list_rep h2 head' [] F' U'" by auto
  moreover from this(2) have "U' = {}" by (simp add: list_rep_def)
  ultimately show ?thesis using l(1) by blast
qed

end
