(* ===== verification/Events.thy ===== *)
theory Events
  imports LinkedList
begin

text \<open>
  The event queue of \<open>events.c\<close>: interrupt handlers add events, the main loop calls them. An
  \<open>Event\<close> is three words on the kernel heap: \<open>handler\<close>, \<open>args\<close>, \<open>next\<close>. The handlers are code of
  other components: calling one is the argument \<open>run\<close> of \<open>call_next_event\<close>.
\<close>

section \<open>State and operations\<close>

record event_queue =
  ev_heap :: heap
  ev_head :: addr
  ev_tail :: addr
  event_count :: int

definition sizeof_Event :: u32 where "sizeof_Event = 12"

definition event_handler :: "memory \<Rightarrow> addr \<Rightarrow> u32" where "event_handler m p = read32 m p"
definition event_args :: "memory \<Rightarrow> addr \<Rightarrow> u32" where "event_args m p = read32 m (p + 4)"
definition event_next :: "memory \<Rightarrow> addr \<Rightarrow> addr" where "event_next m p = read32 m (p + 8)"

definition set_event_handler :: "memory \<Rightarrow> addr \<Rightarrow> u32 \<Rightarrow> memory" where
  "set_event_handler m p v = write32 m p v"

definition set_event_args :: "memory \<Rightarrow> addr \<Rightarrow> u32 \<Rightarrow> memory" where
  "set_event_args m p v = write32 m (p + 4) v"

definition set_event_next :: "memory \<Rightarrow> addr \<Rightarrow> addr \<Rightarrow> memory" where
  "set_event_next m p v = write32 m (p + 8) v"

lemmas event_defs = event_handler_def event_args_def event_next_def set_event_handler_def
  set_event_args_def set_event_next_def

text \<open>The result of \<open>malloc\<close> is not checked: with no memory the event is written at \<open>NULL\<close>.\<close>

definition write_event :: "memory \<Rightarrow> addr \<Rightarrow> u32 \<Rightarrow> u32 \<Rightarrow> memory" where
  "write_event m p handler args =
     set_event_args (set_event_next (set_event_handler m p handler) p 0) p args"

definition add_event ::
  "'a event_queue_scheme \<Rightarrow> u32 \<Rightarrow> u32 \<Rightarrow> 'a event_queue_scheme option" where
  "add_event s handler args =
     (case malloc (ev_heap s) sizeof_Event of
        None \<Rightarrow> None
      | Some (new_event, h1) \<Rightarrow>
          let m = write_event (hmem h1) new_event handler args;
              m = (if ev_tail s \<noteq> 0 then set_event_next m (ev_tail s) new_event else m)
          in Some (s\<lparr>ev_heap := heap_write m h1,
                     ev_head := (if ev_head s = 0 then new_event else ev_head s),
                     ev_tail := new_event, event_count := event_count s + 1\<rparr>))"

definition call_next_event ::
  "(u32 \<Rightarrow> u32 \<Rightarrow> 'a event_queue_scheme \<Rightarrow> 'a event_queue_scheme option) \<Rightarrow>
    'a event_queue_scheme \<Rightarrow> 'a event_queue_scheme option" where
  "call_next_event run s =
     (if ev_head s = 0 then Some s
      else let m = hmem (ev_heap s); handler = event_handler m (ev_head s);
               args = event_args m (ev_head s); nxt = ev_head s
           in case free (ev_heap s) nxt of
                None \<Rightarrow> None
              | Some h' \<Rightarrow> run handler args
                  (s\<lparr>ev_heap := h', ev_head := event_next m nxt, event_count := event_count s - 1\<rparr>))"

definition get_event_count :: "'a event_queue_scheme \<Rightarrow> int" where
  "get_event_count s = event_count s"

section \<open>Abstraction\<close>

definition event_layout :: layout where
  "event_layout = \<lparr>cell_size = sizeof_Event, cell_offsets = [0, 4], link = 8\<rparr>"

abbreviation event_cell :: "u32 \<times> u32 \<Rightarrow> u32 list" where
  "event_cell e \<equiv> [fst e, snd e]"

lemma event_layout_ok [simp]: "layout_ok event_layout"
  by (simp add: layout_ok_def event_layout_def sizeof_Event_def)

lemma unat_12: "unat (12 :: u32) = 12" by simp

lemma event_layout_simps [simp]:
  "cell_size event_layout = 12" "cell_fields event_layout m p = [event_handler m p, event_args m p]"
  "cell_next event_layout m p = event_next m p" "link event_layout = 8"
  by (simp_all add: event_layout_def sizeof_Event_def cell_fields_def cell_next_def event_defs)

lemmas event_relink =
  kheap.chain_relink [OF event_layout_ok, unfolded event_layout_simps, folded set_event_next_def]

text \<open>
  The queue holds the events \<open>q\<close>, oldest first, in the bytes \<open>U\<close>. The tail pointer is the last
  cell, and \<open>NULL\<close> when there is none.
\<close>

definition events_rep :: "'a event_queue_scheme \<Rightarrow> (u32 \<times> u32) list \<Rightarrow> addr set \<Rightarrow> addr set \<Rightarrow> bool" where
  "events_rep s q F U \<longleftrightarrow> heap_ok (ev_heap s) F \<and> U \<inter> F = {} \<and>
     chain heap_owned event_layout (hmem (ev_heap s)) (ev_head s) (map event_cell q) 0 U \<and>
     event_count s = int (length q) \<and>
     (if q = [] then ev_tail s = 0
      else \<exists>V \<subseteq> U. chain heap_owned event_layout (hmem (ev_heap s)) (ev_head s)
        (map event_cell (butlast q)) (ev_tail s) V)"

lemma chain_end_unique:
  "chain own L m p vs q U \<Longrightarrow> chain own L m p vs q' U' \<Longrightarrow> q = q'"
  by (induction vs arbitrary: p U U') auto

section \<open>Adding\<close>

lemma write_event_reads:
  assumes "unat p + 12 \<le> 2 ^ 32"
  shows "event_handler (write_event m p hr a) p = hr" "event_args (write_event m p hr a) p = a"
    and "event_next (write_event m p hr a) p = 0"
    and "unchanged_outside (region p 12) m (write_event m p hr a)"
proof -
  have un: "unat (p + 4) = unat p + 4" "unat (p + 8) = unat p + 8"
    using unat_plus_small [of p 4] unat_plus_small [of p 8] assms by simp_all
  show "event_handler (write_event m p hr a) p = hr" "event_args (write_event m p hr a) p = a"
    "event_next (write_event m p hr a) p = 0"
    using assms un by (simp_all add: write_event_def event_defs mem_simps)
  have "region p 4 \<subseteq> region p 12" "region (p + 4) 4 \<subseteq> region p 12" "region (p + 8) 4 \<subseteq> region p 12"
    using region_mono [of 4 12 p] region_sub [of 4 4 12 p] region_sub [of 8 4 12 p] by auto
  then show "unchanged_outside (region p 12) m (write_event m p hr a)"
    unfolding write_event_def event_defs by (intro unchanged_write32 unchanged_refl)
qed

text \<open>The block \<open>B\<close> at \<open>p\<close>, just allocated for an event.\<close>

definition event_block :: "'a event_queue_scheme \<Rightarrow> addr set \<Rightarrow> addr \<Rightarrow> heap \<Rightarrow> addr set \<Rightarrow> bool" where
  "event_block s F p h1 B \<longleftrightarrow> malloc (ev_heap s) sizeof_Event = Some (p, h1) \<and> p \<noteq> 0 \<and> B \<subseteq> F \<and>
     heap_ok h1 (F - B) \<and> heap_owned (hmem h1) p sizeof_Event B \<and>
     unchanged_outside F (hmem (ev_heap s)) (hmem h1)"

lemma event_block_exists:
  assumes "heap_ok (ev_heap s) F" "malloc (ev_heap s) sizeof_Event = Some (p, h1)" "p \<noteq> 0"
  obtains B where "event_block s F p h1 B"
  using kheap.alloc_ok [OF assms(1) _ _ assms(2,3)] assms(2,3)
  by (auto simp: event_block_def sizeof_Event_def)

lemma new_event_cell:
  assumes r: "events_rep s q F U" and b: "event_block s F p h1 B" and m: "m = write_event (hmem h1) p hr a"
  shows "heap_ok (heap_write m h1) (F - B)" "unchanged_outside F (hmem (ev_heap s)) m"
    "chain heap_owned event_layout m p [[hr, a]] 0 B"
    "\<And>vs t V. V \<subseteq> U \<Longrightarrow> chain heap_owned event_layout (hmem (ev_heap s)) (ev_head s) vs t V \<Longrightarrow>
      chain heap_owned event_layout m (ev_head s) vs t V"
proof -
  from r have l: "heap_ok (ev_heap s) F" "U \<inter> F = {}"
    "chain heap_owned event_layout (hmem (ev_heap s)) (ev_head s) (map event_cell q) 0 U"
    by (simp_all add: events_rep_def)
  from b have B: "heap_ok h1 (F - B)" "heap_owned (hmem h1) p (cell_size event_layout) B" "B \<subseteq> F"
    "unchanged_outside F (hmem (ev_heap s)) (hmem h1)"
    by (simp_all add: event_block_def sizeof_Event_def)
  have p: "unat p + 12 \<le> 2 ^ 32" "region p 12 \<subseteq> B" using heap_owned_region [OF B(2)] by auto
  note w = write_event_reads [OF p(1), of "hmem h1" hr a, folded m]
  have cell: "unchanged_outside (region p (unat (cell_size event_layout))) (hmem h1) m" using w(4) by simp
  from kheap.write_cell [OF event_layout_ok B l(3,2) cell]
  have k: "heap_ok (heap_write m h1) (F - B)" "heap_owned m p 12 B" by simp_all
  show "heap_ok (heap_write m h1) (F - B)" by (rule k)
  show "chain heap_owned event_layout m p [[hr, a]] 0 B"
    using k(2) w(1-3) by (intro kheap.chain_single) auto
  have "unchanged_outside F (hmem h1) m" using w(4) by (rule unchanged_mono) (use B(3) p(2) in blast)
  with B(4) show un: "unchanged_outside F (hmem (ev_heap s)) m" by (rule unchanged_trans)
  show "chain heap_owned event_layout m (ev_head s) vs t V"
    if V: "V \<subseteq> U" "chain heap_owned event_layout (hmem (ev_heap s)) (ev_head s) vs t V" for vs t V
    using kheap.chain_frame [OF event_layout_ok V(2) un] V(1) l(2) by blast
qed

lemma add_event_block:
  assumes r: "events_rep s q F U" and b: "event_block s F p h1 B"
  shows "\<exists>s'. add_event s hr a = Some s' \<and> events_rep s' (q @ [(hr, a)]) (F - B) (U \<union> B) \<and>
    event_queue.more s' = event_queue.more s \<and>
    unchanged_outside (F \<union> U) (hmem (ev_heap s)) (hmem (ev_heap s'))"
proof -
  let ?c = "chain heap_owned event_layout"
  define m where "m = write_event (hmem h1) p hr a"
  note B = new_event_cell [OF r b m_def]
  have al: "malloc (ev_heap s) sizeof_Event = Some (p, h1)" "p \<noteq> 0" "B \<subseteq> F"
    using b by (simp_all add: event_block_def)
  from r have q: "U \<inter> F = {}" "?c (hmem (ev_heap s)) (ev_head s) (map event_cell q) 0 U"
    "event_count s = int (length q)" by (simp_all add: events_rep_def)
  note c = B(4) [OF subset_refl q(2)]
  have FU: "U \<inter> B = {}" "(U \<union> B) \<inter> (F - B) = {}" using al(3) q(1) by auto
  have unF: "unchanged_outside (F \<union> U) (hmem (ev_heap s)) m" using B(2) by (rule unchanged_mono) blast
  show ?thesis
  proof (cases "q = []")
    case True
    with q(2) r have e: "ev_head s = 0" "U = {}" "ev_tail s = 0" by (auto simp: events_rep_def)
    define s' where "s' = s\<lparr>ev_heap := heap_write m h1, ev_head := p, ev_tail := p,
      event_count := event_count s + 1\<rparr>"
    have "add_event s hr a = Some s'"
      using al e by (simp add: add_event_def m_def s'_def Let_def)
    moreover have "events_rep s' [(hr, a)] (F - B) B"
      using B(1,3) q(3) True by (auto simp: events_rep_def s'_def heap_write_def)
    ultimately show ?thesis using unF True e(2) by (simp add: s'_def heap_write_def)
  next
    case False
    then obtain us u where us: "q = us @ [u]" by (meson rev_exhaust)
    obtain t V where t: "?c m (ev_head s) (map event_cell us) t V" "V \<subseteq> U" "event_next m t = 0" "t \<noteq> 0"
      "[event_handler m t, event_args m t] = event_cell u"
      "\<And>r. ?c (set_event_next m t r) (ev_head s) (map event_cell us @ [event_cell u]) r U"
      "\<And>r. unchanged_outside U m (set_event_next m t r)"
      by (rule event_relink [OF c [unfolded us map_append list.map]]) (rule that)
    from r us obtain V' where V': "V' \<subseteq> U"
      "?c (hmem (ev_heap s)) (ev_head s) (map event_cell us) (ev_tail s) V'"
      by (auto simp: events_rep_def)
    have tail: "ev_tail s = t" using chain_end_unique [OF B(4) [OF V'] t(1)] .
    have head: "ev_head s \<noteq> 0" using kheap.chain_null [OF c] False by simp
    let ?m = "set_event_next m t p"
    define s' where "s' = s\<lparr>ev_heap := heap_write ?m h1, ev_head := ev_head s, ev_tail := p,
      event_count := event_count s + 1\<rparr>"
    have add: "add_event s hr a = Some s'"
      using al head t(4) tail by (simp add: add_event_def m_def s'_def Let_def)
    have new: "?c ?m p [[hr, a]] 0 B"
      using kheap.chain_frame [OF event_layout_ok B(3) t(7)] FU(1) by blast
    have full: "?c ?m (ev_head s) ((map event_cell us @ [event_cell u]) @ [[hr, a]]) 0 (U \<union> B)"
      using chain_appendI [OF t(6) new FU(1) refl] .
    have "U \<subseteq> - (F - B)" using q(1) by blast
    from heap_ok_write [OF B(1), of ?m] unchanged_mono [OF t(7) this]
    have ok: "heap_ok (heap_write ?m h1) (F - B)" by (simp add: heap_write_def)
    have "events_rep s' (q @ [(hr, a)]) (F - B) (U \<union> B)"
      unfolding events_rep_def
    proof (intro conjI)
      show "heap_ok (ev_heap s') (F - B)" using ok by (simp add: s'_def)
      show "(U \<union> B) \<inter> (F - B) = {}" by (rule FU(2))
      show "?c (hmem (ev_heap s')) (ev_head s') (map event_cell (q @ [(hr, a)])) 0 (U \<union> B)"
        using full us by (simp add: s'_def heap_write_def)
      show "event_count s' = int (length (q @ [(hr, a)]))" using q(3) by (simp add: s'_def)
      have "?c (hmem (ev_heap s')) (ev_head s') (map event_cell q) (ev_tail s') U"
        using t(6) [of p] us by (simp add: s'_def heap_write_def)
      then show "if q @ [(hr, a)] = [] then ev_tail s' = 0
        else \<exists>V \<subseteq> U \<union> B. ?c (hmem (ev_heap s')) (ev_head s')
          (map event_cell (butlast (q @ [(hr, a)]))) (ev_tail s') V" by auto
    qed
    moreover have "unchanged_outside (F \<union> U) (hmem (ev_heap s)) ?m"
      using unF unchanged_mono [OF t(7)] by (rule unchanged_trans) blast
    ultimately show ?thesis using add by (simp add: s'_def heap_write_def)
  qed
qed

lemma add_event_correct:
  assumes r: "events_rep s q F U" and al: "malloc (ev_heap s) sizeof_Event = Some (p, h1)" "p \<noteq> 0"
  shows "\<exists>s' F' U'. add_event s hr a = Some s' \<and> events_rep s' (q @ [(hr, a)]) F' U' \<and>
    F' \<union> U' = F \<union> U"
proof -
  have "heap_ok (ev_heap s) F" using r by (simp add: events_rep_def)
  then obtain B where B: "event_block s F p h1 B" using al by (rule event_block_exists)
  then have "(F - B) \<union> (U \<union> B) = F \<union> U" by (auto simp: event_block_def)
  then show ?thesis using add_event_block [OF r B, of hr a] by blast
qed

section \<open>Calling\<close>

lemma call_next_event_correct:
  assumes r: "events_rep s ((hr, a) # q) F U"
  shows "\<exists>s' B. call_next_event run s = run hr a s' \<and> B \<subseteq> U \<and> region (ev_head s) 12 \<subseteq> B \<and>
    ev_tail s' = ev_tail s \<and> event_count s' = int (length q) \<and>
    heap_ok (ev_heap s') (F \<union> B) \<and> (U - B) \<inter> (F \<union> B) = {} \<and>
    chain heap_owned event_layout (hmem (ev_heap s')) (ev_head s') (map event_cell q) 0 (U - B) \<and>
    (q \<noteq> [] \<longrightarrow> events_rep s' q (F \<union> B) (U - B)) \<and>
    event_queue.more s' = event_queue.more s \<and>
    unchanged_outside (F \<union> B) (hmem (ev_heap s)) (hmem (ev_heap s'))"
proof -
  let ?c = "chain heap_owned event_layout" and ?m = "hmem (ev_heap s)"
  from r have l: "heap_ok (ev_heap s) F" "U \<inter> F = {}"
    "?c ?m (ev_head s) (map event_cell ((hr, a) # q)) 0 U" "event_count s = int (length q) + 1"
    by (simp_all add: events_rep_def)
  from l(3) obtain B V where c: "heap_owned ?m (ev_head s) 12 B" "B \<inter> V = {}" "U = B \<union> V"
    "event_handler ?m (ev_head s) = hr" "event_args ?m (ev_head s) = a"
    "?c ?m (event_next ?m (ev_head s)) (map event_cell q) 0 V" by auto
  have o: "heap_owned ?m (ev_head s) (cell_size event_layout) B" using c(1) by simp
  have BF: "B \<inter> F = {}" "V \<inter> (F \<union> B) = {}" "U - B = V" using c(2,3) l(2) by auto
  obtain h' where h': "free (ev_heap s) (ev_head s) = Some h'" "heap_ok h' (F \<union> B)"
    "?c (hmem h') (event_next ?m (ev_head s)) (map event_cell q) 0 V"
    "unchanged_outside (F \<union> B) ?m (hmem h')"
    by (rule kheap.release_cell [OF event_layout_ok l(1) o BF(1) c(6) BF(2)])
  define s' where "s' = s\<lparr>ev_heap := h', ev_head := event_next ?m (ev_head s),
    event_count := event_count s - 1\<rparr>"
  have own: "ev_head s \<noteq> 0" "region (ev_head s) 12 \<subseteq> B" using heap_owned_region [OF c(1)] by auto
  have call: "call_next_event run s = run hr a s'"
    using own(1) h'(1) c(4,5) by (simp add: call_next_event_def Let_def s'_def)
  have rep: "events_rep s' q (F \<union> B) V" if ne: "q \<noteq> []"
  proof -
    from r ne obtain W where W: "W \<subseteq> U" "?c ?m (ev_head s) (map event_cell ((hr, a) # butlast q)) (ev_tail s) W"
      unfolding events_rep_def by auto
    then obtain W' where w: "?c ?m (event_next ?m (ev_head s)) (map event_cell (butlast q)) (ev_tail s) W'"
      by auto
    have "map event_cell q = map event_cell (butlast q) @ [event_cell (last q)]"
      using ne by (cases q rule: rev_cases) simp_all
    from c(6) [unfolded this chain_append] obtain t V1 V2 where
      v: "?c ?m (event_next ?m (ev_head s)) (map event_cell (butlast q)) t V1" "V = V1 \<union> V2" by blast
    from chain_end_unique [OF v(1) w] v(1)
    have "?c ?m (event_next ?m (ev_head s)) (map event_cell (butlast q)) (ev_tail s) V1" by simp
    from kheap.chain_frame [OF event_layout_ok this h'(4)]
    have "?c (hmem h') (event_next ?m (ev_head s)) (map event_cell (butlast q)) (ev_tail s) V1"
      using BF(2) v(2) by blast
    moreover have "V1 \<subseteq> V" using v(2) by blast
    ultimately show ?thesis using h'(2,3) BF(2) l(4) ne unfolding events_rep_def s'_def by auto
  qed
  have facts: "B \<subseteq> U" "ev_tail s' = ev_tail s" "event_count s' = int (length q)"
    "heap_ok (ev_heap s') (F \<union> B)" "?c (hmem (ev_heap s')) (ev_head s') (map event_cell q) 0 V"
    "event_queue.more s' = event_queue.more s" "unchanged_outside (F \<union> B) ?m (hmem (ev_heap s'))"
    using c(3) l(4) h' by (auto simp: s'_def)
  show ?thesis
    using call own(2) facts rep [folded BF(3)] BF(2)
    by (intro exI [of _ s'] exI [of _ B] conjI impI) (simp_all only: BF(3) not_False_eq_True)
qed

section \<open>Properties\<close>

text \<open>
  C13: \<open>add_event\<close> enqueues: with memory for the event, it goes behind those already waiting,
  the count goes up by one, and the only bytes that change hands are those of its block.
\<close>

theorem add_event_enqueues:
  assumes "events_rep s q F U" "malloc (ev_heap s) sizeof_Event = Some (p, h1)" "p \<noteq> 0"
  shows "\<exists>s' F' U'. add_event s hr a = Some s' \<and> events_rep s' (q @ [(hr, a)]) F' U' \<and>
    F' \<union> U' = F \<union> U"
  using assms by (rule add_event_correct)

definition events_boot :: event_queue where
  "events_boot = \<lparr>ev_heap = example_heap, ev_head = 0, ev_tail = 0, event_count = 0\<rparr>"

lemma events_boot_rep: "events_rep events_boot [] (free_region [(4096, 8192)]) {}"
  using example_heap_F by (simp add: events_rep_def events_boot_def)

lemma events_boot_malloc:
  obtains h1 where "malloc (ev_heap events_boot) sizeof_Event = Some (4112, h1)"
proof -
  have "fits 8 sizeof_Event (4096, 8192)"
    by (simp add: fits_def node_offset_def sizeof_AllocatedRegionHeader_def sizeof_Event_def)
  then obtain p h1 where "malloc example_heap sizeof_Event = Some (p, h1)"
    "allocated_from example_heap [(4096, 8192)] 8 sizeof_Event 4096 8192 p h1"
    using malloc_one_node [of example_heap 4096 8192 sizeof_Event thesis] example_heap_ok
    by (auto simp: sizeof_Event_def)
  then show thesis
    by (intro that [of h1]) (simp add: events_boot_def allocated_from_def node_offset_def
        sizeof_AllocatedRegionHeader_def Let_def)
qed

lemma events_boot_add:
  obtains s F U where "add_event events_boot hr a = Some s" "events_rep s [(hr, a)] F U" "ev_tail s = 4112"
proof -
  obtain h1 where al: "malloc (ev_heap events_boot) sizeof_Event = Some (4112, h1)"
    by (rule events_boot_malloc)
  from add_event_correct [OF events_boot_rep al, of hr a] obtain s F U where
    "add_event events_boot hr a = Some s" "events_rep s [(hr, a)] F U" by auto
  moreover from this(1) have "ev_tail s = 4112" using al by (auto simp: add_event_def Let_def)
  ultimately show thesis by (rule that)
qed

theorem add_event_enqueues_witness:
  "\<exists>s F U. add_event events_boot 1 2 = Some s \<and> events_rep s [(1, 2)] F U \<and> event_count s = 1"
proof -
  obtain h1 where "malloc (ev_heap events_boot) sizeof_Event = Some (4112, h1)"
    by (rule events_boot_malloc)
  from add_event_enqueues [OF events_boot_rep this, of 1 2]
  show ?thesis by (auto simp: events_rep_def)
qed

text \<open>
  C14: \<open>call_next_event\<close> takes the oldest event: its block is freed, the handler is called with its
  argument, after the removal, and the events behind it are left in order. The tail pointer is
  not touched: as long as events remain the queue is intact.
\<close>

theorem call_next_event_dequeues:
  assumes "events_rep s ((hr, a) # q) F U"
  shows "\<exists>s' B. call_next_event run s = run hr a s' \<and> B \<subseteq> U \<and> region (ev_head s) 12 \<subseteq> B \<and>
    ev_tail s' = ev_tail s \<and> event_count s' = int (length q) \<and>
    heap_ok (ev_heap s') (F \<union> B) \<and> (U - B) \<inter> (F \<union> B) = {} \<and>
    chain heap_owned event_layout (hmem (ev_heap s')) (ev_head s') (map event_cell q) 0 (U - B) \<and>
    (q \<noteq> [] \<longrightarrow> events_rep s' q (F \<union> B) (U - B))"
  using call_next_event_correct [OF assms, of run] by blast

theorem call_next_event_dequeues_witness:
  "\<exists>s s'. add_event events_boot 1 2 = Some s \<and>
    call_next_event (\<lambda>hr a s. if hr = 1 \<and> a = 2 then Some s else None) s = Some s' \<and>
    ev_head s' = 0 \<and> event_count s' = 0"
proof -
  obtain s F U where s: "add_event events_boot 1 2 = Some s" "events_rep s [(1, 2)] F U"
    by (rule events_boot_add)
  from call_next_event_dequeues [OF s(2), of "\<lambda>hr a s. if hr = 1 \<and> a = 2 then Some s else None"] s(1)
  show ?thesis by auto
qed

text \<open>
  C15: the last event leaves a dangling tail: the queue is empty, but \<open>tail\<close> still points at the
  block just freed, so the next \<open>add_event\<close> writes into free memory; and when \<open>malloc\<close> hands
  out the same block again, the new event becomes its own successor.
\<close>

theorem last_event_dangles:
  assumes "events_rep s [(hr, a)] F U"
  shows "\<exists>s' F'. call_next_event run s = run hr a s' \<and> ev_head s' = 0 \<and> ev_tail s' = ev_head s \<and>
    ev_tail s' \<noteq> 0 \<and> heap_ok (ev_heap s') F' \<and> region (ev_tail s') 12 \<subseteq> F' \<and>
    (\<forall>h1 hr' a'. malloc (ev_heap s') sizeof_Event = Some (ev_tail s', h1) \<longrightarrow>
      (\<exists>s''. add_event s' hr' a' = Some s'' \<and>
        event_next (hmem (ev_heap s'')) (ev_head s'') = ev_head s''))"
proof -
  obtain s' B where c: "call_next_event run s = run hr a s'" "region (ev_head s) 12 \<subseteq> B"
    "ev_tail s' = ev_tail s" "heap_ok (ev_heap s') (F \<union> B)"
    "chain heap_owned event_layout (hmem (ev_heap s')) (ev_head s') (map event_cell []) 0 (U - B)"
    using call_next_event_correct [OF assms, of run] by blast
  have ch: "chain heap_owned event_layout (hmem (ev_heap s)) (ev_head s) [event_cell (hr, a)] 0 U"
    and tail: "ev_tail s = ev_head s"
    using assms by (auto simp: events_rep_def)
  have t: "ev_tail s = ev_head s" "ev_head s \<noteq> 0" using kheap.chain_null [OF ch] tail by simp_all
  have e: "ev_head s' = 0" using c(5) by simp
  have tail': "ev_tail s' = ev_head s" using c(3) t(1) by simp
  have loop: "\<forall>h1 hr' a'. malloc (ev_heap s') sizeof_Event = Some (ev_tail s', h1) \<longrightarrow>
      (\<exists>s''. add_event s' hr' a' = Some s'' \<and>
        event_next (hmem (ev_heap s'')) (ev_head s'') = ev_head s'')"
    using t(2) tail' e
    by (simp add: add_event_def Let_def heap_write_def event_next_def set_event_next_def)
  have reg: "region (ev_tail s') 12 \<subseteq> F \<union> B" using c(2) tail' by auto
  have "ev_tail s' \<noteq> 0" using t(2) tail' by simp
  then show ?thesis using c(1) e tail' c(4) reg loop by blast
qed

theorem last_event_dangles_witness:
  "\<exists>s s'. add_event events_boot 1 2 = Some s \<and> call_next_event (\<lambda>hr a s. Some s) s = Some s' \<and>
    event_count s = 1 \<and> ev_head s' = 0 \<and> ev_tail s' = 4112"
proof -
  obtain s F U where s: "add_event events_boot 1 2 = Some s" "events_rep s [(1, 2)] F U" "ev_tail s = 4112"
    by (rule events_boot_add)
  have "ev_head s = 4112" "event_count s = 1" using s(2,3) by (auto simp: events_rep_def)
  with last_event_dangles [OF s(2), of "\<lambda>hr a s. Some s"] s(1) show ?thesis by auto
qed

end
