(* ===== verification/KeyTables.thy ===== *)
theory KeyTables
  imports Prelude
begin

text \<open>
  The data of the keyboard driver: the \<open>Keycode\<close> enumeration of \<open>keyboard.h\<close> (a 32-bit enum
  value, under the source's names) and the translation tables of \<open>keyboard.c\<close>. A C array with
  designated initialisers is an association list from index to element; \<open>table_get\<close> reads it,
  0 where the array has no initialiser. \<open>table_size\<close> is the length C gives the array: one
  more than the largest index.
\<close>

section \<open>Keycodes\<close>

type_synonym Keycode = u32

abbreviation KEYCODE_ESC :: Keycode where "KEYCODE_ESC \<equiv> 0x00"
abbreviation KEYCODE_F1 :: Keycode where "KEYCODE_F1 \<equiv> 0x01"
abbreviation KEYCODE_F2 :: Keycode where "KEYCODE_F2 \<equiv> 0x02"
abbreviation KEYCODE_F3 :: Keycode where "KEYCODE_F3 \<equiv> 0x03"
abbreviation KEYCODE_F4 :: Keycode where "KEYCODE_F4 \<equiv> 0x04"
abbreviation KEYCODE_F5 :: Keycode where "KEYCODE_F5 \<equiv> 0x05"
abbreviation KEYCODE_F6 :: Keycode where "KEYCODE_F6 \<equiv> 0x06"
abbreviation KEYCODE_F7 :: Keycode where "KEYCODE_F7 \<equiv> 0x07"
abbreviation KEYCODE_F8 :: Keycode where "KEYCODE_F8 \<equiv> 0x08"
abbreviation KEYCODE_F9 :: Keycode where "KEYCODE_F9 \<equiv> 0x09"
abbreviation KEYCODE_F10 :: Keycode where "KEYCODE_F10 \<equiv> 0x0A"
abbreviation KEYCODE_F11 :: Keycode where "KEYCODE_F11 \<equiv> 0x0B"
abbreviation KEYCODE_F12 :: Keycode where "KEYCODE_F12 \<equiv> 0x0C"
abbreviation KEYCODE_BACKTICK :: Keycode where "KEYCODE_BACKTICK \<equiv> 0x20"
abbreviation KEYCODE_1 :: Keycode where "KEYCODE_1 \<equiv> 0x21"
abbreviation KEYCODE_2 :: Keycode where "KEYCODE_2 \<equiv> 0x22"
abbreviation KEYCODE_3 :: Keycode where "KEYCODE_3 \<equiv> 0x23"
abbreviation KEYCODE_4 :: Keycode where "KEYCODE_4 \<equiv> 0x24"
abbreviation KEYCODE_5 :: Keycode where "KEYCODE_5 \<equiv> 0x25"
abbreviation KEYCODE_6 :: Keycode where "KEYCODE_6 \<equiv> 0x26"
abbreviation KEYCODE_7 :: Keycode where "KEYCODE_7 \<equiv> 0x27"
abbreviation KEYCODE_8 :: Keycode where "KEYCODE_8 \<equiv> 0x28"
abbreviation KEYCODE_9 :: Keycode where "KEYCODE_9 \<equiv> 0x29"
abbreviation KEYCODE_0 :: Keycode where "KEYCODE_0 \<equiv> 0x2A"
abbreviation KEYCODE_MINUS :: Keycode where "KEYCODE_MINUS \<equiv> 0x2B"
abbreviation KEYCODE_EQUAL :: Keycode where "KEYCODE_EQUAL \<equiv> 0x2C"
abbreviation KEYCODE_BACKSPACE :: Keycode where "KEYCODE_BACKSPACE \<equiv> 0x2D"
abbreviation KEYCODE_TAB :: Keycode where "KEYCODE_TAB \<equiv> 0x40"
abbreviation KEYCODE_Q :: Keycode where "KEYCODE_Q \<equiv> 0x41"
abbreviation KEYCODE_W :: Keycode where "KEYCODE_W \<equiv> 0x42"
abbreviation KEYCODE_E :: Keycode where "KEYCODE_E \<equiv> 0x43"
abbreviation KEYCODE_R :: Keycode where "KEYCODE_R \<equiv> 0x44"
abbreviation KEYCODE_T :: Keycode where "KEYCODE_T \<equiv> 0x45"
abbreviation KEYCODE_Y :: Keycode where "KEYCODE_Y \<equiv> 0x46"
abbreviation KEYCODE_U :: Keycode where "KEYCODE_U \<equiv> 0x47"
abbreviation KEYCODE_I :: Keycode where "KEYCODE_I \<equiv> 0x48"
abbreviation KEYCODE_O :: Keycode where "KEYCODE_O \<equiv> 0x49"
abbreviation KEYCODE_P :: Keycode where "KEYCODE_P \<equiv> 0x4A"
abbreviation KEYCODE_LBRACKET :: Keycode where "KEYCODE_LBRACKET \<equiv> 0x4B"
abbreviation KEYCODE_RBRACKET :: Keycode where "KEYCODE_RBRACKET \<equiv> 0x4C"
abbreviation KEYCODE_BSLASH :: Keycode where "KEYCODE_BSLASH \<equiv> 0x4D"
abbreviation KEYCODE_CAPS :: Keycode where "KEYCODE_CAPS \<equiv> 0x60"
abbreviation KEYCODE_A :: Keycode where "KEYCODE_A \<equiv> 0x61"
abbreviation KEYCODE_S :: Keycode where "KEYCODE_S \<equiv> 0x62"
abbreviation KEYCODE_D :: Keycode where "KEYCODE_D \<equiv> 0x63"
abbreviation KEYCODE_F :: Keycode where "KEYCODE_F \<equiv> 0x64"
abbreviation KEYCODE_G :: Keycode where "KEYCODE_G \<equiv> 0x65"
abbreviation KEYCODE_H :: Keycode where "KEYCODE_H \<equiv> 0x66"
abbreviation KEYCODE_J :: Keycode where "KEYCODE_J \<equiv> 0x67"
abbreviation KEYCODE_K :: Keycode where "KEYCODE_K \<equiv> 0x68"
abbreviation KEYCODE_L :: Keycode where "KEYCODE_L \<equiv> 0x69"
abbreviation KEYCODE_SEMICOLON :: Keycode where "KEYCODE_SEMICOLON \<equiv> 0x6A"
abbreviation KEYCODE_QUOT :: Keycode where "KEYCODE_QUOT \<equiv> 0x6B"
abbreviation KEYCODE_ENTER :: Keycode where "KEYCODE_ENTER \<equiv> 0x6C"
abbreviation KEYCODE_LSHIFT :: Keycode where "KEYCODE_LSHIFT \<equiv> 0x80"
abbreviation KEYCODE_Z :: Keycode where "KEYCODE_Z \<equiv> 0x81"
abbreviation KEYCODE_X :: Keycode where "KEYCODE_X \<equiv> 0x82"
abbreviation KEYCODE_C :: Keycode where "KEYCODE_C \<equiv> 0x83"
abbreviation KEYCODE_V :: Keycode where "KEYCODE_V \<equiv> 0x84"
abbreviation KEYCODE_B :: Keycode where "KEYCODE_B \<equiv> 0x85"
abbreviation KEYCODE_N :: Keycode where "KEYCODE_N \<equiv> 0x86"
abbreviation KEYCODE_M :: Keycode where "KEYCODE_M \<equiv> 0x87"
abbreviation KEYCODE_COMMA :: Keycode where "KEYCODE_COMMA \<equiv> 0x88"
abbreviation KEYCODE_PERIOD :: Keycode where "KEYCODE_PERIOD \<equiv> 0x89"
abbreviation KEYCODE_SLASH :: Keycode where "KEYCODE_SLASH \<equiv> 0x8A"
abbreviation KEYCODE_RSHIFT :: Keycode where "KEYCODE_RSHIFT \<equiv> 0x8B"
abbreviation KEYCODE_LCTRL :: Keycode where "KEYCODE_LCTRL \<equiv> 0xA0"
abbreviation KEYCODE_LGUI :: Keycode where "KEYCODE_LGUI \<equiv> 0xA1"
abbreviation KEYCODE_LALT :: Keycode where "KEYCODE_LALT \<equiv> 0xA2"
abbreviation KEYCODE_SPACE :: Keycode where "KEYCODE_SPACE \<equiv> 0xA3"
abbreviation KEYCODE_RALT :: Keycode where "KEYCODE_RALT \<equiv> 0xA4"
abbreviation KEYCODE_RGUI :: Keycode where "KEYCODE_RGUI \<equiv> 0xA5"
abbreviation KEYCODE_RCTRL :: Keycode where "KEYCODE_RCTRL \<equiv> 0xA6"
abbreviation KEYCODE_FN :: Keycode where "KEYCODE_FN \<equiv> 0xA7"
abbreviation KEYCODE_PRINTSCR :: Keycode where "KEYCODE_PRINTSCR \<equiv> 0x0D"
abbreviation KEYCODE_SCLLK :: Keycode where "KEYCODE_SCLLK \<equiv> 0x0E"
abbreviation KEYCODE_INSERT :: Keycode where "KEYCODE_INSERT \<equiv> 0x2E"
abbreviation KEYCODE_HOME :: Keycode where "KEYCODE_HOME \<equiv> 0x2F"
abbreviation KEYCODE_PGUP :: Keycode where "KEYCODE_PGUP \<equiv> 0x30"
abbreviation KEYCODE_DEL :: Keycode where "KEYCODE_DEL \<equiv> 0x4E"
abbreviation KEYCODE_END :: Keycode where "KEYCODE_END \<equiv> 0x4F"
abbreviation KEYCODE_PGDWN :: Keycode where "KEYCODE_PGDWN \<equiv> 0x50"
abbreviation KEYCODE_UP_ARROW :: Keycode where "KEYCODE_UP_ARROW \<equiv> 0x8F"
abbreviation KEYCODE_LEFT_ARROW :: Keycode where "KEYCODE_LEFT_ARROW \<equiv> 0xAE"
abbreviation KEYCODE_DOWN_ARROW :: Keycode where "KEYCODE_DOWN_ARROW \<equiv> 0xAF"
abbreviation KEYCODE_RIGHT_ARROW :: Keycode where "KEYCODE_RIGHT_ARROW \<equiv> 0xB0"
abbreviation KEYCODE_NUMLOCK :: Keycode where "KEYCODE_NUMLOCK \<equiv> 0x32"
abbreviation KEYCODE_PAD_SLASH :: Keycode where "KEYCODE_PAD_SLASH \<equiv> 0x33"
abbreviation KEYCODE_PAD_STAR :: Keycode where "KEYCODE_PAD_STAR \<equiv> 0x34"
abbreviation KEYCODE_PAD_7 :: Keycode where "KEYCODE_PAD_7 \<equiv> 0x51"
abbreviation KEYCODE_PAD_8 :: Keycode where "KEYCODE_PAD_8 \<equiv> 0x52"
abbreviation KEYCODE_PAD_9 :: Keycode where "KEYCODE_PAD_9 \<equiv> 0x53"
abbreviation KEYCODE_PAD_MINUS :: Keycode where "KEYCODE_PAD_MINUS \<equiv> 0x54"
abbreviation KEYCODE_PAD_4 :: Keycode where "KEYCODE_PAD_4 \<equiv> 0x71"
abbreviation KEYCODE_PAD_5 :: Keycode where "KEYCODE_PAD_5 \<equiv> 0x72"
abbreviation KEYCODE_PAD_6 :: Keycode where "KEYCODE_PAD_6 \<equiv> 0x73"
abbreviation KEYCODE_PAD_PLUS :: Keycode where "KEYCODE_PAD_PLUS \<equiv> 0x74"
abbreviation KEYCODE_PAD_1 :: Keycode where "KEYCODE_PAD_1 \<equiv> 0x91"
abbreviation KEYCODE_PAD_2 :: Keycode where "KEYCODE_PAD_2 \<equiv> 0x92"
abbreviation KEYCODE_PAD_3 :: Keycode where "KEYCODE_PAD_3 \<equiv> 0x93"
abbreviation KEYCODE_PAD_0 :: Keycode where "KEYCODE_PAD_0 \<equiv> 0xB2"
abbreviation KEYCODE_PAD_DOT :: Keycode where "KEYCODE_PAD_DOT \<equiv> 0xB3"
abbreviation KEYCODE_PAD_ENTER :: Keycode where "KEYCODE_PAD_ENTER \<equiv> 0xB4"
abbreviation KEYCODE_MM_WWW :: Keycode where "KEYCODE_MM_WWW \<equiv> 0xC0"
abbreviation KEYCODE_MM_WWW_FAV :: Keycode where "KEYCODE_MM_WWW_FAV \<equiv> 0xC1"
abbreviation KEYCODE_MM_WWW_REFRESH :: Keycode where "KEYCODE_MM_WWW_REFRESH \<equiv> 0xC2"
abbreviation KEYCODE_MM_WWW_STOP :: Keycode where "KEYCODE_MM_WWW_STOP \<equiv> 0xC3"
abbreviation KEYCODE_MM_WWW_FORWARD :: Keycode where "KEYCODE_MM_WWW_FORWARD \<equiv> 0xC4"
abbreviation KEYCODE_MM_WWW_BACK :: Keycode where "KEYCODE_MM_WWW_BACK \<equiv> 0xC5"
abbreviation KEYCODE_MM_WWW_HOME :: Keycode where "KEYCODE_MM_WWW_HOME \<equiv> 0xC6"
abbreviation KEYCODE_MM_PREV_TRACK :: Keycode where "KEYCODE_MM_PREV_TRACK \<equiv> 0xC7"
abbreviation KEYCODE_MM_PAUSE :: Keycode where "KEYCODE_MM_PAUSE \<equiv> 0xC8"
abbreviation KEYCODE_MM_NEXT_TRACK :: Keycode where "KEYCODE_MM_NEXT_TRACK \<equiv> 0xC9"
abbreviation KEYCODE_MM_STOP :: Keycode where "KEYCODE_MM_STOP \<equiv> 0xCA"
abbreviation KEYCODE_MM_MEDIA_SEL :: Keycode where "KEYCODE_MM_MEDIA_SEL \<equiv> 0xCB"
abbreviation KEYCODE_MM_VDOWN :: Keycode where "KEYCODE_MM_VDOWN \<equiv> 0xCC"
abbreviation KEYCODE_MM_MUTE :: Keycode where "KEYCODE_MM_MUTE \<equiv> 0xCD"
abbreviation KEYCODE_MM_VUP :: Keycode where "KEYCODE_MM_VUP \<equiv> 0xCE"
abbreviation KEYCODE_MM_CALCULATOR :: Keycode where "KEYCODE_MM_CALCULATOR \<equiv> 0xCF"
abbreviation KEYCODE_MM_COMPUTER :: Keycode where "KEYCODE_MM_COMPUTER \<equiv> 0xD0"
abbreviation KEYCODE_MM_EMAIL :: Keycode where "KEYCODE_MM_EMAIL \<equiv> 0xD1"
abbreviation KEYCODE_APPS :: Keycode where "KEYCODE_APPS \<equiv> 0xD2"
abbreviation KEYCODE_ACPI_POWER :: Keycode where "KEYCODE_ACPI_POWER \<equiv> 0xD3"
abbreviation KEYCODE_ACPI_SLEEP :: Keycode where "KEYCODE_ACPI_SLEEP \<equiv> 0xD4"
abbreviation KEYCODE_ACPI_WAKE :: Keycode where "KEYCODE_ACPI_WAKE \<equiv> 0xD5"
abbreviation KEYCODE_PAUSE :: Keycode where "KEYCODE_PAUSE \<equiv> 0xD6"
abbreviation KEYCODE_MOUSE_LEFT :: Keycode where "KEYCODE_MOUSE_LEFT \<equiv> 0xE0"
abbreviation KEYCODE_MOUSE_MIDDLE :: Keycode where "KEYCODE_MOUSE_MIDDLE \<equiv> 0xE1"
abbreviation KEYCODE_MOUSE_RIGHT :: Keycode where "KEYCODE_MOUSE_RIGHT \<equiv> 0xE2"
abbreviation KEYCODE_MOUSE_UP :: Keycode where "KEYCODE_MOUSE_UP \<equiv> 0xE3"
abbreviation KEYCODE_MOUSE_DOWN :: Keycode where "KEYCODE_MOUSE_DOWN \<equiv> 0xE4"

section \<open>Tables\<close>

definition table_get :: "'a \<Rightarrow> (nat \<times> 'a) list \<Rightarrow> nat \<Rightarrow> 'a" where
  "table_get z t i = (case map_of t i of None \<Rightarrow> z | Some v \<Rightarrow> v)"

definition table_size :: "(nat \<times> 'a) list \<Rightarrow> nat" where
  "table_size t = Suc (fold max (map fst t) 0)"

definition scancode_set_2 :: "(nat \<times> Keycode) list" where
  "scancode_set_2 =
   [
    (0x01, KEYCODE_F9), (0x03, KEYCODE_F5), (0x04, KEYCODE_F3), (0x05, KEYCODE_F1),
    (0x06, KEYCODE_F2), (0x07, KEYCODE_F12), (0x09, KEYCODE_F10), (0x0A, KEYCODE_F8),
    (0x0B, KEYCODE_F6), (0x0C, KEYCODE_F4), (0x0D, KEYCODE_TAB), (0x0E, KEYCODE_BACKTICK),
    (0x11, KEYCODE_LALT), (0x12, KEYCODE_LSHIFT), (0x14, KEYCODE_LCTRL), (0x15, KEYCODE_Q),
    (0x16, KEYCODE_1), (0x1A, KEYCODE_Z), (0x1B, KEYCODE_S), (0x1C, KEYCODE_A),
    (0x1D, KEYCODE_W), (0x1E, KEYCODE_2), (0x21, KEYCODE_C), (0x22, KEYCODE_X),
    (0x23, KEYCODE_D), (0x24, KEYCODE_E), (0x25, KEYCODE_4), (0x26, KEYCODE_3),
    (0x29, KEYCODE_SPACE), (0x2A, KEYCODE_V), (0x2B, KEYCODE_F), (0x2C, KEYCODE_T),
    (0x2D, KEYCODE_R), (0x2E, KEYCODE_5), (0x31, KEYCODE_N), (0x32, KEYCODE_B),
    (0x33, KEYCODE_H), (0x34, KEYCODE_G), (0x35, KEYCODE_Y), (0x36, KEYCODE_6),
    (0x3A, KEYCODE_M), (0x3B, KEYCODE_J), (0x3C, KEYCODE_U), (0x3D, KEYCODE_7),
    (0x3E, KEYCODE_8), (0x41, KEYCODE_COMMA), (0x42, KEYCODE_K), (0x43, KEYCODE_I),
    (0x44, KEYCODE_O), (0x45, KEYCODE_0), (0x46, KEYCODE_9), (0x49, KEYCODE_PERIOD),
    (0x4A, KEYCODE_SLASH), (0x4B, KEYCODE_L), (0x4C, KEYCODE_SEMICOLON), (0x4D, KEYCODE_P),
    (0x4E, KEYCODE_MINUS), (0x52, KEYCODE_QUOT), (0x54, KEYCODE_LBRACKET), (0x55, KEYCODE_EQUAL),
    (0x58, KEYCODE_CAPS), (0x59, KEYCODE_RSHIFT), (0x5A, KEYCODE_ENTER),
    (0x5B, KEYCODE_RBRACKET), (0x5D, KEYCODE_BSLASH), (0x66, KEYCODE_BACKSPACE),
    (0x69, KEYCODE_PAD_1), (0x6B, KEYCODE_PAD_4), (0x6C, KEYCODE_PAD_7), (0x70, KEYCODE_PAD_0),
    (0x71, KEYCODE_PAD_DOT), (0x72, KEYCODE_PAD_2), (0x73, KEYCODE_PAD_5), (0x74, KEYCODE_PAD_7),
    (0x75, KEYCODE_PAD_8), (0x76, KEYCODE_ESC), (0x77, KEYCODE_NUMLOCK), (0x78, KEYCODE_F11),
    (0x79, KEYCODE_PAD_PLUS), (0x7A, KEYCODE_PAD_3), (0x7B, KEYCODE_PAD_MINUS),
    (0x7C, KEYCODE_PAD_STAR), (0x7D, KEYCODE_PAD_9), (0x7E, KEYCODE_SCLLK), (0x83, KEYCODE_F7)]"

definition e_scancode_set_2 :: "(nat \<times> Keycode) list" where
  "e_scancode_set_2 =
   [
    (0x10, KEYCODE_MM_WWW), (0x11, KEYCODE_RALT), (0x14, KEYCODE_RCTRL),
    (0x15, KEYCODE_MM_PREV_TRACK), (0x18, KEYCODE_MM_WWW_FAV), (0x1F, KEYCODE_LGUI),
    (0x20, KEYCODE_MM_WWW_REFRESH), (0x21, KEYCODE_MM_VDOWN), (0x23, KEYCODE_MM_MUTE),
    (0x27, KEYCODE_RGUI), (0x28, KEYCODE_MM_WWW_STOP), (0x2B, KEYCODE_MM_CALCULATOR),
    (0x2F, KEYCODE_APPS), (0x30, KEYCODE_MM_WWW_FORWARD), (0x32, KEYCODE_MM_VUP),
    (0x34, KEYCODE_MM_PAUSE), (0x37, KEYCODE_ACPI_POWER), (0x38, KEYCODE_MM_WWW_BACK),
    (0x3A, KEYCODE_MM_WWW_HOME), (0x3B, KEYCODE_MM_STOP), (0x3F, KEYCODE_ACPI_SLEEP),
    (0x40, KEYCODE_MM_COMPUTER), (0x48, KEYCODE_MM_EMAIL), (0x4A, KEYCODE_PAD_SLASH),
    (0x4D, KEYCODE_MM_NEXT_TRACK), (0x50, KEYCODE_MM_MEDIA_SEL), (0x54, KEYCODE_PAD_ENTER),
    (0x5E, KEYCODE_ACPI_WAKE), (0x69, KEYCODE_END), (0x6B, KEYCODE_MOUSE_LEFT),
    (0x6C, KEYCODE_HOME), (0x70, KEYCODE_INSERT), (0x71, KEYCODE_DEL),
    (0x72, KEYCODE_MOUSE_DOWN), (0x73, KEYCODE_MOUSE_RIGHT), (0x74, KEYCODE_MOUSE_UP),
    (0x7A, KEYCODE_PGDWN), (0x7D, KEYCODE_PGUP)]"

definition scancode_set_2_pause :: "u8 list" where
  "scancode_set_2_pause = [0xE1, 0x14, 0x77, 0xE1, 0xF0, 0x14, 0xF0, 0x77]"

definition lower_ascii :: "(nat \<times> char) list" where
  "lower_ascii = map (\<lambda>(k, c). (unat k, c))
   [
    (KEYCODE_BACKTICK, CHR 0x60), (KEYCODE_1, CHR ''1''), (KEYCODE_2, CHR ''2''),
    (KEYCODE_3, CHR ''3''), (KEYCODE_4, CHR ''4''), (KEYCODE_5, CHR ''5''),
    (KEYCODE_6, CHR ''6''), (KEYCODE_7, CHR ''7''), (KEYCODE_8, CHR ''8''),
    (KEYCODE_9, CHR ''9''), (KEYCODE_0, CHR ''0''), (KEYCODE_MINUS, CHR ''-''),
    (KEYCODE_EQUAL, CHR ''=''), (KEYCODE_BACKSPACE, CHR 0x08), (KEYCODE_TAB, CHR 0x09),
    (KEYCODE_Q, CHR ''q''), (KEYCODE_W, CHR ''w''), (KEYCODE_E, CHR ''e''),
    (KEYCODE_R, CHR ''r''), (KEYCODE_T, CHR ''t''), (KEYCODE_Y, CHR ''y''),
    (KEYCODE_U, CHR ''u''), (KEYCODE_I, CHR ''i''), (KEYCODE_O, CHR ''o''),
    (KEYCODE_P, CHR ''p''), (KEYCODE_LBRACKET, CHR ''[''), (KEYCODE_RBRACKET, CHR '']''),
    (KEYCODE_BSLASH, CHR 0x5C), (KEYCODE_A, CHR ''a''), (KEYCODE_S, CHR ''s''),
    (KEYCODE_D, CHR ''d''), (KEYCODE_F, CHR ''f''), (KEYCODE_G, CHR ''g''),
    (KEYCODE_H, CHR ''h''), (KEYCODE_J, CHR ''j''), (KEYCODE_K, CHR ''k''),
    (KEYCODE_L, CHR ''l''), (KEYCODE_SEMICOLON, CHR '';''), (KEYCODE_QUOT, CHR 0x27),
    (KEYCODE_ENTER, CHR 0x0A), (KEYCODE_Z, CHR ''z''), (KEYCODE_X, CHR ''x''),
    (KEYCODE_C, CHR ''c''), (KEYCODE_V, CHR ''v''), (KEYCODE_B, CHR ''b''),
    (KEYCODE_N, CHR ''n''), (KEYCODE_M, CHR ''m''), (KEYCODE_COMMA, CHR '',''),
    (KEYCODE_PERIOD, CHR ''.''), (KEYCODE_SLASH, CHR ''/''), (KEYCODE_SPACE, CHR '' ''),
    (KEYCODE_PAD_SLASH, CHR ''/''), (KEYCODE_PAD_STAR, CHR ''*''), (KEYCODE_PAD_7, CHR ''7''),
    (KEYCODE_PAD_8, CHR ''8''), (KEYCODE_PAD_9, CHR ''9''), (KEYCODE_PAD_MINUS, CHR ''-''),
    (KEYCODE_PAD_4, CHR ''4''), (KEYCODE_PAD_5, CHR ''5''), (KEYCODE_PAD_6, CHR ''6''),
    (KEYCODE_PAD_PLUS, CHR ''+''), (KEYCODE_PAD_1, CHR ''1''), (KEYCODE_PAD_2, CHR ''2''),
    (KEYCODE_PAD_3, CHR ''3''), (KEYCODE_PAD_0, CHR ''0''), (KEYCODE_PAD_DOT, CHR ''.'')]"

definition upper_ascii :: "(nat \<times> char) list" where
  "upper_ascii = map (\<lambda>(k, c). (unat k, c))
   [
    (KEYCODE_BACKTICK, CHR ''~''), (KEYCODE_1, CHR ''!''), (KEYCODE_2, CHR ''@''),
    (KEYCODE_3, CHR ''#''), (KEYCODE_4, CHR ''$''), (KEYCODE_5, CHR ''%''),
    (KEYCODE_6, CHR ''^''), (KEYCODE_7, CHR ''&''), (KEYCODE_8, CHR ''*''),
    (KEYCODE_9, CHR ''(''), (KEYCODE_0, CHR '')''), (KEYCODE_MINUS, CHR ''_''),
    (KEYCODE_EQUAL, CHR ''+''), (KEYCODE_BACKSPACE, CHR 0x08), (KEYCODE_TAB, CHR 0x09),
    (KEYCODE_Q, CHR ''Q''), (KEYCODE_W, CHR ''W''), (KEYCODE_E, CHR ''E''),
    (KEYCODE_R, CHR ''R''), (KEYCODE_T, CHR ''T''), (KEYCODE_Y, CHR ''Y''),
    (KEYCODE_U, CHR ''U''), (KEYCODE_I, CHR ''I''), (KEYCODE_O, CHR ''O''),
    (KEYCODE_P, CHR ''P''), (KEYCODE_LBRACKET, CHR ''{''), (KEYCODE_RBRACKET, CHR ''}''),
    (KEYCODE_BSLASH, CHR ''|''), (KEYCODE_A, CHR ''A''), (KEYCODE_S, CHR ''S''),
    (KEYCODE_D, CHR ''D''), (KEYCODE_F, CHR ''F''), (KEYCODE_G, CHR ''G''),
    (KEYCODE_H, CHR ''H''), (KEYCODE_J, CHR ''J''), (KEYCODE_K, CHR ''K''),
    (KEYCODE_L, CHR ''L''), (KEYCODE_SEMICOLON, CHR '':''), (KEYCODE_QUOT, CHR 0x22),
    (KEYCODE_ENTER, CHR 0x0A), (KEYCODE_Z, CHR ''Z''), (KEYCODE_X, CHR ''X''),
    (KEYCODE_C, CHR ''C''), (KEYCODE_V, CHR ''V''), (KEYCODE_B, CHR ''B''),
    (KEYCODE_N, CHR ''N''), (KEYCODE_M, CHR ''M''), (KEYCODE_COMMA, CHR ''<''),
    (KEYCODE_PERIOD, CHR ''>''), (KEYCODE_SLASH, CHR ''?''), (KEYCODE_SPACE, CHR '' ''),
    (KEYCODE_PAD_SLASH, CHR ''/''), (KEYCODE_PAD_STAR, CHR ''*''), (KEYCODE_PAD_7, CHR ''7''),
    (KEYCODE_PAD_8, CHR ''8''), (KEYCODE_PAD_9, CHR ''9''), (KEYCODE_PAD_MINUS, CHR ''-''),
    (KEYCODE_PAD_4, CHR ''4''), (KEYCODE_PAD_5, CHR ''5''), (KEYCODE_PAD_6, CHR ''6''),
    (KEYCODE_PAD_PLUS, CHR ''+''), (KEYCODE_PAD_1, CHR ''1''), (KEYCODE_PAD_2, CHR ''2''),
    (KEYCODE_PAD_3, CHR ''3''), (KEYCODE_PAD_0, CHR ''0''), (KEYCODE_PAD_DOT, CHR ''.'')]"

text \<open>The lengths of the arrays, which the guards of the code compare indices with.\<close>

lemma table_sizes:
  "table_size scancode_set_2 = 0x84" "table_size e_scancode_set_2 = 0x7E"
  "table_size lower_ascii = 0xB4" "table_size upper_ascii = 0xB4"
  by (simp_all add: table_size_def scancode_set_2_def e_scancode_set_2_def lower_ascii_def
      upper_ascii_def)

end
