(* ===== verification/Ps2Types.thy ===== *)
theory Ps2Types
  imports Prelude
begin

text \<open>
  The device types of \<open>arch/i686/ps2.h\<close> and how the two identification bytes of a device are
  decoded (\<open>determine_device_type\<close> of \<open>ps2.c\<close>); used by the PS/2 controller and by the keyboard.
\<close>

datatype PS2_Device_Type = NONE | UNKOWN | AT_KBD | PS_2_MOUSE | SCROLL_MOUSE | BUTTON_5_MOUSE
  | MF2_KBD | SHORT_KBD | HOST_KBD_122_KEY | KBD_122_KEY | JAPANESE_G_KBD | JAPANESE_P_KBD
  | JAPANESE_A_KBD | NCD_SUN_KBD

definition determine_device_type :: "u8 \<Rightarrow> u8 \<Rightarrow> PS2_Device_Type" where
  "determine_device_type byte_1 byte_2 =
     (if byte_1 = 0x00 then PS_2_MOUSE
      else if byte_1 = 0x03 then SCROLL_MOUSE
      else if byte_1 = 0x04 then BUTTON_5_MOUSE
      else if byte_1 = 0xAB then
        (if byte_2 = 0x83 \<or> byte_2 = 0xC1 then MF2_KBD
         else if byte_2 = 0x84 then SHORT_KBD
         else if byte_2 = 0x85 then HOST_KBD_122_KEY
         else if byte_2 = 0x86 then KBD_122_KEY
         else if byte_2 = 0x90 then JAPANESE_G_KBD
         else if byte_2 = 0x91 then JAPANESE_P_KBD
         else if byte_2 = 0x92 then JAPANESE_A_KBD
         else UNKOWN)
      else if byte_1 = 0xAC \<and> byte_2 = 0xA1 then NCD_SUN_KBD
      else UNKOWN)"

end
