(* ===== verification/Keyboard.thy ===== *)
theory Keyboard
  imports KeyTables Ps2Types
begin

text \<open>
  The keyboard driver (\<open>keyboard.c\<close>): the queue of commands sent to the keyboard, the
  initialisation state machine driven by the keyboard's answers, and the decoding of scancode
  set 2 into key events. \<open>kbd_device\<close> is the static \<open>device\<close>: the port of the PS/2 device it points to,
  \<open>None\<close> for NULL; \<open>kbd_hooked\<close> has the ports whose device has \<open>on_keyboard_send_byte\<close> in its
  \<open>on_byte_recieved\<close>. The static variables of the file are one record; the bytes given to
  \<open>device->send_byte\<close> and the events given to \<open>add_event\<close> are recorded in it, in order. A write
  or read past the end of a static array is \<open>None\<close>. The messages printed are left out.
\<close>

section \<open>State\<close>

record modifiers =
  m_shift :: bool
  m_alt :: bool
  m_control :: bool
  m_function :: bool
  m_gui :: bool

record toggles =
  caps_lock :: bool
  num_lock :: bool
  scroll_lock :: bool

record KeypressEvent =
  ev_ascii :: char
  ev_code :: Keycode
  ev_released :: bool
  ev_modifiers :: modifiers
  ev_toggles :: toggles

datatype Initialization_State =
  INIT_START | DISABLE_SCAN | SET_SCAN_SET_2 | GET_SCAN_SET | ENABLE_SCAN | INITIALIZED

text \<open>The completion handlers of commands; the driver has one.\<close>

datatype completion = Continue_init

record KbdCommand =
  cmd_code :: u8
  cmd_subcommand :: u8
  has_subcommand :: bool
  has_response :: bool
  on_complete :: completion
  sub_sent :: bool
  acknowledged :: bool
  resend_count :: int

definition MAX_COMMANDS :: nat where "MAX_COMMANDS = 10"

definition CMD_SCAN_CODE_SET :: u8 where "CMD_SCAN_CODE_SET = 0xF0"
definition CMD_ENABLE_SCAN :: u8 where "CMD_ENABLE_SCAN = 0xF4"
definition CMD_DISABLE_SCAN :: u8 where "CMD_DISABLE_SCAN = 0xF5"
definition RESPONSE_ACK :: u8 where "RESPONSE_ACK = 0xFA"
definition RESPONSE_RESEND :: u8 where "RESPONSE_RESEND = 0xFE"

lemmas kbd_codes = CMD_SCAN_CODE_SET_def CMD_ENABLE_SCAN_def CMD_DISABLE_SCAN_def
  RESPONSE_ACK_def RESPONSE_RESEND_def

record kbd =
  cmd_queue :: "KbdCommand list"
  queue_min :: nat
  queue_count :: nat
  scan_code_set :: int
  initialized :: bool
  init_state :: Initialization_State
  pressed_keys :: "u8 list"
  scancode_bytes :: "u8 list"
  scancode_byte_count :: nat
  keypress_handler :: bool
  mods :: modifiers
  togs :: toggles
  sent :: "u8 list"
  events :: "KeypressEvent list"
  kbd_device :: "nat option"
  kbd_hooked :: "nat set"

section \<open>Decoding\<close>

definition keycode_to_ascii :: "kbd \<Rightarrow> Keycode \<Rightarrow> char" where
  "keycode_to_ascii s code =
     (let capitalize = (m_shift (mods s) \<or> caps_lock (togs s)) \<and>
                       \<not> (m_shift (mods s) \<and> caps_lock (togs s))
      in if code > KEYCODE_PAD_DOT then CHR 0x00
         else if capitalize then table_get (CHR 0x00) upper_ascii (unat code)
         else table_get (CHR 0x00) lower_ascii (unat code))"

text \<open>\<open>mask\<close> is a \<open>uint8_t\<close>: a shift by 16 or more leaves 0.\<close>

definition key_mask :: "Keycode \<Rightarrow> u32" where
  "key_mask code = push_bit (unat (code AND 0x111)) 1"

definition set_key_flag :: "kbd \<Rightarrow> Keycode \<Rightarrow> bool \<Rightarrow> kbd option" where
  "set_key_flag s code enabled =
     (let mask = ucast (key_mask code) :: u8; i = unat (drop_bit 3 code); keys = pressed_keys s
      in if i < length keys
         then Some (s\<lparr>pressed_keys :=
                keys[i := (if enabled then keys ! i OR mask else keys ! i AND NOT mask)]\<rparr>)
         else None)"

definition get_key_flag :: "kbd \<Rightarrow> Keycode \<Rightarrow> bool option" where
  "get_key_flag s code =
     (let i = unat (drop_bit 3 code)
      in if i < length (pressed_keys s)
         then Some (ucast (pressed_keys s ! i) AND key_mask code \<noteq> 0) else None)"

definition scanset2_to_keycode :: "u8 list \<Rightarrow> nat \<Rightarrow> Keycode" where
  "scanset2_to_keycode b n =
     (if n = 1 then
        (if b ! 0 \<le> 0x83 then table_get 0 scancode_set_2 (unat (b ! 0)) else 0)
      else if n = 2 \<and> b ! 0 = 0xF0 then
        (if b ! 1 \<le> 0x83 then table_get 0 scancode_set_2 (unat (b ! 1)) else 0)
      else if n = 2 \<and> b ! 0 = 0xE0 then
        (if b ! 1 \<le> 0x7D then table_get 0 e_scancode_set_2 (unat (b ! 1)) else 0)
      else if n = 3 \<and> b ! 0 = 0xE0 \<and> b ! 1 = 0xF0 then
        (if b ! 2 \<le> 0x7D then table_get 0 e_scancode_set_2 (unat (b ! 2)) else 0)
      else if n = 4 then
        (if b ! 0 = 0xE0 \<and> b ! 1 = 0x12 \<and> b ! 2 = 0xE0 \<and> b ! 3 = 0x7C
         then KEYCODE_PRINTSCR else 0)
      else if n = 6 then
        (if b ! 0 = 0xE1 \<and> b ! 1 = 0xF0 \<and> b ! 2 = 0x7C \<and> b ! 3 = 0xE1 \<and> b ! 4 = 0xF0 \<and>
            b ! 5 = 0x12
         then KEYCODE_PRINTSCR else 0)
      else if n = 8 then KEYCODE_PAUSE
      else 0)"

definition update_special_keys :: "kbd \<Rightarrow> Keycode \<Rightarrow> bool \<Rightarrow> kbd" where
  "update_special_keys s code released =
     (if code = KEYCODE_LSHIFT \<or> code = KEYCODE_RSHIFT
      then s\<lparr>mods := (mods s)\<lparr>m_shift := \<not> released\<rparr>\<rparr>
      else if code = KEYCODE_LALT \<or> code = KEYCODE_RALT
      then s\<lparr>mods := (mods s)\<lparr>m_alt := \<not> released\<rparr>\<rparr>
      else if code = KEYCODE_LCTRL \<or> code = KEYCODE_RCTRL
      then s\<lparr>mods := (mods s)\<lparr>m_control := \<not> released\<rparr>\<rparr>
      else if code = KEYCODE_FN
      then s\<lparr>mods := (mods s)\<lparr>m_function := \<not> released\<rparr>\<rparr>
      else if code = KEYCODE_LGUI \<or> code = KEYCODE_RGUI
      then s\<lparr>mods := (mods s)\<lparr>m_gui := \<not> released\<rparr>\<rparr>
      else if released then s
      else if code = KEYCODE_CAPS
      then s\<lparr>togs := (togs s)\<lparr>caps_lock := \<not> caps_lock (togs s)\<rparr>\<rparr>
      else if code = KEYCODE_NUMLOCK
      then s\<lparr>togs := (togs s)\<lparr>num_lock := \<not> num_lock (togs s)\<rparr>\<rparr>
      else if code = KEYCODE_SCLLK
      then s\<lparr>togs := (togs s)\<lparr>scroll_lock := \<not> scroll_lock (togs s)\<rparr>\<rparr>
      else s)"

text \<open>Whether more bytes of the same key are to come, after \<open>n\<close> bytes the last of which is \<open>c\<close>.\<close>

definition continue_scan :: "u8 list \<Rightarrow> nat \<Rightarrow> u8 \<Rightarrow> bool" where
  "continue_scan b n c \<longleftrightarrow>
     c = 0xE0 \<or> c = 0xE1 \<or> c = 0xF0 \<or>
     (n = 2 \<and> b ! 0 = 0xE0 \<and> c = 0x12) \<or>
     (n = 3 \<and> b ! 0 = 0xE0 \<and> c = 0x7C) \<or>
     (\<forall>i \<in> set [0..<n]. b ! i = scancode_set_2_pause ! i)"

text \<open>A complete scancode: the key flag, the modifiers, and the event if someone listens.\<close>

definition key_event :: "kbd \<Rightarrow> Keycode \<Rightarrow> bool \<Rightarrow> KeypressEvent" where
  "key_event s keycode released =
     \<lparr>ev_ascii = keycode_to_ascii s keycode, ev_code = keycode, ev_released = released,
      ev_modifiers = mods s, ev_toggles = togs s\<rparr>"

definition finish_scancode :: "kbd \<Rightarrow> kbd option" where
  "finish_scancode s =
     (let b = scancode_bytes s; n = scancode_byte_count s;
          keycode = scanset2_to_keycode b n;
          released = (n > 1 \<and> b ! 0 = 0xF0) \<or> (n > 2 \<and> b ! 1 = 0xF0)
      in case set_key_flag s keycode released of
           None \<Rightarrow> None
         | Some s1 \<Rightarrow>
             let s2 = (update_special_keys s1 keycode released)\<lparr>scancode_byte_count := 0\<rparr>
             in Some (if keypress_handler s2
                      then s2\<lparr>events := events s2 @ [key_event s2 keycode released]\<rparr> else s2))"

text \<open>The ninth byte of a scancode would be written past the end of \<open>scancode_bytes\<close>.\<close>

definition on_key_pressed :: "kbd \<Rightarrow> u8 \<Rightarrow> kbd option" where
  "on_key_pressed s scancode =
     (if scancode_byte_count s < length (scancode_bytes s)
      then let s1 = s\<lparr>scancode_bytes := (scancode_bytes s)[scancode_byte_count s := scancode],
                      scancode_byte_count := scancode_byte_count s + 1\<rparr>
           in if continue_scan (scancode_bytes s1) (scancode_byte_count s1) scancode
              then Some s1 else finish_scancode s1
      else None)"

section \<open>The command queue\<close>

definition send_byte :: "u8 \<Rightarrow> kbd \<Rightarrow> kbd" where
  "send_byte b s = s\<lparr>sent := sent s @ [b]\<rparr>"

text \<open>A full queue drops the command; the callers do not look at the result.\<close>

definition add_command ::
  "kbd \<Rightarrow> u8 \<Rightarrow> bool \<Rightarrow> u8 \<Rightarrow> bool \<Rightarrow> completion \<Rightarrow> kbd" where
  "add_command s code has_sub sub has_resp complete =
     (if queue_count s = MAX_COMMANDS then s
      else let cmd = \<lparr>cmd_code = code, cmd_subcommand = sub, has_subcommand = has_sub,
                      has_response = has_resp, on_complete = complete, sub_sent = False,
                      acknowledged = False, resend_count = 0\<rparr>;
               i = (queue_min s + queue_count s) mod MAX_COMMANDS;
               s1 = s\<lparr>cmd_queue := (cmd_queue s)[i := cmd], queue_count := queue_count s + 1\<rparr>
           in if queue_count s1 = 1 then send_byte code s1 else s1)"

definition next_command :: "kbd \<Rightarrow> kbd" where
  "next_command s =
     (let s1 = s\<lparr>queue_min := (queue_min s + 1) mod MAX_COMMANDS, queue_count := queue_count s - 1\<rparr>
      in if queue_count s1 > 0 then send_byte (cmd_code (cmd_queue s1 ! queue_min s1)) s1 else s1)"

section \<open>Initialisation\<close>

definition continue_init :: "kbd \<Rightarrow> bool \<Rightarrow> u8 \<Rightarrow> kbd" where
  "continue_init s success response =
     (if \<not> success then s\<lparr>initialized := True\<rparr>
      else case init_state s of
        INIT_START \<Rightarrow>
          add_command (s\<lparr>init_state := DISABLE_SCAN\<rparr>) CMD_DISABLE_SCAN False 0 False Continue_init
      | DISABLE_SCAN \<Rightarrow>
          add_command (s\<lparr>init_state := SET_SCAN_SET_2\<rparr>) CMD_SCAN_CODE_SET True 0x2 False Continue_init
      | SET_SCAN_SET_2 \<Rightarrow>
          add_command (s\<lparr>init_state := GET_SCAN_SET\<rparr>) CMD_SCAN_CODE_SET True 0x0 True Continue_init
      | GET_SCAN_SET \<Rightarrow>
          if response \<noteq> 2 then s\<lparr>initialized := True\<rparr>
          else add_command (s\<lparr>scan_code_set := uint response, init_state := ENABLE_SCAN\<rparr>)
                 CMD_ENABLE_SCAN False 0 False Continue_init
      | ENABLE_SCAN \<Rightarrow> s\<lparr>init_state := INITIALIZED, initialized := True\<rparr>
      | INITIALIZED \<Rightarrow> s)"

definition call_on_complete :: "completion \<Rightarrow> kbd \<Rightarrow> bool \<Rightarrow> u8 \<Rightarrow> kbd" where
  "call_on_complete c s success response =
     (case c of Continue_init \<Rightarrow> continue_init s success response)"

text \<open>
  A byte from the keyboard: an answer to the command at the head of the queue, or a scancode.
  On a resend request the byte sent again is the one read before \<open>cmd->code\<close> is overwritten.
\<close>

definition set_head :: "kbd \<Rightarrow> KbdCommand \<Rightarrow> kbd" where
  "set_head s cmd = s\<lparr>cmd_queue := (cmd_queue s)[queue_min s := cmd]\<rparr>"

definition on_keyboard_send_byte :: "kbd \<Rightarrow> u8 \<Rightarrow> kbd option" where
  "on_keyboard_send_byte s byte =
     (if queue_count s = 0 then on_key_pressed s byte
      else let cmd = cmd_queue s ! queue_min s
        in if byte = RESPONSE_RESEND then
             (let code = cmd_code cmd;
                  cmd1 = (if sub_sent cmd then cmd\<lparr>cmd_code := cmd_subcommand cmd\<rparr> else cmd);
                  cmd2 = cmd1\<lparr>resend_count := resend_count cmd1 + 1\<rparr>;
                  s1 = set_head s cmd2
              in Some (if resend_count cmd2 \<le> 3 then send_byte code s1
                       else next_command (call_on_complete (on_complete cmd2) s1 False 0)))
           else if byte = RESPONSE_ACK then
             (if has_subcommand cmd \<and> \<not> sub_sent cmd
              then Some (send_byte (cmd_subcommand cmd)
                          (set_head s (cmd\<lparr>sub_sent := True, resend_count := 0\<rparr>)))
              else let s1 = set_head s (cmd\<lparr>acknowledged := True\<rparr>)
                   in Some (if \<not> has_response cmd
                            then next_command (call_on_complete (on_complete cmd) s1 True 0)
                            else s1))
           else if acknowledged cmd then
             Some (next_command (call_on_complete (on_complete cmd) s True byte))
           else on_key_pressed s byte)"

definition is_keyboard :: "PS2_Device_Type \<Rightarrow> bool" where
  "is_keyboard t \<longleftrightarrow>
     t = AT_KBD \<or> t = MF2_KBD \<or> t = SHORT_KBD \<or> t = HOST_KBD_122_KEY \<or> t = KBD_122_KEY \<or>
     t = JAPANESE_G_KBD \<or> t = JAPANESE_P_KBD \<or> t = JAPANESE_A_KBD \<or> t = NCD_SUN_KBD"

text \<open>
  \<open>kbd_initialize\<close> up to its wait loop: which port has the keyboard (the number of the port,
  \<open>None\<close> for none), and the state the loop \<open>while(!initialized);\<close> starts in. What ends the loop
  are interrupts, that is calls of \<open>on_keyboard_send_byte\<close>.
\<close>

definition find_keyboard :: "PS2_Device_Type \<Rightarrow> PS2_Device_Type \<Rightarrow> nat option" where
  "find_keyboard port_1_type port_2_type =
     (if is_keyboard port_1_type then Some 1
      else if is_keyboard port_2_type then Some 2 else None)"

definition kbd_initialize :: "kbd \<Rightarrow> PS2_Device_Type \<Rightarrow> PS2_Device_Type \<Rightarrow> kbd" where
  "kbd_initialize s port_1_type port_2_type =
     (case find_keyboard port_1_type port_2_type of
        None \<Rightarrow> s\<lparr>kbd_device := None\<rparr>
      | Some port \<Rightarrow> continue_init
        (s\<lparr>kbd_device := Some port, kbd_hooked := insert port (kbd_hooked s),
           initialized := False, init_state := INIT_START,
           mods := \<lparr>m_shift = False, m_alt = False, m_control = False, m_function = False, m_gui = False\<rparr>,
           togs := \<lparr>caps_lock = False, num_lock = False, scroll_lock = False\<rparr>\<rparr>)
        True 0)"

definition register_handler :: "kbd \<Rightarrow> bool \<Rightarrow> kbd" where
  "register_handler s handler = s\<lparr>keypress_handler := handler\<rparr>"

text \<open>A run over the bytes the keyboard sends.\<close>

fun kbd_run :: "kbd \<Rightarrow> u8 list \<Rightarrow> kbd option" where
  "kbd_run s [] = Some s"
| "kbd_run s (b # bs) =
     (case on_keyboard_send_byte s b of None \<Rightarrow> None | Some s' \<Rightarrow> kbd_run s' bs)"

text \<open>The static variables at boot.\<close>

definition kbd_boot :: kbd where
  "kbd_boot =
     \<lparr>cmd_queue = replicate MAX_COMMANDS \<lparr>cmd_code = 0, cmd_subcommand = 0, has_subcommand = False,
        has_response = False, on_complete = Continue_init, sub_sent = False, acknowledged = False,
        resend_count = 0\<rparr>,
      queue_min = 0, queue_count = 0, scan_code_set = 0, initialized = False,
      init_state = INIT_START, pressed_keys = replicate 64 0, scancode_bytes = replicate 8 0,
      scancode_byte_count = 0, keypress_handler = False,
      mods = \<lparr>m_shift = False, m_alt = False, m_control = False, m_function = False, m_gui = False\<rparr>,
      togs = \<lparr>caps_lock = False, num_lock = False, scroll_lock = False\<rparr>, sent = [], events = [],
      kbd_device = None, kbd_hooked = {}\<rparr>"

end
