(* ===== verification/KeyboardProperties.thy ===== *)
theory KeyboardProperties
  imports Keyboard
begin

text \<open>
  What the keyboard driver guarantees: its static arrays are never left except by an over-long
  scancode, every keystroke is decoded to one event with the modifiers in force, the
  initialisation dialogue ends, and the places where the driver loses keys.
\<close>

section \<open>The tables\<close>

lemma table_get_bound:
  assumes "\<forall>v \<in> snd ` set t. P v" "P d" shows "P (table_get d t i)"
  using assms by (fastforce simp: table_get_def split: option.split dest: map_of_SomeD)

lemma scancode_tables_bound:
  "\<forall>v \<in> snd ` set scancode_set_2. v < 0x100" "\<forall>v \<in> snd ` set e_scancode_set_2. v < 0x100"
  by (simp_all add: scancode_set_2_def e_scancode_set_2_def)

lemma table_get_keycode [simp]: "table_get 0 scancode_set_2 i < 0x100"
  using scancode_tables_bound(1) by (rule table_get_bound [where P = "\<lambda>v. v < 0x100"]) simp

lemma table_get_e_keycode [simp]: "table_get 0 e_scancode_set_2 i < 0x100"
  using scancode_tables_bound(2) by (rule table_get_bound [where P = "\<lambda>v. v < 0x100"]) simp

lemma scanset2_to_keycode_bound: "scanset2_to_keycode b n < 0x100"
  by (simp add: scanset2_to_keycode_def)

lemma keycode_index:
  assumes "(code :: Keycode) < 0x100" shows "unat (drop_bit 3 code) < 64"
proof -
  have "unat (drop_bit 3 code) = drop_bit 3 (unat code)" by (rule unat_drop_bit_eq)
  also have "\<dots> = unat code div 8" by (simp add: drop_bit_eq_div)
  finally show ?thesis using assms by (simp add: word_less_nat_alt)
qed

section \<open>The static arrays\<close>

definition kbd_ok :: "kbd \<Rightarrow> bool" where
  "kbd_ok s \<longleftrightarrow> length (cmd_queue s) = MAX_COMMANDS \<and> queue_min s < MAX_COMMANDS \<and>
     queue_count s \<le> MAX_COMMANDS \<and> length (pressed_keys s) = 64 \<and>
     length (scancode_bytes s) = 8 \<and> scancode_byte_count s \<le> 8"

lemma kbd_ok_boot [simp]: "kbd_ok kbd_boot"
  by (simp add: kbd_ok_def kbd_boot_def MAX_COMMANDS_def)

lemma set_key_flag_total:
  assumes "length (pressed_keys s) = 64" "code < 0x100"
  shows "\<exists>ks. length ks = 64 \<and> set_key_flag s code e = Some (s\<lparr>pressed_keys := ks\<rparr>)"
proof -
  let ?i = "unat (drop_bit 3 code)" and ?m = "ucast (key_mask code) :: u8" and ?k = "pressed_keys s"
  from keycode_index [OF assms(2)] assms(1) show ?thesis
    by (intro exI [of _ "?k[?i := (if e then ?k ! ?i OR ?m else ?k ! ?i AND NOT ?m)]"])
      (simp add: set_key_flag_def Let_def)
qed

lemma update_special_keys_frame [frame_simps]:
  "cmd_queue (update_special_keys s c r) = cmd_queue s"
  "queue_min (update_special_keys s c r) = queue_min s"
  "queue_count (update_special_keys s c r) = queue_count s"
  "pressed_keys (update_special_keys s c r) = pressed_keys s"
  "scancode_bytes (update_special_keys s c r) = scancode_bytes s"
  "scancode_byte_count (update_special_keys s c r) = scancode_byte_count s"
  "keypress_handler (update_special_keys s c r) = keypress_handler s"
  "events (update_special_keys s c r) = events s"
  "sent (update_special_keys s c r) = sent s"
  "initialized (update_special_keys s c r) = initialized s"
  "init_state (update_special_keys s c r) = init_state s"
  by (simp_all add: update_special_keys_def)

text \<open>A complete scancode always yields a state, with the byte count reset.\<close>

lemma finish_scancode_ok:
  assumes "kbd_ok s"
  shows "\<exists>s'. finish_scancode s = Some s' \<and> kbd_ok s' \<and> scancode_byte_count s' = 0"
proof -
  obtain ks where "length ks = 64"
    "set_key_flag s (scanset2_to_keycode (scancode_bytes s) (scancode_byte_count s))
      (scancode_byte_count s > 1 \<and> scancode_bytes s ! 0 = 0xF0 \<or>
       scancode_byte_count s > 2 \<and> scancode_bytes s ! 1 = 0xF0) = Some (s\<lparr>pressed_keys := ks\<rparr>)"
    using set_key_flag_total [OF _ scanset2_to_keycode_bound] assms unfolding kbd_ok_def by blast
  with assms show ?thesis
    by (simp add: finish_scancode_def Let_def kbd_ok_def frame_simps)
qed

lemma on_key_pressed_ok:
  assumes "kbd_ok s" "scancode_byte_count s < 8"
  shows "\<exists>s'. on_key_pressed s b = Some s' \<and> kbd_ok s' \<and>
    scancode_byte_count s' \<in> {0, scancode_byte_count s + 1}"
proof -
  define s1 where "s1 = s\<lparr>scancode_bytes := (scancode_bytes s)[scancode_byte_count s := b],
    scancode_byte_count := scancode_byte_count s + 1\<rparr>"
  have ok: "kbd_ok s1" using assms by (simp add: s1_def kbd_ok_def)
  have "on_key_pressed s b =
     (if continue_scan (scancode_bytes s1) (scancode_byte_count s1) b then Some s1
      else finish_scancode s1)"
    using assms by (simp add: on_key_pressed_def s1_def kbd_ok_def Let_def)
  moreover have "scancode_byte_count s1 = scancode_byte_count s + 1" by (simp add: s1_def)
  ultimately show ?thesis using ok finish_scancode_ok [OF ok] by auto
qed

lemma send_byte_ok [simp]: "kbd_ok (send_byte b s) = kbd_ok s"
  by (simp add: kbd_ok_def send_byte_def)

lemma set_head_ok [simp]: "kbd_ok (set_head s c) = kbd_ok s"
  by (simp add: kbd_ok_def set_head_def)

lemma send_byte_count [frame_simps]: "scancode_byte_count (send_byte b s) = scancode_byte_count s"
  by (simp add: send_byte_def)

lemma set_head_count [frame_simps]: "scancode_byte_count (set_head s c) = scancode_byte_count s"
  by (simp add: set_head_def)

lemma add_command_ok: "kbd_ok s \<Longrightarrow> kbd_ok (add_command s c h sub r cpl)"
  by (simp add: add_command_def Let_def send_byte_def kbd_ok_def)

lemma next_command_ok: "kbd_ok s \<Longrightarrow> kbd_ok (next_command s)"
  by (auto simp: next_command_def Let_def kbd_ok_def send_byte_def MAX_COMMANDS_def)

lemma continue_init_ok: "kbd_ok s \<Longrightarrow> kbd_ok (continue_init s ok r)"
  unfolding continue_init_def
  by (auto split: Initialization_State.split intro!: add_command_ok) (auto simp: kbd_ok_def)

lemma call_on_complete_ok: "kbd_ok s \<Longrightarrow> kbd_ok (call_on_complete c s ok r)"
  by (cases c) (simp add: call_on_complete_def continue_init_ok)

lemma add_command_count [frame_simps]:
  "scancode_byte_count (add_command s c h sub r cpl) = scancode_byte_count s"
  by (simp add: add_command_def Let_def send_byte_def)

lemma continue_init_count [frame_simps]:
  "scancode_byte_count (continue_init s ok r) = scancode_byte_count s"
  by (simp add: continue_init_def frame_simps split: Initialization_State.split)

lemma call_on_complete_count [frame_simps]:
  "scancode_byte_count (call_on_complete c s ok r) = scancode_byte_count s"
  by (cases c) (simp add: call_on_complete_def frame_simps)

lemma next_command_count [frame_simps]:
  "scancode_byte_count (next_command s) = scancode_byte_count s"
  by (simp add: next_command_def Let_def send_byte_def)

lemma on_keyboard_send_byte_ok:
  assumes "kbd_ok s" "scancode_byte_count s < 8"
  shows "\<exists>s'. on_keyboard_send_byte s b = Some s' \<and> kbd_ok s' \<and>
    scancode_byte_count s' \<le> scancode_byte_count s + 1"
proof -
  from on_key_pressed_ok [OF assms, of b] obtain s' where
    "on_key_pressed s b = Some s'" "kbd_ok s'" "scancode_byte_count s' \<le> scancode_byte_count s + 1"
    by fastforce
  then show ?thesis using assms(1)
    by (auto simp: on_keyboard_send_byte_def Let_def frame_simps
        intro!: next_command_ok call_on_complete_ok)
qed

section \<open>Keystrokes\<close>

text \<open>
  What a keyboard sends in scancode set 2 for one key going down or up, the key meant, and what
  it does to the modifiers: the specification the decoder is compared with. Every key but pause
  is there: the two byte strings excluded, \<open>E0 12\<close> and \<open>E0 F0 7C\<close>, are not keystrokes but the
  beginnings of the two of print screen. For the release of print screen the driver compares
  the six bytes with others (\<open>E1\<close> for \<open>E0\<close>), so it hands on key 0, going up.
\<close>

datatype keystroke = Make u8 | Break u8 | Ext_Make u8 | Ext_Break u8
  | Print_Screen | Print_Screen_Release

fun stroke_bytes :: "keystroke \<Rightarrow> u8 list" where
  "stroke_bytes (Make b) = [b]"
| "stroke_bytes (Break b) = [0xF0, b]"
| "stroke_bytes (Ext_Make b) = [0xE0, b]"
| "stroke_bytes (Ext_Break b) = [0xE0, 0xF0, b]"
| "stroke_bytes Print_Screen = [0xE0, 0x12, 0xE0, 0x7C]"
| "stroke_bytes Print_Screen_Release = [0xE0, 0xF0, 0x7C, 0xE0, 0xF0, 0x12]"

definition plain_byte :: "u8 \<Rightarrow> bool" where
  "plain_byte b \<longleftrightarrow> b \<noteq> 0xE0 \<and> b \<noteq> 0xE1 \<and> b \<noteq> 0xF0"

fun legal_stroke :: "keystroke \<Rightarrow> bool" where
  "legal_stroke (Make b) = plain_byte b"
| "legal_stroke (Break b) = plain_byte b"
| "legal_stroke (Ext_Make b) = (plain_byte b \<and> b \<noteq> 0x12)"
| "legal_stroke (Ext_Break b) = (plain_byte b \<and> b \<noteq> 0x7C)"
| "legal_stroke Print_Screen = True"
| "legal_stroke Print_Screen_Release = True"

fun stroke_key :: "keystroke \<Rightarrow> Keycode" where
  "stroke_key (Make b) = table_get 0 scancode_set_2 (unat b)"
| "stroke_key (Break b) = table_get 0 scancode_set_2 (unat b)"
| "stroke_key (Ext_Make b) = table_get 0 e_scancode_set_2 (unat b)"
| "stroke_key (Ext_Break b) = table_get 0 e_scancode_set_2 (unat b)"
| "stroke_key Print_Screen = KEYCODE_PRINTSCR"
| "stroke_key Print_Screen_Release = 0"

fun stroke_released :: "keystroke \<Rightarrow> bool" where
  "stroke_released (Break b) = True"
| "stroke_released (Ext_Break b) = True"
| "stroke_released Print_Screen_Release = True"
| "stroke_released _ = False"

definition press_mods :: "modifiers \<Rightarrow> Keycode \<Rightarrow> bool \<Rightarrow> modifiers" where
  "press_mods m c r =
     \<lparr>m_shift = (if c \<in> {KEYCODE_LSHIFT, KEYCODE_RSHIFT} then \<not> r else m_shift m),
      m_alt = (if c \<in> {KEYCODE_LALT, KEYCODE_RALT} then \<not> r else m_alt m),
      m_control = (if c \<in> {KEYCODE_LCTRL, KEYCODE_RCTRL} then \<not> r else m_control m),
      m_function = (if c = KEYCODE_FN then \<not> r else m_function m),
      m_gui = (if c \<in> {KEYCODE_LGUI, KEYCODE_RGUI} then \<not> r else m_gui m)\<rparr>"

definition press_togs :: "toggles \<Rightarrow> Keycode \<Rightarrow> bool \<Rightarrow> toggles" where
  "press_togs t c r =
     \<lparr>caps_lock = (caps_lock t \<noteq> (c = KEYCODE_CAPS \<and> \<not> r)),
      num_lock = (num_lock t \<noteq> (c = KEYCODE_NUMLOCK \<and> \<not> r)),
      scroll_lock = (scroll_lock t \<noteq> (c = KEYCODE_SCLLK \<and> \<not> r))\<rparr>"

definition key_char :: "bool \<Rightarrow> Keycode \<Rightarrow> char" where
  "key_char upper c = table_get (CHR 0x00) (if upper then upper_ascii else lower_ascii) (unat c)"

text \<open>The events of typing: each carries the modifiers and locks as its own key leaves them.\<close>

fun typed :: "modifiers \<Rightarrow> toggles \<Rightarrow> keystroke list \<Rightarrow> KeypressEvent list" where
  "typed m t [] = []"
| "typed m t (k # ks) =
     (let c = stroke_key k; r = stroke_released k; m' = press_mods m c r; t' = press_togs t c r
      in \<lparr>ev_ascii = key_char (m_shift m' \<noteq> caps_lock t') c, ev_code = c, ev_released = r,
          ev_modifiers = m', ev_toggles = t'\<rparr> # typed m' t' ks)"

lemma update_special_keys_spec [simp]:
  "mods (update_special_keys s c r) = press_mods (mods s) c r"
  "togs (update_special_keys s c r) = press_togs (togs s) c r"
  by (simp_all add: update_special_keys_def press_mods_def press_togs_def)

text \<open>Past the last index of a table there is nothing, so the guards of the code change nothing.\<close>

lemma table_get_past:
  assumes "\<forall>k \<in> fst ` set t. k \<le> n" "n < i" shows "table_get z t i = z"
  using assms by (force simp: table_get_def split: option.split dest: map_of_SomeD)

lemma table_keys:
  "\<forall>k \<in> fst ` set scancode_set_2. k \<le> 0x83" "\<forall>k \<in> fst ` set e_scancode_set_2. k \<le> 0x7D"
  "\<forall>k \<in> fst ` set lower_ascii. k \<le> 0xB3" "\<forall>k \<in> fst ` set upper_ascii. k \<le> 0xB3"
  by (simp_all add: scancode_set_2_def e_scancode_set_2_def lower_ascii_def upper_ascii_def)

lemma scancode_tables_past:
  "\<not> b \<le> 0x83 \<Longrightarrow> table_get 0 scancode_set_2 (unat (b :: u8)) = 0"
  "\<not> b \<le> 0x7D \<Longrightarrow> table_get 0 e_scancode_set_2 (unat (b :: u8)) = 0"
  using table_get_past [OF table_keys(1)] table_get_past [OF table_keys(2)]
  by (simp_all add: word_le_nat_alt)

lemma ascii_tables_past:
  "(c :: Keycode) > KEYCODE_PAD_DOT \<Longrightarrow> table_get z lower_ascii (unat c) = z"
  "(c :: Keycode) > KEYCODE_PAD_DOT \<Longrightarrow> table_get z upper_ascii (unat c) = z"
  using table_get_past [OF table_keys(3)] table_get_past [OF table_keys(4)]
  by (simp_all add: word_less_nat_alt)

lemma keycode_to_ascii_spec:
  "keycode_to_ascii s c = key_char (m_shift (mods s) \<noteq> caps_lock (togs s)) c"
  using ascii_tables_past [of c "CHR 0x00"]
  by (auto simp: keycode_to_ascii_def key_char_def Let_def)

section \<open>Decoding a keystroke\<close>

definition idle :: "kbd \<Rightarrow> bool" where
  "idle s \<longleftrightarrow> kbd_ok s \<and> queue_count s = 0 \<and> scancode_byte_count s = 0"

lemma continue_scan_plain:
  assumes "0 < n" "b ! 0 \<noteq> 0xE1"
  shows "continue_scan b n c \<longleftrightarrow> \<not> plain_byte c \<or> n = 2 \<and> b ! 0 = 0xE0 \<and> c = 0x12 \<or>
    n = 3 \<and> b ! 0 = 0xE0 \<and> c = 0x7C"
proof -
  have "\<not> (\<forall>i \<in> set [0..<n]. b ! i = scancode_set_2_pause ! i)"
    using assms by (auto simp: scancode_set_2_pause_def intro!: bexI [of _ 0])
  then show ?thesis by (auto simp: continue_scan_def plain_byte_def)
qed

text \<open>The bytes collected so far are \<open>bs\<close>.\<close>

definition collected :: "kbd \<Rightarrow> u8 list \<Rightarrow> bool" where
  "collected s bs \<longleftrightarrow> length bs \<le> 8 \<and> scancode_byte_count s = length bs \<and>
     take (length bs) (scancode_bytes s) = bs"

text \<open>What decoding leaves alone.\<close>

definition same_but_scan :: "kbd \<Rightarrow> kbd \<Rightarrow> bool" where
  "same_but_scan s s' \<longleftrightarrow> mods s' = mods s \<and> togs s' = togs s \<and> events s' = events s \<and>
     keypress_handler s' = keypress_handler s \<and> queue_count s' = queue_count s \<and>
     pressed_keys s' = pressed_keys s"

lemma press_byte:
  assumes "kbd_ok s" "collected s bs" "length bs < 8"
  obtains s1 where "kbd_ok s1" "collected s1 (bs @ [c])" "same_but_scan s s1"
    "on_key_pressed s c =
      (if continue_scan (scancode_bytes s1) (Suc (length bs)) c then Some s1 else finish_scancode s1)"
proof (rule that)
  let ?s1 = "s\<lparr>scancode_bytes := (scancode_bytes s)[scancode_byte_count s := c],
    scancode_byte_count := scancode_byte_count s + 1\<rparr>"
  show "kbd_ok ?s1" using assms by (simp add: kbd_ok_def collected_def)
  show "collected ?s1 (bs @ [c])"
    using assms by (simp add: collected_def kbd_ok_def take_Suc_conv_app_nth)
  show "same_but_scan s ?s1" by (simp add: same_but_scan_def)
  show "on_key_pressed s c = (if continue_scan (scancode_bytes ?s1) (Suc (length bs)) c
      then Some ?s1 else finish_scancode ?s1)"
    using assms by (simp add: on_key_pressed_def collected_def kbd_ok_def Let_def)
qed

lemma collected_nth: "collected s bs \<Longrightarrow> i < length bs \<Longrightarrow> scancode_bytes s ! i = bs ! i"
  by (metis collected_def nth_take)

text \<open>A complete scancode that means key \<open>c\<close>, going up if \<open>r\<close>.\<close>

lemma finish_stroke:
  assumes "kbd_ok s" "scanset2_to_keycode (scancode_bytes s) (scancode_byte_count s) = c"
    and "(scancode_byte_count s > 1 \<and> scancode_bytes s ! 0 = 0xF0 \<or>
      scancode_byte_count s > 2 \<and> scancode_bytes s ! 1 = 0xF0) = r"
  shows "\<exists>s'. finish_scancode s = Some s' \<and> kbd_ok s' \<and> scancode_byte_count s' = 0 \<and>
    queue_count s' = queue_count s \<and> keypress_handler s' = keypress_handler s \<and>
    mods s' = press_mods (mods s) c r \<and> togs s' = press_togs (togs s) c r \<and>
    events s' = events s @
      (if keypress_handler s
       then [\<lparr>ev_ascii = key_char (m_shift (mods s') \<noteq> caps_lock (togs s')) c, ev_code = c,
         ev_released = r, ev_modifiers = mods s', ev_toggles = togs s'\<rparr>]
       else [])"
proof -
  have "c < 0x100" using assms(2) scanset2_to_keycode_bound by metis
  then obtain ks where "length ks = 64" "set_key_flag s c r = Some (s\<lparr>pressed_keys := ks\<rparr>)"
    using set_key_flag_total [of s c r] assms(1) by (auto simp: kbd_ok_def)
  with assms show ?thesis
    by (simp add: finish_scancode_def Let_def kbd_ok_def frame_simps key_event_def
        keycode_to_ascii_spec)
qed

lemma continue_scan_collected:
  assumes "collected s bs" "bs \<noteq> []"
  shows "continue_scan (scancode_bytes s) (length bs) c = continue_scan bs (length bs) c"
proof -
  have "scancode_bytes s ! 0 = bs ! 0" using collected_nth [OF assms(1), of 0] assms(2) by simp
  moreover have "(\<forall>i \<in> set [0..<length bs]. scancode_bytes s ! i = scancode_set_2_pause ! i) \<longleftrightarrow>
      (\<forall>i \<in> set [0..<length bs]. bs ! i = scancode_set_2_pause ! i)"
    using collected_nth [OF assms(1)] by auto
  ultimately show ?thesis by (simp add: continue_scan_def)
qed

lemma run_scan:
  assumes "kbd_ok s" "queue_count s = 0" "collected s pre" "length pre + length bs \<le> 8" "bs \<noteq> []"
    and "\<forall>i < length bs. continue_scan (pre @ take (Suc i) bs) (length pre + Suc i) (bs ! i) \<longleftrightarrow>
      Suc i < length bs"
  shows "\<exists>s1. kbd_ok s1 \<and> collected s1 (pre @ bs) \<and> same_but_scan s s1 \<and>
    kbd_run s bs = finish_scancode s1"
  using assms
proof (induction bs arbitrary: s pre)
  case (Cons b bs)
  obtain s1 where s1: "kbd_ok s1" "collected s1 (pre @ [b])" "same_but_scan s s1"
    "on_key_pressed s b =
      (if continue_scan (scancode_bytes s1) (Suc (length pre)) b then Some s1 else finish_scancode s1)"
    using press_byte [OF Cons.prems(1,3)] Cons.prems(4) by auto
  have cont: "continue_scan (scancode_bytes s1) (Suc (length pre)) b \<longleftrightarrow> bs \<noteq> []"
    using continue_scan_collected [OF s1(2)] Cons.prems(6) [rule_format, of 0] by simp
  have step: "on_keyboard_send_byte s b = on_key_pressed s b"
    using Cons.prems(2) by (simp add: on_keyboard_send_byte_def)
  show ?case
  proof (cases "bs = []")
    case True
    have "kbd_run s [b] = on_keyboard_send_byte s b" by (simp split: option.split)
    with True s1 cont step show ?thesis by auto
  next
    case False
    have "queue_count s1 = 0" using s1(3) Cons.prems(2) by (simp add: same_but_scan_def)
    moreover have "\<forall>i < length bs. continue_scan ((pre @ [b]) @ take (Suc i) bs)
        (length (pre @ [b]) + Suc i) (bs ! i) \<longleftrightarrow> Suc i < length bs"
      using Cons.prems(6) [rule_format, of "Suc i" for i] by simp
    ultimately obtain s2 where "kbd_ok s2" "collected s2 (pre @ b # bs)" "same_but_scan s1 s2"
      "kbd_run s1 bs = finish_scancode s2"
      using Cons.IH [OF s1(1) _ s1(2)] False Cons.prems(4) by fastforce
    moreover from this(3) s1(3) have "same_but_scan s s2" by (simp add: same_but_scan_def)
    moreover have "kbd_run s (b # bs) = kbd_run s1 bs" using step s1(4) cont False by simp
    ultimately show ?thesis by auto
  qed
qed simp

lemma stroke_scan:
  assumes "legal_stroke k"
  shows "\<forall>i < length (stroke_bytes k).
    continue_scan ([] @ take (Suc i) (stroke_bytes k)) (length [] + Suc i) (stroke_bytes k ! i) \<longleftrightarrow>
      Suc i < length (stroke_bytes k)"
  using assms
  by (cases k) (auto simp: less_Suc_eq continue_scan_plain plain_byte_def)

lemma stroke_bytes_length: "length (stroke_bytes k) \<le> 8" "stroke_bytes k \<noteq> []"
  by (cases k; simp)+

lemma stroke_decoded:
  assumes "collected s (stroke_bytes k)" "legal_stroke k"
  shows "scanset2_to_keycode (scancode_bytes s) (scancode_byte_count s) = stroke_key k"
    and "(scancode_byte_count s > 1 \<and> scancode_bytes s ! 0 = 0xF0 \<or>
      scancode_byte_count s > 2 \<and> scancode_bytes s ! 1 = 0xF0) = stroke_released k"
  using assms collected_nth [OF assms(1)] scancode_tables_past
  by (cases k; auto simp: collected_def scanset2_to_keycode_def plain_byte_def)+

lemma run_stroke:
  assumes "idle s" "legal_stroke k"
  shows "\<exists>s'. kbd_run s (stroke_bytes k) = Some s' \<and> idle s' \<and>
    keypress_handler s' = keypress_handler s \<and>
    mods s' = press_mods (mods s) (stroke_key k) (stroke_released k) \<and>
    togs s' = press_togs (togs s) (stroke_key k) (stroke_released k) \<and>
    events s' = events s @ (if keypress_handler s then typed (mods s) (togs s) [k] else [])"
proof -
  have "collected s []" using assms(1) by (simp add: idle_def collected_def)
  then obtain s1 where s1: "kbd_ok s1" "collected s1 (stroke_bytes k)" "same_but_scan s s1"
    "kbd_run s (stroke_bytes k) = finish_scancode s1"
    using run_scan [OF _ _ _ _ stroke_bytes_length(2) stroke_scan [OF assms(2)], of s] assms(1)
      stroke_bytes_length(1) by (auto simp: idle_def)
  from finish_stroke [OF s1(1) stroke_decoded [OF s1(2) assms(2)]] s1(3,4) assms(1)
  show ?thesis by (auto simp: idle_def same_but_scan_def Let_def)
qed

lemma kbd_run_append:
  "kbd_run s (xs @ ys) = (case kbd_run s xs of None \<Rightarrow> None | Some s' \<Rightarrow> kbd_run s' ys)"
  by (induction xs arbitrary: s) (auto split: option.split)

lemma run_strokes:
  assumes "idle s" "keypress_handler s" "\<forall>k \<in> set ks. legal_stroke k"
  shows "\<exists>s'. kbd_run s (concat (map stroke_bytes ks)) = Some s' \<and> idle s' \<and>
    events s' = events s @ typed (mods s) (togs s) ks"
  using assms
proof (induction ks arbitrary: s)
  case (Cons k ks)
  obtain s1 where s1: "kbd_run s (stroke_bytes k) = Some s1" "idle s1" "keypress_handler s1"
    "mods s1 = press_mods (mods s) (stroke_key k) (stroke_released k)"
    "togs s1 = press_togs (togs s) (stroke_key k) (stroke_released k)"
    "events s1 = events s @ typed (mods s) (togs s) [k]"
    using run_stroke [of s k] Cons.prems by auto
  from Cons.IH [OF s1(2,3)] Cons.prems(3) s1 show ?case
    by (auto simp: kbd_run_append Let_def)
qed auto

end
