(* ===== verification/KeyboardInit.thy ===== *)
theory KeyboardInit
  imports KeyboardProperties
begin

text \<open>
  The command queue at work: what one answer of the keyboard does to the command at the head of
  the queue, and the initialisation dialogue of \<open>keyboard.c\<close> as a run of answers.
\<close>

section \<open>The command in progress\<close>

text \<open>One command is queued, \<open>cmd\<close>, and its first byte has been sent.\<close>

definition waiting :: "kbd \<Rightarrow> KbdCommand \<Rightarrow> bool" where
  "waiting s cmd \<longleftrightarrow> kbd_ok s \<and> queue_count s = 1 \<and> cmd_queue s ! queue_min s = cmd"

definition fresh_command :: "u8 \<Rightarrow> bool \<Rightarrow> u8 \<Rightarrow> bool \<Rightarrow> completion \<Rightarrow> KbdCommand" where
  "fresh_command code has_sub sub has_resp cpl =
     \<lparr>cmd_code = code, cmd_subcommand = sub, has_subcommand = has_sub, has_response = has_resp,
      on_complete = cpl, sub_sent = False, acknowledged = False, resend_count = 0\<rparr>"

text \<open>Where the dialogue is: the state, whether it is over, and the bytes sent so far.\<close>

definition dialogue :: "kbd \<Rightarrow> Initialization_State \<Rightarrow> bool \<Rightarrow> u8 list \<Rightarrow> bool" where
  "dialogue s st over bytes \<longleftrightarrow> init_state s = st \<and> initialized s = over \<and> sent s = bytes \<and>
     scancode_byte_count s = 0"

lemma waiting_set_head:
  "waiting s cmd \<Longrightarrow> waiting (set_head s c) c"
  by (simp add: waiting_def kbd_ok_def set_head_def)

lemma dialogue_set_head [simp]: "dialogue (set_head s c) st ov bs = dialogue s st ov bs"
  by (simp add: dialogue_def set_head_def)

lemma dialogue_send [simp]:
  "dialogue s st ov bs \<Longrightarrow> dialogue (send_byte b s) st ov (bs @ [b])"
  by (simp add: dialogue_def send_byte_def)

lemma waiting_send [simp]: "waiting (send_byte b s) cmd = waiting s cmd"
  by (simp add: waiting_def kbd_ok_def send_byte_def)

text \<open>Starting the next command when one completes.\<close>

lemma add_next:
  assumes "waiting s cmd" "dialogue s st ov bs"
  shows "waiting (next_command (add_command s code h sub r cpl)) (fresh_command code h sub r cpl)"
    and "dialogue (next_command (add_command s code h sub r cpl)) st ov (bs @ [code])"
  using assms
  by (auto simp: waiting_def dialogue_def next_command_def add_command_def Let_def kbd_ok_def
      MAX_COMMANDS_def send_byte_def fresh_command_def)

lemma next_empty:
  assumes "waiting s cmd" "dialogue s st ov bs"
  shows "idle (next_command s)" "dialogue (next_command s) st ov bs"
  using assms by (auto simp: waiting_def dialogue_def idle_def next_command_def Let_def kbd_ok_def
      MAX_COMMANDS_def)

section \<open>Answers\<close>

lemma on_ack:
  assumes "waiting s cmd"
  shows "on_keyboard_send_byte s RESPONSE_ACK =
    (if has_subcommand cmd \<and> \<not> sub_sent cmd
     then Some (send_byte (cmd_subcommand cmd) (set_head s (cmd\<lparr>sub_sent := True, resend_count := 0\<rparr>)))
     else if has_response cmd then Some (set_head s (cmd\<lparr>acknowledged := True\<rparr>))
     else Some (next_command
       (call_on_complete (on_complete cmd) (set_head s (cmd\<lparr>acknowledged := True\<rparr>)) True 0)))"
  using assms
  by (simp add: waiting_def on_keyboard_send_byte_def Let_def RESPONSE_ACK_def RESPONSE_RESEND_def)

lemma on_response:
  assumes "waiting s cmd" "acknowledged cmd" "b \<noteq> RESPONSE_ACK" "b \<noteq> RESPONSE_RESEND"
  shows "on_keyboard_send_byte s b =
    Some (next_command (call_on_complete (on_complete cmd) s True b))"
  using assms by (simp add: waiting_def on_keyboard_send_byte_def Let_def)

lemma on_resend:
  assumes "waiting s cmd"
    and "c = (if sub_sent cmd then cmd\<lparr>cmd_code := cmd_subcommand cmd\<rparr> else cmd)\<lparr>resend_count := resend_count cmd + 1\<rparr>"
  shows "on_keyboard_send_byte s RESPONSE_RESEND =
    Some (if resend_count cmd < 3 then send_byte (cmd_code cmd) (set_head s c)
      else next_command (call_on_complete (on_complete cmd) (set_head s c) False 0))"
  using assms
  by (auto simp: waiting_def on_keyboard_send_byte_def Let_def)

text \<open>Up to three resend requests for a command without a subcommand byte on its way.\<close>

lemma resend_code:
  assumes "waiting s cmd" "\<not> sub_sent cmd" "resend_count cmd + int n \<le> 3" "dialogue s st ov bs"
  shows "\<exists>s'. kbd_run s (replicate n RESPONSE_RESEND) = Some s' \<and>
    waiting s' (cmd\<lparr>resend_count := resend_count cmd + int n\<rparr>) \<and>
    dialogue s' st ov (bs @ replicate n (cmd_code cmd))"
  using assms
proof (induction n arbitrary: s cmd bs)
  case (Suc n)
  let ?c = "cmd\<lparr>resend_count := resend_count cmd + 1\<rparr>"
  let ?s = "send_byte (cmd_code cmd) (set_head s ?c)"
  have step: "on_keyboard_send_byte s RESPONSE_RESEND = Some ?s"
    using on_resend [OF Suc.prems(1) refl] Suc.prems(2,3) by simp
  have "waiting ?s ?c" using waiting_set_head [OF Suc.prems(1)] by simp
  from Suc.IH [OF this _ _ dialogue_send, of "bs"] Suc.prems(2-4) show ?case
    by (simp add: step algebra_simps)
qed simp

text \<open>
  And for one whose subcommand byte was sent: the first answer is the main code once more, only
  the later ones are the subcommand.
\<close>

definition sub_resent :: "u8 \<Rightarrow> u8 \<Rightarrow> nat \<Rightarrow> u8 list" where
  "sub_resent code sub n = (if n = 0 then [] else code # replicate (n - 1) sub)"

lemma resend_sub:
  assumes "waiting s cmd" "sub_sent cmd" "resend_count cmd + int n \<le> 3" "dialogue s st ov bs"
  shows "\<exists>s' code. kbd_run s (replicate n RESPONSE_RESEND) = Some s' \<and>
    waiting s' (cmd\<lparr>cmd_code := code, resend_count := resend_count cmd + int n\<rparr>) \<and>
    dialogue s' st ov (bs @ sub_resent (cmd_code cmd) (cmd_subcommand cmd) n)"
  using assms
proof (induction n arbitrary: s cmd bs)
  case 0
  then have "cmd\<lparr>cmd_code := cmd_code cmd, resend_count := resend_count cmd + int 0\<rparr> = cmd" by simp
  with 0 show ?case by (auto simp: sub_resent_def intro!: exI [of _ "cmd_code cmd"])
next
  case (Suc n)
  let ?c = "cmd\<lparr>cmd_code := cmd_subcommand cmd, resend_count := resend_count cmd + 1\<rparr>"
  let ?s = "send_byte (cmd_code cmd) (set_head s ?c)"
  have step: "on_keyboard_send_byte s RESPONSE_RESEND = Some ?s"
    using on_resend [OF Suc.prems(1) refl] Suc.prems(2,3) by simp
  have w: "waiting ?s ?c" using waiting_set_head [OF Suc.prems(1)] by simp
  have d: "dialogue ?s st ov (bs @ [cmd_code cmd])" using Suc.prems(4) by simp
  have "sub_resent (cmd_code cmd) (cmd_subcommand cmd) (Suc n) =
      cmd_code cmd # sub_resent (cmd_subcommand cmd) (cmd_subcommand cmd) n"
    by (cases n) (simp_all add: sub_resent_def)
  with Suc.IH [OF w _ _ d] Suc.prems(2,3) show ?case
    by (simp add: step algebra_simps)
qed

section \<open>Whole commands\<close>

abbreviation answers :: "nat \<Rightarrow> u8 list" where
  "answers n \<equiv> replicate n RESPONSE_RESEND @ [RESPONSE_ACK]"

lemma run_plain:
  assumes "waiting s (fresh_command code False sub False Continue_init)" "n \<le> 3" "dialogue s st ov bs"
  shows "\<exists>s1 c. kbd_run s (answers n) = Some (next_command (continue_init s1 True 0)) \<and>
    waiting s1 c \<and> dialogue s1 st ov (bs @ replicate n code)"
proof -
  let ?cmd = "fresh_command code False sub False Continue_init"
  have f: "\<not> sub_sent ?cmd" "resend_count ?cmd + int n \<le> 3" "cmd_code ?cmd = code"
    using assms(2) by (simp_all add: fresh_command_def)
  obtain s1 where s1: "kbd_run s (replicate n RESPONSE_RESEND) = Some s1"
    "waiting s1 (?cmd\<lparr>resend_count := resend_count ?cmd + int n\<rparr>)"
    "dialogue s1 st ov (bs @ replicate n code)"
    using resend_code [OF assms(1) f(1,2) assms(3)] f(3) by auto
  let ?s2 = "set_head s1 (?cmd\<lparr>resend_count := resend_count ?cmd + int n, acknowledged := True\<rparr>)"
  have "on_keyboard_send_byte s1 RESPONSE_ACK = Some (next_command (continue_init ?s2 True 0))"
    using on_ack [OF s1(2)] by (simp add: fresh_command_def call_on_complete_def)
  then show ?thesis
    using s1 waiting_set_head [OF s1(2)]
    by (intro exI [of _ ?s2] exI [of _ "?cmd\<lparr>resend_count := resend_count ?cmd + int n, acknowledged := True\<rparr>"])
      (simp add: kbd_run_append)
qed

text \<open>The state a command with a subcommand is in once the main byte was acknowledged.\<close>

definition sub_command :: "u8 \<Rightarrow> u8 \<Rightarrow> bool \<Rightarrow> KbdCommand" where
  "sub_command code sub r = (fresh_command code True sub r Continue_init)\<lparr>sub_sent := True\<rparr>"

lemma run_main:
  assumes "waiting s (fresh_command code True sub r Continue_init)" "n \<le> 3" "dialogue s st ov bs"
  shows "\<exists>s1. kbd_run s (answers n) = Some s1 \<and> waiting s1 (sub_command code sub r) \<and>
    dialogue s1 st ov (bs @ replicate n code @ [sub])"
proof -
  let ?cmd = "fresh_command code True sub r Continue_init"
  have f: "\<not> sub_sent ?cmd" "resend_count ?cmd + int n \<le> 3" "cmd_code ?cmd = code"
    using assms(2) by (simp_all add: fresh_command_def)
  obtain s1 where s1: "kbd_run s (replicate n RESPONSE_RESEND) = Some s1"
    "waiting s1 (?cmd\<lparr>resend_count := resend_count ?cmd + int n\<rparr>)"
    "dialogue s1 st ov (bs @ replicate n code)"
    using resend_code [OF assms(1) f(1,2) assms(3)] f(3) by auto
  let ?c = "sub_command code sub r"
  have "on_keyboard_send_byte s1 RESPONSE_ACK = Some (send_byte sub (set_head s1 ?c))"
    using on_ack [OF s1(2)] by (simp add: fresh_command_def sub_command_def)
  moreover have "dialogue (send_byte sub (set_head s1 ?c)) st ov ((bs @ replicate n code) @ [sub])"
    using s1(3) by (intro dialogue_send) simp
  ultimately show ?thesis using s1 waiting_set_head [OF s1(2)]
    by (simp add: kbd_run_append)
qed

lemma run_sub:
  assumes "waiting s (sub_command code sub r)" "n \<le> 3" "dialogue s st ov bs"
  shows "\<exists>s1 c. waiting s1 c \<and> acknowledged c \<and> on_complete c = Continue_init \<and>
    dialogue s1 st ov (bs @ sub_resent code sub n) \<and>
    kbd_run s (answers n) = Some (if r then s1 else next_command (continue_init s1 True 0))"
proof -
  let ?cmd = "sub_command code sub r"
  have f: "sub_sent ?cmd" "resend_count ?cmd + int n \<le> 3" "cmd_code ?cmd = code" "cmd_subcommand ?cmd = sub"
    using assms(2) by (simp_all add: sub_command_def fresh_command_def)
  obtain s1 code' where s1: "kbd_run s (replicate n RESPONSE_RESEND) = Some s1"
    "waiting s1 (?cmd\<lparr>cmd_code := code', resend_count := resend_count ?cmd + int n\<rparr>)"
    "dialogue s1 st ov (bs @ sub_resent code sub n)"
    using resend_sub [OF assms(1) f(1,2) assms(3)] unfolding f(3,4) by blast
  let ?c = "?cmd\<lparr>cmd_code := code', resend_count := resend_count ?cmd + int n, acknowledged := True\<rparr>"
  let ?s2 = "set_head s1 ?c"
  have "on_keyboard_send_byte s1 RESPONSE_ACK =
      Some (if r then ?s2 else next_command (continue_init ?s2 True 0))"
    using on_ack [OF s1(2)] by (simp add: sub_command_def fresh_command_def call_on_complete_def)
  then show ?thesis
    using s1 waiting_set_head [OF s1(2)]
    by (intro exI [of _ ?s2] exI [of _ ?c])
      (simp add: kbd_run_append sub_command_def fresh_command_def)
qed

section \<open>The dialogue\<close>

lemma waiting_init_state: "waiting (s\<lparr>init_state := st\<rparr>) c = waiting s c"
  by (simp add: waiting_def kbd_ok_def)

lemma waiting_initialized: "waiting (s\<lparr>initialized := b\<rparr>) c = waiting s c"
  by (simp add: waiting_def kbd_ok_def)

lemma dialogue_init_state:
  "dialogue s st ov bs \<Longrightarrow> dialogue (s\<lparr>init_state := st'\<rparr>) st' ov bs"
  by (simp add: dialogue_def)

lemma continue_init_next:
  assumes "waiting s c" "dialogue s st ov bs"
  shows "st = DISABLE_SCAN \<Longrightarrow> waiting (next_command (continue_init s True r))
      (fresh_command CMD_SCAN_CODE_SET True 2 False Continue_init) \<and>
      dialogue (next_command (continue_init s True r)) SET_SCAN_SET_2 ov (bs @ [CMD_SCAN_CODE_SET])"
    and "st = SET_SCAN_SET_2 \<Longrightarrow> waiting (next_command (continue_init s True r))
      (fresh_command CMD_SCAN_CODE_SET True 0 True Continue_init) \<and>
      dialogue (next_command (continue_init s True r)) GET_SCAN_SET ov (bs @ [CMD_SCAN_CODE_SET])"
    and "st = GET_SCAN_SET \<Longrightarrow> r = 2 \<Longrightarrow> waiting (next_command (continue_init s True r))
      (fresh_command CMD_ENABLE_SCAN False 0 False Continue_init) \<and>
      dialogue (next_command (continue_init s True r)) ENABLE_SCAN ov (bs @ [CMD_ENABLE_SCAN])"
    and "st = ENABLE_SCAN \<Longrightarrow> idle (next_command (continue_init s True r)) \<and>
      dialogue (next_command (continue_init s True r)) INITIALIZED True bs"
proof -
  have st: "init_state s = st" using assms(2) by (simp add: dialogue_def)
  note nxt = add_next [OF waiting_init_state [THEN iffD2, OF assms(1)] dialogue_init_state [OF assms(2)]]
  show "st = DISABLE_SCAN \<Longrightarrow> waiting (next_command (continue_init s True r))
      (fresh_command CMD_SCAN_CODE_SET True 2 False Continue_init) \<and>
      dialogue (next_command (continue_init s True r)) SET_SCAN_SET_2 ov (bs @ [CMD_SCAN_CODE_SET])"
    using nxt st by (simp add: continue_init_def)
  show "st = SET_SCAN_SET_2 \<Longrightarrow> waiting (next_command (continue_init s True r))
      (fresh_command CMD_SCAN_CODE_SET True 0 True Continue_init) \<and>
      dialogue (next_command (continue_init s True r)) GET_SCAN_SET ov (bs @ [CMD_SCAN_CODE_SET])"
    using nxt st by (simp add: continue_init_def)
  let ?s = "s\<lparr>scan_code_set := uint r, init_state := ENABLE_SCAN\<rparr>"
  have "waiting ?s c" "dialogue ?s ENABLE_SCAN ov bs"
    using assms by (simp_all add: waiting_def kbd_ok_def dialogue_def)
  from add_next [OF this] show "st = GET_SCAN_SET \<Longrightarrow> r = 2 \<Longrightarrow>
      waiting (next_command (continue_init s True r))
      (fresh_command CMD_ENABLE_SCAN False 0 False Continue_init) \<and>
      dialogue (next_command (continue_init s True r)) ENABLE_SCAN ov (bs @ [CMD_ENABLE_SCAN])"
    using st by (simp add: continue_init_def)
  let ?e = "s\<lparr>init_state := INITIALIZED, initialized := True\<rparr>"
  have "waiting ?e c" "dialogue ?e INITIALIZED True bs"
    using assms by (simp_all add: waiting_def kbd_ok_def dialogue_def)
  from next_empty [OF this] show "st = ENABLE_SCAN \<Longrightarrow>
      idle (next_command (continue_init s True r)) \<and>
      dialogue (next_command (continue_init s True r)) INITIALIZED True bs"
    using st by (simp add: continue_init_def)
qed

lemma init_start:
  assumes "idle s" "find_keyboard t1 t2 \<noteq> None"
  shows "waiting (kbd_initialize s t1 t2) (fresh_command CMD_DISABLE_SCAN False 0 False Continue_init)"
    and "dialogue (kbd_initialize s t1 t2) DISABLE_SCAN False (sent s @ [CMD_DISABLE_SCAN])"
  using assms
  by (auto simp: idle_def kbd_initialize_def continue_init_def add_command_def Let_def kbd_ok_def
      waiting_def MAX_COMMANDS_def send_byte_def fresh_command_def dialogue_def)

text \<open>The four commands, one after the other.\<close>

lemma stage_disable:
  assumes "waiting s (fresh_command CMD_DISABLE_SCAN False 0 False Continue_init)" "n \<le> 3"
    and "dialogue s DISABLE_SCAN ov bs"
  obtains s' where "kbd_run s (answers n) = Some s'"
    "waiting s' (fresh_command CMD_SCAN_CODE_SET True 2 False Continue_init)"
    "dialogue s' SET_SCAN_SET_2 ov (bs @ replicate n CMD_DISABLE_SCAN @ [CMD_SCAN_CODE_SET])"
  using run_plain [OF assms] continue_init_next(1) [OF _ _ refl] by fastforce

lemma stage_set:
  assumes "waiting s (fresh_command CMD_SCAN_CODE_SET True 2 False Continue_init)" "n \<le> 3" "k \<le> 3"
    and "dialogue s SET_SCAN_SET_2 ov bs"
  obtains s' where "kbd_run s (answers n @ answers k) = Some s'"
    "waiting s' (fresh_command CMD_SCAN_CODE_SET True 0 True Continue_init)"
    "dialogue s' GET_SCAN_SET ov (bs @ replicate n CMD_SCAN_CODE_SET @
      2 # sub_resent CMD_SCAN_CODE_SET 2 k @ [CMD_SCAN_CODE_SET])"
proof -
  obtain s1 where 1: "kbd_run s (answers n) = Some s1"
    "waiting s1 (sub_command CMD_SCAN_CODE_SET 2 False)"
    "dialogue s1 SET_SCAN_SET_2 ov (bs @ replicate n CMD_SCAN_CODE_SET @ [2])"
    using run_main [OF assms(1,2,4)] by blast
  from run_sub [OF 1(2) assms(3) 1(3)] obtain s2 c where 2: "waiting s2 c"
    "dialogue s2 SET_SCAN_SET_2 ov
      ((bs @ replicate n CMD_SCAN_CODE_SET @ [2]) @ sub_resent CMD_SCAN_CODE_SET 2 k)"
    "kbd_run s1 (answers k) = Some (next_command (continue_init s2 True 0))" by fastforce
  have "kbd_run s (answers n @ answers k) = Some (next_command (continue_init s2 True 0))"
    using 1(1) 2(3) by (simp only: kbd_run_append [of s "answers n" "answers k"]) simp
  with continue_init_next(2) [OF 2(1,2) refl, of 0] show thesis
    by (intro that [of "next_command (continue_init s2 True 0)"]) simp_all
qed

lemma stage_get:
  assumes "waiting s (fresh_command CMD_SCAN_CODE_SET True 0 True Continue_init)" "n \<le> 3" "k \<le> 3"
    and "dialogue s GET_SCAN_SET ov bs"
  obtains s' where "kbd_run s ((answers n @ answers k) @ [2]) = Some s'"
    "waiting s' (fresh_command CMD_ENABLE_SCAN False 0 False Continue_init)"
    "dialogue s' ENABLE_SCAN ov (bs @ replicate n CMD_SCAN_CODE_SET @
      0 # sub_resent CMD_SCAN_CODE_SET 0 k @ [CMD_ENABLE_SCAN])"
proof -
  obtain s1 where 1: "kbd_run s (answers n) = Some s1"
    "waiting s1 (sub_command CMD_SCAN_CODE_SET 0 True)"
    "dialogue s1 GET_SCAN_SET ov (bs @ replicate n CMD_SCAN_CODE_SET @ [0])"
    using run_main [OF assms(1,2,4)] by blast
  from run_sub [OF 1(2) assms(3) 1(3)] obtain s2 c where 2: "waiting s2 c" "acknowledged c"
    "on_complete c = Continue_init" "dialogue s2 GET_SCAN_SET ov
      ((bs @ replicate n CMD_SCAN_CODE_SET @ [0]) @ sub_resent CMD_SCAN_CODE_SET 0 k)"
    "kbd_run s1 (answers k) = Some s2" by fastforce
  have "on_keyboard_send_byte s2 2 = Some (next_command (continue_init s2 True 2))"
    using on_response [OF 2(1,2), of 2] 2(3)
    by (simp add: call_on_complete_def RESPONSE_ACK_def RESPONSE_RESEND_def)
  then have "kbd_run s ((answers n @ answers k) @ [2]) = Some (next_command (continue_init s2 True 2))"
    using 1(1) 2(5)
    by (simp only: kbd_run_append [of s "answers n @ answers k"] kbd_run_append [of s "answers n"]) simp
  with continue_init_next(3) [OF 2(1,4) refl refl] show thesis
    by (intro that [of "next_command (continue_init s2 True 2)"]) simp_all
qed

lemma stage_enable:
  assumes "waiting s (fresh_command CMD_ENABLE_SCAN False 0 False Continue_init)" "n \<le> 3"
    and "dialogue s ENABLE_SCAN ov bs"
  obtains s' where "kbd_run s (answers n) = Some s'" "idle s'"
    "dialogue s' INITIALIZED True (bs @ replicate n CMD_ENABLE_SCAN)"
  using run_plain [OF assms] continue_init_next(4) [OF _ _ refl] by fastforce

section \<open>Properties\<close>

text \<open>The keyboard's answers that complete the initialisation, with \<open>n i\<close> resends of byte \<open>i\<close>.\<close>

definition init_answers :: "(nat \<Rightarrow> nat) \<Rightarrow> u8 list" where
  "init_answers n = answers (n 0) @ (answers (n 1) @ answers (n 2)) @ ((answers (n 3) @ answers (n 4)) @ [2])
     @ answers (n 5)"

text \<open>The bytes the driver sends over it.\<close>

definition init_bytes :: "(nat \<Rightarrow> nat) \<Rightarrow> u8 list" where
  "init_bytes n =
     CMD_DISABLE_SCAN # replicate (n 0) CMD_DISABLE_SCAN
     @ CMD_SCAN_CODE_SET # replicate (n 1) CMD_SCAN_CODE_SET @ 2 # sub_resent CMD_SCAN_CODE_SET 2 (n 2)
     @ CMD_SCAN_CODE_SET # replicate (n 3) CMD_SCAN_CODE_SET @ 0 # sub_resent CMD_SCAN_CODE_SET 0 (n 4)
     @ CMD_ENABLE_SCAN # replicate (n 5) CMD_ENABLE_SCAN"

text \<open>What the driver is attached to stays as \<open>kbd_initialize\<close> has set it.\<close>

lemma attached_flag:
  "set_key_flag s c r = Some s' \<Longrightarrow> kbd_device s' = kbd_device s \<and> kbd_hooked s' = kbd_hooked s"
  by (auto simp: set_key_flag_def Let_def split: if_split_asm)

lemma attached_special [simp]:
  "kbd_device (update_special_keys s c r) = kbd_device s"
  "kbd_hooked (update_special_keys s c r) = kbd_hooked s"
  by (simp_all add: update_special_keys_def)

lemma attached_finish:
  assumes "finish_scancode s = Some s'"
  shows "kbd_device s' = kbd_device s \<and> kbd_hooked s' = kbd_hooked s"
proof -
  let ?c = "scanset2_to_keycode (scancode_bytes s) (scancode_byte_count s)"
  let ?r = "scancode_byte_count s > 1 \<and> scancode_bytes s ! 0 = 0xF0 \<or>
    scancode_byte_count s > 2 \<and> scancode_bytes s ! 1 = 0xF0"
  show ?thesis
  proof (cases "set_key_flag s ?c ?r")
    case None
    then show ?thesis using assms by (simp only: finish_scancode_def Let_def option.case) simp
  next
    case (Some s1)
    then have "Some s' = (let s2 = (update_special_keys s1 ?c ?r)\<lparr>scancode_byte_count := 0\<rparr>
        in Some (if keypress_handler s2 then s2\<lparr>events := events s2 @ [key_event s2 ?c ?r]\<rparr> else s2))"
      using assms by (simp only: finish_scancode_def Let_def option.case)
    then have "kbd_device s' = kbd_device (update_special_keys s1 ?c ?r) \<and>
        kbd_hooked s' = kbd_hooked (update_special_keys s1 ?c ?r)"
      by (simp only: Let_def option.inject split: if_split) simp
    then show ?thesis using attached_flag [OF Some] by (simp only: attached_special)
  qed
qed

lemma attached_decoding:
  "on_key_pressed s b = Some s' \<Longrightarrow> kbd_device s' = kbd_device s \<and> kbd_hooked s' = kbd_hooked s"
  unfolding on_key_pressed_def Let_def
  by (auto split: if_split_asm dest: attached_finish)

lemma attached_queue [simp]:
  "kbd_device (next_command s) = kbd_device s" "kbd_hooked (next_command s) = kbd_hooked s"
  "kbd_device (add_command s code h sub r cpl) = kbd_device s"
  "kbd_hooked (add_command s code h sub r cpl) = kbd_hooked s"
  "kbd_device (send_byte v s) = kbd_device s" "kbd_hooked (send_byte v s) = kbd_hooked s"
  "kbd_device (set_head s cmd) = kbd_device s" "kbd_hooked (set_head s cmd) = kbd_hooked s"
  by (simp_all add: next_command_def add_command_def send_byte_def set_head_def Let_def)

lemma attached_complete [simp]:
  "kbd_device (call_on_complete c s ok r) = kbd_device s" "kbd_hooked (call_on_complete c s ok r) = kbd_hooked s"
  by (cases c; simp add: call_on_complete_def continue_init_def split: Initialization_State.split)+

lemma attached_step:
  "on_keyboard_send_byte s b = Some s' \<Longrightarrow> kbd_device s' = kbd_device s \<and> kbd_hooked s' = kbd_hooked s"
  by (auto simp: on_keyboard_send_byte_def Let_def attached_decoding split: if_splits)

lemma attached_run:
  "kbd_run s bs = Some s' \<Longrightarrow> kbd_device s' = kbd_device s \<and> kbd_hooked s' = kbd_hooked s"
  by (induction bs arbitrary: s) (auto dest!: attached_step split: option.splits)

lemma attached_initialize:
  assumes "find_keyboard t1 t2 = Some p"
  shows "kbd_device (kbd_initialize s t1 t2) = Some p \<and> kbd_hooked (kbd_initialize s t1 t2) = insert p (kbd_hooked s)"
  using assms by (simp add: kbd_initialize_def continue_init_def)

text \<open>
  The bytes sent to a keyboard that asks for a byte again by that very byte, as the comment in
  \<open>on_keyboard_send_byte\<close> says: with no such request for a subcommand byte they are the bytes sent.
\<close>

definition repeated_bytes :: "(nat \<Rightarrow> nat) \<Rightarrow> u8 list" where
  "repeated_bytes n =
     concat (map (\<lambda>i. replicate (Suc (n i)) ([0xF5, 0xF0, 2, 0xF0, 0, 0xF4] ! i)) [0..<6])"

lemma upt_6: "[0..<6] = [0, 1, 2, 3, 4, 5]"
  by (simp add: upt_rec)

lemma init_bytes_repeated:
  "n 2 = 0 \<Longrightarrow> n 4 = 0 \<Longrightarrow> init_bytes n = repeated_bytes n"
  by (simp add: init_bytes_def repeated_bytes_def upt_6 sub_resent_def kbd_codes)

text \<open>
  C7: the initialisation dialogue with a keyboard that acknowledges every byte it is sent, after
  at most three resend requests for each, and reports scancode set 2 when asked: every command
  completes, the wait loop of \<open>kbd_initialize\<close> is released in state \<open>INITIALIZED\<close>, and the driver is
  hooked to the device of the port the keyboard is on. The bytes sent are \<open>init_bytes\<close>: those of
  the four commands, each sent again for each request but for the subcommand bytes 2 and 0: the
  first request for one of these is answered with the main byte \<open>0xF0\<close> once more, only the later
  ones with the subcommand. So without requests for these two bytes they are the six bytes, each as
  often as it was asked for.
\<close>

theorem kbd_initialization:
  assumes "idle s" "find_keyboard t1 t2 = Some p" "\<forall>i. n i \<le> 3"
  shows "\<exists>s'. kbd_run (kbd_initialize s t1 t2) (init_answers n) = Some s' \<and> idle s' \<and>
    init_state s' = INITIALIZED \<and> initialized s' \<and> kbd_device s' = Some p \<and> p \<in> kbd_hooked s' \<and>
    sent s' = sent s @ init_bytes n \<and>
    (n 2 = 0 \<and> n 4 = 0 \<longrightarrow> sent s' = sent s @ repeated_bytes n)"
proof -
  let ?F = CMD_SCAN_CODE_SET
  let ?b1 = "(sent s @ [CMD_DISABLE_SCAN]) @ replicate (n 0) CMD_DISABLE_SCAN @ [?F]"
  let ?b2 = "?b1 @ replicate (n 1) ?F @ 2 # sub_resent ?F 2 (n 2) @ [?F]"
  let ?b3 = "?b2 @ replicate (n 3) ?F @ 0 # sub_resent ?F 0 (n 4) @ [CMD_ENABLE_SCAN]"
  have "find_keyboard t1 t2 \<noteq> None" using assms(2) by simp
  note n = assms(3) [rule_format] and i = init_start [OF assms(1) this]
  obtain s1 where 1: "kbd_run (kbd_initialize s t1 t2) (answers (n 0)) = Some s1"
    "waiting s1 (fresh_command ?F True 2 False Continue_init)" "dialogue s1 SET_SCAN_SET_2 False ?b1"
    by (rule stage_disable [OF i(1) n i(2)])
  obtain s2 where 2: "kbd_run s1 (answers (n 1) @ answers (n 2)) = Some s2"
    "waiting s2 (fresh_command ?F True 0 True Continue_init)" "dialogue s2 GET_SCAN_SET False ?b2"
    by (rule stage_set [OF 1(2) n n 1(3)])
  obtain s3 where 3: "kbd_run s2 ((answers (n 3) @ answers (n 4)) @ [2]) = Some s3"
    "waiting s3 (fresh_command CMD_ENABLE_SCAN False 0 False Continue_init)"
    "dialogue s3 ENABLE_SCAN False ?b3"
    by (rule stage_get [OF 2(2) n n 2(3)])
  obtain s4 where 4: "kbd_run s3 (answers (n 5)) = Some s4" "idle s4"
    "dialogue s4 INITIALIZED True (?b3 @ replicate (n 5) CMD_ENABLE_SCAN)"
    by (rule stage_enable [OF 3(2) n 3(3)])
  have "kbd_run (kbd_initialize s t1 t2) (init_answers n) = Some s4"
    unfolding init_answers_def kbd_run_append [of _ "answers (n 0)"] 1(1) option.case
      kbd_run_append [of _ "answers (n 1) @ answers (n 2)"] 2(1)
      kbd_run_append [of _ "(answers (n 3) @ answers (n 4)) @ [2]"] 3(1) 4(1) ..
  moreover have "sent s4 = sent s @ init_bytes n"
    using 4(3) by (simp add: dialogue_def init_bytes_def)
  moreover have "kbd_device s4 = Some p" "p \<in> kbd_hooked s4"
    using attached_run [OF calculation(1)] attached_initialize [OF assms(2)] by simp_all
  ultimately show ?thesis using 4(2,3) init_bytes_repeated [of n] by (simp add: dialogue_def)
qed

lemma idle_boot: "idle kbd_boot"
  by (simp add: idle_def) (simp add: kbd_boot_def)

theorem kbd_initialization_witness:
  "\<exists>s'. kbd_run (kbd_initialize kbd_boot MF2_KBD NONE)
      [0xFA, 0xFA, 0xFE, 0xFE, 0xFA, 0xFA, 0xFA, 2, 0xFA] = Some s' \<and>
    sent s' = [0xF5, 0xF0, 2, 0xF0, 2, 0xF0, 0, 0xF4] \<and> kbd_device s' = Some 1"
proof -
  define n :: "nat \<Rightarrow> nat" where "n = (\<lambda>i. if i = 2 then 2 else 0)"
  have f: "find_keyboard MF2_KBD NONE = Some 1" by (simp add: find_keyboard_def is_keyboard_def)
  have "\<forall>i. n i \<le> 3" by (simp add: n_def)
  from kbd_initialization [OF idle_boot f this] obtain s' where
    s': "kbd_run (kbd_initialize kbd_boot MF2_KBD NONE) (init_answers n) = Some s'"
    "sent s' = sent kbd_boot @ init_bytes n" "kbd_device s' = Some 1" by blast
  have "init_answers n = [0xFA, 0xFA, 0xFE, 0xFE, 0xFA, 0xFA, 0xFA, 2, 0xFA]"
    "init_bytes n = [0xF5, 0xF0, 2, 0xF0, 2, 0xF0, 0, 0xF4]" "sent kbd_boot = []"
    by (simp_all add: n_def init_answers_def init_bytes_def kbd_codes sub_resent_def kbd_boot_def
        numeral_2_eq_2)
  with s' show ?thesis by (simp del: kbd_run.simps)
qed

text \<open>
  C8: a command of the initialisation whose byte is refused four times in a row is given up:
  the queue is empty again and \<open>initialized\<close> is set, so the wait loop of \<open>kbd_initialize\<close> ends,
  but not in state \<open>INITIALIZED\<close>.
\<close>

theorem kbd_initialization_fails:
  assumes "idle s" "find_keyboard t1 t2 \<noteq> None"
  shows "\<exists>s'. kbd_run (kbd_initialize s t1 t2) (replicate 4 RESPONSE_RESEND) = Some s' \<and> idle s' \<and>
    initialized s' \<and> init_state s' = DISABLE_SCAN \<and>
    sent s' = sent s @ replicate 4 CMD_DISABLE_SCAN"
proof -
  let ?cmd = "fresh_command CMD_DISABLE_SCAN False 0 False Continue_init"
  note i = init_start [OF assms]
  have f: "\<not> sub_sent ?cmd" "resend_count ?cmd + int 3 \<le> 3" "cmd_code ?cmd = CMD_DISABLE_SCAN"
    by (simp_all add: fresh_command_def)
  obtain s1 where s1: "kbd_run (kbd_initialize s t1 t2) (replicate 3 RESPONSE_RESEND) = Some s1"
    "waiting s1 (?cmd\<lparr>resend_count := resend_count ?cmd + int 3\<rparr>)"
    "dialogue s1 DISABLE_SCAN False ((sent s @ [CMD_DISABLE_SCAN]) @ replicate 3 CMD_DISABLE_SCAN)"
    using resend_code [OF i(1) f(1,2) i(2)] unfolding f(3) by blast
  let ?c = "?cmd\<lparr>resend_count := 4\<rparr>"
  let ?s2 = "(set_head s1 ?c)\<lparr>initialized := True\<rparr>"
  have "on_keyboard_send_byte s1 RESPONSE_RESEND = Some (next_command ?s2)"
    using on_resend [OF s1(2) refl]
    by (simp add: fresh_command_def call_on_complete_def continue_init_def)
  moreover have "replicate 4 x = replicate 3 x @ [x]" for x :: u8
    by (simp add: numeral_eq_Suc)
  ultimately have run: "kbd_run (kbd_initialize s t1 t2) (replicate 4 RESPONSE_RESEND) =
      Some (next_command ?s2)"
    using s1(1) by (simp add: kbd_run_append)
  have "waiting ?s2 ?c" using waiting_set_head [OF s1(2)] by (simp only: waiting_initialized)
  moreover have "dialogue ?s2 DISABLE_SCAN True (sent s @ replicate 4 CMD_DISABLE_SCAN)"
    using s1(3) by (simp add: dialogue_def set_head_def numeral_eq_Suc)
  ultimately show ?thesis using next_empty run by (fastforce simp: dialogue_def)
qed

theorem kbd_initialization_fails_witness:
  "\<exists>s'. kbd_run (kbd_initialize kbd_boot NONE AT_KBD) (replicate 4 0xFE) = Some s' \<and> initialized s'"
proof -
  have "find_keyboard NONE AT_KBD \<noteq> None" by (simp add: find_keyboard_def is_keyboard_def)
  from kbd_initialization_fails [OF idle_boot this] show ?thesis
    by (auto simp: RESPONSE_RESEND_def)
qed

text \<open>
  C6: from an idle keyboard, any sequence of complete keystrokes of scancode set 2 other than the
  pause key is decoded key by key: no byte is written past \<open>scancode_bytes\<close>, the driver ends idle,
  and the handler gets exactly one event per keystroke, in order, with the key, whether it went up,
  the modifiers and locks as the key leaves them, and the character they give. The key is the one of
  the scancode tables, print screen for its four bytes, and 0 for the six bytes of its release.
\<close>

theorem keystrokes_decoded:
  assumes "idle s" "keypress_handler s" "\<forall>k \<in> set ks. legal_stroke k"
  shows "\<exists>s'. kbd_run s (concat (map stroke_bytes ks)) = Some s' \<and> idle s' \<and>
    events s' = events s @ typed (mods s) (togs s) ks"
  using assms by (rule run_strokes)

text \<open>Shift down, A down and up, shift up.\<close>

theorem keystrokes_decoded_witness:
  "\<exists>s'. kbd_run (register_handler kbd_boot True) [0x12, 0x1C, 0xF0, 0x1C, 0xF0, 0x12] = Some s' \<and>
    idle s' \<and> map ev_code (events s') = [KEYCODE_LSHIFT, KEYCODE_A, KEYCODE_A, KEYCODE_LSHIFT] \<and>
    map ev_released (events s') = [False, False, True, True] \<and>
    map ev_ascii (events s') = [CHR 0x00, CHR ''A'', CHR ''A'', CHR 0x00]"
proof -
  let ?ks = "[Make 0x12, Make 0x1C, Break 0x1C, Break 0x12]"
  let ?s = "register_handler kbd_boot True"
  have "idle ?s" "keypress_handler ?s" using idle_boot
    by (simp_all add: register_handler_def idle_def kbd_ok_def)
  moreover have "\<forall>k \<in> set ?ks. legal_stroke k" by (simp add: plain_byte_def)
  ultimately obtain s' where s': "kbd_run ?s (concat (map stroke_bytes ?ks)) = Some s'" "idle s'"
    "events s' = events ?s @ typed (mods ?s) (togs ?s) ?ks"
    using keystrokes_decoded by blast
  have k: "table_get 0 scancode_set_2 0x12 = KEYCODE_LSHIFT" "table_get 0 scancode_set_2 0x1C = KEYCODE_A"
    by (simp_all add: table_get_def scancode_set_2_def)
  have c: "key_char True KEYCODE_A = CHR ''A''" "key_char False KEYCODE_LSHIFT = CHR 0x00"
    "key_char True KEYCODE_LSHIFT = CHR 0x00"
    by (simp_all add: key_char_def table_get_def upper_ascii_def lower_ascii_def)
  show ?thesis using s'
    by (simp add: register_handler_def kbd_boot_def press_mods_def press_togs_def k c Let_def
        del: kbd_run.simps)
qed

text \<open>
  C9: every byte the keyboard can send keeps the static arrays and indices of the driver in
  order, whatever state it is in; the only access outside an array is the ninth byte of a
  scancode.
\<close>

theorem kbd_step_safe:
  assumes "kbd_ok s"
  shows "case on_keyboard_send_byte s b of None \<Rightarrow> scancode_byte_count s = 8
    | Some s' \<Rightarrow> kbd_ok s' \<and> scancode_byte_count s' \<le> scancode_byte_count s + 1"
proof (cases "scancode_byte_count s < 8")
  case True
  from on_keyboard_send_byte_ok [OF assms True, of b] show ?thesis by auto
next
  case False
  with assms have "scancode_byte_count s = 8" by (simp add: kbd_ok_def)
  moreover have "on_key_pressed s b = None"
    using assms False by (simp add: on_key_pressed_def kbd_ok_def)
  ultimately show ?thesis using assms
    by (auto simp: on_keyboard_send_byte_def Let_def frame_simps
        intro!: next_command_ok call_on_complete_ok)
qed

theorem kbd_step_safe_witness:
  "\<exists>s'. on_keyboard_send_byte kbd_boot 0x1C = Some s' \<and> kbd_ok s'"
  using kbd_step_safe [OF kbd_ok_boot, of "0x1C"] by (auto simp: kbd_boot_def split: option.splits)

definition letter_codes :: "Keycode list" where
  "letter_codes = [KEYCODE_Q, KEYCODE_W, KEYCODE_E, KEYCODE_R, KEYCODE_T, KEYCODE_Y, KEYCODE_U,
     KEYCODE_I, KEYCODE_O, KEYCODE_P, KEYCODE_A, KEYCODE_S, KEYCODE_D, KEYCODE_F, KEYCODE_G,
     KEYCODE_H, KEYCODE_J, KEYCODE_K, KEYCODE_L, KEYCODE_Z, KEYCODE_X, KEYCODE_C, KEYCODE_V,
     KEYCODE_B, KEYCODE_N, KEYCODE_M]"

definition digit_codes :: "Keycode list" where
  "digit_codes = [KEYCODE_1, KEYCODE_2, KEYCODE_3, KEYCODE_4, KEYCODE_5, KEYCODE_6, KEYCODE_7,
     KEYCODE_8, KEYCODE_9, KEYCODE_0]"

text \<open>
  letters are upper case exactly when one of shift and caps lock is in force; caps lock
  shifts the digits as well; and no keycode is looked up past the end of a table.
\<close>

theorem keycode_to_ascii_case:
  "map (keycode_to_ascii s) letter_codes =
     (if m_shift (mods s) \<noteq> caps_lock (togs s) then ''QWERTYUIOPASDFGHJKLZXCVBNM''
      else ''qwertyuiopasdfghjklzxcvbnm'') \<and>
   map (keycode_to_ascii s) digit_codes =
     (if m_shift (mods s) \<noteq> caps_lock (togs s) then ''!@#$%^&*()'' else ''1234567890'') \<and>
   (unat c < table_size lower_ascii \<and> unat c < table_size upper_ascii \<or> keycode_to_ascii s c = CHR 0x00)"
proof -
  have "map (key_char True) letter_codes = ''QWERTYUIOPASDFGHJKLZXCVBNM''"
    "map (key_char False) letter_codes = ''qwertyuiopasdfghjklzxcvbnm''"
    "map (key_char True) digit_codes = ''!@#$%^&*()''"
    "map (key_char False) digit_codes = ''1234567890''"
    by (simp_all add: letter_codes_def digit_codes_def key_char_def table_get_def upper_ascii_def
        lower_ascii_def)
  moreover have "keycode_to_ascii s = key_char (m_shift (mods s) \<noteq> caps_lock (togs s))"
    using keycode_to_ascii_spec by blast
  moreover have "unat c < table_size lower_ascii \<and> unat c < table_size upper_ascii \<or>
      keycode_to_ascii s c = CHR 0x00"
    by (simp add: table_sizes keycode_to_ascii_def word_less_nat_alt)
  ultimately show ?thesis by (cases "m_shift (mods s) \<noteq> caps_lock (togs s)") simp_all
qed

section \<open>Where the driver goes wrong\<close>

lemma run_pause:
  assumes "idle s" "n \<le> 8"
  shows "\<exists>s1. kbd_run s (take n scancode_set_2_pause) = Some s1 \<and> kbd_ok s1 \<and>
    collected s1 (take n scancode_set_2_pause) \<and> same_but_scan s s1"
  using assms(2)
proof (induction n)
  case 0
  then show ?case using assms(1) by (auto simp: idle_def collected_def same_but_scan_def)
next
  case (Suc n)
  then obtain s1 where s1: "kbd_run s (take n scancode_set_2_pause) = Some s1" "kbd_ok s1"
    "collected s1 (take n scancode_set_2_pause)" "same_but_scan s s1" by auto
  let ?c = "scancode_set_2_pause ! n"
  have len: "length scancode_set_2_pause = 8" by (simp add: scancode_set_2_pause_def)
  have tk: "take (Suc n) scancode_set_2_pause = take n scancode_set_2_pause @ [?c]"
    using Suc.prems by (simp add: take_Suc_conv_app_nth len)
  obtain s2 where s2: "kbd_ok s2" "collected s2 (take n scancode_set_2_pause @ [?c])"
    "same_but_scan s1 s2" "on_key_pressed s1 ?c = (if continue_scan (scancode_bytes s2)
      (Suc (length (take n scancode_set_2_pause))) ?c then Some s2 else finish_scancode s2)"
    using press_byte [OF s1(2,3)] Suc.prems len by auto
  have "continue_scan (scancode_bytes s2) (Suc (length (take n scancode_set_2_pause))) ?c"
    using collected_nth [OF s2(2) [folded tk]] Suc.prems by (auto simp: continue_scan_def len)
  then have "on_keyboard_send_byte s1 ?c = Some s2"
    using s2(4) s1(4) assms(1) by (simp add: on_keyboard_send_byte_def same_but_scan_def idle_def)
  then have "kbd_run s (take (Suc n) scancode_set_2_pause) = Some s2"
    unfolding tk kbd_run_append s1(1) by simp
  with s2(1-3) s1(4) tk show ?case by (auto simp: same_but_scan_def)
qed

text \<open>
  C10: the pause key hangs the decoder: its eight bytes are never completed, no event is raised,
  and the next byte, whatever it is, is written past the end of \<open>scancode_bytes\<close>.
\<close>

theorem pause_key_overflows:
  assumes "idle s"
  shows "\<exists>s'. kbd_run s scancode_set_2_pause = Some s' \<and> events s' = events s \<and>
    scancode_byte_count s' = 8 \<and> (\<forall>b. on_keyboard_send_byte s' b = None)"
proof -
  have "length scancode_set_2_pause = 8" by (simp add: scancode_set_2_pause_def)
  with run_pause [OF assms, of 8] obtain s1 where "kbd_run s scancode_set_2_pause = Some s1"
    "kbd_ok s1" "collected s1 scancode_set_2_pause" "same_but_scan s s1" by auto
  moreover from this have "queue_count s1 = 0" "scancode_byte_count s1 = 8"
    using assms by (simp_all add: idle_def same_but_scan_def collected_def scancode_set_2_pause_def)
  ultimately show ?thesis
    by (simp add: on_keyboard_send_byte_def on_key_pressed_def kbd_ok_def same_but_scan_def)
qed

theorem pause_key_overflows_witness:
  "\<exists>s'. kbd_run (register_handler kbd_boot True) scancode_set_2_pause = Some s' \<and>
    on_keyboard_send_byte s' 0x1C = None"
proof -
  have "idle (register_handler kbd_boot True)" using idle_boot
    by (simp add: register_handler_def idle_def kbd_ok_def)
  from pause_key_overflows [OF this] show ?thesis by blast
qed

text \<open>
  The flag of a key is kept only for keycodes with bit 4 clear (the mask is \<open>0x111\<close>, not 7), and
  keycodes that differ in bits 1 and 2 only share it.
\<close>

lemma key_flag_roundtrip:
  assumes "code AND 0x110 = 0" "set_key_flag s code e = Some s'"
  shows "get_key_flag s' code = Some e"
proof -
  have "(0x111 :: u32) = 0x110 OR 1" by simp
  then have "code AND 0x111 = (code AND 0x110) OR (code AND 1)"
    by (simp only: bit.conj_disj_distrib)
  then have "code AND 0x111 = 0 \<or> code AND 0x111 = 1"
    using assms(1) by (simp add: and_one_eq mod_2_eq_odd)
  then have "key_mask code = 1 \<or> key_mask code = 2" by (auto simp: key_mask_def)
  moreover have "ucast ((k :: u8) OR 1) AND (1 :: u32) \<noteq> 0" "ucast (k OR 2) AND (2 :: u32) \<noteq> 0"
    "ucast (k AND NOT 1) AND (1 :: u32) = 0" "ucast (k AND NOT 2) AND (2 :: u32) = 0" for k
    using and_exp_eq_0_iff_not_bit [of "ucast (k OR 1) :: u32" 0]
      and_exp_eq_0_iff_not_bit [of "ucast (k OR 2) :: u32" 1]
      and_exp_eq_0_iff_not_bit [of "ucast (k AND NOT 1) :: u32" 0]
      and_exp_eq_0_iff_not_bit [of "ucast (k AND NOT 2) :: u32" 1]
    by (simp_all add: bit_simps)
  ultimately show ?thesis
    using assms(2) by (auto simp: set_key_flag_def get_key_flag_def Let_def split: if_splits)
qed

end
