(* ===== verification/CString.thy ===== *)
theory CString
  imports Prelude
begin

text \<open>
  The string functions of \<open>libc/string.c\<close> over the byte memory. Pointers and \<open>int\<close> indices are
  32-bit words; a \<open>char\<close> is a byte, read back signed where the code subtracts two of them. A
  loop that looks for a terminator is a \<open>partial_function\<close>: \<open>None\<close> means it runs on for ever.
  A function that returns a pointer into a string returns the address, \<open>NULL\<close> is 0.
\<close>

section \<open>Memory blocks\<close>

text \<open>\<open>for (i = 0; i < n; i++) ...\<close> as a fold over the indices.\<close>

definition copy_forward :: "memory \<Rightarrow> addr \<Rightarrow> addr \<Rightarrow> nat \<Rightarrow> memory" where
  "copy_forward m s1 s2 n = fold (\<lambda>i m. m(s1 + of_nat i := m (s2 + of_nat i))) [0..<n] m"

definition memcpy :: "memory \<Rightarrow> addr \<Rightarrow> addr \<Rightarrow> u32 \<Rightarrow> memory" where
  "memcpy m s1 s2 n = copy_forward m s1 s2 (unat n)"

text \<open>The loop of the other branch goes on while \<open>i <= 0\<close>; its index is a signed \<open>int\<close>.\<close>

partial_function (option) move_back :: "memory \<Rightarrow> addr \<Rightarrow> addr \<Rightarrow> int \<Rightarrow> memory option" where
  "move_back m s1 s2 i =
     (if i \<le> 0 then move_back (m(s1 + of_int i := m (s2 + of_int i))) s1 s2 (i - 1) else Some m)"

definition memmove :: "memory \<Rightarrow> addr \<Rightarrow> addr \<Rightarrow> u32 \<Rightarrow> memory option" where
  "memmove m s1 s2 n =
     (if s1 \<le> s2 then Some (copy_forward m s1 s2 (unat n)) else move_back m s1 s2 (sint (n - 1)))"

definition memset :: "memory \<Rightarrow> addr \<Rightarrow> u32 \<Rightarrow> u32 \<Rightarrow> memory" where
  "memset m s c n = fold (\<lambda>i m. m(s + of_nat i := ucast c)) [0..<unat n] m"

fun memcmp_loop :: "memory \<Rightarrow> addr \<Rightarrow> addr \<Rightarrow> nat \<Rightarrow> int" where
  "memcmp_loop m s1 s2 0 = 0"
| "memcmp_loop m s1 s2 (Suc n) =
     (if m s1 \<noteq> m s2 then sint (m s1) - sint (m s2) else memcmp_loop m (s1 + 1) (s2 + 1) n)"

definition memcmp :: "memory \<Rightarrow> addr \<Rightarrow> addr \<Rightarrow> u32 \<Rightarrow> int" where
  "memcmp m s1 s2 n = memcmp_loop m s1 s2 (unat n)"

text \<open>The byte after the block is looked at when nothing was found in it.\<close>

fun memchr_loop :: "memory \<Rightarrow> addr \<Rightarrow> u8 \<Rightarrow> nat \<Rightarrow> addr" where
  "memchr_loop m c1 t 0 = c1"
| "memchr_loop m c1 t (Suc n) = (if m c1 \<noteq> t then memchr_loop m (c1 + 1) t n else c1)"

definition memchr :: "memory \<Rightarrow> addr \<Rightarrow> u32 \<Rightarrow> u32 \<Rightarrow> addr" where
  "memchr m s1 c n =
     (let t = ucast c; p = memchr_loop m s1 t (unat n) in if m p = t then p else 0)"

section \<open>Copying strings\<close>

text \<open>These end at a newline.\<close>

definition newline :: u8 where "newline = 10"

partial_function (option) copy_to_newline ::
  "memory \<Rightarrow> addr \<Rightarrow> addr \<Rightarrow> u32 \<Rightarrow> (memory \<times> u32) option" where
  "copy_to_newline m s1 s2 i =
     (if m (s2 + i) \<noteq> newline then copy_to_newline (m(s1 + i := m (s2 + i))) s1 s2 (i + 1)
      else Some (m, i))"

definition strcpy :: "memory \<Rightarrow> addr \<Rightarrow> addr \<Rightarrow> memory option" where
  "strcpy m s1 s2 =
     (case copy_to_newline m s1 s2 0 of
        None \<Rightarrow> None | Some (m', i) \<Rightarrow> Some (m'(s1 + i := m' (s2 + i))))"

fun strncpy_copy :: "memory \<Rightarrow> addr \<Rightarrow> addr \<Rightarrow> nat \<Rightarrow> memory \<times> addr \<times> nat" where
  "strncpy_copy m s1 s2 0 = (m, s1, 0)"
| "strncpy_copy m s1 s2 (Suc n) =
     (if m s2 \<noteq> newline then strncpy_copy (m(s1 := m s2)) (s1 + 1) (s2 + 1) n else (m, s1, Suc n))"

definition strncpy :: "memory \<Rightarrow> addr \<Rightarrow> addr \<Rightarrow> u32 \<Rightarrow> memory" where
  "strncpy m s1 s2 n =
     (case strncpy_copy m s1 s2 (unat n) of (m', p, k) \<Rightarrow>
        fold (\<lambda>i m. m(p + of_nat i := 0)) [0..<k] m')"

partial_function (option) find_newline :: "memory \<Rightarrow> addr \<Rightarrow> u32 \<Rightarrow> u32 option" where
  "find_newline m s1 i = (if m (s1 + i) \<noteq> newline then find_newline m s1 (i + 1) else Some i)"

text \<open>The second loop of \<open>strcat\<close> goes on with the index of the first one, for both strings.\<close>

definition strcat :: "memory \<Rightarrow> addr \<Rightarrow> addr \<Rightarrow> memory option" where
  "strcat m s1 s2 =
     (case find_newline m s1 0 of
        None \<Rightarrow> None
      | Some i \<Rightarrow> (case copy_to_newline m s1 s2 i of
          None \<Rightarrow> None | Some (m', k) \<Rightarrow> Some (m'(s1 + k := newline))))"

text \<open>\<open>j\<close> of \<open>strncat\<close> is not initialised: its value on entry is an argument.\<close>

partial_function (option) strncat_copy ::
  "memory \<Rightarrow> addr \<Rightarrow> addr \<Rightarrow> u32 \<Rightarrow> u32 \<Rightarrow> u32 \<Rightarrow> (memory \<times> u32) option" where
  "strncat_copy m s1 s2 n i j =
     (if j < n \<and> m (s2 + j) \<noteq> 0
      then strncat_copy (m(s1 + i := m (s2 + j))) s1 s2 n (i + 1) (j + 1) else Some (m, i))"

definition strncat :: "memory \<Rightarrow> addr \<Rightarrow> addr \<Rightarrow> u32 \<Rightarrow> u32 \<Rightarrow> memory option" where
  "strncat m s1 s2 n j =
     (case find_newline m s1 0 of
        None \<Rightarrow> None
      | Some i \<Rightarrow> (case strncat_copy m s1 s2 n i j of
          None \<Rightarrow> None | Some (m', k) \<Rightarrow> Some (m'(s1 + k := 0))))"

section \<open>Comparing\<close>

partial_function (option) strcmp_loop :: "memory \<Rightarrow> addr \<Rightarrow> addr \<Rightarrow> u32 \<Rightarrow> u32 option" where
  "strcmp_loop m s1 s2 i =
     (if m (s1 + i) = m (s2 + i) \<and> m (s1 + i) \<noteq> 0 then strcmp_loop m s1 s2 (i + 1) else Some i)"

definition strcmp :: "memory \<Rightarrow> addr \<Rightarrow> addr \<Rightarrow> int option" where
  "strcmp m s1 s2 =
     (case strcmp_loop m s1 s2 0 of
        None \<Rightarrow> None | Some i \<Rightarrow> Some (sint (m (s1 + i)) - sint (m (s2 + i))))"

fun strncmp_loop :: "memory \<Rightarrow> addr \<Rightarrow> addr \<Rightarrow> nat \<Rightarrow> addr \<times> addr" where
  "strncmp_loop m s1 s2 0 = (s1, s2)"
| "strncmp_loop m s1 s2 (Suc n) =
     (if m s1 = m s2 \<and> m s1 \<noteq> 0 then strncmp_loop m (s1 + 1) (s2 + 1) n else (s1, s2))"

definition strncmp :: "memory \<Rightarrow> addr \<Rightarrow> addr \<Rightarrow> u32 \<Rightarrow> int" where
  "strncmp m s1 s2 n =
     (case strncmp_loop m s1 s2 (unat n) of (p, q) \<Rightarrow> sint (m p) - sint (m q))"

section \<open>Searching\<close>

partial_function (option) strchr_loop :: "memory \<Rightarrow> addr \<Rightarrow> addr option" where
  "strchr_loop m s = (if m s \<noteq> 0 \<and> m s \<noteq> 9 then strchr_loop m (s + 1) else Some s)"

definition strchr :: "memory \<Rightarrow> addr \<Rightarrow> u32 \<Rightarrow> addr option" where
  "strchr m s c =
     (case strchr_loop m s of None \<Rightarrow> None | Some p \<Rightarrow> Some (if m p = ucast c then p else 0))"

text \<open>The inner loop over \<open>s2\<close>, up to a terminator \<open>e\<close>.\<close>

partial_function (option) char_in :: "memory \<Rightarrow> u8 \<Rightarrow> addr \<Rightarrow> u8 \<Rightarrow> addr option" where
  "char_in m e c x = (if m c \<noteq> e \<and> m c \<noteq> x then char_in m e (c + 1) x else Some c)"

partial_function (option) strcspn_loop :: "memory \<Rightarrow> addr \<Rightarrow> addr \<Rightarrow> u32 \<Rightarrow> u32 option" where
  "strcspn_loop m s1 s2 len =
     (if m s1 \<noteq> 0
      then case char_in m 0 s2 (m s1) of
             None \<Rightarrow> None
           | Some c \<Rightarrow> if m c = m s1 then Some len else strcspn_loop m (s1 + 1) s2 (len + 1)
      else Some len)"

definition strcspn :: "memory \<Rightarrow> addr \<Rightarrow> addr \<Rightarrow> u32 option" where
  "strcspn m s1 s2 = strcspn_loop m s1 s2 0"

partial_function (option) strspn_loop :: "memory \<Rightarrow> addr \<Rightarrow> addr \<Rightarrow> u32 \<Rightarrow> u32 option" where
  "strspn_loop m s1 s2 len =
     (if m s1 \<noteq> 0
      then case char_in m 0 s2 (m s1) of
             None \<Rightarrow> None
           | Some c \<Rightarrow> if m c \<noteq> m s1 then Some len else strspn_loop m (s1 + 1) s2 (len + 1)
      else Some len)"

definition strspn :: "memory \<Rightarrow> addr \<Rightarrow> addr \<Rightarrow> u32 option" where
  "strspn m s1 s2 = strspn_loop m s1 s2 0"

partial_function (option) strpbrk :: "memory \<Rightarrow> addr \<Rightarrow> addr \<Rightarrow> addr option" where
  "strpbrk m s1 s2 =
     (if m s1 \<noteq> 0
      then case char_in m newline s2 (m s1) of
             None \<Rightarrow> None
           | Some c \<Rightarrow> if m c = m s1 then Some s1 else strpbrk m (s1 + 1) s2
      else Some 0)"

partial_function (option) strrchr_loop :: "memory \<Rightarrow> addr \<Rightarrow> u8 \<Rightarrow> addr \<Rightarrow> addr option" where
  "strrchr_loop m s t last_found =
     (if m s \<noteq> 0 then strrchr_loop m (s + 1) t (if m s = t then s else last_found)
      else Some last_found)"

definition strrchr :: "memory \<Rightarrow> addr \<Rightarrow> u32 \<Rightarrow> addr option" where
  "strrchr m s c = strrchr_loop m s (ucast c) 0"

partial_function (option) match_at :: "memory \<Rightarrow> addr \<Rightarrow> addr \<Rightarrow> addr option" where
  "match_at m c1 c2 =
     (if m c1 = m c2 \<and> m c1 \<noteq> 0 \<and> m c2 \<noteq> 0 then match_at m (c1 + 1) (c2 + 1) else Some c2)"

partial_function (option) strstr_loop :: "memory \<Rightarrow> addr \<Rightarrow> addr \<Rightarrow> addr option" where
  "strstr_loop m s1 s2 =
     (if m s1 \<noteq> 0
      then case match_at m s1 s2 of
             None \<Rightarrow> None
           | Some c2 \<Rightarrow> if m c2 = 0 then Some s1 else strstr_loop m (s1 + 1) s2
      else Some 0)"

definition strstr :: "memory \<Rightarrow> addr \<Rightarrow> addr \<Rightarrow> addr option" where
  "strstr m s1 s2 = (if m s2 = 0 then Some s1 else strstr_loop m s1 s2)"

text \<open>
  \<open>strtok\<close> with its static pointer as an argument and a result. The statement that should end
  the token is a comparison without effect, so memory is not written.
\<close>

definition strtok :: "memory \<Rightarrow> addr \<Rightarrow> addr \<Rightarrow> addr \<Rightarrow> (addr \<times> addr) option" where
  "strtok m s_strtok s1 s2 =
     (let st = (if s1 \<noteq> 0 then s1 else s_strtok)
      in case strspn m st s2 of
           None \<Rightarrow> None
         | Some k \<Rightarrow>
             let ret = st + k
             in if m ret = 0 then Some (0, ret)
                else case strcspn m ret s2 of
                       None \<Rightarrow> None
                     | Some n \<Rightarrow> let e = ret + n in Some (ret, if m e \<noteq> 0 then e + 1 else e))"

partial_function (option) strlen_loop :: "memory \<Rightarrow> addr \<Rightarrow> u32 \<Rightarrow> u32 option" where
  "strlen_loop m s len = (if m (s + len) \<noteq> 0 then strlen_loop m s (len + 1) else Some len)"

definition strlen :: "memory \<Rightarrow> addr \<Rightarrow> u32 option" where
  "strlen m s = strlen_loop m s 0"

section \<open>C strings\<close>

text \<open>The zero-terminated string \<open>xs\<close> is at \<open>s\<close>.\<close>

fun cstr :: "memory \<Rightarrow> addr \<Rightarrow> u8 list \<Rightarrow> bool" where
  "cstr m s [] \<longleftrightarrow> m s = 0"
| "cstr m s (x # xs) \<longleftrightarrow> m s = x \<and> x \<noteq> 0 \<and> cstr m (s + 1) xs"

lemma cstr_head: "cstr m s xs \<Longrightarrow> m s = 0 \<longleftrightarrow> xs = []"
  by (cases xs) auto

lemma cstr_drop: "cstr m s xs \<Longrightarrow> n \<le> length xs \<Longrightarrow> cstr m (s + of_nat n) (drop n xs)"
proof (induction n arbitrary: s xs)
  case (Suc n)
  then obtain x ys where "xs = x # ys" by (cases xs) auto
  with Suc.IH [of "s + 1" ys] Suc.prems show ?case by (simp add: algebra_simps)
qed simp

lemma strlen_loop_cstr: "cstr m (s + len) xs \<Longrightarrow> strlen_loop m s len = Some (len + of_nat (length xs))"
proof (induction xs arbitrary: len)
  case Nil
  then show ?case by (simp add: strlen_loop.simps)
next
  case (Cons x xs)
  then have "strlen_loop m s len = strlen_loop m s (len + 1)"
    by (subst strlen_loop.simps) auto
  with Cons.IH [of "len + 1"] Cons.prems show ?case by (simp add: algebra_simps)
qed

lemma char_in_cstr:
  assumes "cstr m s ys" "x \<noteq> 0"
  shows "\<exists>c. char_in m 0 s x = Some c \<and> (m c = x \<longleftrightarrow> x \<in> set ys)"
  using assms(1)
proof (induction ys arbitrary: s)
  case Nil
  then show ?case using assms(2) by (subst char_in.simps) auto
next
  case (Cons y ys)
  show ?case
  proof (cases "y = x")
    case True
    with Cons.prems show ?thesis by (subst char_in.simps) auto
  next
    case False
    with Cons.prems have "char_in m 0 s x = char_in m 0 (s + 1) x" by (subst char_in.simps) auto
    with Cons.IH [of "s + 1"] Cons.prems False show ?thesis by auto
  qed
qed

lemma strcspn_loop_cstr:
  assumes "cstr m s xs" "cstr m t ys"
  shows "strcspn_loop m s t len = Some (len + of_nat (length (takeWhile (\<lambda>x. x \<notin> set ys) xs)))"
  using assms(1)
proof (induction xs arbitrary: s len)
  case Nil
  then show ?case by (simp add: strcspn_loop.simps)
next
  case (Cons x xs)
  with char_in_cstr [OF assms(2), of x] obtain c where
    "char_in m 0 t x = Some c" "m c = x \<longleftrightarrow> x \<in> set ys" by auto
  with Cons show ?case by (subst strcspn_loop.simps) (auto simp: algebra_simps)
qed

lemma strspn_loop_cstr:
  assumes "cstr m s xs" "cstr m t ys"
  shows "strspn_loop m s t len = Some (len + of_nat (length (takeWhile (\<lambda>x. x \<in> set ys) xs)))"
  using assms(1)
proof (induction xs arbitrary: s len)
  case Nil
  then show ?case by (simp add: strspn_loop.simps)
next
  case (Cons x xs)
  with char_in_cstr [OF assms(2), of x] obtain c where
    "char_in m 0 t x = Some c" "m c = x \<longleftrightarrow> x \<in> set ys" by auto
  with Cons show ?case by (subst strspn_loop.simps) (auto simp: algebra_simps)
qed

end
