(* ===== verification/FormatPrint.thy ===== *)
theory FormatPrint
  imports CString
begin

text \<open>
  Formatted output (\<open>libc/format_print.c\<close>). The characters given to \<open>printc\<close> are collected in a
  list, each as the byte it is written as. \<open>print_num\<close> is a function of its arguments;
  \<open>format_print\<close> is the state machine of the source, one step per turn of its loop, over the
  format string in memory. The variable arguments are the 32-bit stack slots; taking one more
  than there are is the error \<open>No_argument\<close>. Widths, precisions and counts, \<open>int\<close> in the source,
  are unbounded here: an overflow of them, undefined in C, is not modelled. \<open>None\<close> is a loop that does not end.
\<close>

section \<open>Data\<close>

datatype PrintFormatState = STATE_NORMAL | STATE_FLAGS | STATE_WIDTH | STATE_PRECISION
  | STATE_LENGTH | STATE_SPECIFIER

datatype PrintFormatLength = LENGTH_NORMAL | LENGTH_SHORT | LENGTH_SHORT_SHORT | LENGTH_LONG
  | LENGTH_LONG_LONG

definition FLAG_DEFAULT :: u32 where "FLAG_DEFAULT = 0"
definition FLAG_LEFT_JUSTIFY :: u32 where "FLAG_LEFT_JUSTIFY = 1"
definition FLAG_SIGN :: u32 where "FLAG_SIGN = 2"
definition FLAG_SPACE :: u32 where "FLAG_SPACE = 4"
definition FLAG_ALT_FORM :: u32 where "FLAG_ALT_FORM = 8"
definition FLAG_ZERO_PAD :: u32 where "FLAG_ZERO_PAD = 16"
definition FLAG_GROUP :: u32 where "FLAG_GROUP = 32"

lemmas flag_defs = FLAG_DEFAULT_def FLAG_LEFT_JUSTIFY_def FLAG_SIGN_def FLAG_SPACE_def
  FLAG_ALT_FORM_def FLAG_ZERO_PAD_def FLAG_GROUP_def

definition hexchars :: "u8 list" where
  "hexchars = [0x30, 0x31, 0x32, 0x33, 0x34, 0x35, 0x36, 0x37, 0x38, 0x39,
     0x41, 0x42, 0x43, 0x44, 0x45, 0x46]"

section \<open>print_num\<close>

text \<open>
  The digits in the order they are put into \<open>buffer\<close>, the last one first. The radix is 8, 10 or
  16 in every call; below 2 the loop of the code would divide by zero or not end.
\<close>

function digit_loop :: "nat \<Rightarrow> nat \<Rightarrow> u8 list" where
  "digit_loop radix absNum =
     (if radix < 2 then []
      else hexchars ! (absNum mod radix) #
        (if absNum div radix > 0 then digit_loop radix (absNum div radix) else []))"
  by pat_completeness auto
termination by (relation "measure snd") (auto intro: div_less_dividend simp: div_greater_zero_iff)

declare digit_loop.simps [simp del]

text \<open>What goes in front of the digits: the sign and the alternative form.\<close>

definition num_prefix :: "bool \<Rightarrow> u8 \<Rightarrow> bool \<Rightarrow> nat \<Rightarrow> u64 \<Rightarrow> u8 list" where
  "num_prefix hasSign signChar altForm radix num =
     (if hasSign then [signChar] else []) @
     (if altForm
      then (if radix = 8 \<and> num = 0 then [0x30] else if radix = 16 then [0x30, 0x78] else [])
      else [])"

text \<open>
  The part up to the digits, with the padding that is left for the end: zeros after the sign,
  or blanks before it, or nothing.
\<close>

definition num_front :: "bool \<Rightarrow> u8 \<Rightarrow> bool \<Rightarrow> nat \<Rightarrow> u64 \<Rightarrow> bool \<Rightarrow> bool \<Rightarrow> int \<Rightarrow> u8 list \<times> int" where
  "num_front hasSign signChar altForm radix num leftJustify padZeros padding =
     (let prefix = num_prefix hasSign signChar altForm radix num
      in if \<not> leftJustify \<and> padding > 0 then
           (if padZeros
            then (let padding = padding - int (length prefix)
                  in (prefix @ replicate (nat padding) 0x30, if padding > 0 then 0 else padding))
            else (let padding = padding - (if hasSign then 1 else 0) - (if altForm then 2 else 0)
                  in (replicate (nat padding) 0x20 @ prefix, if padding > 0 then 0 else padding)))
         else (prefix, padding - int (length prefix)))"

text \<open>The characters printed, and the count returned.\<close>

definition print_num ::
  "u64 \<Rightarrow> nat \<Rightarrow> int \<Rightarrow> int \<Rightarrow> bool \<Rightarrow> u32 \<Rightarrow> u8 list \<times> int" where
  "print_num num radix width precision sign flags =
     (let negative = (num <s 0);
          leftJustify = (flags AND FLAG_LEFT_JUSTIFY \<noteq> 0);
          padZeros = (flags AND FLAG_ZERO_PAD \<noteq> 0);
          hasSign = (sign \<and> (negative \<or> flags AND FLAG_SIGN \<noteq> 0));
          altForm = (flags AND FLAG_ALT_FORM \<noteq> 0);
          signChar = (if sign \<and> negative then 0x2D else 0x2B);
          absNum = (if sign \<and> negative then - num else num);
          blank = (\<not> hasSign \<and> flags AND FLAG_SPACE \<noteq> 0);
          hasSign = (hasSign \<or> blank);
          signChar = (if blank then 0x20 else signChar);
          buffer = digit_loop radix (unat absNum);
          pos = int (length buffer);
          padding = (if pos > precision then width - pos else width - precision);
          padChar = (if padZeros then 0x30 else 0x20);
          (front, padding) =
            num_front hasSign signChar altForm radix num leftJustify padZeros padding;
          extra = replicate (nat (precision - pos)) 0x30;
          precision = (if precision > pos then pos else precision);
          digits = (if precision \<noteq> 0 \<or> num \<noteq> 0 then rev buffer else []);
          tail = replicate (nat padding) padChar;
          out = front @ extra @ digits @ tail
      in (out, int (length out)))"

section \<open>parseint\<close>

partial_function (option) parseint_loop :: "memory \<Rightarrow> addr \<Rightarrow> u32 \<Rightarrow> (u32 \<times> addr) option" where
  "parseint_loop m str result =
     (if 0x30 \<le> m str \<and> m str \<le> 0x39
      then parseint_loop m (str + 1) (result * 10 + ucast (m str - 0x30))
      else Some (result, str))"

definition parseint :: "memory \<Rightarrow> addr \<Rightarrow> (u32 \<times> addr) option" where
  "parseint m str = parseint_loop m str 0"

section \<open>format_print\<close>

datatype format_error = No_argument

record fp =
  fp_fmt :: addr
  fp_state :: PrintFormatState
  fp_length :: PrintFormatLength
  fp_flags :: u32
  fp_radix :: nat
  fp_width :: int
  fp_precision :: int
  fp_has_sign :: bool
  fp_is_number :: bool
  fp_args :: "u32 list"
  fp_out :: "u8 list"
  fp_count :: int

text \<open>Printing some bytes, and taking an \<open>int\<close> (or \<open>long\<close> or pointer) from the arguments.\<close>

definition fp_print :: "u8 list \<Rightarrow> fp \<Rightarrow> fp" where
  "fp_print cs st = st\<lparr>fp_out := fp_out st @ cs, fp_count := fp_count st + int (length cs)\<rparr>"

definition fp_arg :: "fp \<Rightarrow> (u32 \<Rightarrow> fp \<Rightarrow> (format_error + fp) option) \<Rightarrow> (format_error + fp) option" where
  "fp_arg st k =
     (case fp_args st of [] \<Rightarrow> Some (Inl No_argument) | a # as \<Rightarrow> k a (st\<lparr>fp_args := as\<rparr>))"

partial_function (option) fp_string :: "memory \<Rightarrow> addr \<Rightarrow> fp \<Rightarrow> fp option" where
  "fp_string m s st = (if m s \<noteq> 0 then fp_string m (s + 1) (fp_print [m s] st) else Some st)"

text \<open>The letters of the format.\<close>

definition is_number_spec :: "u8 \<Rightarrow> bool" where
  "is_number_spec c \<longleftrightarrow> c \<in> {0x64, 0x69, 0x75, 0x58, 0x78, 0x70, 0x6F}"

definition spec_radix :: "u8 \<Rightarrow> nat" where
  "spec_radix c = (if c \<in> {0x58, 0x78, 0x70} then 16 else if c = 0x6F then 8 else 10)"

definition spec_signed :: "u8 \<Rightarrow> bool" where
  "spec_signed c \<longleftrightarrow> c \<in> {0x64, 0x69}"

definition fp_number :: "u64 \<Rightarrow> fp \<Rightarrow> fp" where
  "fp_number num st =
     (let (out, n) = print_num num (fp_radix st) (fp_width st) (fp_precision st)
        (fp_has_sign st) (fp_flags st)
      in st\<lparr>fp_out := fp_out st @ out, fp_count := fp_count st + n\<rparr>)"

text \<open>What follows the switch on the specifier: the number, then the reset (the flags stay).\<close>

definition fp_reset :: "fp \<Rightarrow> fp" where
  "fp_reset st = st\<lparr>fp_state := STATE_NORMAL, fp_length := LENGTH_NORMAL, fp_radix := 10,
     fp_width := 0, fp_precision := -1, fp_has_sign := False, fp_is_number := False\<rparr>"

definition fp_finish :: "fp \<Rightarrow> (format_error + fp) option" where
  "fp_finish st =
     (if fp_is_number st
      then (if fp_length st = LENGTH_LONG_LONG
            then fp_arg st (\<lambda>lo st. fp_arg st (\<lambda>hi st.
                   Some (Inr (fp_reset (fp_number (ucast lo OR push_bit 32 (ucast hi)) st)))))
            else fp_arg st (\<lambda>a st. Some (Inr (fp_reset (fp_number (scast a) st)))))
      else Some (Inr (fp_reset st)))"

definition fp_specifier :: "memory \<Rightarrow> fp \<Rightarrow> (format_error + fp) option" where
  "fp_specifier m st =
     (let c = m (fp_fmt st)
      in if c = 0x63 then
           fp_arg st (\<lambda>a st. fp_finish (fp_print [ucast a] st))
         else if c = 0x73 then
           fp_arg st (\<lambda>a st. case fp_string m a st of None \<Rightarrow> None | Some st \<Rightarrow> fp_finish st)
         else if c = 0x25 then fp_finish (fp_print [0x25] st)
         else if is_number_spec c then
           fp_finish (st\<lparr>fp_radix := spec_radix c, fp_has_sign := spec_signed c, fp_is_number := True\<rparr>)
         else fp_finish st)"

text \<open>One turn of the loop.\<close>

definition fp_advance :: "fp \<Rightarrow> fp" where
  "fp_advance st = st\<lparr>fp_fmt := fp_fmt st + 1\<rparr>"

definition fp_flag_of :: "u8 \<Rightarrow> u32 option" where
  "fp_flag_of c =
     (if c = 0x2D then Some FLAG_LEFT_JUSTIFY else if c = 0x2B then Some FLAG_SIGN
      else if c = 0x20 then Some FLAG_SPACE else if c = 0x23 then Some FLAG_ALT_FORM
      else if c = 0x30 then Some FLAG_ZERO_PAD else if c = 0x27 then Some FLAG_GROUP else None)"

text \<open>A width or precision: \<open>*\<close> takes it from the arguments.\<close>

definition fp_int :: "memory \<Rightarrow> fp \<Rightarrow> (int \<Rightarrow> fp \<Rightarrow> (format_error + fp) option) \<Rightarrow> (format_error + fp) option" where
  "fp_int m st k =
     (if m (fp_fmt st) = 0x2A then fp_arg st (\<lambda>a st. k (sint a) (fp_advance st))
      else case parseint m (fp_fmt st) of
             None \<Rightarrow> None
           | Some (n, p) \<Rightarrow> k (sint n) (st\<lparr>fp_fmt := p\<rparr>))"

definition fp_after_width :: "memory \<Rightarrow> int \<Rightarrow> fp \<Rightarrow> (format_error + fp) option" where
  "fp_after_width m w st =
     (let st = st\<lparr>fp_width := w\<rparr>
      in Some (Inr (if m (fp_fmt st) = 0x2E then fp_advance (st\<lparr>fp_state := STATE_PRECISION\<rparr>)
                    else st\<lparr>fp_state := STATE_LENGTH\<rparr>)))"

definition fp_length_step :: "PrintFormatLength \<Rightarrow> fp \<Rightarrow> fp" where
  "fp_length_step single st =
     (st\<lparr>fp_state := (if fp_length st = LENGTH_SHORT_SHORT then STATE_SPECIFIER else fp_state st),
        fp_length := (if fp_length st = LENGTH_NORMAL then single
          else if single = LENGTH_SHORT then LENGTH_SHORT_SHORT else LENGTH_LONG_LONG)\<rparr>)"

definition fp_step :: "memory \<Rightarrow> fp \<Rightarrow> (format_error + fp) option" where
  "fp_step m st =
     (let c = m (fp_fmt st)
      in case fp_state st of
        STATE_NORMAL \<Rightarrow>
          Some (Inr (fp_advance (if c = 0x25 then st\<lparr>fp_state := STATE_FLAGS\<rparr> else fp_print [c] st)))
      | STATE_FLAGS \<Rightarrow>
          Some (Inr (case fp_flag_of c of
              Some f \<Rightarrow> fp_advance (st\<lparr>fp_flags := fp_flags st OR f\<rparr>)
            | None \<Rightarrow> st\<lparr>fp_state := STATE_WIDTH\<rparr>))
      | STATE_WIDTH \<Rightarrow> fp_int m st (fp_after_width m)
      | STATE_PRECISION \<Rightarrow>
          fp_int m st (\<lambda>p st. Some (Inr (st\<lparr>fp_precision := p, fp_state := STATE_LENGTH\<rparr>)))
      | STATE_LENGTH \<Rightarrow>
          Some (Inr (if c = 0x68 then fp_advance (fp_length_step LENGTH_SHORT st)
            else if c = 0x6C then fp_advance (fp_length_step LENGTH_LONG st)
            else st\<lparr>fp_state := STATE_SPECIFIER\<rparr>))
      | STATE_SPECIFIER \<Rightarrow>
          (case fp_specifier m st of
             Some (Inr st) \<Rightarrow> Some (Inr (fp_advance st)) | r \<Rightarrow> r))"

partial_function (option) fp_loop :: "memory \<Rightarrow> fp \<Rightarrow> (format_error + fp) option" where
  "fp_loop m st =
     (if m (fp_fmt st) = 0 then Some (Inr st)
      else case fp_step m st of
             None \<Rightarrow> None
           | Some (Inl e) \<Rightarrow> Some (Inl e)
           | Some (Inr st) \<Rightarrow> fp_loop m st)"

definition fp_start :: "addr \<Rightarrow> u32 list \<Rightarrow> fp" where
  "fp_start fmt args =
     \<lparr>fp_fmt = fmt, fp_state = STATE_NORMAL, fp_length = LENGTH_NORMAL, fp_flags = FLAG_DEFAULT,
      fp_radix = 10, fp_width = 0, fp_precision = -1, fp_has_sign = False, fp_is_number = False,
      fp_args = args, fp_out = [], fp_count = 0\<rparr>"

text \<open>The characters printed and the number returned.\<close>

definition format_print :: "memory \<Rightarrow> addr \<Rightarrow> u32 list \<Rightarrow> (format_error + u8 list \<times> int) option" where
  "format_print m fmt args =
     (case fp_loop m (fp_start fmt args) of
        None \<Rightarrow> None
      | Some (Inl e) \<Rightarrow> Some (Inl e)
      | Some (Inr st) \<Rightarrow> Some (Inr (fp_out st, fp_count st)))"

end
