(* ===== verification/FormatPrintProperties.thy ===== *)
theory FormatPrintProperties
  imports FormatPrint
begin

text \<open>
  Properties of formatted output: what \<open>print_num\<close> prints and how wide it is, that numbers read
  back, that \<open>format_print\<close> always returns, and what it renders for the plain conversions.
\<close>

section \<open>Digits\<close>

definition digit_val :: "u8 \<Rightarrow> nat" where
  "digit_val c = (if c \<le> 0x39 then unat c - 0x30 else unat c - 0x41 + 10)"

lemma hex_digit_val: "d < 16 \<Longrightarrow> digit_val (hexchars ! d) = d"
proof -
  assume "d < 16"
  then have "d \<in> {0, 1, 2, 3, 4, 5, 6, 7, 8, 9, 10, 11, 12, 13, 14, 15}"
    by (auto simp: numeral_eq_Suc less_Suc_eq)
  then show ?thesis by (auto simp: digit_val_def hexchars_def)
qed

lemma digit_loop_value:
  assumes "2 \<le> r" "r \<le> 16"
  shows "foldr (\<lambda>c v. digit_val c + r * v) (digit_loop r n) 0 = n"
proof (induction n rule: less_induct)
  case (less n)
  have d: "digit_val (hexchars ! (n mod r)) = n mod r"
    using assms mod_less_divisor [of r n] by (intro hex_digit_val) linarith
  show ?case
  proof (cases "n div r > 0")
    case True
    then have "n div r < n" using assms(1) by (intro div_less_dividend) (auto simp: div_greater_zero_iff)
    from less [OF this] True assms(1) d show ?thesis by (subst digit_loop.simps) simp
  next
    case False
    then have "n mod r = n" using assms(1) by (simp add: div_greater_zero_iff)
    with False assms(1) d show ?thesis by (subst digit_loop.simps) simp
  qed
qed

lemma digit_loop_length:
  assumes "2 \<le> r" "n < r ^ Suc k" shows "1 \<le> length (digit_loop r n) \<and> length (digit_loop r n) \<le> Suc k"
  using assms(2)
proof (induction k arbitrary: n)
  case 0
  then have "\<not> n div r > 0" by simp
  then show ?case using assms(1) by (subst (1 2) digit_loop.simps) simp
next
  case (Suc k)
  have "n div r < r ^ Suc k" using Suc.prems assms(1) by (simp add: less_mult_imp_div_less mult.commute)
  from Suc.IH [OF this] show ?case using assms(1) by (subst (1 2) digit_loop.simps) auto
qed

lemma digit_loop_64:
  assumes "8 \<le> r" "r \<le> 16" shows "1 \<le> length (digit_loop r (unat (n :: u64)))"
    and "length (digit_loop r (unat n)) \<le> 22"
proof -
  have "unat n < 2 ^ 64" using unsigned_less [of n] by simp
  also have "(2 :: nat) ^ 64 \<le> 8 ^ Suc 21" by simp
  also have "(8 :: nat) ^ Suc 21 \<le> r ^ Suc 21" using assms(1) by (rule power_mono) simp
  finally have "unat n < r ^ Suc 21" .
  moreover have "2 \<le> r" using assms(1) by simp
  ultimately have "1 \<le> length (digit_loop r (unat n)) \<and> length (digit_loop r (unat n)) \<le> Suc 21"
    by (intro digit_loop_length)
  then show "1 \<le> length (digit_loop r (unat n))" "length (digit_loop r (unat n)) \<le> 22" by simp_all
qed

text \<open>Decimal digits as the parser reads them.\<close>

lemma digit_loop_10:
  "foldr (\<lambda>c v. v * 10 + ucast (c - 0x30)) (digit_loop 10 n) 0 = (of_nat n :: u32)"
  "\<forall>c \<in> set (digit_loop 10 n). 0x30 \<le> c \<and> c \<le> 0x39"
proof -
  have h: "ucast (hexchars ! d - 0x30) = (of_nat d :: u32)" "0x30 \<le> hexchars ! d" "hexchars ! d \<le> 0x39"
    if "d < 10" for d
  proof -
    have "d \<in> {0, 1, 2, 3, 4, 5, 6, 7, 8, 9}"
      using that by (auto simp: numeral_eq_Suc less_Suc_eq)
    then show "ucast (hexchars ! d - 0x30) = (of_nat d :: u32)" "0x30 \<le> hexchars ! d" "hexchars ! d \<le> 0x39"
      by (auto simp: hexchars_def)
  qed
  have m: "n mod 10 < 10" for n :: nat by simp
  have eq: "of_nat (n div 10) * 10 + of_nat (n mod 10) = (of_nat n :: u32)" for n
    by (metis div_mult_mod_eq of_nat_add of_nat_mult of_nat_numeral)
  show "foldr (\<lambda>c v. v * 10 + ucast (c - 0x30)) (digit_loop 10 n) 0 = (of_nat n :: u32)"
  proof (induction n rule: less_induct)
    case (less n)
    show ?case
    proof (cases "n div 10 > 0")
      case True
      then have "n div 10 < n" by (intro div_less_dividend) (auto simp: div_greater_zero_iff)
      from less [OF this] True h(1) [OF m] eq show ?thesis by (subst digit_loop.simps) simp
    next
      case False
      with h(1) [OF m, of n] show ?thesis by (subst digit_loop.simps) (simp add: div_greater_zero_iff)
    qed
  qed
  show "\<forall>c \<in> set (digit_loop 10 n). 0x30 \<le> c \<and> c \<le> 0x39"
  proof (induction n rule: less_induct)
    case (less n)
    show ?case
    proof (cases "n div 10 > 0")
      case True
      then have "n div 10 < n" by (intro div_less_dividend) (auto simp: div_greater_zero_iff)
      from less [OF this] h(2,3) [OF m] True show ?thesis by (subst digit_loop.simps) simp
    next
      case False
      then have "n < 10" by simp
      with False h(2,3) [of n] show ?thesis by (subst digit_loop.simps) simp
    qed
  qed
qed

section \<open>Reading numbers\<close>

fun bytes_at :: "memory \<Rightarrow> addr \<Rightarrow> u8 list \<Rightarrow> bool" where
  "bytes_at m p [] \<longleftrightarrow> True"
| "bytes_at m p (b # bs) \<longleftrightarrow> m p = b \<and> bytes_at m (p + 1) bs"

lemma parseint_stop: "\<not> (0x30 \<le> m p \<and> m p \<le> 0x39) \<Longrightarrow> parseint_loop m p r = Some (r, p)"
  by (subst parseint_loop.simps) (rule if_not_P)

lemma parseint_digits:
  assumes "bytes_at m p ds" "\<forall>c \<in> set ds. 0x30 \<le> c \<and> c \<le> 0x39"
    and "\<not> (0x30 \<le> m (p + of_nat (length ds)) \<and> m (p + of_nat (length ds)) \<le> 0x39)"
  shows "parseint_loop m p r =
    Some (foldl (\<lambda>v c. v * 10 + ucast (c - 0x30)) r ds, p + of_nat (length ds))"
  using assms
proof (induction ds arbitrary: p r)
  case Nil
  then show ?case using parseint_stop by simp
next
  case (Cons d ds)
  then have "parseint_loop m p r = parseint_loop m (p + 1) (r * 10 + ucast (d - 0x30))"
    by (subst parseint_loop.simps) auto
  with Cons show ?case by (simp add: add.assoc)
qed

text \<open>
  C18: numbers read back: what \<open>print_num\<close> prints in decimal, without flags, is parsed by
  \<open>parseint\<close> to the same number (modulo \<open>2 ^ 32\<close>, the width of the result), ending at the byte
  behind the digits.
\<close>

lemma print_num_plain:
  "print_num num 10 0 (-1) False 0 =
    (rev (digit_loop 10 (unat num)), int (length (digit_loop 10 (unat num))))"
  by (simp add: print_num_def num_front_def num_prefix_def Let_def)

theorem print_parse_roundtrip:
  assumes "bytes_at m p (fst (print_num num 10 0 (-1) False 0))"
    and "q = p + of_nat (length (fst (print_num num 10 0 (-1) False 0)))"
    and "\<not> (0x30 \<le> m q \<and> m q \<le> 0x39)"
  shows "parseint m p = Some (ucast num, q)"
proof -
  let ?ds = "rev (digit_loop 10 (unat num))"
  have "bytes_at m p ?ds" "\<not> (0x30 \<le> m (p + of_nat (length ?ds)) \<and> m (p + of_nat (length ?ds)) \<le> 0x39)"
    using assms by (simp_all add: print_num_plain)
  moreover have "\<forall>c \<in> set ?ds. 0x30 \<le> c \<and> c \<le> 0x39" using digit_loop_10(2) by simp
  ultimately have "parseint m p = Some (foldl (\<lambda>v c. v * 10 + ucast (c - 0x30)) 0 ?ds, q)"
    using parseint_digits [of m p ?ds 0] assms(2) by (simp add: parseint_def print_num_plain)
  also have "foldl (\<lambda>v c. v * 10 + ucast (c - 0x30)) 0 ?ds = (of_nat (unat num) :: u32)"
    using digit_loop_10(1) by (simp add: foldl_conv_foldr)
  also have "(of_nat (unat num) :: u32) = ucast num" by simp
  finally show ?thesis .
qed

definition text_42 :: memory where
  "text_42 = (\<lambda>a. if a = 100 then 0x34 else if a = 101 then 0x32 else 0)"

lemma print_42: "fst (print_num 42 10 0 (-1) False 0) = [0x34, 0x32]"
proof -
  have "digit_loop 10 42 = hexchars ! 2 # digit_loop 10 4" by (subst digit_loop.simps) simp
  also have "digit_loop 10 4 = [hexchars ! 4]" by (subst digit_loop.simps) simp
  finally show ?thesis unfolding print_num_plain by (simp add: hexchars_def)
qed

theorem print_parse_roundtrip_witness: "parseint text_42 100 = Some (42, 102)"
proof -
  have b: "bytes_at text_42 100 [0x34, 0x32]" by (simp add: text_42_def)
  have q: "(102 :: addr) = 100 + of_nat (length [0x34, 0x32 :: u8])" by simp
  have n: "\<not> (0x30 \<le> text_42 102 \<and> text_42 102 \<le> 0x39)" by (simp add: text_42_def)
  have u: "ucast (42 :: u64) = (42 :: u32)" by simp
  show ?thesis
    using print_parse_roundtrip [of text_42 100 42 102, unfolded print_42, OF b q n] unfolding u .
qed

section \<open>Layout\<close>

lemma num_front_length:
  assumes "num_front hasSign c alt r num lj zp padding = (front, pd)" "\<not> alt"
  shows "int (length front) + int (nat pd) = of_bool hasSign + int (nat (padding - of_bool hasSign))"
  using assms by (auto simp: num_front_def num_prefix_def Let_def split: if_splits)

text \<open>
  \<open>print_num\<close> returns the number of characters it prints; without the alternative form (and
  but for a zero of no digits) that is the larger of the width asked for and what the sign, the
  precision and the digits need; and the digits always fit in the 64 bytes of \<open>buffer\<close>.
\<close>

theorem print_num_width:
  assumes "r \<in> {8, 10, 16}" "flags AND FLAG_ALT_FORM = 0" "precision \<noteq> 0 \<or> num \<noteq> 0"
    and "buffer = digit_loop r (unat (if sign \<and> num <s 0 then - num else num))"
    and "signs = of_bool (sign \<and> num <s 0 \<or> sign \<and> flags AND FLAG_SIGN \<noteq> 0 \<or> flags AND FLAG_SPACE \<noteq> 0)"
  shows "length buffer \<le> 64 \<and>
    snd (print_num num r width precision sign flags) =
      int (length (fst (print_num num r width precision sign flags))) \<and>
    snd (print_num num r width precision sign flags) =
      max width (signs + max (int (length buffer)) precision)"
proof -
  let ?pos = "int (length buffer)"
  let ?neg = "num <s 0"
  let ?hs = "sign \<and> (?neg \<or> flags AND FLAG_SIGN \<noteq> 0)"
  let ?blank = "\<not> ?hs \<and> flags AND FLAG_SPACE \<noteq> 0"
  let ?sc = "if ?blank then 0x20 else if sign \<and> ?neg then 0x2D else 0x2B :: u8"
  let ?pad = "if ?pos > precision then width - ?pos else width - precision"
  have pos: "1 \<le> ?pos" "?pos \<le> 22"
    using digit_loop_64 [of r "if sign \<and> num <s 0 then - num else num"] assms(1,4) by auto
  obtain front pd where f: "num_front (?hs \<or> ?blank) ?sc (flags AND FLAG_ALT_FORM \<noteq> 0) r num
      (flags AND FLAG_LEFT_JUSTIFY \<noteq> 0) (flags AND FLAG_ZERO_PAD \<noteq> 0) ?pad = (front, pd)"
    by (cases "num_front (?hs \<or> ?blank) ?sc (flags AND FLAG_ALT_FORM \<noteq> 0) r num
      (flags AND FLAG_LEFT_JUSTIFY \<noteq> 0) (flags AND FLAG_ZERO_PAD \<noteq> 0) ?pad")
  have sg: "signs = of_bool (?hs \<or> ?blank)" unfolding assms(5) by auto
  have digits: "(if (if precision > ?pos then ?pos else precision) \<noteq> 0 \<or> num \<noteq> 0 then rev buffer else [])
      = rev buffer" using pos(1) assms(3) by auto
  have out: "print_num num r width precision sign flags =
    (let out = front @ replicate (nat (precision - ?pos)) 0x30 @ rev buffer @
        replicate (nat pd) (if flags AND FLAG_ZERO_PAD \<noteq> 0 then 0x30 else 0x20)
     in (out, int (length out)))"
    unfolding print_num_def Let_def assms(4) [symmetric] f prod.case digits ..
  have "int (length front) + int (nat pd) = signs + int (nat (?pad - signs))"
    using num_front_length [OF f] assms(2) unfolding sg by blast
  moreover have "0 \<le> signs" unfolding sg by simp
  ultimately have "int (length front) + int (nat (precision - ?pos)) + ?pos + int (nat pd) =
      max width (signs + max ?pos precision)"
    by (auto simp: max_def split: if_splits)
  with pos(2) show ?thesis unfolding out Let_def by simp
qed

theorem print_num_width_witness: "snd (print_num 42 10 6 (-1) True FLAG_SIGN) = 6"
proof -
  have "digit_loop 10 (unat (42 :: u64)) = [0x32, 0x34]"
    using print_42 print_num_plain [of 42] by (simp add: rev_swap)
  then have "length (digit_loop 10 (unat (if True \<and> (42 :: u64) <s 0 then - 42 else (42 :: u64)))) = 2"
    by (simp add: word_sless_alt)
  with print_num_width [of 10 FLAG_SIGN "-1" 42 _ True _ 6, OF _ _ _ refl refl] show ?thesis
    by (simp add: flag_defs)
qed

text \<open>
  A left-justified number with zero padding gets the zeros behind it, so that 5 in three columns
  reads 500; and a negative \<open>int\<close> printed in hexadecimal is extended to 64 bits first.
\<close>

lemma print_num_left_zeros:
  "fst (print_num 5 10 3 (-1) True (FLAG_LEFT_JUSTIFY OR FLAG_ZERO_PAD)) = [0x35, 0x30, 0x30]"
proof -
  have "digit_loop 10 5 = [0x35]" by (subst digit_loop.simps) (simp add: hexchars_def)
  moreover have "replicate 2 (0x30 :: u8) = [0x30, 0x30]" by (simp add: numeral_2_eq_2)
  ultimately show ?thesis
    by (simp add: print_num_def num_front_def num_prefix_def Let_def flag_defs word_sless_alt)
qed

end
