(* ===== verification/CStringProperties.thy ===== *)
theory CStringProperties
  imports CString
begin

text \<open>
  What the functions of \<open>libc/string.c\<close> compute, related to lists of bytes, and which of them
  do not do what C asks of them.
\<close>

section \<open>Blocks\<close>

lemma copy_forward_apply:
  assumes "n \<le> 2 ^ 32" "\<forall>i < n. s2 + of_nat i \<notin> region s1 i"
  shows "copy_forward m s1 s2 n x = (if x \<in> region s1 n then m (s2 + (x - s1)) else m x)"
  using assms
proof (induction n arbitrary: x)
  case 0
  then show ?case by (simp add: copy_forward_def)
next
  case (Suc n)
  have IH: "copy_forward m s1 s2 n y = (if y \<in> region s1 n then m (s2 + (y - s1)) else m y)" for y
    using Suc by simp
  have step: "copy_forward m s1 s2 (Suc n) =
      (copy_forward m s1 s2 n)(s1 + of_nat n := copy_forward m s1 s2 n (s2 + of_nat n))"
    by (simp add: copy_forward_def)
  have n: "unat (of_nat n :: addr) = n" using Suc.prems(1) by (simp add: unat_of_nat take_bit_eq_mod)
  have src: "copy_forward m s1 s2 n (s2 + of_nat n) = m (s2 + of_nat n)"
    using Suc.prems(2) by (simp add: IH)
  show ?case
  proof (cases "x = s1 + of_nat n")
    case True
    then have "x - s1 = of_nat n" by simp
    with True src step n show ?thesis by (simp add: region_iff)
  next
    case False
    then have "x - s1 \<noteq> of_nat n" by (metis add.commute diff_add_cancel)
    then have "unat (x - s1) \<noteq> n" using n by (metis word_unat_eq_iff)
    then have "x \<in> region s1 (Suc n) \<longleftrightarrow> x \<in> region s1 n" by (auto simp: region_iff)
    with False step IH show ?thesis by simp
  qed
qed

lemma copy_forward_disjoint:
  assumes "n \<le> 2 ^ 32" "region s1 n \<inter> region s2 n = {}"
  shows "\<forall>i < n. s2 + of_nat i \<notin> region s1 i"
proof (intro allI impI)
  fix i assume i: "i < n"
  then have "s2 + of_nat i \<in> region s2 n"
    using assms(1) by (intro region_offset) (simp add: unat_of_nat take_bit_eq_mod)
  with assms(2) region_mono [of i n s1] i show "s2 + of_nat i \<notin> region s1 i" by auto
qed

lemma copy_forward_down:
  assumes "s1 \<le> s2" "unat s2 + n \<le> 2 ^ 32"
  shows "\<forall>i < n. s2 + of_nat i \<notin> region s1 i"
proof (intro allI impI)
  fix i assume i: "i < n"
  have u: "unat (s2 + of_nat i) = unat s2 + i" using assms(2) i by (intro unat_plus_small) simp
  then have "unat (s2 + of_nat i - s1) = unat s2 + i - unat s1"
    using assms(1) by (subst unat_sub) (auto simp: word_le_nat_alt)
  then show "s2 + of_nat i \<notin> region s1 i" using assms(1) by (simp add: region_iff word_le_nat_alt)
qed

lemma u32_le_2p32: "unat (n :: u32) \<le> 2 ^ 32"
  using unat_lt_2p32 [of n] by simp

lemma fill_apply:
  assumes "n \<le> 2 ^ 32"
  shows "fold (\<lambda>i m. m(s + of_nat i := v)) [0..<n] m x = (if x \<in> region s n then v else m x)"
  using assms
proof (induction n arbitrary: x)
  case (Suc n)
  have n: "unat (of_nat n :: addr) = n" using Suc.prems by (simp add: unat_of_nat take_bit_eq_mod)
  have "x \<in> region s (Suc n) \<longleftrightarrow> x = s + of_nat n \<or> x \<in> region s n"
  proof -
    have "unat (x - s) = n \<longleftrightarrow> x = s + of_nat n"
      using n by (metis add.commute diff_add_cancel add_diff_cancel_left' word_unat_eq_iff)
    then show ?thesis by (auto simp: region_iff less_Suc_eq)
  qed
  with Suc show ?case by auto
qed simp

text \<open>
  \<open>memcpy\<close> on disjoint blocks, and \<open>memmove\<close> on blocks that may overlap when the target is
  not above the source, copy the source as it was before; nothing else is written.
\<close>

theorem memcpy_copies:
  assumes "region s1 (unat n) \<inter> region s2 (unat n) = {} \<or> s1 \<le> s2 \<and> unat s2 + unat n \<le> 2 ^ 32"
  shows "memcpy m s1 s2 n x = (if x \<in> region s1 (unat n) then m (s2 + (x - s1)) else m x) \<and>
    (s1 \<le> s2 \<longrightarrow> memmove m s1 s2 n = Some (memcpy m s1 s2 n))"
proof -
  have "\<forall>i < unat n. s2 + of_nat i \<notin> region s1 i"
    using assms copy_forward_disjoint [OF u32_le_2p32] copy_forward_down by blast
  then show ?thesis
    using copy_forward_apply [OF u32_le_2p32] by (simp add: memcpy_def memmove_def)
qed

theorem memcpy_copies_witness:
  "memmove (\<lambda>a. ucast a) 100 101 3 = Some (memcpy (\<lambda>a. ucast a) 100 101 3) \<and>
   memcpy (\<lambda>a. ucast a) 100 101 3 102 = 103"
  using memcpy_copies [of 100 3 101 "\<lambda>a. ucast a" 102] by (simp add: region_iff)

lemma move_back_diverges: "i \<le> 0 \<Longrightarrow> move_back m s1 s2 i = None"
proof (rule ccontr)
  assume i: "i \<le> 0" and "move_back m s1 s2 i \<noteq> None"
  then obtain r where "move_back m s1 s2 i = Some r" by auto
  then have "0 < i" by (rule move_back.raw_induct [where P = "\<lambda>m s1 s2 i r. 0 < i", rotated])
      (fastforce split: if_splits)
  with i show False by simp
qed

lemma move_back_stops: "0 < i \<Longrightarrow> move_back m s1 s2 i = Some m"
  by (subst move_back.simps) simp

lemma signed_take_bit_pred:
  assumes "0 < (k :: nat)" "k \<le> 2 ^ 31"
  shows "signed_take_bit 31 (int k - 1) = int k - 1"
  using assms by (intro signed_take_bit_int_eq_self) auto

lemma sint_minus_one:
  assumes "unat (n :: u32) \<le> 2 ^ 31" "n \<noteq> 0" shows "sint (n - 1) = int (unat n) - 1"
proof -
  have u: "unat (n - 1) = unat n - 1" "0 < unat n" using assms(2) by (simp_all add: unat_minus_one unat_gt_0)
  have "uint (n - 1) = int (unat (n - 1))" by simp
  also have "\<dots> = int (unat n) - 1" unfolding u(1) using u(2) by linarith
  finally have "uint (n - 1) = int (unat n) - 1" .
  moreover have "signed_take_bit 31 (int (unat n) - 1) = int (unat n) - 1"
    using u(2) assms(1) by (rule signed_take_bit_pred)
  ultimately show ?thesis by (simp add: sint_uint)
qed

text \<open>
  \<open>memmove\<close> to a higher address does nothing at all for two bytes or more, and for no or
  one byte its loop never reaches its exit: it runs down through the memory below until the index
  leaves the range of \<open>int\<close>, which C leaves undefined and the model gives no result for.
\<close>

theorem memmove_up:
  assumes "\<not> s1 \<le> s2" "unat n \<le> 2 ^ 31"
  shows "memmove m s1 s2 n = (if 2 \<le> n then Some m else None)"
proof -
  consider "n = 0" | "unat n = 1" | "2 \<le> unat n" using unat_gt_0 [of n] by linarith
  then show ?thesis
  proof cases
    case 1
    then show ?thesis using assms(1) by (simp add: memmove_def move_back_diverges)
  next
    case 2
    then have "n = 1" "\<not> 2 \<le> n" by (simp_all add: word_unat_eq_iff word_le_nat_alt)
    then show ?thesis using assms(1) by (simp add: memmove_def move_back_diverges)
  next
    case 3
    then have n: "n \<noteq> 0" "2 \<le> n" by (auto simp: word_le_nat_alt)
    with sint_minus_one [OF assms(2)] 3 have "0 < sint (n - 1)" by linarith
    then have "move_back m s1 s2 (sint (n - 1)) = Some m" by (rule move_back_stops)
    with assms(1) n(2) show ?thesis by (simp only: memmove_def if_False if_True)
  qed
qed

theorem memmove_up_witness:
  "memmove (\<lambda>a. ucast a) 101 100 3 = Some (\<lambda>a. ucast a) \<and> memmove (\<lambda>a. ucast a) 101 100 1 = None"
  using memmove_up [of 101 100 3 "\<lambda>a. ucast a"] memmove_up [of 101 100 1 "\<lambda>a. ucast a"]
  by (simp add: word_le_nat_alt)

lemma memcmp_loop_spec:
  assumes "n \<le> 2 ^ 32"
  shows "(memcmp_loop m s1 s2 n = 0 \<and> (\<forall>i < n. m (s1 + of_nat i) = m (s2 + of_nat i))) \<or>
    (\<exists>k < n. memcmp_loop m s1 s2 n = sint (m (s1 + of_nat k)) - sint (m (s2 + of_nat k)) \<and>
      m (s1 + of_nat k) \<noteq> m (s2 + of_nat k) \<and> (\<forall>i < k. m (s1 + of_nat i) = m (s2 + of_nat i)))"
  using assms
proof (induction n arbitrary: s1 s2)
  case (Suc n)
  show ?case
  proof (cases "m s1 = m s2")
    case True
    have sh: "(\<forall>i < Suc k. m (s1 + of_nat i) = m (s2 + of_nat i)) \<longleftrightarrow>
        (\<forall>i < k. m (s1 + 1 + of_nat i) = m (s2 + 1 + of_nat i))" for k
      using True by (simp only: All_less_Suc2) (simp add: algebra_simps)
    from Suc.IH [of "s1 + 1" "s2 + 1"] Suc.prems
    consider "memcmp_loop m (s1 + 1) (s2 + 1) n = 0"
      "\<forall>i < n. m (s1 + 1 + of_nat i) = m (s2 + 1 + of_nat i)"
    | k where "k < n" "memcmp_loop m (s1 + 1) (s2 + 1) n =
        sint (m (s1 + 1 + of_nat k)) - sint (m (s2 + 1 + of_nat k))"
      "m (s1 + 1 + of_nat k) \<noteq> m (s2 + 1 + of_nat k)"
      "\<forall>i < k. m (s1 + 1 + of_nat i) = m (s2 + 1 + of_nat i)" by auto
    then show ?thesis
    proof cases
      case 1
      with True sh show ?thesis by simp
    next
      case 2
      have "memcmp_loop m s1 s2 (Suc n) = sint (m (s1 + of_nat (Suc k))) - sint (m (s2 + of_nat (Suc k)))"
        "m (s1 + of_nat (Suc k)) \<noteq> m (s2 + of_nat (Suc k))"
        using 2(2,3) True by (simp_all add: algebra_simps)
      moreover have "\<forall>i < Suc k. m (s1 + of_nat i) = m (s2 + of_nat i)" using 2(4) sh by blast
      ultimately show ?thesis using 2(1) by (intro disjI2 exI [of _ "Suc k"]) simp
    qed
  next
    case False
    then show ?thesis by (intro disjI2 exI [of _ 0]) simp
  qed
qed simp

lemma sint_diff_zero: "sint (a :: u8) - sint b = 0 \<longleftrightarrow> a = b"
  by (auto intro: signed_word_eqI)

text \<open>The comparison as C defines it on lists of bytes, with \<open>char\<close> signed.\<close>

fun str_diff :: "u8 list \<Rightarrow> u8 list \<Rightarrow> int" where
  "str_diff [] [] = 0"
| "str_diff [] (y # ys) = - sint y"
| "str_diff (x # xs) [] = sint x"
| "str_diff (x # xs) (y # ys) = (if x = y then str_diff xs ys else sint x - sint y)"

lemma sint_eq: "sint (a :: u8) = sint b \<longleftrightarrow> a = b"
  using sint_diff_zero [of a b] by auto

lemma str_diff_zero:
  "0 \<notin> set xs \<Longrightarrow> 0 \<notin> set ys \<Longrightarrow> str_diff xs ys = 0 \<longleftrightarrow> xs = ys"
proof (induction xs ys rule: str_diff.induct)
  case (2 y ys)
  then show ?case using sint_diff_zero [of y 0] by auto
next
  case (3 x xs)
  then show ?case using sint_diff_zero [of x 0] by auto
qed (auto simp: sint_diff_zero dest: signed_word_eqI)

lemma cstr_nonzero: "cstr m s xs \<Longrightarrow> 0 \<notin> set xs"
  by (induction xs arbitrary: s) auto

lemma strcmp_loop_spec:
  assumes "cstr m (s1 + i) xs" "cstr m (s2 + i) ys"
  shows "\<exists>k. strcmp_loop m s1 s2 i = Some k \<and> sint (m (s1 + k)) - sint (m (s2 + k)) = str_diff xs ys"
  using assms
proof (induction xs ys arbitrary: i rule: str_diff.induct)
  case (4 x xs y ys)
  show ?case
  proof (cases "x = y")
    case True
    with 4 have "strcmp_loop m s1 s2 i = strcmp_loop m s1 s2 (i + 1)"
      by (subst strcmp_loop.simps) auto
    with 4 True show ?thesis by (simp add: add.assoc)
  next
    case False
    with 4 show ?thesis by (subst strcmp_loop.simps) auto
  qed
qed (subst strcmp_loop.simps; auto)+

lemma match_at_spec:
  assumes "cstr m c1 xs" "cstr m c2 ys"
  shows "\<exists>c. match_at m c1 c2 = Some c \<and> (m c = 0 \<longleftrightarrow> take (length ys) xs = ys)"
  using assms
proof (induction ys arbitrary: c1 c2 xs)
  case Nil
  then show ?case by (subst match_at.simps) auto
next
  case (Cons y ys)
  show ?case
  proof (cases "\<exists>xs'. xs = y # xs'")
    case True
    then obtain xs' where xs: "xs = y # xs'" ..
    with Cons.prems have "match_at m c1 c2 = match_at m (c1 + 1) (c2 + 1)"
      by (subst match_at.simps) auto
    with Cons.IH [of "c1 + 1" xs' "c2 + 1"] Cons.prems xs show ?thesis by auto
  next
    case False
    with Cons.prems have "m c1 \<noteq> m c2" "m c2 \<noteq> 0" by (cases xs; auto)+
    then have "match_at m c1 c2 = Some c2" by (subst match_at.simps) auto
    with \<open>m c2 \<noteq> 0\<close> False show ?thesis by (cases xs) auto
  qed
qed

text \<open>The first place where \<open>ys\<close> stands in \<open>xs\<close>.\<close>

definition sub_at :: "u8 list \<Rightarrow> u8 list \<Rightarrow> nat \<Rightarrow> bool" where
  "sub_at ys xs k \<longleftrightarrow> take (length ys) (drop k xs) = ys"

lemma strstr_loop_spec:
  assumes "cstr m s xs" "cstr m t ys" "ys \<noteq> []"
  shows "if \<exists>k < length xs. sub_at ys xs k
    then \<exists>k < length xs. strstr_loop m s t = Some (s + of_nat k) \<and> sub_at ys xs k \<and> (\<forall>j < k. \<not> sub_at ys xs j)
    else strstr_loop m s t = Some 0"
  using assms(1)
proof (induction xs arbitrary: s)
  case Nil
  then show ?case by (subst strstr_loop.simps) simp
next
  case (Cons x xs)
  obtain c where c: "match_at m s t = Some c" "m c = 0 \<longleftrightarrow> sub_at ys (x # xs) 0"
    using match_at_spec [OF Cons.prems assms(2)] by (auto simp: sub_at_def)
  show ?case
  proof (cases "sub_at ys (x # xs) 0")
    case True
    with c Cons.prems have "strstr_loop m s t = Some s" by (subst strstr_loop.simps) auto
    with True show ?thesis by auto
  next
    case False
    with c Cons.prems have st: "strstr_loop m s t = strstr_loop m (s + 1) t"
      by (subst strstr_loop.simps) auto
    have shift: "sub_at ys (x # xs) (Suc k) = sub_at ys xs k" for k by (simp add: sub_at_def)
    have ex: "(\<exists>k < length (x # xs). sub_at ys (x # xs) k) \<longleftrightarrow> (\<exists>k < length xs. sub_at ys xs k)"
      using False shift by (auto simp: Ex_less_Suc2)
    have IH: "if \<exists>k < length xs. sub_at ys xs k
      then \<exists>k < length xs. strstr_loop m (s + 1) t = Some (s + 1 + of_nat k) \<and> sub_at ys xs k \<and>
        (\<forall>j < k. \<not> sub_at ys xs j) else strstr_loop m (s + 1) t = Some 0"
      using Cons.IH Cons.prems by simp
    show ?thesis
    proof (cases "\<exists>k < length xs. sub_at ys xs k")
      case True
      with IH obtain k where k: "k < length xs" "strstr_loop m (s + 1) t = Some (s + 1 + of_nat k)"
        "sub_at ys xs k" "\<forall>j < k. \<not> sub_at ys xs j" by auto
      have "\<forall>j < Suc k. \<not> sub_at ys (x # xs) j" using k(4) False shift by (simp add: All_less_Suc2)
      with k st shift True ex show ?thesis by (auto intro!: exI [of _ "Suc k"] simp: add.assoc)
    next
      case no: False
      from IH [unfolded if_not_P [OF no]] st show ?thesis unfolding ex if_not_P [OF no] by simp
    qed
  qed
qed

lemma takeWhile_shorter: "t \<in> set xs \<Longrightarrow> length (takeWhile (\<lambda>x. x \<noteq> t) xs) < length xs"
  by (induction xs) auto

lemma strrchr_loop_spec:
  assumes "cstr m s xs"
  shows "strrchr_loop m s t l = Some (if t \<in> set xs then s + of_nat (length xs - 1 - length (takeWhile (\<lambda>x. x \<noteq> t) (rev xs))) else l)"
  using assms
proof (induction xs arbitrary: s l)
  case Nil
  then show ?case by (subst strrchr_loop.simps) simp
next
  case (Cons x xs)
  have st: "strrchr_loop m s t l = strrchr_loop m (s + 1) t (if x = t then s else l)"
    using Cons.prems by (subst strrchr_loop.simps) auto
  show ?case
  proof (cases "t \<in> set xs")
    case True
    then have "length (takeWhile (\<lambda>x. x \<noteq> t) (rev xs)) < length xs"
      using takeWhile_shorter [of t "rev xs"] by simp
    moreover have "takeWhile (\<lambda>x. x \<noteq> t) (rev xs @ [x]) = takeWhile (\<lambda>x. x \<noteq> t) (rev xs)"
      using True by (intro takeWhile_append1) auto
    ultimately show ?thesis using Cons.IH [of "s + 1"] Cons.prems True st
      by (simp add: add.assoc of_nat_diff Suc_diff_Suc)
  next
    case False
    then have "takeWhile (\<lambda>x. x \<noteq> t) (rev xs @ [x]) = rev xs @ takeWhile (\<lambda>x. x \<noteq> t) [x]"
      by (intro takeWhile_append2) auto
    with Cons.IH [of "s + 1"] Cons.prems False st show ?thesis by auto
  qed
qed

text \<open>\<open>memset\<close> fills exactly the block.\<close>

theorem memset_fills:
  "memset m s c n x = (if x \<in> region s (unat n) then ucast c else m x)"
  unfolding memset_def by (rule fill_apply [OF u32_le_2p32])

text \<open>
  \<open>memcmp\<close> is 0 exactly for equal blocks, otherwise the difference, as signed chars, of the
  first two bytes that differ.
\<close>

theorem memcmp_compares:
  "(memcmp m s1 s2 n = 0 \<and> (\<forall>i < unat n. m (s1 + of_nat i) = m (s2 + of_nat i))) \<or>
   (\<exists>k < unat n. memcmp m s1 s2 n = sint (m (s1 + of_nat k)) - sint (m (s2 + of_nat k)) \<and>
     memcmp m s1 s2 n \<noteq> 0 \<and> (\<forall>i < k. m (s1 + of_nat i) = m (s2 + of_nat i)))"
  using memcmp_loop_spec [OF u32_le_2p32, of m s1 s2 n] sint_diff_zero by (auto simp: memcmp_def)

theorem memcmp_compares_witness: "memcmp (\<lambda>a. if a = 100 then 7 else 1) 100 200 1 = 6"
  using memcmp_compares [of "\<lambda>a. if a = 100 then 7 else 1" 100 200 1] by auto

text \<open>A memory with two strings: \<open>"aba"\<close> at 100 and \<open>"ba"\<close> at 200.\<close>

definition two_strings :: memory where
  "two_strings = (\<lambda>a. if a = 100 \<or> a = 102 \<or> a = 201 then 97 else if a = 101 \<or> a = 200 then 98 else 0)"

lemma two_strings_cstr: "cstr two_strings 100 [97, 98, 97]" "cstr two_strings 200 [98, 97]"
  by (simp_all add: two_strings_def)

text \<open>\<open>strlen\<close> returns the length of every string, and \<open>strrchr\<close> the last place of a byte.\<close>

theorem strlen_strrchr_correct:
  assumes "cstr m s xs"
  shows "strlen m s = Some (of_nat (length xs)) \<and>
    strrchr m s c = Some (if ucast c \<in> set xs
      then s + of_nat (length xs - 1 - length (takeWhile (\<lambda>x. x \<noteq> ucast c) (rev xs))) else 0)"
  using strlen_loop_cstr [of m s 0 xs] strrchr_loop_spec [OF assms] assms
  by (simp add: strlen_def strrchr_def)

theorem strlen_strrchr_correct_witness:
  "strlen two_strings 100 = Some 3 \<and> strrchr two_strings 100 97 = Some 102"
  using strlen_strrchr_correct [OF two_strings_cstr(1), of 97] by simp

text \<open>
  \<open>strcmp\<close> returns, for every two strings, 0 exactly when they are equal, and the signed
  difference at the first place where they differ otherwise.
\<close>

theorem strcmp_correct:
  assumes "cstr m s1 xs" "cstr m s2 ys"
  shows "strcmp m s1 s2 = Some (str_diff xs ys) \<and> (str_diff xs ys = 0 \<longleftrightarrow> xs = ys)"
  using strcmp_loop_spec [of m s1 0 xs s2 ys] assms str_diff_zero cstr_nonzero
  by (auto simp: strcmp_def)

theorem strcmp_correct_witness: "strcmp two_strings 100 200 = Some (-1)"
  using strcmp_correct [OF two_strings_cstr] by simp

text \<open>
  \<open>strstr\<close> returns the first place where the second string stands in the first, and \<open>NULL\<close>
  when it stands nowhere; the empty string stands at the start.
\<close>

theorem strstr_correct:
  assumes "cstr m s1 xs" "cstr m s2 ys"
  shows "(ys = [] \<and> strstr m s1 s2 = Some s1) \<or>
    (ys \<noteq> [] \<and> (\<exists>k < length xs. strstr m s1 s2 = Some (s1 + of_nat k) \<and> sub_at ys xs k \<and>
      (\<forall>j < k. \<not> sub_at ys xs j))) \<or>
    (ys \<noteq> [] \<and> strstr m s1 s2 = Some 0 \<and> (\<forall>k < length xs. \<not> sub_at ys xs k))"
proof (cases "ys = []")
  case True
  with assms(2) show ?thesis by (simp add: strstr_def)
next
  case False
  with cstr_head [OF assms(2)] have "strstr m s1 s2 = strstr_loop m s1 s2" by (simp add: strstr_def)
  with strstr_loop_spec [OF assms False] False show ?thesis by (auto split: if_splits)
qed

theorem strstr_correct_witness: "strstr two_strings 100 200 = Some 101"
proof -
  have at: "sub_at [98, 97] [97, 98, 97] k \<longleftrightarrow> k = 1" if "k < 3" for k
    using that by (auto simp: sub_at_def less_Suc_eq numeral_3_eq_3)
  have len: "length [97, 98, 97 :: u8] = 3" by simp
  from strstr_correct [OF two_strings_cstr] at [of 1] show ?thesis
    unfolding len using at by fastforce
qed

text \<open>
  \<open>strspn\<close> and \<open>strcspn\<close> measure the longest start of a string made of bytes in, or not in, a
  set; \<open>strtok\<close> skips the separators, returns where the token starts, and leaves its static
  pointer behind the byte that ends it (which it does not overwrite).
\<close>

theorem spans_and_tokens:
  assumes "cstr m s xs" "cstr m t ds" "s \<noteq> 0"
    and "sep = takeWhile (\<lambda>x. x \<in> set ds) xs" "rest = dropWhile (\<lambda>x. x \<in> set ds) xs"
    and "tok = takeWhile (\<lambda>x. x \<notin> set ds) rest"
  shows "strspn m s t = Some (of_nat (length sep)) \<and>
    strcspn m s t = Some (of_nat (length (takeWhile (\<lambda>x. x \<notin> set ds) xs))) \<and>
    strtok m st s t =
      (if rest = [] then Some (0, s + of_nat (length sep))
       else Some (s + of_nat (length sep), s + of_nat (length sep + length tok) +
         (if length tok < length rest then 1 else 0)))"
proof -
  have sp: "strspn m s t = Some (of_nat (length sep))"
    using strspn_loop_cstr [OF assms(1,2), of 0] assms(4) by (simp add: strspn_def)
  have "length sep \<le> length xs" using assms(4) by (simp add: length_takeWhile_le)
  from cstr_drop [OF assms(1) this] have r: "cstr m (s + of_nat (length sep)) rest"
    using assms(4,5) by (simp add: dropWhile_eq_drop)
  have csp: "strcspn m (s + of_nat (length sep)) t = Some (of_nat (length tok))"
    using strcspn_loop_cstr [OF r assms(2), of 0] assms(6) by (simp add: strcspn_def)
  have len: "length tok \<le> length rest" using assms(6) by (simp add: length_takeWhile_le)
  from cstr_head [OF cstr_drop [OF r len]]
  have e: "m (s + of_nat (length sep) + of_nat (length tok)) = 0 \<longleftrightarrow> \<not> length tok < length rest"
    using len by auto
  show ?thesis
    using sp csp e cstr_head [OF r] assms(3) strcspn_loop_cstr [OF assms(1,2), of 0]
    by (simp add: strtok_def strcspn_def Let_def add.assoc)
qed

theorem spans_and_tokens_witness:
  "strspn two_strings 100 201 = Some 1 \<and> strcspn two_strings 100 201 = Some 0 \<and>
   strtok two_strings 0 100 201 = Some (101, 103)"
proof -
  have "cstr two_strings 201 [97]" by (simp add: two_strings_def)
  from spans_and_tokens [OF two_strings_cstr(1) this _ refl refl refl] show ?thesis by simp
qed

section \<open>Where the functions depart from C\<close>

text \<open>\<open>strcpy\<close> copies up to and including the next newline, over the end of the string.\<close>

lemma strcpy_past_the_end:
  assumes "m s2 = 0" "m (s2 + 1) = newline" "s1 \<notin> region s2 2" "s1 + 1 \<notin> region s2 2"
  shows "strcpy m s1 s2 = Some (m(s1 := 0, s1 + 1 := newline))"
proof -
  have ne: "s1 \<noteq> s2" "s1 \<noteq> s2 + 1" "s1 + 1 \<noteq> s2 + 1" "s1 + 1 \<noteq> s2"
    using assms(3,4) by (auto simp: region_iff)
  have 1: "copy_to_newline (m(s1 := 0)) s1 s2 1 = Some (m(s1 := 0), 1)"
    using assms(2) ne by (subst copy_to_newline.simps) (auto simp: fun_upd_def)
  have "copy_to_newline m s1 s2 0 = copy_to_newline (m(s1 := m s2)) s1 s2 1"
    using assms(1) by (subst copy_to_newline.simps) (simp add: newline_def)
  with 1 assms(1,2) ne show ?thesis by (simp add: strcpy_def)
qed

text \<open>\<open>strncmp\<close> of no bytes compares one, and \<open>memchr\<close> looks one byte past its block.\<close>

lemma strncmp_nothing: "strncmp m s1 s2 0 = sint (m s1) - sint (m s2)"
  by (simp add: strncmp_def)

lemma memchr_past_the_end: "m s = ucast c \<Longrightarrow> s \<noteq> 0 \<Longrightarrow> memchr m s c 0 = s"
  by (simp add: memchr_def)

text \<open>\<open>strchr\<close> stops at a tab, so it does not find what comes after one.\<close>

lemma strchr_stops_at_tab: "m s = 9 \<Longrightarrow> ucast c \<noteq> (9 :: u8) \<Longrightarrow> strchr m s c = Some 0"
  by (simp add: strchr_def strchr_loop.simps)

end
