(* ===== verification/FormatPrintRuns.thy ===== *)
theory FormatPrintRuns
  imports FormatPrintProperties CStringProperties
begin

text \<open>
  The runs of \<open>format_print\<close>: its loop ends on every format string, and for formats made of text
  and of conversions without flags it prints what one reads off the format.
\<close>

section \<open>Termination\<close>

lemma parseint_cstr:
  assumes "cstr m p xs"
  shows "\<exists>n q ys. parseint_loop m p r = Some (n, q) \<and> cstr m q ys \<and> length ys \<le> length xs"
  using assms
proof (induction xs arbitrary: p r)
  case Nil
  then have "parseint_loop m p r = Some (r, p)" by (intro parseint_stop) simp
  with Nil show ?case by fastforce
next
  case (Cons x xs)
  show ?case
  proof (cases "0x30 \<le> m p \<and> m p \<le> 0x39")
    case True
    then have "parseint_loop m p r = parseint_loop m (p + 1) (r * 10 + ucast (m p - 0x30))"
      by (subst parseint_loop.simps) simp
    with Cons.IH [of "p + 1" "r * 10 + ucast (m p - 0x30)"] Cons.prems show ?thesis
      by (metis cstr.simps(2) le_SucI length_Cons)
  next
    case False
    with parseint_stop [of m p, OF this] Cons.prems show ?thesis by blast
  qed
qed

lemma fp_string_ends:
  assumes "m z = 0"
  shows "\<exists>st'. fp_string m s st = Some st' \<and> fp_fmt st' = fp_fmt st"
proof (induction "unat (z - s)" arbitrary: s st rule: less_induct)
  case less
  show ?case
  proof (cases "m s = 0")
    case True
    then show ?thesis by (subst fp_string.simps) simp
  next
    case False
    with assms have "z - s \<noteq> 0" by auto
    then have "unat (z - s - 1) = unat (z - s) - 1" "0 < unat (z - s)"
      by (simp_all add: unat_minus_one unat_gt_0)
    moreover have "z - (s + 1) = z - s - 1" by simp
    ultimately have "unat (z - (s + 1)) < unat (z - s)" by (metis diff_less zero_less_one)
    from less [OF this, of "fp_print [m s] st"] False show ?thesis
      by (subst fp_string.simps) (auto simp: fp_print_def)
  qed
qed

lemma fp_finish_ends:
  "\<exists>r. fp_finish st = Some r \<and>
    (\<forall>st'. r = Inr st' \<longrightarrow> fp_fmt st' = fp_fmt st \<and> fp_state st' = STATE_NORMAL)"
  by (auto simp: fp_finish_def fp_arg_def fp_reset_def fp_number_def Let_def
      split: list.split prod.split)

lemma fp_specifier_ends:
  assumes "m z = 0"
  shows "\<exists>r. fp_specifier m st = Some r \<and>
    (\<forall>st'. r = Inr st' \<longrightarrow> fp_fmt st' = fp_fmt st \<and> fp_state st' = STATE_NORMAL)"
proof -
  have s: "\<exists>st'. fp_string m a (st\<lparr>fp_args := as\<rparr>) = Some st' \<and> fp_fmt st' = fp_fmt st" for a as
    using fp_string_ends [of m z, OF assms, of a "st\<lparr>fp_args := as\<rparr>"] by simp
  note fin = fp_finish_ends [of "fp_print [ucast a] (st\<lparr>fp_args := as\<rparr>)" for a as]
    fp_finish_ends [of "fp_print [0x25] st"] fp_finish_ends [of st]
    fp_finish_ends [of "st\<lparr>fp_radix := r, fp_has_sign := b, fp_is_number := True\<rparr>" for r b]
  consider "m (fp_fmt st) = 0x63" | "m (fp_fmt st) = 0x73" | "m (fp_fmt st) \<noteq> 0x63" "m (fp_fmt st) \<noteq> 0x73"
    by blast
  then show ?thesis
  proof cases
    case 1
    then show ?thesis using fin(1)
      by (auto simp: fp_specifier_def fp_arg_def fp_print_def split: list.split)
  next
    case 2
    show ?thesis
    proof (cases "fp_args st")
      case (Cons a as)
      from s [of a as] obtain st' where "fp_string m a (st\<lparr>fp_args := as\<rparr>) = Some st'" "fp_fmt st' = fp_fmt st"
        by blast
      with fp_finish_ends [of st'] 2 Cons show ?thesis by (simp add: fp_specifier_def fp_arg_def)
    qed (use 2 in \<open>simp add: fp_specifier_def fp_arg_def\<close>)
  next
    case 3
    then show ?thesis using fin(2-4)
      by (auto simp: fp_specifier_def fp_print_def Let_def)
  qed
qed

definition state_rank :: "PrintFormatState \<Rightarrow> nat" where
  "state_rank s = (case s of STATE_FLAGS \<Rightarrow> 4 | STATE_WIDTH \<Rightarrow> 3 | STATE_PRECISION \<Rightarrow> 2
     | STATE_LENGTH \<Rightarrow> 1 | STATE_SPECIFIER \<Rightarrow> 0 | STATE_NORMAL \<Rightarrow> 0)"

lemma state_rank_le: "state_rank s \<le> 4"
  by (simp add: state_rank_def split: PrintFormatState.split)

lemma state_rank_simps [simp]:
  "state_rank STATE_FLAGS = 4" "state_rank STATE_WIDTH = 3" "state_rank STATE_PRECISION = 2"
  "state_rank STATE_LENGTH = 1" "state_rank STATE_SPECIFIER = 0" "state_rank STATE_NORMAL = 0"
  by (simp_all add: state_rank_def)

text \<open>A turn of the loop gets closer to the end of the format, or further along the states.\<close>

definition closer :: "memory \<Rightarrow> fp \<Rightarrow> nat \<Rightarrow> (format_error + fp) option \<Rightarrow> bool" where
  "closer m st n r \<longleftrightarrow> (\<exists>e. r = Some (Inl e)) \<or>
     (\<exists>st' ys. r = Some (Inr st') \<and> cstr m (fp_fmt st') ys \<and>
       8 * length ys + state_rank (fp_state st') < 8 * n + state_rank (fp_state st))"

lemma closer_advance:
  assumes "cstr m (fp_fmt st) (x # xs)" "fp_fmt st' = fp_fmt st"
  shows "closer m st (length (x # xs)) (Some (Inr (fp_advance st')))"
proof -
  have "cstr m (fp_fmt (fp_advance st')) xs" using assms by (simp add: fp_advance_def)
  moreover have "8 * length xs + state_rank (fp_state (fp_advance st')) <
      8 * length (x # xs) + state_rank (fp_state st)"
    using state_rank_le [of "fp_state (fp_advance st')"] by simp
  ultimately show ?thesis unfolding closer_def by blast
qed

lemma fp_int_closer:
  assumes "cstr m (fp_fmt st) xs" "xs \<noteq> []"
    and "\<And>v st' ys. cstr m (fp_fmt st') ys \<Longrightarrow> length ys \<le> length xs \<Longrightarrow> fp_state st' = fp_state st \<Longrightarrow>
      closer m st (length xs) (k v st')"
  shows "closer m st (length xs) (fp_int m st k)"
proof (cases "m (fp_fmt st) = 0x2A")
  case True
  with assms(1) obtain ys where ys: "cstr m (fp_fmt st + 1) ys" "length ys \<le> length xs"
    by (cases xs) auto
  show ?thesis
  proof (cases "fp_args st")
    case Nil
    with True show ?thesis by (simp add: fp_int_def fp_arg_def closer_def)
  next
    case (Cons a as)
    have "closer m st (length xs) (k (sint a) (fp_advance (st\<lparr>fp_args := as\<rparr>)))"
      using ys by (intro assms(3)) (auto simp: fp_advance_def)
    with True Cons show ?thesis by (simp add: fp_int_def fp_arg_def)
  qed
next
  case False
  from parseint_cstr [OF assms(1)] obtain n q ys where
    "parseint m (fp_fmt st) = Some (n, q)" "cstr m q ys" "length ys \<le> length xs"
    unfolding parseint_def by blast
  with False assms(3) [of "st\<lparr>fp_fmt := q\<rparr>" ys "sint n"] show ?thesis by (simp add: fp_int_def)
qed

lemma fp_step_closer:
  assumes "cstr m (fp_fmt st) (x # xs)"
  shows "closer m st (length (x # xs)) (fp_step m st)"
proof (cases "fp_state st")
  case STATE_NORMAL
  then show ?thesis using closer_advance [OF assms] by (simp add: fp_step_def Let_def fp_print_def)
next
  case STATE_FLAGS
  show ?thesis
  proof (cases "fp_flag_of (m (fp_fmt st))")
    case None
    have "closer m st (length (x # xs)) (Some (Inr (st\<lparr>fp_state := STATE_WIDTH\<rparr>)))"
      using assms STATE_FLAGS unfolding closer_def by (intro disjI2 exI [of _ "x # xs"] exI) auto
    with None STATE_FLAGS show ?thesis by (simp add: fp_step_def)
  next
    case (Some f)
    with STATE_FLAGS closer_advance [OF assms] show ?thesis by (simp add: fp_step_def)
  qed
next
  case STATE_WIDTH
  have "closer m st (length (x # xs)) (fp_after_width m v st')"
    if *: "cstr m (fp_fmt st') ys" "length ys \<le> length (x # xs)" "fp_state st' = fp_state st" for v st' ys
  proof (cases "m (fp_fmt st') = 0x2E")
    case True
    then obtain zs where "ys = 0x2E # zs" "cstr m (fp_fmt st' + 1) zs" using *(1) by (cases ys) auto
    with True *(2) STATE_WIDTH show ?thesis
      by (auto simp: fp_after_width_def Let_def fp_advance_def closer_def intro!: exI [of _ zs])
  next
    case False
    with * STATE_WIDTH show ?thesis
      by (auto simp: fp_after_width_def Let_def closer_def intro!: exI [of _ ys])
  qed
  then show ?thesis using fp_int_closer [OF assms] STATE_WIDTH by (simp add: fp_step_def)
next
  case STATE_PRECISION
  have "closer m st (length (x # xs)) (Some (Inr (st'\<lparr>fp_precision := v, fp_state := STATE_LENGTH\<rparr>)))"
    if *: "cstr m (fp_fmt st') ys" "length ys \<le> length (x # xs)" "fp_state st' = fp_state st" for v st' ys
    using * STATE_PRECISION by (auto simp: closer_def intro!: exI [of _ ys])
  then show ?thesis using fp_int_closer [OF assms] STATE_PRECISION by (simp add: fp_step_def)
next
  case STATE_LENGTH
  then show ?thesis using closer_advance [OF assms] assms
    by (auto simp: fp_step_def Let_def fp_length_step_def closer_def intro!: exI [of _ "x # xs"])
next
  case STATE_SPECIFIER
  have "m (fp_fmt st + of_nat (length (x # xs))) = 0"
    using cstr_head [OF cstr_drop [OF assms, of "length (x # xs)"]] by simp
  from fp_specifier_ends [of m, OF this, of st] obtain r where
    r: "fp_specifier m st = Some r" "\<forall>st'. r = Inr st' \<longrightarrow> fp_fmt st' = fp_fmt st" by blast
  show ?thesis
  proof (cases r)
    case (Inl e)
    with r STATE_SPECIFIER show ?thesis by (simp add: fp_step_def closer_def)
  next
    case (Inr st')
    with r STATE_SPECIFIER closer_advance [OF assms, of st'] show ?thesis by (simp add: fp_step_def)
  qed
qed

lemma fp_loop_ends:
  assumes "cstr m (fp_fmt st) xs" shows "\<exists>r. fp_loop m st = Some r"
  using assms
proof (induction "8 * length xs + state_rank (fp_state st)" arbitrary: st xs rule: less_induct)
  case less
  show ?case
  proof (cases xs)
    case Nil
    with less.prems show ?thesis by (subst fp_loop.simps) simp
  next
    case (Cons x ys)
    with less.prems have nz: "m (fp_fmt st) \<noteq> 0" by auto
    from fp_step_closer [of m st x ys] less.prems Cons
    consider e where "fp_step m st = Some (Inl e)" | st' zs where "fp_step m st = Some (Inr st')"
      "cstr m (fp_fmt st') zs"
      "8 * length zs + state_rank (fp_state st') < 8 * length xs + state_rank (fp_state st)"
      unfolding closer_def by auto
    then show ?thesis
    proof cases
      case 1
      with nz show ?thesis by (subst fp_loop.simps) simp
    next
      case 2
      from less.hyps [OF 2(3,2)] nz 2(1) show ?thesis by (subst fp_loop.simps) simp
    qed
  qed
qed

text \<open>
  C17: \<open>format_print\<close> returns on every format string and all arguments: its loop ends, whatever
  the conversions are, well formed or not (\<open>No_argument\<close> is the only other outcome).
\<close>

theorem format_print_terminates:
  assumes "cstr m fmt xs" shows "\<exists>r. format_print m fmt args = Some r"
proof -
  have "cstr m (fp_fmt (fp_start fmt args)) xs" using assms by (simp add: fp_start_def)
  from fp_loop_ends [OF this] obtain r where "fp_loop m (fp_start fmt args) = Some r" ..
  then show ?thesis by (cases r) (simp_all add: format_print_def)
qed

theorem format_print_terminates_witness: "\<exists>r. format_print two_strings 100 [1, 2] = Some r"
  by (rule format_print_terminates [of _ _ "[97, 98, 97]"]) (simp add: two_strings_def)

section \<open>Rendering\<close>

text \<open>
  Formats without flags, width or precision: text, \<open>%%\<close>, \<open>%c\<close>, and a number with up to two
  \<open>l\<close> before its letter.
\<close>

datatype piece = Text u8 | Percent | Chr | Num nat u8

fun piece_bytes :: "piece \<Rightarrow> u8 list" where
  "piece_bytes (Text c) = [c]"
| "piece_bytes Percent = [0x25, 0x25]"
| "piece_bytes Chr = [0x25, 0x63]"
| "piece_bytes (Num k c) = 0x25 # replicate k 0x6C @ [c]"

fun legal_piece :: "piece \<Rightarrow> bool" where
  "legal_piece (Text c) \<longleftrightarrow> c \<noteq> 0x25"
| "legal_piece (Num k c) \<longleftrightarrow> k \<le> 2 \<and> is_number_spec c"
| "legal_piece _ \<longleftrightarrow> True"

text \<open>What a piece prints, and the arguments left; \<open>None\<close> when there are not enough.\<close>

definition render_num :: "u64 \<Rightarrow> u8 \<Rightarrow> u8 list" where
  "render_num num c = fst (print_num num (spec_radix c) 0 (-1) (spec_signed c) FLAG_DEFAULT)"

fun render_piece :: "piece \<Rightarrow> u32 list \<Rightarrow> (u8 list \<times> u32 list) option" where
  "render_piece (Text c) as = Some ([c], as)"
| "render_piece Percent as = Some ([0x25], as)"
| "render_piece Chr [] = None"
| "render_piece Chr (a # as) = Some ([ucast a], as)"
| "render_piece (Num k c) as =
     (if k = 2
      then (case as of lo # hi # as' \<Rightarrow> Some (render_num (ucast lo OR push_bit 32 (ucast hi)) c, as')
            | _ \<Rightarrow> None)
      else (case as of a # as' \<Rightarrow> Some (render_num (scast a) c, as') | _ \<Rightarrow> None))"

fun render :: "piece list \<Rightarrow> u32 list \<Rightarrow> u8 list option" where
  "render [] as = Some []"
| "render (p # ps) as =
     (case render_piece p as of
        None \<Rightarrow> None | Some (out, as') \<Rightarrow> map_option (\<lambda>rest. out @ rest) (render ps as'))"

text \<open>The state between two pieces.\<close>

definition ready :: "fp \<Rightarrow> bool" where
  "ready st \<longleftrightarrow> fp_state st = STATE_NORMAL \<and> fp_length st = LENGTH_NORMAL \<and> fp_flags st = FLAG_DEFAULT \<and>
     fp_radix st = 10 \<and> fp_width st = 0 \<and> fp_precision st = -1 \<and> \<not> fp_has_sign st \<and> \<not> fp_is_number st"

lemma fp_loop_step:
  "m (fp_fmt st) \<noteq> 0 \<Longrightarrow> fp_step m st = Some (Inr st') \<Longrightarrow> fp_loop m st = fp_loop m st'"
  by (subst fp_loop.simps) simp

lemma fp_loop_error:
  "m (fp_fmt st) \<noteq> 0 \<Longrightarrow> fp_step m st = Some (Inl e) \<Longrightarrow> fp_loop m st = Some (Inl e)"
  by (subst fp_loop.simps) simp

definition plain_letter :: "u8 \<Rightarrow> bool" where
  "plain_letter c \<longleftrightarrow> c \<noteq> 0 \<and> fp_flag_of c = None \<and> c \<noteq> 0x2A \<and> c \<noteq> 0x2E \<and> \<not> (0x30 \<le> c \<and> c \<le> 0x39)"

text \<open>From the percent sign to the length modifiers.\<close>

lemma to_length:
  assumes "ready st" "m (fp_fmt st) = 0x25" "plain_letter (m (fp_fmt st + 1))"
  shows "fp_loop m st = fp_loop m (st\<lparr>fp_fmt := fp_fmt st + 1, fp_state := STATE_LENGTH\<rparr>)"
proof -
  let ?s1 = "st\<lparr>fp_fmt := fp_fmt st + 1, fp_state := STATE_FLAGS\<rparr>"
  let ?s2 = "st\<lparr>fp_fmt := fp_fmt st + 1, fp_state := STATE_WIDTH\<rparr>"
  have "fp_loop m st = fp_loop m ?s1"
    using assms(1,2) by (intro fp_loop_step) (simp_all add: ready_def fp_step_def fp_advance_def)
  also have "\<dots> = fp_loop m ?s2"
    using assms(3) by (intro fp_loop_step) (simp_all add: plain_letter_def fp_step_def)
  also have "\<dots> = fp_loop m (?s2\<lparr>fp_width := 0, fp_state := STATE_LENGTH\<rparr>)"
    using assms(3) parseint_stop [of m "fp_fmt st + 1" 0]
    by (intro fp_loop_step)
      (auto simp: plain_letter_def fp_step_def fp_int_def parseint_def fp_after_width_def Let_def)
  also have "?s2\<lparr>fp_width := 0, fp_state := STATE_LENGTH\<rparr> =
      st\<lparr>fp_fmt := fp_fmt st + 1, fp_state := STATE_LENGTH\<rparr>"
    using assms(1) by (cases st) (simp add: ready_def)
  finally show ?thesis .
qed

text \<open>From the modifiers to the specifier.\<close>

lemma to_specifier:
  assumes "fp_state st = STATE_LENGTH" "m (fp_fmt st) \<noteq> 0" "m (fp_fmt st) \<noteq> 0x68" "m (fp_fmt st) \<noteq> 0x6C"
  shows "fp_loop m st = fp_loop m (st\<lparr>fp_state := STATE_SPECIFIER\<rparr>)"
  using assms by (intro fp_loop_step) (simp_all add: fp_step_def)

lemma skip_long:
  assumes "fp_state st = STATE_LENGTH" "m (fp_fmt st) = 0x6C" "fp_length st \<noteq> LENGTH_SHORT_SHORT"
  shows "fp_loop m st = fp_loop m (st\<lparr>fp_fmt := fp_fmt st + 1,
    fp_length := (if fp_length st = LENGTH_NORMAL then LENGTH_LONG else LENGTH_LONG_LONG)\<rparr>)"
  using assms by (intro fp_loop_step) (simp_all add: fp_step_def fp_advance_def fp_length_step_def)

text \<open>The specifiers, from a state that was ready before the percent sign.\<close>

definition at_specifier :: "fp \<Rightarrow> addr \<Rightarrow> PrintFormatLength \<Rightarrow> fp" where
  "at_specifier st p len = st\<lparr>fp_fmt := p, fp_state := STATE_SPECIFIER, fp_length := len\<rparr>"

text \<open>The state after \<open>out\<close> was printed and \<open>as\<close> is left of the arguments.\<close>

definition emitted :: "fp \<Rightarrow> u32 list \<Rightarrow> u8 list \<Rightarrow> addr \<Rightarrow> fp" where
  "emitted st as out p = st\<lparr>fp_args := as, fp_out := fp_out st @ out,
     fp_count := fp_count st + int (length out), fp_fmt := p\<rparr>"

lemma percent_specifier:
  assumes "ready st" "m p = 0x25"
  shows "fp_loop m (at_specifier st p LENGTH_NORMAL) =
      fp_loop m (emitted st (fp_args st) [0x25] (p + 1))"
proof (rule fp_loop_step)
  show "m (fp_fmt (at_specifier st p LENGTH_NORMAL)) \<noteq> 0" using assms(2) by (simp add: at_specifier_def)
  show "fp_step m (at_specifier st p LENGTH_NORMAL) =
      Some (Inr (emitted st (fp_args st) [0x25] (p + 1)))"
    using assms by (cases st) (simp add: at_specifier_def fp_step_def fp_specifier_def fp_print_def
        fp_finish_def fp_reset_def fp_advance_def ready_def emitted_def)
qed

lemma char_specifier:
  assumes "ready st" "m p = 0x63"
  shows "fp_loop m (at_specifier st p LENGTH_NORMAL) =
    (case fp_args st of [] \<Rightarrow> Some (Inl No_argument)
     | a # as \<Rightarrow> fp_loop m (emitted st as [ucast a] (p + 1)))"
proof (cases "fp_args st")
  case Nil
  with assms(2) show ?thesis
    by (simp add: fp_loop_error at_specifier_def fp_step_def fp_specifier_def fp_arg_def)
next
  case (Cons a as)
  have "fp_loop m (at_specifier st p LENGTH_NORMAL) = fp_loop m (emitted st as [ucast a] (p + 1))"
  proof (rule fp_loop_step)
    show "m (fp_fmt (at_specifier st p LENGTH_NORMAL)) \<noteq> 0" using assms(2) by (simp add: at_specifier_def)
    show "fp_step m (at_specifier st p LENGTH_NORMAL) = Some (Inr (emitted st as [ucast a] (p + 1)))"
      using assms Cons by (cases st) (simp add: at_specifier_def fp_step_def fp_specifier_def
          fp_arg_def fp_print_def fp_finish_def fp_reset_def fp_advance_def ready_def emitted_def)
  qed
  with Cons show ?thesis by simp
qed

lemma print_num_count: "snd (print_num num r w p sg fl) = int (length (fst (print_num num r w p sg fl)))"
  unfolding print_num_def by (simp only: Let_def prod.case_eq_if fst_conv snd_conv)

lemma fp_number_fields:
  "fp_number num \<lparr>fp_fmt = p, fp_state = s, fp_length = len, fp_flags = FLAG_DEFAULT,
      fp_radix = spec_radix c, fp_width = 0, fp_precision = -1, fp_has_sign = spec_signed c,
      fp_is_number = n, fp_args = as, fp_out = out, fp_count = k\<rparr> =
   \<lparr>fp_fmt = p, fp_state = s, fp_length = len, fp_flags = FLAG_DEFAULT,
      fp_radix = spec_radix c, fp_width = 0, fp_precision = -1, fp_has_sign = spec_signed c,
      fp_is_number = n, fp_args = as, fp_out = out @ render_num num c,
      fp_count = k + int (length (render_num num c))\<rparr>"
proof -
  have "print_num num (spec_radix c) 0 (- 1) (spec_signed c) FLAG_DEFAULT =
      (render_num num c, int (length (render_num num c)))"
    by (rule prod_eqI) (simp_all add: render_num_def print_num_count)
  then show ?thesis by (simp only: fp_number_def fp.simps prod.case Let_def)
qed

lemma fp_number_ready:
  assumes "ready st"
  shows "fp_reset (fp_number num (st\<lparr>fp_fmt := p, fp_state := s, fp_length := len,
      fp_radix := spec_radix c, fp_has_sign := spec_signed c, fp_is_number := True, fp_args := as\<rparr>)) =
    emitted st as (render_num num c) p"
  using assms
  by (cases st) (simp add: ready_def emitted_def fp_number_fields fp_reset_def)

lemma number_letters:
  "is_number_spec c \<Longrightarrow> c \<noteq> 0x63 \<and> c \<noteq> 0x73 \<and> c \<noteq> 0x25 \<and> c \<noteq> 0x68 \<and> c \<noteq> 0x6C \<and> plain_letter c"
  by (auto simp: is_number_spec_def plain_letter_def fp_flag_of_def)

lemma number_specifier:
  assumes "ready st" "m p = c" "is_number_spec c" "len \<noteq> LENGTH_LONG_LONG"
  shows "fp_loop m (at_specifier st p len) =
    (case fp_args st of [] \<Rightarrow> Some (Inl No_argument)
     | a # as \<Rightarrow> fp_loop m (emitted st as (render_num (scast a) c) (p + 1)))"
proof (cases "fp_args st")
  case Nil
  with assms number_letters [OF assms(3)] show ?thesis
    by (auto intro!: fp_loop_error simp: at_specifier_def fp_step_def fp_specifier_def fp_arg_def
        fp_finish_def plain_letter_def Let_def)
next
  case (Cons a as)
  have "fp_step m (at_specifier st p len) = Some (Inr (fp_advance (fp_reset (fp_number (scast a)
      (st\<lparr>fp_fmt := p, fp_state := STATE_SPECIFIER, fp_length := len,
        fp_radix := spec_radix c, fp_has_sign := spec_signed c, fp_is_number := True, fp_args := as\<rparr>)))))"
    using Cons assms(2-4) number_letters [OF assms(3)]
    by (simp add: at_specifier_def fp_step_def fp_specifier_def fp_arg_def fp_finish_def Let_def)
  then show ?thesis unfolding fp_number_ready [OF assms(1)] using Cons assms(2) number_letters [OF assms(3)]
    by (simp add: fp_loop_step at_specifier_def fp_advance_def plain_letter_def emitted_def)
qed

lemma long_long_specifier:
  assumes "ready st" "m p = c" "is_number_spec c"
  shows "fp_loop m (at_specifier st p LENGTH_LONG_LONG) =
    (case fp_args st of lo # hi # as \<Rightarrow> 
         fp_loop m (emitted st as (render_num (ucast lo OR push_bit 32 (ucast hi)) c) (p + 1))
     | _ \<Rightarrow> Some (Inl No_argument))"
proof -
  consider "fp_args st = []" | lo where "fp_args st = [lo]" | lo hi as where "fp_args st = lo # hi # as"
    by (metis neq_Nil_conv)
  then show ?thesis
  proof cases
    case 3
    have "fp_step m (at_specifier st p LENGTH_LONG_LONG) = Some (Inr (fp_advance (fp_reset
        (fp_number (ucast lo OR push_bit 32 (ucast hi))
        (st\<lparr>fp_fmt := p, fp_state := STATE_SPECIFIER, fp_length := LENGTH_LONG_LONG,
          fp_radix := spec_radix c, fp_has_sign := spec_signed c, fp_is_number := True, fp_args := as\<rparr>)))))"
      using 3 assms(2,3) number_letters [OF assms(3)]
      by (simp add: at_specifier_def fp_step_def fp_specifier_def fp_arg_def fp_finish_def Let_def)
    then show ?thesis unfolding fp_number_ready [OF assms(1)] using 3 assms(2) number_letters [OF assms(3)]
      by (simp add: fp_loop_step at_specifier_def fp_advance_def plain_letter_def emitted_def)
  qed (use assms number_letters [OF assms(3)] in \<open>auto intro!: fp_loop_error simp: at_specifier_def
    fp_step_def fp_specifier_def fp_arg_def fp_finish_def plain_letter_def Let_def\<close>)
qed

text \<open>A piece, and then a format.\<close>

lemma bytes_at_append:
  "bytes_at m p (xs @ ys) \<longleftrightarrow> bytes_at m p xs \<and> bytes_at m (p + of_nat (length xs)) ys"
  by (induction xs arbitrary: p) (auto simp: algebra_simps)

lemma ready_emitted [simp]: "ready (emitted st as out p) = ready st"
  by (simp add: ready_def emitted_def)

lemma run_number:
  assumes "ready st" "bytes_at m (fp_fmt st) (piece_bytes (Num k c))" "k \<le> 2" "is_number_spec c"
  shows "fp_loop m st = fp_loop m (at_specifier st (fp_fmt st + of_nat k + 1)
    (if k = 0 then LENGTH_NORMAL else if k = 1 then LENGTH_LONG else LENGTH_LONG_LONG))"
proof -
  let ?s = "st\<lparr>fp_fmt := fp_fmt st + 1, fp_state := STATE_LENGTH\<rparr>"
  note c = number_letters [OF assms(4)]
  have l: "fp_length st = LENGTH_NORMAL" using assms(1) by (simp add: ready_def)
  have "plain_letter 0x6C" by (simp add: plain_letter_def fp_flag_of_def)
  then have "plain_letter (m (fp_fmt st + 1))" using assms(2) c by (cases k) auto
  then have start: "fp_loop m st = fp_loop m ?s"
    using assms(1,2) by (intro to_length) auto
  consider "k = 0" | "k = 1" | "k = 2" using assms(3) by linarith
  then show ?thesis
  proof cases
    case 1
    then have "fp_loop m ?s = fp_loop m (?s\<lparr>fp_state := STATE_SPECIFIER\<rparr>)"
      using assms(2) c by (intro to_specifier) (auto simp: plain_letter_def)
    also have "?s\<lparr>fp_state := STATE_SPECIFIER\<rparr> = at_specifier st (fp_fmt st + 1) LENGTH_NORMAL"
      using l by (cases st) (simp add: at_specifier_def)
    finally show ?thesis using start 1 by simp
  next
    case 2
    let ?t = "?s\<lparr>fp_fmt := fp_fmt ?s + 1, fp_length := LENGTH_LONG\<rparr>"
    have "fp_loop m ?s = fp_loop m ?t"
      using skip_long [of ?s m] assms(2) 2 l by simp
    also have "\<dots> = fp_loop m (?t\<lparr>fp_state := STATE_SPECIFIER\<rparr>)"
      using assms(2) c 2 by (intro to_specifier) (auto simp: plain_letter_def)
    also have "?t\<lparr>fp_state := STATE_SPECIFIER\<rparr> = at_specifier st (fp_fmt st + 1 + 1) LENGTH_LONG"
      by (cases st) (simp add: at_specifier_def)
    finally show ?thesis using start 2 by (simp add: add.assoc)
  next
    case 3
    let ?t = "?s\<lparr>fp_fmt := fp_fmt ?s + 1, fp_length := LENGTH_LONG\<rparr>"
    let ?u = "?t\<lparr>fp_fmt := fp_fmt ?t + 1, fp_length := LENGTH_LONG_LONG\<rparr>"
    have b: "m (fp_fmt st + 1) = 0x6C" "m (fp_fmt st + 1 + 1) = 0x6C" "m (fp_fmt st + 1 + 1 + 1) = c"
      using assms(2) 3 by (simp_all add: numeral_2_eq_2)
    have "fp_loop m ?s = fp_loop m ?t" using skip_long [of ?s m] b l by simp
    also have "\<dots> = fp_loop m ?u" using skip_long [of ?t m] b by simp
    also have "\<dots> = fp_loop m (?u\<lparr>fp_state := STATE_SPECIFIER\<rparr>)"
      using b c by (intro to_specifier) (auto simp: plain_letter_def)
    also have "?u\<lparr>fp_state := STATE_SPECIFIER\<rparr> = at_specifier st (fp_fmt st + 1 + 1 + 1) LENGTH_LONG_LONG"
      by (cases st) (simp add: at_specifier_def)
    finally show ?thesis using start 3 by (simp add: add.assoc)
  qed
qed

lemma run_piece:
  assumes "ready st" "bytes_at m (fp_fmt st) (piece_bytes q)" "legal_piece q" "0 \<notin> set (piece_bytes q)"
  shows "fp_loop m st =
    (case render_piece q (fp_args st) of
       None \<Rightarrow> Some (Inl No_argument)
     | Some (out, as) \<Rightarrow> fp_loop m (emitted st as out (fp_fmt st + of_nat (length (piece_bytes q)))))"
proof (cases q)
  case (Text c)
  have "fp_loop m st = fp_loop m (emitted st (fp_args st) [c] (fp_fmt st + 1))"
    using assms Text by (intro fp_loop_step; cases st)
      (auto simp: ready_def fp_step_def fp_print_def fp_advance_def emitted_def)
  with Text show ?thesis by simp
next
  case Percent
  have "plain_letter 0x25" by (simp add: plain_letter_def fp_flag_of_def)
  then have "fp_loop m st = fp_loop m (st\<lparr>fp_fmt := fp_fmt st + 1, fp_state := STATE_LENGTH\<rparr>)"
    using assms Percent by (intro to_length) auto
  also have "\<dots> = fp_loop m (at_specifier st (fp_fmt st + 1) LENGTH_NORMAL)"
    using assms Percent to_specifier [of "st\<lparr>fp_fmt := fp_fmt st + 1, fp_state := STATE_LENGTH\<rparr>" m]
    by (cases st) (simp add: at_specifier_def ready_def)
  also have "\<dots> = fp_loop m (emitted st (fp_args st) [0x25] (fp_fmt st + 1 + 1))"
    using assms Percent by (intro percent_specifier) auto
  finally show ?thesis using Percent by (simp add: add.assoc)
next
  case Chr
  have "plain_letter 0x63" by (simp add: plain_letter_def fp_flag_of_def)
  then have "fp_loop m st = fp_loop m (st\<lparr>fp_fmt := fp_fmt st + 1, fp_state := STATE_LENGTH\<rparr>)"
    using assms Chr by (intro to_length) auto
  also have "\<dots> = fp_loop m (at_specifier st (fp_fmt st + 1) LENGTH_NORMAL)"
    using assms Chr to_specifier [of "st\<lparr>fp_fmt := fp_fmt st + 1, fp_state := STATE_LENGTH\<rparr>" m]
    by (cases st) (simp add: at_specifier_def ready_def)
  finally show ?thesis using char_specifier [OF assms(1), of m "fp_fmt st + 1"] assms(2) Chr
    by (simp add: add.assoc split: list.split)
next
  case (Num k c)
  then have k: "k \<le> 2" "is_number_spec c" using assms(3) by auto
  have mc: "m (fp_fmt st + of_nat k + 1) = c"
    using assms(2) Num by (simp add: bytes_at_append algebra_simps)
  note run = run_number [OF assms(1) assms(2) [unfolded Num] k]
  show ?thesis
  proof (cases "k = 2")
    case True
    with run long_long_specifier [of st m "fp_fmt st + of_nat k + 1" c, OF assms(1) mc k(2)] Num show ?thesis
      by (auto simp: algebra_simps split: list.split)
  next
    case False
    let ?len = "if k = 0 then LENGTH_NORMAL else LENGTH_LONG"
    have "fp_loop m st = fp_loop m (at_specifier st (fp_fmt st + of_nat k + 1) ?len)"
      using run False k(1) by auto
    moreover have "?len \<noteq> LENGTH_LONG_LONG" by simp
    ultimately show ?thesis using number_specifier [of st m "fp_fmt st + of_nat k + 1" c ?len, OF assms(1) mc k(2)] Num False
      by (auto simp: algebra_simps split: list.split)
  qed
qed

definition fp_result :: "(format_error + fp) option \<Rightarrow> (format_error + u8 list \<times> int) option" where
  "fp_result r = map_option (map_sum id (\<lambda>st. (fp_out st, fp_count st))) r"

lemma format_print_result: "format_print m fmt args = fp_result (fp_loop m (fp_start fmt args))"
  by (simp add: format_print_def fp_result_def split: option.split sum.split)

lemma run_format:
  assumes "ready st" "bytes_at m (fp_fmt st) (concat (map piece_bytes ps) @ [0])"
    "list_all legal_piece ps" "0 \<notin> set (concat (map piece_bytes ps))"
  shows "fp_result (fp_loop m st) =
    (case render ps (fp_args st) of
       None \<Rightarrow> Some (Inl No_argument)
     | Some out \<Rightarrow> Some (Inr (fp_out st @ out, fp_count st + int (length out))))"
  using assms
proof (induction ps arbitrary: st)
  case Nil
  then show ?case by (subst fp_loop.simps) (simp add: fp_result_def)
next
  case (Cons q ps)
  have b: "bytes_at m (fp_fmt st) (piece_bytes q)"
    "bytes_at m (fp_fmt st + of_nat (length (piece_bytes q))) (concat (map piece_bytes ps) @ [0])"
    using Cons.prems(2) by (simp_all add: bytes_at_append)
  have q: "legal_piece q" "0 \<notin> set (piece_bytes q)" using Cons.prems(3,4) by auto
  note step = run_piece [OF Cons.prems(1) b(1) q]
  show ?case
  proof (cases "render_piece q (fp_args st)")
    case None
    with step show ?thesis by (simp add: fp_result_def)
  next
    case (Some r)
    obtain out as where r: "r = (out, as)" by (cases r)
    let ?t = "emitted st as out (fp_fmt st + of_nat (length (piece_bytes q)))"
    have "fp_result (fp_loop m ?t) =
      (case render ps as of None \<Rightarrow> Some (Inl No_argument)
       | Some rest \<Rightarrow> Some (Inr ((fp_out st @ out) @ rest, fp_count st + int (length out) + int (length rest))))"
      using Cons.IH [of ?t] b(2) Cons.prems(1,3,4) by (simp add: emitted_def ready_def cong: option.case_cong)
    with step Some r show ?thesis by (auto split: option.split)
  qed
qed

text \<open>
  C16: for a format made of text, \<open>%%\<close>, \<open>%c\<close> and numbers (any of the seven letters, with up to
  two \<open>l\<close>), \<open>format_print\<close> prints the pieces in order, each conversion consuming its own
  arguments (two words for \<open>ll\<close>), and returns the number of characters printed; it fails exactly
  when the arguments run out.
\<close>

theorem format_print_renders:
  assumes "bytes_at m fmt (concat (map piece_bytes ps) @ [0])"
    "list_all legal_piece ps" "0 \<notin> set (concat (map piece_bytes ps))"
  shows "format_print m fmt args =
    (case render ps args of
       None \<Rightarrow> Some (Inl No_argument)
     | Some out \<Rightarrow> Some (Inr (out, int (length out))))"
  using run_format [of "fp_start fmt args" m ps] assms
  by (simp add: format_print_result ready_def fp_start_def cong: option.case_cong)

definition percent_format :: memory where
  "percent_format a = (if a = 100 then 0x61 else if a = 101 then 0x25 else if a = 102 then 0x6C
     else if a = 103 then 0x64 else if a = 104 then 0x25 else if a = 105 then 0x63 else 0)"

theorem format_print_renders_witness:
  "format_print percent_format 100 [7, 0x62] = Some (Inr (0x61 # render_num 7 0x64 @ [0x62],
     2 + int (length (render_num 7 0x64))))"
  by (subst format_print_renders [of _ _ "[Text 0x61, Num 1 0x64, Chr]"])
    (simp_all add: percent_format_def is_number_spec_def)

end
