(* ===== verification/Partitions.thy ===== *)
theory Partitions
  imports Bytes
begin

text \<open>
  The \<open>Partition\<close> structure of \<open>disk.h\<close> and \<open>disk_read_sectors\<close> of \<open>disk.c\<close>. The drive's
  \<open>read_sectors\<close> is a function pointer set by the driver: a parameter that gets the drive's address and
  returns its result, the bytes it stores into the buffer and the new state of the hardware.
\<close>

type_synonym 'h drive_read = "addr \<Rightarrow> u8 \<Rightarrow> u32 \<Rightarrow> 'h \<Rightarrow> int \<times> u8 list \<times> 'h"

section \<open>Partition\<close>

text \<open>\<open>Partition\<close> on i686: 64-bit members are aligned to 4 bytes.\<close>

definition sizeof_Partition :: u32 where "sizeof_Partition = 36"

definition partition_start :: "memory \<Rightarrow> addr \<Rightarrow> u64" where "partition_start m p = read64 m p"
definition partition_size :: "memory \<Rightarrow> addr \<Rightarrow> u64" where "partition_size m p = read64 m (p + 8)"
definition partition_attributes :: "memory \<Rightarrow> addr \<Rightarrow> u64" where
  "partition_attributes m p = read64 m (p + 16)"
definition partition_name_length :: "memory \<Rightarrow> addr \<Rightarrow> u32" where
  "partition_name_length m p = read32 m (p + 24)"
definition partition_name :: "memory \<Rightarrow> addr \<Rightarrow> addr" where "partition_name m p = read32 m (p + 28)"
definition partition_drive :: "memory \<Rightarrow> addr \<Rightarrow> addr" where "partition_drive m p = read32 m (p + 32)"

definition disk_read_sectors ::
  "'h drive_read \<Rightarrow> memory \<Rightarrow> addr \<Rightarrow> u64 \<Rightarrow> u64 \<Rightarrow> 'h \<Rightarrow> int \<times> u8 list \<times> 'h" where
  "disk_read_sectors rs m part sectors lba h =
     (if lba \<ge> partition_size m part then (0, [], h)
      else rs (partition_drive m part) (ucast sectors) (ucast (lba + partition_start m part)) h)"

end
