(* ===== verification/Files.thy ===== *)
theory Files
  imports Bytes Allocator
begin

text \<open>
  Open files: \<open>FileData\<close> of \<open>file.h\<close> and the stream functions of \<open>libc/stdio.c\<close> that manage its
  buffer. The object behind \<open>extra_data\<close> is the \<open>FatFileData\<close> of \<open>fat.c\<close>, the only kind of file
  there is; it is kept as a record beside the pointer.
\<close>

record FatFileData =
  first_cluster :: u32
  current_cluster :: u32
  cluster_index :: u32
  current_sector_in_cluster :: u32
  position :: u32
  file_size :: u32
  is_directory :: bool

record FileData =
  handle :: int
  buffer :: addr
  buffer_mode :: int
  buffer_size :: int
  buffer_auto_allocated :: bool
  opened :: bool
  file_error :: bool
  eof :: bool
  fat_accessors :: bool \<comment> \<open>\<open>accessors\<close> is \<open>NULL\<close> or \<open>stream_accessors\<close> of \<open>fat.c\<close>\<close>
  extra_data :: addr
  ffd :: FatFileData

definition EOF :: int where "EOF = -1"
definition IOFBF :: int where "IOFBF = 1"
definition IONBF :: int where "IONBF = 3"
definition BUFSIZ :: int where "BUFSIZ = 512"

definition feof :: "FileData \<Rightarrow> bool" where "feof stream = eof stream"
definition ferror :: "FileData \<Rightarrow> bool" where "ferror stream = file_error stream"

definition setbuf :: "FileData \<Rightarrow> addr \<Rightarrow> FileData" where
  "setbuf stream buf =
     (if buffer stream \<noteq> 0 then stream
      else if buf = 0
      then stream\<lparr>buffer_mode := IONBF, buffer_size := 0, buffer_auto_allocated := False\<rparr>
      else stream\<lparr>buffer := buf, buffer_mode := IOFBF, buffer_size := BUFSIZ,
                  buffer_auto_allocated := False\<rparr>)"

text \<open>
  \<open>setvbuf\<close> has no return statement on success; \<open>ret\<close> is what the caller then sees.
\<close>

definition setvbuf ::
  "int \<Rightarrow> heap \<Rightarrow> FileData \<Rightarrow> addr \<Rightarrow> int \<Rightarrow> u32 \<Rightarrow> (int \<times> FileData \<times> heap) option" where
  "setvbuf ret h stream buf mode sz =
     (if buffer stream \<noteq> 0 then Some (-1, stream, h)
      else if mode \<le> 0 \<or> mode > 3 then Some (-2, stream, h)
      else if buf = 0
      then (case malloc h sz of
              None \<Rightarrow> None
            | Some (p, h) \<Rightarrow>
                let stream = stream\<lparr>buffer_auto_allocated := True, buffer := p\<rparr>
                in if p = 0 then Some (-3, stream, h)
                   else Some (ret, stream\<lparr>buffer_mode := mode\<rparr>, h))
      else Some (ret, stream\<lparr>buffer_auto_allocated := False, buffer := buf, buffer_mode := mode\<rparr>, h))"

end
