(* ===== verification/Fat.thy ===== *)
theory Fat
  imports Partitions Files CString
begin

text \<open>
  The FAT driver of \<open>fat.c\<close>: the boot record, the walk along the cluster chain with its one-sector
  cache, reading a file and searching a directory. File buffers, partitions and file names are in
  the byte memory of the kernel heap; the static arrays are lists. \<open>None\<close> is a division by zero
  or a loop that does not end. What is printed is left out.
\<close>

section \<open>On-disk structures\<close>

record EBR_32 =
  sectors_per_fat_32 :: u32
  ebr32_flags :: u16
  fat_version :: u16
  root_cluster :: u32
  fs_info_sector :: u16
  backup_boot_sector :: u16
  ebr32_drive_number :: u8
  ebr32_flags_nt :: u8
  ebr32_signature :: u8
  ebr32_volume_id :: u32

record EBR_16 =
  ebr16_drive_number :: u8
  ebr16_flags_nt :: u8
  ebr16_signature :: u8
  ebr16_volume_id :: u32

record BootRecord =
  bytes_per_sector :: u16
  sectors_per_cluster :: u8
  reserved_sector_count :: u16
  fat_count :: u8
  root_entry_count :: u16
  sector_count_16 :: u16
  media_type :: u8
  sectors_per_fat_16 :: u16
  sectors_per_track :: u16
  head_count :: u16
  hidden_sector_count :: u32
  sector_count_32 :: u32
  ebr_16 :: EBR_16
  ebr_32 :: EBR_32

text \<open>The copy of the first bytes of the sector into the packed structure; the union has both views.\<close>

definition read_boot_record :: "u8 list \<Rightarrow> BootRecord" where
  "read_boot_record bs =
     \<lparr>bytes_per_sector = le16 bs 11, sectors_per_cluster = bs ! 13,
      reserved_sector_count = le16 bs 14, fat_count = bs ! 16, root_entry_count = le16 bs 17,
      sector_count_16 = le16 bs 19, media_type = bs ! 21, sectors_per_fat_16 = le16 bs 22,
      sectors_per_track = le16 bs 24, head_count = le16 bs 26, hidden_sector_count = le32 bs 28,
      sector_count_32 = le32 bs 32,
      ebr_16 = \<lparr>ebr16_drive_number = bs ! 36, ebr16_flags_nt = bs ! 37, ebr16_signature = bs ! 38,
        ebr16_volume_id = le32 bs 39\<rparr>,
      ebr_32 = \<lparr>sectors_per_fat_32 = le32 bs 36, ebr32_flags = le16 bs 40, fat_version = le16 bs 42,
        root_cluster = le32 bs 44, fs_info_sector = le16 bs 48, backup_boot_sector = le16 bs 50,
        ebr32_drive_number = bs ! 64, ebr32_flags_nt = bs ! 65, ebr32_signature = bs ! 66,
        ebr32_volume_id = le32 bs 67\<rparr>\<rparr>"

datatype FatFormat = FAT_12 | FAT_16 | FAT_32 | EXFAT

definition ATTRIB_DIRECTORY :: u8 where "ATTRIB_DIRECTORY = 0x10"
definition SECTOR_SIZE :: u32 where "SECTOR_SIZE = 512"

text \<open>\<open>DirEntry\<close> in memory.\<close>

definition entry_attributes :: "memory \<Rightarrow> addr \<Rightarrow> u8" where "entry_attributes m e = m (e + 11)"
definition entry_first_cluster_high :: "memory \<Rightarrow> addr \<Rightarrow> u16" where
  "entry_first_cluster_high m e = read16 m (e + 20)"
definition entry_first_cluster_low :: "memory \<Rightarrow> addr \<Rightarrow> u16" where
  "entry_first_cluster_low m e = read16 m (e + 26)"
definition entry_size :: "memory \<Rightarrow> addr \<Rightarrow> u32" where "entry_size m e = read32 m (e + 28)"

section \<open>State\<close>

record 'h fat =
  fat_heap :: heap
  fat_hw :: 'h
  fat_partition :: addr
  boot_record :: BootRecord
  fat_buffer :: "u8 list"
  fat_sector :: u32
  fat_format :: FatFormat
  total_sectors :: u32
  total_clusters :: u32
  first_fat_sector :: u32
  first_data_sector :: u32

abbreviation fat_mem :: "'h fat \<Rightarrow> memory" where "fat_mem st \<equiv> hmem (fat_heap st)"

definition set_fat_mem :: "memory \<Rightarrow> 'h fat \<Rightarrow> 'h fat" where
  "set_fat_mem m st = st\<lparr>fat_heap := (fat_heap st)\<lparr>hmem := m\<rparr>\<rparr>"

definition fat_disk :: "'h drive_read \<Rightarrow> addr \<Rightarrow> u64 \<Rightarrow> 'h fat \<Rightarrow> int \<times> u8 list \<times> 'h fat" where
  "fat_disk rs part lba st =
     (case disk_read_sectors rs (fat_mem st) part 1 lba (fat_hw st) of
        (r, bytes, hw) \<Rightarrow> (r, bytes, st\<lparr>fat_hw := hw\<rparr>))"

section \<open>Clusters\<close>

definition cluster_to_lba :: "'h fat \<Rightarrow> u32 \<Rightarrow> u32" where
  "cluster_to_lba st cluster =
     first_data_sector st + (cluster - 2) * ucast (sectors_per_cluster (boot_record st))"

definition read_cluster :: "'h drive_read \<Rightarrow> u32 \<Rightarrow> u8 \<Rightarrow> addr \<Rightarrow> 'h fat \<Rightarrow> int \<times> 'h fat" where
  "read_cluster rs cluster sector buf st =
     (case fat_disk rs (fat_partition st) (ucast (cluster_to_lba st cluster + ucast sector)) st of
        (r, bytes, st) \<Rightarrow> (r, set_fat_mem (store_bytes (fat_mem st) buf bytes) st))"

definition next_cluster :: "'h drive_read \<Rightarrow> u32 \<Rightarrow> 'h fat \<Rightarrow> u32 \<times> 'h fat" where
  "next_cluster rs current st =
     (let fat_offset = push_bit 2 current;
          target_fat_sector = first_fat_sector st + fat_offset div SECTOR_SIZE;
          entry_offset = fat_offset mod SECTOR_SIZE;
          (r, st) =
            (if fat_sector st \<noteq> target_fat_sector
             then (case fat_disk rs (fat_partition st) (ucast target_fat_sector) st of
                     (r, bytes, st) \<Rightarrow>
                       (r, st\<lparr>fat_buffer := overwrite bytes (fat_buffer st),
                              fat_sector := (if r = 0 then 0 else target_fat_sector)\<rparr>))
             else (1, st))
      in if r = 0 then (0x0FFFFFF7, st)
         else (le32 (fat_buffer st) (unat entry_offset) AND 0x0FFFFFFF, st))"

text \<open>The search for the cluster, in as many turns as its index is ahead; false is \<open>EOF\<close>.\<close>

fun seek_cluster :: "'h drive_read \<Rightarrow> nat \<Rightarrow> 'h fat \<Rightarrow> FatFileData \<Rightarrow> bool \<times> 'h fat \<times> FatFileData" where
  "seek_cluster rs 0 st f = (True, st, f)"
| "seek_cluster rs (Suc n) st f =
     (let f = f\<lparr>cluster_index := cluster_index f + 1\<rparr>;
          (c, st) = next_cluster rs (current_cluster f) st;
          f = f\<lparr>current_cluster := c\<rparr>
      in if c \<ge> 0x0FFFFFF7 then (False, st, f) else seek_cluster rs n st f)"

definition load_file_buffer :: "'h drive_read \<Rightarrow> FileData \<Rightarrow> 'h fat \<Rightarrow> (int \<times> FileData \<times> 'h fat) option" where
  "load_file_buffer rs fd st =
     (let f = ffd fd;
          spc = ucast (sectors_per_cluster (boot_record st)) :: u32;
          target_sector = position f div SECTOR_SIZE;
          target_cluster_index = target_sector div spc;
          target_sector = target_sector mod spc;
          f = (if target_cluster_index < cluster_index f
               then f\<lparr>cluster_index := 0, current_cluster := first_cluster f\<rparr> else f)
      in if spc = 0 then None
         else case seek_cluster rs (unat target_cluster_index - unat (cluster_index f)) st f of
                (ok, st, f) \<Rightarrow>
                  if \<not> ok then Some (EOF, fd\<lparr>ffd := f\<rparr>, st)
                  else let f = f\<lparr>current_sector_in_cluster := target_sector\<rparr>;
                           (r, st) = read_cluster rs (current_cluster f) (ucast target_sector) (buffer fd) st
                       in Some (if r \<noteq> 1 then EOF else 0, fd\<lparr>ffd := f\<rparr>, st))"

section \<open>Stream accessors\<close>

definition fat_write :: "FileData \<Rightarrow> addr \<Rightarrow> u32 \<Rightarrow> u32" where "fat_write fd data sz = 0"

partial_function (option) fat_read_loop ::
  "'h drive_read \<Rightarrow> u32 \<Rightarrow> u32 \<Rightarrow> addr \<Rightarrow> FileData \<Rightarrow> 'h fat \<Rightarrow> (u32 \<times> FileData \<times> 'h fat) option" where
  "fat_read_loop rs remaining remaining_in_file buff fd st =
     (if remaining > 0
      then let offset = position (ffd fd) mod SECTOR_SIZE;
               remaining_in_sector = SECTOR_SIZE - offset;
               to_read = (if remaining > remaining_in_sector then remaining_in_sector else remaining);
               to_read = (if to_read > remaining_in_file then remaining_in_file else to_read);
               st = set_fat_mem (memcpy (fat_mem st) buff (buffer fd + offset) to_read) st;
               remaining = remaining - to_read;
               remaining_in_file = remaining_in_file - to_read;
               buff = buff + to_read;
               fd = fd\<lparr>ffd := (ffd fd)\<lparr>position := position (ffd fd) + to_read\<rparr>\<rparr>
           in if remaining_in_file = 0
              then Some (remaining, if remaining > 0 then fd\<lparr>eof := True\<rparr> else fd, st)
              else if to_read \<ge> remaining_in_sector
              then (case load_file_buffer rs fd st of
                      None \<Rightarrow> None
                    | Some (r, fd, st) \<Rightarrow>
                        if r \<noteq> 0 then Some (remaining, fd\<lparr>file_error := True\<rparr>, st)
                        else fat_read_loop rs remaining remaining_in_file buff fd st)
              else fat_read_loop rs remaining remaining_in_file buff fd st
      else Some (remaining, fd, st))"

definition fat_read ::
  "'h drive_read \<Rightarrow> FileData \<Rightarrow> addr \<Rightarrow> u32 \<Rightarrow> 'h fat \<Rightarrow> (u32 \<times> FileData \<times> 'h fat) option" where
  "fat_read rs fd buff sz st =
     (let remaining_in_file = file_size (ffd fd) - position (ffd fd)
      in if remaining_in_file = 0 then Some (0, fd\<lparr>eof := True\<rparr>, st)
         else if file_error fd then Some (0, fd, st)
         else case fat_read_loop rs sz remaining_in_file buff fd st of
                None \<Rightarrow> None
              | Some (remaining, fd, st) \<Rightarrow> Some (sz - remaining, fd, st))"

definition fat_flush :: "FileData \<Rightarrow> int" where "fat_flush fd = EOF"

text \<open>\<open>fat_close\<close> has no return statement; only its effect is kept.\<close>

definition fat_close :: "FileData \<Rightarrow> 'h fat \<Rightarrow> 'h fat option" where
  "fat_close fd st =
     (if extra_data fd \<noteq> 0
      then (case free (fat_heap st) (extra_data fd) of
              None \<Rightarrow> None | Some h \<Rightarrow> Some (st\<lparr>fat_heap := h\<rparr>))
      else Some st)"

end
