(* ===== verification/FatDir.thy ===== *)
theory FatDir
  imports Fat
begin

text \<open>
  Directories and mounting in \<open>fat.c\<close>: \<open>fat_init_partition\<close>, the search in a directory and
  \<open>fat_open_file\<close>.
\<close>

section \<open>Mounting\<close>

definition boot_total_sectors :: "BootRecord \<Rightarrow> u32" where
  "boot_total_sectors br =
     (if sector_count_16 br = 0 then sector_count_32 br else ucast (sector_count_16 br))"

definition boot_fat_size :: "BootRecord \<Rightarrow> u32" where
  "boot_fat_size br =
     (if sectors_per_fat_16 br = 0 then sectors_per_fat_32 (ebr_32 br) else ucast (sectors_per_fat_16 br))"

definition boot_root_dir_sectors :: "BootRecord \<Rightarrow> u32" where
  "boot_root_dir_sectors br =
     (ucast (root_entry_count br) * 32 + ucast (bytes_per_sector br) - 1) div ucast (bytes_per_sector br)"

text \<open>
  The checks of the boot record. The code collects six of them in \<open>br_ok\<close> with \<open>&=\<close>, and then
  assigns the last one to it.
\<close>

definition boot_ok :: "BootRecord \<Rightarrow> bool" where
  "boot_ok br \<longleftrightarrow> ebr16_signature (ebr_16 br) = 0x28 \<or> ebr16_signature (ebr_16 br) = 0x29 \<or>
     ebr32_signature (ebr_32 br) = 0x28 \<or> ebr32_signature (ebr_32 br) = 0x29"

text \<open>\<open>format == FAT_12\<close> is a comparison without effect, so small disks stay \<open>FAT_32\<close>.\<close>

definition boot_format :: "BootRecord \<Rightarrow> u32 \<Rightarrow> FatFormat" where
  "boot_format br sectors =
     (if sectors < 0xFFFF - 10 \<and> ebr16_signature (ebr_16 br) = 0x28 \<or> ebr16_signature (ebr_16 br) = 0x29
      then (if sectors < 0x3FFF - 10 then FAT_32 else FAT_16)
      else FAT_32)"

definition fat_init_partition :: "'h drive_read \<Rightarrow> addr \<Rightarrow> 'h fat \<Rightarrow> 'h fat option" where
  "fat_init_partition rs part st =
     (case fat_disk rs part 0 st of
        (r, bytes, st) \<Rightarrow>
          let st = st\<lparr>fat_buffer := overwrite bytes (fat_buffer st)\<rparr>
          in if r = 0 then Some st
             else let br = read_boot_record (fat_buffer st);
                      st = st\<lparr>boot_record := br\<rparr>
                  in if bytes_per_sector br = 0 then Some st
                     else let sectors = boot_total_sectors br;
                              fat_size = boot_fat_size br;
                              first_fat = ucast (reserved_sector_count br);
                              first_data = first_fat + ucast (fat_count br) * fat_size + boot_root_dir_sectors br;
                              st = st\<lparr>total_sectors := sectors, first_fat_sector := first_fat,
                                      first_data_sector := first_data\<rparr>
                          in if sectors_per_cluster br = 0 then None
                             else let st = st\<lparr>total_clusters :=
                                             (sectors - first_data) div ucast (sectors_per_cluster br)\<rparr>
                                  in if \<not> boot_ok br then Some st
                                     else Some (st\<lparr>fat_format := boot_format br sectors,
                                                   fat_partition := part\<rparr>))"

section \<open>find_file_in_dir\<close>

datatype scan = Found addr | End_of_directory | End_of_sector

text \<open>
  The entries of a sector from number \<open>i\<close> on. The first byte of a name is a signed \<open>char\<close>, so the
  test against \<open>0xE5\<close> is never true.
\<close>

fun scan_entries :: "memory \<Rightarrow> addr \<Rightarrow> addr \<Rightarrow> nat list \<Rightarrow> scan" where
  "scan_entries m filename entries [] = End_of_sector"
| "scan_entries m filename entries (i # is) =
     (let entry = entries + 32 * of_nat i
      in if m entry = 0 then End_of_directory
         else if sint (m entry) = 0xE5 then scan_entries m filename entries is
         else if entry_attributes m entry = 0x0F then scan_entries m filename entries is
         else if memcmp m filename entry 11 = 0 then Found entry
         else scan_entries m filename entries is)"

partial_function (option) find_loop ::
  "'h drive_read \<Rightarrow> addr \<Rightarrow> bool \<Rightarrow> FileData \<Rightarrow> 'h fat \<Rightarrow> (addr \<times> FileData \<times> 'h fat) option" where
  "find_loop rs filename more_entries dir st =
     (if current_cluster (ffd dir) < 0x0FFFFFF7 \<and> more_entries
      then (case scan_entries (fat_mem st) filename (buffer dir) [0..<16] of
              Found entry \<Rightarrow> Some (entry, dir, st)
            | End_of_directory \<Rightarrow>
                (case load_file_buffer rs
                        (dir\<lparr>ffd := (ffd dir)\<lparr>position := position (ffd dir) + SECTOR_SIZE\<rparr>\<rparr>) st of
                   None \<Rightarrow> None
                 | Some (_, dir, st) \<Rightarrow> find_loop rs filename False dir st)
            | End_of_sector \<Rightarrow> find_loop rs filename True dir st)
      else Some (0, dir, st))"

definition find_file_in_dir ::
  "'h drive_read \<Rightarrow> FileData \<Rightarrow> addr \<Rightarrow> 'h fat \<Rightarrow> (addr \<times> FileData \<times> 'h fat) option" where
  "find_file_in_dir rs dir filename st =
     (if \<not> is_directory (ffd dir) then Some (0, dir, st) else find_loop rs filename True dir st)"

section \<open>Opening\<close>

definition open_root_directory :: "'h drive_read \<Rightarrow> FileData \<Rightarrow> 'h fat \<Rightarrow> (int \<times> FileData \<times> 'h fat) option" where
  "open_root_directory rs fd st =
     (let root = root_cluster (ebr_32 (boot_record st))
      in load_file_buffer rs
           (fd\<lparr>ffd := (ffd fd)\<lparr>is_directory := True, first_cluster := root, current_cluster := root,
                              cluster_index := 0, position := 0, file_size := 0\<rparr>\<rparr>) st)"

definition open_entry :: "memory \<Rightarrow> addr \<Rightarrow> FatFileData" where
  "open_entry m e =
     (let cluster = push_bit 16 (ucast (entry_first_cluster_high m e)) OR ucast (entry_first_cluster_low m e)
      in \<lparr>first_cluster = cluster, current_cluster = cluster, cluster_index = 0,
          current_sector_in_cluster = 0, position = 0, file_size = entry_size m e,
          is_directory = (entry_attributes m e AND ATTRIB_DIRECTORY \<noteq> 0)\<rparr>)"

definition open_file_in_directory ::
  "'h drive_read \<Rightarrow> FileData \<Rightarrow> addr \<Rightarrow> 'h fat \<Rightarrow> (int \<times> FileData \<times> 'h fat) option" where
  "open_file_in_directory rs dir filename st =
     (case find_file_in_dir rs dir filename st of
        None \<Rightarrow> None
      | Some (entry, dir, st) \<Rightarrow>
          if entry = 0 then Some (EOF, dir, st)
          else load_file_buffer rs (dir\<lparr>ffd := open_entry (fat_mem st) entry\<rparr>) st)"

text \<open>The walk along the path; \<open>slash\<close> is the address of the literal \<open>"/"\<close>.\<close>

partial_function (option) open_path ::
  "'h drive_read \<Rightarrow> addr \<Rightarrow> addr \<Rightarrow> FileData \<Rightarrow> 'h fat \<Rightarrow> (int \<times> FileData \<times> 'h fat) option" where
  "open_path rs slash filename fd st =
     (case strcspn (fat_mem st) filename slash of
        None \<Rightarrow> None
      | Some len \<Rightarrow>
          if len > 0
          then (case open_file_in_directory rs fd filename st of
                  None \<Rightarrow> None
                | Some (r, fd, st) \<Rightarrow>
                    if r \<noteq> 0 then Some (EOF, fd, st)
                    else let filename = filename + len
                         in open_path rs slash
                              (if fat_mem st filename = 0x2F then filename + 1 else filename) fd st)
          else Some (0, fd, st))"

definition sizeof_FatFileData :: u32 where "sizeof_FatFileData = 28"

text \<open>The result of \<open>setvbuf\<close> is ignored, so the value it leaves undefined does not matter.\<close>

definition fat_open_file ::
  "'h drive_read \<Rightarrow> addr \<Rightarrow> FileData \<Rightarrow> addr \<Rightarrow> 'h fat \<Rightarrow> (int \<times> FileData \<times> 'h fat) option" where
  "fat_open_file rs slash fd filename st =
     (case malloc (fat_heap st) sizeof_FatFileData of
        None \<Rightarrow> None
      | Some (p, h) \<Rightarrow>
          case setvbuf 0 h (fd\<lparr>fat_accessors := True, extra_data := p\<rparr>) 0 IOFBF SECTOR_SIZE of
            None \<Rightarrow> None
          | Some (_, fd, h) \<Rightarrow>
              case open_root_directory rs fd (st\<lparr>fat_heap := h\<rparr>) of
                None \<Rightarrow> None
              | Some (r, fd, st) \<Rightarrow>
                  if r \<noteq> 0 then Some (EOF, fd, st) else open_path rs slash filename fd st)"

end
