(* ===== verification/FatVolume.thy ===== *)
theory FatVolume
  imports Fat CStringProperties
begin

text \<open>
  A mounted FAT volume seen from above: the sectors of the disk, the cluster chain of a file and
  its bytes, and the lemmas that \<open>next_cluster\<close> and \<open>load_file_buffer\<close> follow the chain.
\<close>

section \<open>The volume\<close>

record volume =
  vol_drive :: addr
  vol_start :: u64
  vol_size :: u64
  vol_fat :: u32
  vol_data :: u32
  vol_spc :: u8
  vol_sector :: "nat \<Rightarrow> u8 list"

text \<open>
  The driver's contract: reading one of the first \<open>limit\<close> sectors returns 1 and the sector. The
  rest of \<open>volume_ok\<close> is what a boot record of a FAT volume says.
\<close>

definition drive_ok :: "'h drive_read \<Rightarrow> addr \<Rightarrow> nat \<Rightarrow> (nat \<Rightarrow> u8 list) \<Rightarrow> bool" where
  "drive_ok rs drive limit sector \<longleftrightarrow>
     (\<forall>lba h. unat lba < limit \<longrightarrow> (\<exists>hw. rs drive 1 lba h = (1, sector (unat lba), hw))) \<and>
     (\<forall>n. length (sector n) = 512)"

definition volume_ok :: "'h drive_read \<Rightarrow> volume \<Rightarrow> bool" where
  "volume_ok rs V \<longleftrightarrow>
     drive_ok rs (vol_drive V) (unat (vol_start V) + unat (vol_size V)) (vol_sector V) \<and>
     unat (vol_start V) + unat (vol_size V) \<le> 2 ^ 32 \<and> vol_fat V \<noteq> 0 \<and> vol_spc V \<noteq> 0"

definition mounted :: "volume \<Rightarrow> 'h fat \<Rightarrow> bool" where
  "mounted V st \<longleftrightarrow>
     partition_drive (fat_mem st) (fat_partition st) = vol_drive V \<and>
     partition_start (fat_mem st) (fat_partition st) = vol_start V \<and>
     partition_size (fat_mem st) (fat_partition st) = vol_size V \<and>
     first_fat_sector st = vol_fat V \<and> first_data_sector st = vol_data V \<and>
     sectors_per_cluster (boot_record st) = vol_spc V \<and> length (fat_buffer st) = 512 \<and>
     (fat_sector st = 0 \<or>
      fat_buffer st = vol_sector V (unat (vol_start V) + unat (fat_sector st)))"

definition partition_bytes :: "'h fat \<Rightarrow> addr set" where
  "partition_bytes st = region (fat_partition st) (unat sizeof_Partition)"

section \<open>Files\<close>

text \<open>Entry \<open>c\<close> of the FAT, the cluster chain, and the sectors and bytes of a file.\<close>

definition fat_entry :: "volume \<Rightarrow> u32 \<Rightarrow> u32" where
  "fat_entry V c =
     le32 (vol_sector V (unat (vol_start V) + unat (vol_fat V) + unat c div 128)) (4 * (unat c mod 128))
       AND 0x0FFFFFFF"

definition nth_cluster :: "volume \<Rightarrow> u32 \<Rightarrow> nat \<Rightarrow> u32" where
  "nth_cluster V c n = (fat_entry V ^^ n) c"

definition file_sector :: "volume \<Rightarrow> u32 \<Rightarrow> nat \<Rightarrow> u8 list" where
  "file_sector V c k =
     (let spc = unat (vol_spc V)
      in vol_sector V (unat (vol_start V) + unat (vol_data V) +
           (unat (nth_cluster V c (k div spc)) - 2) * spc + k mod spc))"

definition file_bytes :: "volume \<Rightarrow> u32 \<Rightarrow> nat \<Rightarrow> nat \<Rightarrow> u8 list" where
  "file_bytes V c a n = map (\<lambda>i. file_sector V c (i div 512) ! (i mod 512)) [a..<a + n]"

text \<open>The chain from \<open>c\<close> has at least \<open>n\<close> clusters, all of them on the volume.\<close>

definition cluster_ok :: "volume \<Rightarrow> u32 \<Rightarrow> bool" where
  "cluster_ok V c \<longleftrightarrow> 2 \<le> unat c \<and> c < 0x0FFFFFF7 \<and>
     unat (vol_fat V) + unat c div 128 < unat (vol_size V) \<and>
     unat (vol_data V) + (unat c - 1) * unat (vol_spc V) \<le> unat (vol_size V)"

definition chain_valid :: "volume \<Rightarrow> u32 \<Rightarrow> nat \<Rightarrow> bool" where
  "chain_valid V c n \<longleftrightarrow> (\<forall>k < n. cluster_ok V (nth_cluster V c k))"

lemma nth_cluster_Suc: "nth_cluster V c (Suc n) = fat_entry V (nth_cluster V c n)"
  by (simp add: nth_cluster_def)

lemma nth_cluster_0 [simp]: "nth_cluster V c 0 = c"
  by (simp add: nth_cluster_def)

section \<open>Reading sectors\<close>

lemma volume_read:
  assumes "volume_ok rs V" "mounted V st" "unat lba < unat (vol_size V)"
  obtains hw where "fat_disk rs (fat_partition st) (ucast (lba :: u32)) st =
    (1, vol_sector V (unat (vol_start V) + unat lba), st\<lparr>fat_hw := hw\<rparr>)"
proof -
  have fits: "unat (vol_start V) + unat lba < 2 ^ 32"
    using assms(1,3) by (simp add: volume_ok_def drive_ok_def)
  have small: "\<not> (ucast lba :: u64) \<ge> vol_size V"
    using assms(3) by (simp add: word_le_nat_alt)
  have "unat (ucast lba + vol_start V :: u64) = unat (vol_start V) + unat lba"
    using fits by (simp add: unat_word_ariths)
  then have u: "unat (ucast (ucast lba + vol_start V :: u64) :: u32) = unat (vol_start V) + unat lba"
    using fits by (subst unat_ucast_down) simp_all
  obtain hw where hw: "rs (vol_drive V) 1 (ucast (ucast lba + vol_start V :: u64)) (fat_hw st) =
      (1, vol_sector V (unat (vol_start V) + unat lba), hw)"
    using assms(1,3) u unfolding volume_ok_def drive_ok_def by (metis add_less_cancel_left)
  show thesis
    using that [of hw] assms(2) small hw by (simp add: mounted_def fat_disk_def disk_read_sectors_def)
qed

text \<open>What a step of the driver keeps: all but the cache and the hardware.\<close>

definition same_files :: "'h fat \<Rightarrow> 'h fat \<Rightarrow> bool" where
  "same_files st st' \<longleftrightarrow> fat_heap st' = fat_heap st \<and> fat_partition st' = fat_partition st \<and>
     boot_record st' = boot_record st"

lemma same_files_refl [simp]: "same_files st st"
  by (simp add: same_files_def)

lemma same_files_trans [trans]: "same_files st st' \<Longrightarrow> same_files st' st'' \<Longrightarrow> same_files st st''"
  by (simp add: same_files_def)

text \<open>A list of the proof steps below: the offset of the FAT entry.\<close>

lemma fat_offset:
  assumes "(c :: u32) < 0x0FFFFFF7"
  shows "unat (push_bit 2 c div SECTOR_SIZE) = unat c div 128"
    and "unat (push_bit 2 c mod SECTOR_SIZE) = 4 * (unat c mod 128)"
proof -
  have c: "unat c < 268435447" using assms by (simp add: word_less_nat_alt)
  have "unat (push_bit 2 c) = 4 * unat c"
    using c by (simp add: push_bit_eq_mult unat_word_ariths)
  then show "unat (push_bit 2 c div SECTOR_SIZE) = unat c div 128"
    and "unat (push_bit 2 c mod SECTOR_SIZE) = 4 * (unat c mod 128)"
    by (simp_all add: SECTOR_SIZE_def unat_div unat_mod mult_mod_right)
qed

lemma next_cluster_mounted:
  assumes "volume_ok rs V" "mounted V st" "cluster_ok V c"
  obtains st' where "next_cluster rs c st = (fat_entry V c, st')" "mounted V st'" "same_files st st'"
proof -
  let ?t = "vol_fat V + push_bit 2 c div SECTOR_SIZE"
  have c: "c < 0x0FFFFFF7" "unat (vol_fat V) + unat c div 128 < unat (vol_size V)"
    using assms(3) by (simp_all add: cluster_ok_def)
  have lt: "unat (vol_fat V) + unat c div 128 < 2 ^ 32"
    using c(2) assms(1) by (simp add: volume_ok_def drive_ok_def)
  have t: "unat ?t = unat (vol_fat V) + unat c div 128"
    using lt unfolding fat_offset(1) [OF c(1), symmetric] by (rule unat_add_small)
  have "unat (vol_fat V) \<noteq> 0" using assms(1) by (simp add: volume_ok_def drive_ok_def unat_eq_0)
  with t have t0: "?t \<noteq> 0" by (metis add_is_0 unat_0)
  have e: "fat_entry V c = le32 (vol_sector V (unat (vol_start V) + unat ?t))
      (unat (push_bit 2 c mod SECTOR_SIZE)) AND 0x0FFFFFFF"
    unfolding t fat_entry_def fat_offset(2) [OF c(1)] by (simp add: add.assoc)
  have first: "first_fat_sector st = vol_fat V" using assms(2) by (simp add: mounted_def)
  show thesis
  proof (cases "fat_sector st = ?t")
    case True
    then have "fat_buffer st = vol_sector V (unat (vol_start V) + unat ?t)"
      using assms(2) t0 by (auto simp: mounted_def)
    then show thesis using that [of st] assms(2) True first e
      by (simp add: next_cluster_def Let_def)
  next
    case False
    obtain hw where hw: "fat_disk rs (fat_partition st) (ucast ?t) st =
        (1, vol_sector V (unat (vol_start V) + unat ?t), st\<lparr>fat_hw := hw\<rparr>)"
      using volume_read [OF assms(1,2), of ?t] c(2) t by metis
    let ?b = "vol_sector V (unat (vol_start V) + unat ?t)"
    let ?st' = "st\<lparr>fat_hw := hw, fat_buffer := ?b, fat_sector := ?t\<rparr>"
    have o: "overwrite ?b (fat_buffer st) = ?b"
      using assms(1,2) by (simp add: volume_ok_def drive_ok_def mounted_def)
    have "next_cluster rs c st = (fat_entry V c, ?st')"
      using False hw first e o by (simp add: next_cluster_def Let_def)
    moreover have "mounted V ?st'"
      using assms(1,2) by (simp add: mounted_def volume_ok_def drive_ok_def)
    ultimately show thesis using that by (simp add: same_files_def)
  qed
qed

end
