(* ===== verification/FatRead.thy ===== *)
theory FatRead
  imports FatVolume
begin

text \<open>
  Reading a file of a mounted volume: \<open>load_file_buffer\<close> brings the sector of the position into
  the file's buffer, and \<open>fat_read\<close> copies the bytes of the file.
\<close>

section \<open>load_file_buffer\<close>

text \<open>The file's place in the chain is what \<open>cluster_index\<close> says.\<close>

definition chain_pos :: "volume \<Rightarrow> nat \<Rightarrow> FatFileData \<Rightarrow> bool" where
  "chain_pos V n f \<longleftrightarrow> chain_valid V (first_cluster f) n \<and> unat (cluster_index f) < n \<and>
     current_cluster f = nth_cluster V (first_cluster f) (unat (cluster_index f))"

lemma seek_cluster_mounted:
  assumes "volume_ok rs V" "mounted V st" "chain_pos V n f" "unat (cluster_index f) + k < n" "n < 2 ^ 32"
  obtains st' where "mounted V st'" "same_files st st'"
    "seek_cluster rs k st f = (True, st', f\<lparr>cluster_index := cluster_index f + of_nat k,
       current_cluster := nth_cluster V (first_cluster f) (unat (cluster_index f) + k)\<rparr>)"
  using assms(2-4)
proof (induction k arbitrary: st f thesis)
  case 0
  then show ?case by (cases f) (auto simp: chain_pos_def)
next
  case (Suc k)
  let ?i = "unat (cluster_index f)" and ?c = "first_cluster f"
  have valid: "cluster_ok V (nth_cluster V ?c ?i)" "cluster_ok V (nth_cluster V ?c (Suc ?i))"
    and cur: "current_cluster f = nth_cluster V ?c ?i"
    using Suc.prems(3,4) by (auto simp: chain_pos_def chain_valid_def)
  obtain st1 where st1: "next_cluster rs (nth_cluster V ?c ?i) st = (nth_cluster V ?c (Suc ?i), st1)"
    "mounted V st1" "same_files st st1"
    using next_cluster_mounted [OF assms(1) Suc.prems(2) valid(1)] nth_cluster_Suc by metis
  let ?f = "f\<lparr>cluster_index := cluster_index f + 1, current_cluster := nth_cluster V ?c (Suc ?i)\<rparr>"
  have "unat (cluster_index f + of_nat 1) = ?i + 1"
    using Suc.prems(4) assms(5) by (intro unat_plus_small) linarith
  then have i: "unat (cluster_index f + 1) = Suc ?i" by simp
  have pos: "chain_pos V n ?f" "unat (cluster_index ?f) + k < n"
    using Suc.prems(3,4) i by (simp_all add: chain_pos_def)
  from Suc.IH [OF _ st1(2) pos] obtain st2 where st2: "mounted V st2" "same_files st1 st2"
    "seek_cluster rs k st1 ?f = (True, st2, ?f\<lparr>cluster_index := cluster_index ?f + of_nat k,
       current_cluster := nth_cluster V ?c (unat (cluster_index ?f) + k)\<rparr>)" by auto
  have "\<not> nth_cluster V ?c (Suc ?i) \<ge> 0x0FFFFFF7" using valid(2) by (simp add: cluster_ok_def not_le)
  then have "seek_cluster rs (Suc k) st f = seek_cluster rs k st1 ?f"
    using st1(1) cur by (simp add: Let_def)
  moreover have "?f\<lparr>cluster_index := cluster_index ?f + of_nat k,
      current_cluster := nth_cluster V ?c (unat (cluster_index ?f) + k)\<rparr> =
    f\<lparr>cluster_index := cluster_index f + of_nat (Suc k),
      current_cluster := nth_cluster V ?c (?i + Suc k)\<rparr>"
    using i by (simp add: algebra_simps)
  ultimately show ?case using Suc.prems(1) st2 same_files_trans [OF st1(3) st2(2)] by simp
qed

text \<open>The sector of a cluster.\<close>

lemma cluster_lba:
  assumes "volume_ok rs V" "mounted V st" "cluster_ok V c" "unat s < unat (vol_spc V)"
  shows "unat (cluster_to_lba st c + ucast (s :: u8)) =
      unat (vol_data V) + (unat c - 2) * unat (vol_spc V) + unat s"
    and "unat (vol_data V) + (unat c - 2) * unat (vol_spc V) + unat s < unat (vol_size V)"
proof -
  let ?spc = "ucast (vol_spc V) :: u32"
  have c: "2 \<le> unat c" "unat (vol_data V) + (unat c - 1) * unat (vol_spc V) \<le> unat (vol_size V)"
    using assms(3) by (simp_all add: cluster_ok_def)
  have "(unat c - 1) * unat (vol_spc V) = (unat c - 2) * unat (vol_spc V) + unat (vol_spc V)"
    using c(1) by (metis Suc_1 Suc_diff_Suc Suc_le_eq diff_Suc_1 add.commute mult_Suc numeral_2_eq_2)
  with c(2) assms(4) show lt: "unat (vol_data V) + (unat c - 2) * unat (vol_spc V) + unat s
      < unat (vol_size V)" by linarith
  have size: "unat (vol_size V) \<le> 2 ^ 32" using assms(1) by (simp add: volume_ok_def drive_ok_def)
  have spc: "unat ?spc = unat (vol_spc V)" "unat (ucast s :: u32) = unat s"
    by (simp_all add: unsigned_ucast_eq take_bit_nat_eq_self_iff order_less_trans [OF unsigned_less])
  have c2: "unat (c - 2) = unat c - 2" using c(1) by (subst unat_sub) (simp_all add: word_le_nat_alt)
  have m: "unat ((c - 2) * ?spc) = (unat c - 2) * unat (vol_spc V)"
    using lt size c2 spc by (subst unat_mult_small) simp_all
  have d: "unat (vol_data V + (c - 2) * ?spc) = unat (vol_data V) + (unat c - 2) * unat (vol_spc V)"
    using lt size m by (subst unat_add_small) simp_all
  have e: "cluster_to_lba st c = vol_data V + (c - 2) * ?spc"
    using assms(2) by (simp add: cluster_to_lba_def mounted_def)
  show "unat (cluster_to_lba st c + ucast s) =
      unat (vol_data V) + (unat c - 2) * unat (vol_spc V) + unat s"
    unfolding e using lt size d spc(2) by (subst unat_add_small) simp_all
qed

text \<open>Writes to memory beside the partition keep the volume mounted.\<close>

lemma mounted_mem:
  assumes "mounted V st" "unchanged_outside S (fat_mem st) m" "S \<inter> partition_bytes st = {}"
  shows "mounted V (set_fat_mem m st)"
proof -
  let ?p = "fat_partition st"
  have eq: "m x = fat_mem st x" if "x \<in> region (?p + d) k" "unat d + k \<le> 36" for x d k
    using that region_sub [of d k 36 ?p] assms(2,3)
    by (intro unchangedD [OF assms(2)]) (auto simp: partition_bytes_def sizeof_Partition_def)
  have "partition_drive m ?p = partition_drive (fat_mem st) ?p"
    unfolding partition_drive_def by (intro read32_cong eq [of _ 32 4]) simp_all
  moreover have "partition_start m ?p = partition_start (fat_mem st) ?p"
    unfolding partition_start_def by (intro read64_cong eq [of _ 0 8]) simp_all
  moreover have "partition_size m ?p = partition_size (fat_mem st) ?p"
    unfolding partition_size_def by (intro read64_cong eq [of _ 8 8]) simp_all
  ultimately show ?thesis using assms(1) by (simp add: mounted_def set_fat_mem_def)
qed

lemma set_fat_mem_simps [simp]:
  "fat_mem (set_fat_mem m st) = m" "fat_partition (set_fat_mem m st) = fat_partition st"
  "free_start (fat_heap (set_fat_mem m st)) = free_start (fat_heap st)"
  "boot_record (set_fat_mem m st) = boot_record st"
  "partition_bytes (set_fat_mem m st) = partition_bytes st"
  by (simp_all add: set_fat_mem_def partition_bytes_def)

lemma read_cluster_mounted:
  assumes "volume_ok rs V" "mounted V st" "cluster_ok V c" "unat s < unat (vol_spc V)"
    "region buf 512 \<inter> partition_bytes st = {}"
  obtains st' where "read_cluster rs c s buf st = (1, st')" "mounted V st'"
    "fat_mem st' = store_bytes (fat_mem st) buf (vol_sector V
      (unat (vol_start V) + (unat (vol_data V) + (unat c - 2) * unat (vol_spc V) + unat s)))"
    "free_start (fat_heap st') = free_start (fat_heap st)" "fat_partition st' = fat_partition st"
    "boot_record st' = boot_record st"
proof -
  let ?lba = "cluster_to_lba st c + ucast s"
  note lba = cluster_lba [OF assms(1-4)]
  obtain hw where hw: "fat_disk rs (fat_partition st) (ucast ?lba) st =
      (1, vol_sector V (unat (vol_start V) + unat ?lba), st\<lparr>fat_hw := hw\<rparr>)"
    using volume_read [OF assms(1,2), of ?lba] lba by metis
  let ?bs = "vol_sector V (unat (vol_start V) + unat ?lba)"
  let ?st = "set_fat_mem (store_bytes (fat_mem st) buf ?bs) (st\<lparr>fat_hw := hw\<rparr>)"
  have "length ?bs = 512" using assms(1) by (simp add: volume_ok_def drive_ok_def)
  then have "unchanged_outside (region buf 512) (fat_mem st) (store_bytes (fat_mem st) buf ?bs)"
    by (intro unchanged_store_bytes) simp
  then have "mounted V ?st" using assms(2,5)
    by (intro mounted_mem [where S = "region buf 512"]) (simp_all add: mounted_def partition_bytes_def)
  moreover have "read_cluster rs c s buf st = (1, ?st)"
    using hw by (simp add: read_cluster_def)
  ultimately show thesis using that lba(1) by simp
qed

text \<open>The sector of the position is in the buffer.\<close>

definition loaded :: "volume \<Rightarrow> memory \<Rightarrow> FileData \<Rightarrow> bool" where
  "loaded V m fd \<longleftrightarrow> load_bytes m (buffer fd) 512 =
     file_sector V (first_cluster (ffd fd)) (unat (position (ffd fd)) div 512)"

text \<open>The sector and the cluster of a position.\<close>

lemma unat_spc: "unat (ucast (c :: u8) :: u32) = unat c"
  by (simp add: unsigned_ucast_eq take_bit_nat_eq_self_iff order_less_trans [OF unsigned_less])

lemma position_cluster:
  "unat ((p :: u32) div SECTOR_SIZE div ucast (c :: u8)) = unat p div 512 div unat c"
  by (simp add: unat_div SECTOR_SIZE_def unat_spc)

lemma position_sector:
  assumes "c \<noteq> 0"
  shows "unat (ucast ((p :: u32) div SECTOR_SIZE mod ucast (c :: u8)) :: u8) = unat p div 512 mod unat c"
proof -
  have c: "0 < unat c" "unat c < 256" using assms unsigned_less [of c] by (simp_all add: unat_gt_0)
  have m: "unat (p div SECTOR_SIZE mod ucast c) = unat p div 512 mod unat c"
    by (simp add: unat_mod unat_div SECTOR_SIZE_def unat_spc)
  moreover have "unat p div 512 mod unat c < 256" using mod_less_divisor [OF c(1)] c(2) by (rule less_trans)
  ultimately show ?thesis by (simp only: unsigned_ucast_eq take_bit_nat_eq_self_iff) (simp add: take_bit_eq_mod)
qed

lemma load_file_buffer_mounted:
  assumes "volume_ok rs V" "mounted V st" "chain_pos V n (ffd fd)" "n < 2 ^ 32"
    "unat (position (ffd fd)) div 512 div unat (vol_spc V) < n"
    "region (buffer fd) 512 \<inter> partition_bytes st = {}"
  obtains st' f where "load_file_buffer rs fd st = Some (0, fd\<lparr>ffd := f\<rparr>, st')" "mounted V st'"
    "chain_pos V n f" "loaded V (fat_mem st') (fd\<lparr>ffd := f\<rparr>)"
    "first_cluster f = first_cluster (ffd fd)" "position f = position (ffd fd)"
    "file_size f = file_size (ffd fd)" "is_directory f = is_directory (ffd fd)"
    "unchanged_outside (region (buffer fd) 512) (fat_mem st) (fat_mem st')"
    "free_start (fat_heap st') = free_start (fat_heap st)" "fat_partition st' = fat_partition st"
    "boot_record st' = boot_record st"
proof -
  let ?f = "ffd fd" and ?spc = "ucast (vol_spc V) :: u32"
  let ?t = "position ?f div SECTOR_SIZE" and ?c = "first_cluster (ffd fd)"
  let ?f1 = "if ?t div ?spc < cluster_index ?f then ?f\<lparr>cluster_index := 0, current_cluster := ?c\<rparr> else ?f"
  let ?k = "unat (?t div ?spc) - unat (cluster_index ?f1)"
  have spc: "0 < unat (vol_spc V)" "vol_spc V \<noteq> 0" "?spc \<noteq> 0"
    using assms(1) unat_spc [of "vol_spc V"] by (auto simp: volume_ok_def drive_ok_def unat_gt_0 unat_eq_0)
  note tc = position_cluster [of "position ?f" "vol_spc V"]
  have st_spc: "sectors_per_cluster (boot_record st) = vol_spc V" using assms(2) by (simp add: mounted_def)
  have "chain_pos V n ?f1" using assms(3,5) by (auto simp: chain_pos_def)
  moreover have le: "unat (cluster_index ?f1) \<le> unat (?t div ?spc)"
    by (simp add: word_less_nat_alt not_less)
  ultimately obtain st1 where st1: "mounted V st1" "same_files st st1"
    "seek_cluster rs ?k st ?f1 = (True, st1, ?f1\<lparr>cluster_index := cluster_index ?f1 + of_nat ?k,
       current_cluster := nth_cluster V (first_cluster ?f1) (unat (cluster_index ?f1) + ?k)\<rparr>)"
    using seek_cluster_mounted [OF assms(1,2) _ _ assms(4), of ?f1 ?k] assms(5) tc by auto
  have idx: "cluster_index ?f1 + of_nat ?k = ?t div ?spc" "unat (cluster_index ?f1) + ?k = unat (?t div ?spc)"
    using le by (simp_all add: of_nat_diff)
  let ?cl = "nth_cluster V ?c (unat (?t div ?spc))"
  let ?f2 = "?f1\<lparr>cluster_index := ?t div ?spc, current_cluster := ?cl,
      current_sector_in_cluster := ?t mod ?spc\<rparr>"
  have cl: "cluster_ok V ?cl" using assms(3,5) tc by (simp add: chain_pos_def chain_valid_def)
  let ?s = "ucast (?t mod ?spc) :: u8"
  note s = position_sector [OF spc(2), of "position ?f"]
  have s_lt: "unat ?s < unat (vol_spc V)" unfolding s using spc(1) by simp
  have part: "region (buffer fd) 512 \<inter> partition_bytes st1 = {}"
    using assms(6) st1(2) by (simp add: same_files_def partition_bytes_def)
  obtain st2 where st2: "read_cluster rs ?cl ?s (buffer fd) st1 = (1, st2)" "mounted V st2"
    "fat_mem st2 = store_bytes (fat_mem st1) (buffer fd) (vol_sector V
      (unat (vol_start V) + (unat (vol_data V) + (unat ?cl - 2) * unat (vol_spc V) + unat ?s)))"
    "free_start (fat_heap st2) = free_start (fat_heap st1)" "fat_partition st2 = fat_partition st1"
    "boot_record st2 = boot_record st1"
    by (rule read_cluster_mounted [OF assms(1) st1(1) cl s_lt part])
  have sector: "vol_sector V (unat (vol_start V) + (unat (vol_data V) + (unat ?cl - 2) *
      unat (vol_spc V) + unat ?s)) = file_sector V ?c (unat (position ?f) div 512)"
    unfolding file_sector_def Let_def s tc by (simp add: add.assoc)
  have len: "length (file_sector V ?c k) = 512" for k
    using assms(1) by (simp add: file_sector_def volume_ok_def drive_ok_def Let_def)
  have mem: "fat_mem st2 = store_bytes (fat_mem st) (buffer fd) (file_sector V ?c (unat (position ?f) div 512))"
    using st2(3) st1(2) unfolding sector by (simp add: same_files_def)
  have f1: "first_cluster ?f1 = ?c" "position ?f1 = position ?f" "file_size ?f1 = file_size ?f"
    "is_directory ?f1 = is_directory ?f" by simp_all
  have run: "load_file_buffer rs fd st = Some (0, fd\<lparr>ffd := ?f2\<rparr>, st2)"
  proof -
    note spc(3)
    moreover have "seek_cluster rs ?k st ?f1 =
        (True, st1, ?f1\<lparr>cluster_index := ?t div ?spc, current_cluster := ?cl\<rparr>)"
      unfolding st1(3) idx f1(1) ..
    ultimately show ?thesis unfolding load_file_buffer_def st_spc Let_def using st2(1) by simp
  qed
  show thesis
  proof (rule that [OF run st2(2)])
    show "chain_pos V n ?f2" using assms(3,5) f1 tc by (simp add: chain_pos_def)
    show "loaded V (fat_mem st2) (fd\<lparr>ffd := ?f2\<rparr>)"
      unfolding loaded_def mem using f1 load_store_bytes [of "file_sector V ?c (unat (position ?f) div 512)"] len
      by simp
    show "unchanged_outside (region (buffer fd) 512) (fat_mem st) (fat_mem st2)"
      unfolding mem by (intro unchanged_store_bytes) (simp add: len)
  qed (use f1 st2(4-6) st1(2) in \<open>simp_all add: same_files_def\<close>)
qed

end
