(* ===== verification/FatReadFile.thy ===== *)
theory FatReadFile
  imports FatRead
begin

text \<open>
  \<open>fat_read\<close> returns the bytes of the file: the loop over the sectors, each step copying what is
  in the buffer and bringing in the next sector at a boundary.
\<close>

section \<open>Bytes\<close>

lemma memcpy_store:
  assumes "region s1 (unat n) \<inter> region s2 (unat n) = {}"
  shows "memcpy m s1 s2 n = store_bytes m s1 (load_bytes m s2 (unat n))"
proof
  fix x
  have "copy_forward m s1 s2 (unat n) x = (if x \<in> region s1 (unat n) then m (s2 + (x - s1)) else m x)"
    using assms by (intro copy_forward_apply copy_forward_disjoint u32_le_2p32)
  then show "memcpy m s1 s2 n x = store_bytes m s1 (load_bytes m s2 (unat n)) x"
    by (simp add: memcpy_def store_bytes_def region_iff)
qed

lemma region_append:
  assumes "n + k \<le> 2 ^ 32"
  shows "region a (n + k) = region a n \<union> region (a + of_nat n) k"
    and "region a n \<inter> region (a + of_nat n) k = {}"
proof -
  have iff: "x \<in> region (a + of_nat n) k \<longleftrightarrow> n \<le> unat (x - a) \<and> unat (x - a) < n + k" for x
  proof (cases "n = 2 ^ 32")
    case True
    then have "k = 0" using assms by simp
    then show ?thesis by (simp add: True not_less)
  next
    case False
    then have n: "unat (of_nat n :: addr) = n" using assms by (intro unat_of_nat_small) simp
    have e: "x - (a + of_nat n) = (x - a) - of_nat n" by simp
    show ?thesis
    proof (cases "n \<le> unat (x - a)")
      case True
      then have "unat ((x - a) - of_nat n) = unat (x - a) - n"
        using n by (subst unat_sub) (simp_all add: word_le_nat_alt)
      with True show ?thesis unfolding region_iff e by auto
    next
      case F: False
      then have "unat ((x - a) - of_nat n) = 2 ^ 32 + unat (x - a) - n"
        using n by (simp add: unat_sub_if_size word_size)
      with F assms show ?thesis unfolding region_iff e by auto
    qed
  qed
  show "region a (n + k) = region a n \<union> region (a + of_nat n) k"
    using iff by (auto simp: region_iff)
  show "region a n \<inter> region (a + of_nat n) k = {}" using iff by (auto simp: region_iff)
qed

lemma file_bytes_append: "file_bytes V c a (n + k) = file_bytes V c a n @ file_bytes V c (a + n) k"
proof -
  have "[a..<a + (n + k)] = [a..<a + n] @ [a + n..<a + n + k]"
    using upt_add_eq_append [of a "a + n" k] by (simp add: add.assoc)
  then show ?thesis by (simp only: file_bytes_def map_append)
qed

lemma length_file_bytes [simp]: "length (file_bytes V c a n) = n"
  by (simp add: file_bytes_def)

lemma same_sector:
  assumes "(a :: nat) mod k + i < k"
  shows "(a + i) div k = a div k" and "(a + i) mod k = a mod k + i"
proof -
  show m: "(a + i) mod k = a mod k + i"
    using assms by (metis mod_add_left_eq mod_less)
  have "(a + i) div k * k + (a + i) mod k = a div k * k + a mod k + i"
    by (simp only: div_mult_mod_eq)
  then have "(a + i) div k * k = a div k * k" unfolding m by linarith
  moreover have "k \<noteq> 0" using assms by auto
  ultimately show "(a + i) div k = a div k" by simp
qed

text \<open>Bytes of one sector.\<close>

lemma sector_bytes:
  assumes "load_bytes m b 512 = file_sector V c (a div 512)" "a mod 512 + n \<le> 512"
  shows "load_bytes m (b + of_nat (a mod 512)) n = file_bytes V c a n"
proof (intro nth_equalityI)
  fix i assume "i < length (load_bytes m (b + of_nat (a mod 512)) n)"
  then have i: "i < n" by simp
  then have lt: "a mod 512 + i < 512" using assms(2) by simp
  note d = same_sector [OF lt]
  have "file_sector V c (a div 512) ! (a mod 512 + i) = m (b + of_nat (a mod 512 + i))"
    unfolding assms(1) [symmetric] using lt by (rule nth_load_bytes)
  with i d show "load_bytes m (b + of_nat (a mod 512)) n ! i = file_bytes V c a n ! i"
    by (simp add: file_bytes_def ac_simps)
qed simp

section \<open>The state of an open file\<close>

definition file_state :: "volume \<Rightarrow> nat \<Rightarrow> FileData \<Rightarrow> 'h fat \<Rightarrow> bool" where
  "file_state V n fd st \<longleftrightarrow> mounted V st \<and> chain_pos V n (ffd fd) \<and>
     region (buffer fd) 512 \<inter> partition_bytes st = {} \<and>
     unat (file_size (ffd fd)) \<le> n * unat (vol_spc V) * 512 \<and>
     position (ffd fd) \<le> file_size (ffd fd) \<and>
     (position (ffd fd) < file_size (ffd fd) \<longrightarrow> loaded V (fat_mem st) fd)"

text \<open>What \<open>k\<close> bytes read leave.\<close>

definition after_read :: "volume \<Rightarrow> nat \<Rightarrow> FileData \<Rightarrow> 'h fat \<Rightarrow> addr \<Rightarrow> nat \<Rightarrow> FileData \<Rightarrow> 'h fat \<Rightarrow> bool" where
  "after_read V n fd st buff k fd' st' \<longleftrightarrow> file_state V n fd' st' \<and>
     load_bytes (fat_mem st') buff k =
       file_bytes V (first_cluster (ffd fd)) (unat (position (ffd fd))) k \<and>
     position (ffd fd') = position (ffd fd) + of_nat k \<and>
     file_size (ffd fd') = file_size (ffd fd) \<and> first_cluster (ffd fd') = first_cluster (ffd fd) \<and>
     buffer fd' = buffer fd \<and> file_error fd' = file_error fd \<and>
     handle fd' = handle fd \<and> fat_accessors fd' = fat_accessors fd \<and>
     fat_partition st' = fat_partition st \<and> free_start (fat_heap st') = free_start (fat_heap st) \<and>
     unchanged_outside (region buff k \<union> region (buffer fd) 512) (fat_mem st) (fat_mem st')"

section \<open>The loop\<close>

definition advance :: "u32 \<Rightarrow> FileData \<Rightarrow> FileData" where
  "advance t fd = fd\<lparr>ffd := (ffd fd)\<lparr>position := position (ffd fd) + t\<rparr>\<rparr>"

lemma fat_read_loop_0 [simp]: "fat_read_loop rs 0 rif buff fd st = Some (0, fd, st)"
  by (subst fat_read_loop.simps) simp

text \<open>The size of a step, and the step.\<close>

definition step_size :: "u32 \<Rightarrow> u32 \<Rightarrow> u32 \<Rightarrow> u32" where
  "step_size remaining rif p = min rif (min remaining (SECTOR_SIZE - p mod SECTOR_SIZE))"

lemma unat_sector_rest: "unat (SECTOR_SIZE - p mod SECTOR_SIZE) = 512 - unat p mod 512"
proof -
  have "unat (p mod SECTOR_SIZE) = unat p mod 512" by (simp add: unat_mod SECTOR_SIZE_def)
  moreover have "unat p mod 512 \<le> 512" by simp
  ultimately show ?thesis by (subst unat_sub) (simp_all add: word_le_nat_alt SECTOR_SIZE_def)
qed

lemma unat_step_size:
  "unat (step_size remaining rif p) = min (unat rif) (min (unat remaining) (512 - unat p mod 512))"
  unfolding step_size_def unat_sector_rest [symmetric] by (auto simp: min_def word_le_nat_alt)

lemma fat_read_loop_step:
  assumes "remaining > 0"
  shows "fat_read_loop rs remaining rif buff fd st =
    (let t = step_size remaining rif (position (ffd fd));
         st1 = set_fat_mem (memcpy (fat_mem st) buff (buffer fd + position (ffd fd) mod SECTOR_SIZE) t) st
     in if rif = t
        then Some (remaining - t, if remaining \<noteq> t then advance t fd\<lparr>eof := True\<rparr> else advance t fd, st1)
        else if t = SECTOR_SIZE - position (ffd fd) mod SECTOR_SIZE
        then (case load_file_buffer rs (advance t fd) st1 of
                None \<Rightarrow> None
              | Some (r, fd, st) \<Rightarrow>
                  if r \<noteq> 0 then Some (remaining - t, fd\<lparr>file_error := True\<rparr>, st)
                  else fat_read_loop rs (remaining - t) (rif - t) (buff + t) fd st)
        else fat_read_loop rs (remaining - t) (rif - t) (buff + t) (advance t fd) st1)"
proof -
  let ?r = "SECTOR_SIZE - position (ffd fd) mod SECTOR_SIZE"
  have t: "step_size remaining rif (position (ffd fd)) =
      (let to_read = if remaining > ?r then ?r else remaining
       in if to_read > rif then rif else to_read)"
    by (auto simp: step_size_def min_def Let_def)
  have ge: "step_size remaining rif (position (ffd fd)) \<ge> ?r \<longleftrightarrow>
      step_size remaining rif (position (ffd fd)) = ?r"
    by (auto simp: step_size_def min_def)
  have pos: "remaining - t > 0 \<longleftrightarrow> remaining \<noteq> t" for t :: u32
    by (simp add: word_gt_0)
  show ?thesis
    using assms by (subst fat_read_loop.simps) (simp only: Let_def t [unfolded Let_def, symmetric]
        ge pos advance_def if_True right_minus_eq eq_commute [of rif])
qed

text \<open>Two reads in a row are one read.\<close>

lemma after_read_append:
  assumes "after_read V n fd st buff j fd1 st1" "after_read V n fd1 st1 (buff + of_nat j) k fd2 st2"
    and "j + k \<le> 2 ^ 32" "region buff (j + k) \<inter> region (buffer fd) 512 = {}"
    and "unat (position (ffd fd1)) = unat (position (ffd fd)) + j"
  shows "after_read V n fd st buff (j + k) fd2 st2"
proof -
  note split = region_append [OF assms(3), of buff]
  have b: "buffer fd1 = buffer fd" "first_cluster (ffd fd1) = first_cluster (ffd fd)"
    using assms(1) by (simp_all add: after_read_def)
  have u: "unchanged_outside (region (buff + of_nat j) k \<union> region (buffer fd) 512) (fat_mem st1) (fat_mem st2)"
    "unchanged_outside (region buff j \<union> region (buffer fd) 512) (fat_mem st) (fat_mem st1)"
    using assms(1,2) b by (simp_all add: after_read_def)
  have "load_bytes (fat_mem st2) buff j = load_bytes (fat_mem st1) buff j"
    using assms(3,4) split by (intro load_bytes_cong unchangedD [OF u(1)]) auto
  then have "load_bytes (fat_mem st2) buff (j + k) =
      file_bytes V (first_cluster (ffd fd)) (unat (position (ffd fd))) (j + k)"
    using assms(1,2,5) b by (simp add: load_bytes_append file_bytes_append after_read_def)
  moreover have "unchanged_outside (region buff (j + k) \<union> region (buffer fd) 512) (fat_mem st) (fat_mem st2)"
    using u unfolding split(1) by (auto simp: unchanged_outside_def)
  ultimately show ?thesis using assms(1,2) by (simp add: after_read_def)
qed

text \<open>The copy of a step: no file state yet, as the buffer may have to be loaded.\<close>

lemma copy_step:
  assumes "file_state V n fd st" "position (ffd fd) < file_size (ffd fd)"
    and "unat (position (ffd fd)) mod 512 + unat t \<le> 512"
    and "region buff (unat t) \<inter> (region (buffer fd) 512 \<union> partition_bytes st) = {}"
    and st1: "st1 = set_fat_mem (memcpy (fat_mem st) buff (buffer fd + position (ffd fd) mod SECTOR_SIZE) t) st"
  shows "mounted V st1"
    and "load_bytes (fat_mem st1) buff (unat t) =
      file_bytes V (first_cluster (ffd fd)) (unat (position (ffd fd))) (unat t)"
    and "unchanged_outside (region buff (unat t)) (fat_mem st) (fat_mem st1)"
    and "load_bytes (fat_mem st1) (buffer fd) 512 = load_bytes (fat_mem st) (buffer fd) 512"
proof -
  let ?p = "position (ffd fd)" let ?src = "buffer fd + ?p mod SECTOR_SIZE"
  let ?bs = "file_bytes V (first_cluster (ffd fd)) (unat ?p) (unat t)"
  have p: "unat (?p mod SECTOR_SIZE) = unat ?p mod 512" by (simp add: unat_mod SECTOR_SIZE_def)
  have "unat (of_nat (unat ?p mod 512) :: addr) = unat ?p mod 512" by (intro unat_of_nat_small) simp
  with p have off: "?p mod SECTOR_SIZE = of_nat (unat ?p mod 512)" by (simp only: word_unat_eq_iff)
  have "region ?src (unat t) \<subseteq> region (buffer fd) 512"
    using assms(3) p by (intro region_sub) simp
  then have "region buff (unat t) \<inter> region ?src (unat t) = {}" using assms(4) by auto
  moreover have "load_bytes (fat_mem st) ?src (unat t) = ?bs"
    unfolding off using assms(1-3) by (intro sector_bytes) (simp_all add: file_state_def loaded_def)
  ultimately have mem: "fat_mem st1 = store_bytes (fat_mem st) buff ?bs"
    by (simp add: st1 memcpy_store)
  have len: "length ?bs \<le> 2 ^ 32" "length ?bs = unat t" using u32_le_2p32 [of t] by simp_all
  show un: "unchanged_outside (region buff (unat t)) (fat_mem st) (fat_mem st1)"
    unfolding mem by (intro unchanged_store_bytes) simp
  show "load_bytes (fat_mem st1) buff (unat t) = ?bs"
    unfolding mem using load_store_bytes [OF len(1)] len(2) by simp
  show "mounted V st1" using assms(1,4) un
    unfolding st1 by (intro mounted_mem [where S = "region buff (unat t)"]) (auto simp: file_state_def)
  show "load_bytes (fat_mem st1) (buffer fd) 512 = load_bytes (fat_mem st) (buffer fd) 512"
    using assms(4) by (intro load_bytes_cong unchangedD [OF un]) auto
qed

text \<open>The three ways on after a copy.\<close>

lemma advance_simps [simp]:
  "buffer (advance t fd) = buffer fd" "position (ffd (advance t fd)) = position (ffd fd) + t"
  "file_size (ffd (advance t fd)) = file_size (ffd fd)" "eof (advance t fd) = eof fd"
  "first_cluster (ffd (advance t fd)) = first_cluster (ffd fd)"
  "file_error (advance t fd) = file_error fd" "handle (advance t fd) = handle fd"
  "fat_accessors (advance t fd) = fat_accessors fd" "chain_pos V n (ffd (advance t fd)) = chain_pos V n (ffd fd)"
  by (simp_all add: advance_def chain_pos_def)

definition copied :: "volume \<Rightarrow> nat \<Rightarrow> FileData \<Rightarrow> 'h fat \<Rightarrow> addr \<Rightarrow> u32 \<Rightarrow> 'h fat \<Rightarrow> bool" where
  "copied V n fd st buff t st1 \<longleftrightarrow> file_state V n fd st \<and> position (ffd fd) < file_size (ffd fd) \<and>
     unat (position (ffd fd)) mod 512 + unat t \<le> 512 \<and>
     unat t \<le> unat (file_size (ffd fd)) - unat (position (ffd fd)) \<and>
     region buff (unat t) \<inter> (region (buffer fd) 512 \<union> partition_bytes st) = {} \<and>
     st1 = set_fat_mem (memcpy (fat_mem st) buff (buffer fd + position (ffd fd) mod SECTOR_SIZE) t) st"

lemma copied_position:
  assumes "copied V n fd st buff t st1"
  shows "unat (position (ffd fd) + t) = unat (position (ffd fd)) + unat t"
    and "position (ffd fd) + t \<le> file_size (ffd fd)"
proof -
  have lt: "unat (position (ffd fd)) < unat (file_size (ffd fd))"
    and le: "unat t \<le> unat (file_size (ffd fd)) - unat (position (ffd fd))"
    using assms by (simp_all add: copied_def word_less_nat_alt)
  then have "unat (position (ffd fd)) + unat t < 2 ^ 32"
    using unat_lt_2p32 [of "file_size (ffd fd)"] by linarith
  then show "unat (position (ffd fd) + t) = unat (position (ffd fd)) + unat t" by (rule unat_add_small)
  with lt le show "position (ffd fd) + t \<le> file_size (ffd fd)" by (simp add: word_le_nat_alt)
qed

lemma copied_after:
  assumes "copied V n fd st buff t st1" "eof_fd = advance t fd \<or> eof_fd = (advance t fd)\<lparr>eof := True\<rparr>"
    and "position (ffd fd) + t < file_size (ffd fd) \<Longrightarrow> unat (position (ffd fd)) mod 512 + unat t < 512"
  shows "after_read V n fd st buff (unat t) eof_fd st1"
proof -
  have state: "file_state V n fd st" "position (ffd fd) < file_size (ffd fd)"
    and t: "unat (position (ffd fd)) mod 512 + unat t \<le> 512"
    and dis: "region buff (unat t) \<inter> (region (buffer fd) 512 \<union> partition_bytes st) = {}"
    and st1: "st1 = set_fat_mem (memcpy (fat_mem st) buff
      (buffer fd + position (ffd fd) mod SECTOR_SIZE) t) st"
    using assms(1) by (simp_all add: copied_def)
  note copy = copy_step [OF state t dis st1]
  note pos = copied_position [OF assms(1)]
  have ffd: "ffd eof_fd = ffd (advance t fd)" "buffer eof_fd = buffer fd" "file_error eof_fd = file_error fd"
    "handle eof_fd = handle fd" "fat_accessors eof_fd = fat_accessors fd"
    using assms(2) by auto
  have "loaded V (fat_mem st1) eof_fd" if "position (ffd fd) + t < file_size (ffd fd)"
    using same_sector(1) [OF assms(3) [OF that]] copy(4) state pos(1) ffd
    by (simp add: loaded_def file_state_def)
  then have "file_state V n eof_fd st1"
    using state copy(1) pos(2) ffd by (auto simp: file_state_def st1)
  then show ?thesis using copy ffd unchanged_mono [OF copy(3)]
    by (simp add: after_read_def st1)
qed

lemma copied_load:
  assumes "volume_ok rs V" "n < 2 ^ 32" "copied V n fd st buff t st1"
    and "position (ffd fd) + t < file_size (ffd fd)"
  obtains fd2 st2 where "load_file_buffer rs (advance t fd) st1 = Some (0, fd2, st2)"
    "after_read V n fd st buff (unat t) fd2 st2" "eof fd2 = eof fd"
proof -
  have state: "file_state V n fd st" "position (ffd fd) < file_size (ffd fd)"
    and t: "unat (position (ffd fd)) mod 512 + unat t \<le> 512"
    and dis: "region buff (unat t) \<inter> (region (buffer fd) 512 \<union> partition_bytes st) = {}"
    and st1: "st1 = set_fat_mem (memcpy (fat_mem st) buff
      (buffer fd + position (ffd fd) mod SECTOR_SIZE) t) st"
    using assms(3) by (simp_all add: copied_def)
  note copy = copy_step [OF state t dis st1]
  note pos = copied_position [OF assms(3)]
  let ?fd = "advance t fd"
  have "unat (position (ffd ?fd)) < n * unat (vol_spc V) * 512"
    using assms(4) state by (simp add: file_state_def word_less_nat_alt)
  then have k: "unat (position (ffd ?fd)) div 512 div unat (vol_spc V) < n"
    by (simp add: div_mult2_eq [symmetric] less_mult_imp_div_less ac_simps)
  have c: "chain_pos V n (ffd ?fd)" "region (buffer ?fd) 512 \<inter> partition_bytes st1 = {}"
    using state by (simp_all add: file_state_def st1)
  obtain st2 f where r: "load_file_buffer rs ?fd st1 = Some (0, ?fd\<lparr>ffd := f\<rparr>, st2)" "mounted V st2"
    "chain_pos V n f" "loaded V (fat_mem st2) (?fd\<lparr>ffd := f\<rparr>)"
    "first_cluster f = first_cluster (ffd ?fd)" "position f = position (ffd ?fd)"
    "file_size f = file_size (ffd ?fd)" "is_directory f = is_directory (ffd ?fd)"
    "unchanged_outside (region (buffer ?fd) 512) (fat_mem st1) (fat_mem st2)"
    "free_start (fat_heap st2) = free_start (fat_heap st1)" "fat_partition st2 = fat_partition st1"
    "boot_record st2 = boot_record st1"
    by (rule load_file_buffer_mounted [OF assms(1) copy(1) c(1) assms(2) k c(2)])
  have "load_bytes (fat_mem st2) buff (unat t) = load_bytes (fat_mem st1) buff (unat t)"
    using dis by (intro load_bytes_cong unchangedD [OF r(9)] u32_le_2p32) auto
  moreover have "file_state V n (?fd\<lparr>ffd := f\<rparr>) st2"
    using r state pos by (simp add: file_state_def partition_bytes_def st1)
  moreover have "unchanged_outside (region buff (unat t) \<union> region (buffer fd) 512) (fat_mem st) (fat_mem st2)"
    using r(9) copy(3) by (auto simp: unchanged_outside_def)
  ultimately have "after_read V n fd st buff (unat t) (?fd\<lparr>ffd := f\<rparr>) st2"
    using r copy(2) by (simp add: after_read_def st1)
  with r(1) show thesis using that by simp
qed

section \<open>The whole read\<close>

text \<open>The result of a run of the loop.\<close>

definition reads ::
  "volume \<Rightarrow> nat \<Rightarrow> FileData \<Rightarrow> 'h fat \<Rightarrow> addr \<Rightarrow> u32 \<Rightarrow> u32 \<Rightarrow> (u32 \<times> FileData \<times> 'h fat) option \<Rightarrow> bool" where
  "reads V n fd st buff remaining rif r \<longleftrightarrow>
     (\<exists>fd' st'. r = Some (remaining - of_nat (min (unat remaining) (unat rif)), fd', st') \<and>
       after_read V n fd st buff (min (unat remaining) (unat rif)) fd' st' \<and>
       eof fd' = (eof fd \<or> unat rif < unat remaining))"

text \<open>A step fits into the sector, the request and the file.\<close>

lemma step_copied:
  assumes "file_state V n fd st" "rif = file_size (ffd fd) - position (ffd fd)" "position (ffd fd) < file_size (ffd fd)"
    and "region buff (unat remaining) \<inter> (region (buffer fd) 512 \<union> partition_bytes st) = {}" "remaining \<noteq> 0"
    and "t = step_size remaining rif (position (ffd fd))"
    and "st1 = set_fat_mem (memcpy (fat_mem st) buff (buffer fd + position (ffd fd) mod SECTOR_SIZE) t) st"
  shows "copied V n fd st buff t st1" "0 < unat t" "unat t \<le> unat remaining" "unat t \<le> unat rif"
    and "position (ffd fd) + t < file_size (ffd fd) \<longleftrightarrow> rif \<noteq> t"
proof -
  let ?p = "position (ffd fd)" and ?sz = "file_size (ffd fd)"
  have "unat rif = unat ?sz - unat ?p" using assms(2,3) by (simp add: unat_sub less_imp_le)
  with assms(3) have rif: "unat rif = unat ?sz - unat ?p" "0 < unat rif" by (simp_all add: word_less_nat_alt)
  have rem: "0 < unat remaining" using assms(5) by (simp add: unat_gt_0)
  have ut: "unat t = min (unat rif) (min (unat remaining) (512 - unat ?p mod 512))"
    unfolding assms(6) by (rule unat_step_size)
  have off: "unat ?p mod 512 < 512" by simp
  show t: "0 < unat t" "unat t \<le> unat remaining" "unat t \<le> unat rif" using ut rem rif(2) off by linarith+
  have "unat ?p mod 512 + unat t \<le> 512" using ut off by linarith
  moreover have "region buff (unat t) \<inter> (region (buffer fd) 512 \<union> partition_bytes st) = {}"
    using assms(4) region_mono [OF t(2), of buff] by blast
  ultimately show copied: "copied V n fd st buff t st1"
    using assms(1,3,7) t rif by (simp add: copied_def)
  show "?p + t < ?sz \<longleftrightarrow> rif \<noteq> t"
    using copied_position(1) [OF copied] t(3) rif assms(3) by (auto simp: word_less_nat_alt word_unat_eq_iff)
qed

text \<open>A step and the run behind it.\<close>

lemma reads_on:
  assumes "after_read V n fd st buff (unat t) fd2 st2" "eof fd2 = eof fd"
    and "unat (position (ffd fd2)) = unat (position (ffd fd)) + unat t" "unat t \<le> unat remaining" "unat t \<le> unat rif"
    and "region buff (unat remaining) \<inter> region (buffer fd) 512 = {}"
    and "reads V n fd2 st2 (buff + t) (remaining - t) (rif - t) r"
  shows "reads V n fd st buff remaining rif r"
proof -
  have rest: "unat (remaining - t) = unat remaining - unat t" "unat (rif - t) = unat rif - unat t"
    using assms(4,5) by (simp_all add: unat_sub word_le_nat_alt)
  let ?k = "min (unat (remaining - t)) (unat (rif - t))"
  obtain fd' st' where r: "r = Some (remaining - t - of_nat ?k, fd', st')" "after_read V n fd2 st2 (buff + t) ?k fd' st'"
    "eof fd' = (eof fd2 \<or> unat (rif - t) < unat (remaining - t))" using assms(7) unfolding reads_def by blast
  have k: "unat t + ?k = min (unat remaining) (unat rif)" using rest assms(4,5) by auto
  have "after_read V n fd st buff (unat t + ?k) fd' st'"
  proof (rule after_read_append [OF assms(1)])
    show "after_read V n fd2 st2 (buff + of_nat (unat t)) ?k fd' st'" using r(2) by (simp add: of_nat_unat)
    show "unat t + ?k \<le> 2 ^ 32" unfolding k using u32_le_2p32 [of remaining] by simp
    show "region buff (unat t + ?k) \<inter> region (buffer fd) 512 = {}"
      unfolding k using assms(6) region_mono [of "min (unat remaining) (unat rif)" "unat remaining" buff] by auto
  qed (rule assms(3))
  moreover have "remaining - t - of_nat ?k = remaining - of_nat (unat t + ?k)"
    by (simp add: of_nat_unat algebra_simps)
  moreover have "unat (rif - t) < unat (remaining - t) \<longleftrightarrow> unat rif < unat remaining" using rest assms(4,5) by auto
  ultimately show ?thesis using r(1,3) assms(2) unfolding k reads_def by auto
qed

lemma fat_read_loop_reads:
  assumes "volume_ok rs V" "n < 2 ^ 32" "file_state V n fd st"
    and "rif = file_size (ffd fd) - position (ffd fd)" "position (ffd fd) < file_size (ffd fd)"
    and "region buff (unat remaining) \<inter> (region (buffer fd) 512 \<union> partition_bytes st) = {}"
  shows "reads V n fd st buff remaining rif (fat_read_loop rs remaining rif buff fd st)"
  using assms(3-6)
proof (induction "unat remaining" arbitrary: remaining rif buff fd st rule: less_induct)
  case less
  let ?p = "position (ffd fd)"
  show ?case
  proof (cases "remaining = 0")
    case True
    then show ?thesis using less.prems(1) by (simp add: reads_def after_read_def file_bytes_def load_bytes_def)
  next
    case False
    define t where "t = step_size remaining rif ?p"
    define st1 where "st1 = set_fat_mem (memcpy (fat_mem st) buff (buffer fd + ?p mod SECTOR_SIZE) t) st"
    note st = step_copied [OF less.prems False t_def st1_def]
    note pos = copied_position [OF st(1)]
    note step = fat_read_loop_step [unfolded Let_def, of remaining rs rif buff fd st, folded t_def, folded st1_def]
    have pos0: "remaining > 0" using False by (simp add: word_gt_0)
    have boundary: "t = SECTOR_SIZE - ?p mod SECTOR_SIZE \<longleftrightarrow> unat t = 512 - unat ?p mod 512"
      by (simp add: word_unat_eq_iff unat_sector_rest)
    consider (last) "rif = t" | (full) "rif \<noteq> t" "unat t = 512 - unat ?p mod 512"
      | (part) "rif \<noteq> t" "unat t \<noteq> 512 - unat ?p mod 512" by blast
    then show ?thesis
    proof cases
      case last
      then have "min (unat remaining) (unat rif) = unat t" using st(3) by simp
      moreover have "unat rif < unat remaining \<longleftrightarrow> remaining \<noteq> t"
        using last st(3) by (auto simp: word_unat_eq_iff)
      moreover have "after_read V n fd st buff (unat t)
          (if remaining \<noteq> t then (advance t fd)\<lparr>eof := True\<rparr> else advance t fd) st1"
        using st(5) last by (intro copied_after [OF st(1)]) auto
      ultimately show ?thesis using step [OF pos0] last by (auto simp: reads_def of_nat_unat)
    next
      case full
      obtain fd2 st2 where l: "load_file_buffer rs (advance t fd) st1 = Some (0, fd2, st2)"
        "after_read V n fd st buff (unat t) fd2 st2" "eof fd2 = eof fd"
        using copied_load [OF assms(1,2) st(1)] st(5) full(1) by blast
      have f2: "file_state V n fd2 st2" "position (ffd fd2) = ?p + t" "file_size (ffd fd2) = file_size (ffd fd)"
        "buffer fd2 = buffer fd" "fat_partition st2 = fat_partition st"
        using l(2) by (simp_all add: after_read_def)
      have rest: "unat (remaining - t) = unat remaining - unat t"
        using st(3) by (simp add: unat_sub word_le_nat_alt)
      then have sub: "region (buff + t) (unat (remaining - t)) \<subseteq> region buff (unat remaining)"
        using st(3) by (intro region_sub) simp
      have "reads V n fd2 st2 (buff + t) (remaining - t) (rif - t)
          (fat_read_loop rs (remaining - t) (rif - t) (buff + t) fd2 st2)"
      proof (rule less.hyps [OF _ f2(1)])
        show "unat (remaining - t) < unat remaining" using rest st(2,3) by simp
        show "rif - t = file_size (ffd fd2) - position (ffd fd2)" using f2 less.prems(2) by simp
        show "position (ffd fd2) < file_size (ffd fd2)" using f2 st(5) full(1) by simp
        show "region (buff + t) (unat (remaining - t)) \<inter> (region (buffer fd2) 512 \<union> partition_bytes st2) = {}"
          using less.prems(4) sub f2 by (auto simp: partition_bytes_def)
      qed
      moreover have "fat_read_loop rs remaining rif buff fd st =
          fat_read_loop rs (remaining - t) (rif - t) (buff + t) fd2 st2"
        using step [OF pos0] full boundary l(1) by simp
      moreover have "region buff (unat remaining) \<inter> region (buffer fd) 512 = {}" using less.prems(4) by auto
      ultimately show ?thesis using reads_on [OF l(2,3) _ st(3,4)] f2(2) pos(1) by simp
    next
      case part
      have "unat t = min (unat rif) (min (unat remaining) (512 - unat ?p mod 512))"
        unfolding t_def by (rule unat_step_size)
      with part have rt: "remaining = t" by (auto simp: min_def word_unat_eq_iff split: if_splits)
      have "unat ?p mod 512 + unat t \<le> 512" using st(1) by (simp add: copied_def)
      then have "after_read V n fd st buff (unat t) (advance t fd) st1"
        using part by (intro copied_after [OF st(1)]) auto
      moreover have "fat_read_loop rs remaining rif buff fd st = Some (0, advance t fd, st1)"
        using step [OF pos0] part boundary rt by simp
      moreover have "min (unat remaining) (unat rif) = unat t" "\<not> unat rif < unat remaining"
        using rt st(4) by auto
      ultimately show ?thesis using rt by (auto simp: reads_def of_nat_unat)
    qed
  qed
qed

lemmas fat_read_loop_mounted = fat_read_loop_reads [unfolded reads_def]

lemma fat_read_mounted:
  assumes "volume_ok rs V" "n < 2 ^ 32" "file_state V n fd st" "\<not> file_error fd"
    and "region buff (unat sz) \<inter> (region (buffer fd) 512 \<union> partition_bytes st) = {}"
    and "k = min (unat sz) (unat (file_size (ffd fd)) - unat (position (ffd fd)))"
  shows "\<exists>fd' st'. fat_read rs fd buff sz st = Some (of_nat k, fd', st') \<and>
    after_read V n fd st buff k fd' st' \<and>
    eof fd' = (eof fd \<or> k < unat sz \<or> position (ffd fd) = file_size (ffd fd))"
proof (cases "position (ffd fd) = file_size (ffd fd)")
  case True
  then have "file_state V n (fd\<lparr>eof := True\<rparr>) st" using assms(3) by (simp add: file_state_def)
  then show ?thesis using True assms(6)
    by (simp add: fat_read_def after_read_def load_bytes_def file_bytes_def)
next
  case False
  let ?rif = "file_size (ffd fd) - position (ffd fd)"
  have lt: "position (ffd fd) < file_size (ffd fd)"
    using False assms(3) by (auto simp: file_state_def order.order_iff_strict)
  then have rif: "unat ?rif = unat (file_size (ffd fd)) - unat (position (ffd fd))" "?rif \<noteq> 0"
    by (simp_all add: unat_sub less_imp_le)
  then have k: "min (unat sz) (unat ?rif) = k" "unat ?rif < unat sz \<longleftrightarrow> k < unat sz" using assms(6) by auto
  show ?thesis
    using fat_read_loop_mounted [OF assms(1-3) refl lt assms(5)] False rif(2) assms(4)
    unfolding k by (auto simp: fat_read_def Let_def)
qed

text \<open>A small volume: every byte of sector \<open>n\<close> is \<open>n\<close>, and the file is cluster 2, in sector 10.\<close>

definition small_volume :: volume where
  "small_volume = \<lparr>vol_drive = 0, vol_start = 0, vol_size = 100, vol_fat = 1, vol_data = 10, vol_spc = 1,
     vol_sector = (\<lambda>n. replicate 512 (of_nat n))\<rparr>"

definition small_read :: "unit drive_read" where
  "small_read d n lba h = (1, replicate 512 (of_nat (unat lba)), h)"

definition small_mem :: memory where
  "small_mem a = (if unat (a - 1000) < 512 then 10 else if a = 108 then 100 else 0)"

definition small_state :: "'h \<Rightarrow> 'h fat" where
  "small_state h = \<lparr>fat_heap = \<lparr>hmem = small_mem, free_start = 0\<rparr>, fat_hw = h, fat_partition = 100,
     boot_record = (read_boot_record (replicate 512 0))\<lparr>sectors_per_cluster := 1\<rparr>,
     fat_buffer = replicate 512 0, fat_sector = 0, fat_format = FAT_32, total_sectors = 100,
     total_clusters = 90, first_fat_sector = 1, first_data_sector = 10\<rparr>"

abbreviation small_fat :: "unit fat" where "small_fat \<equiv> small_state ()"

definition small_file :: FileData where
  "small_file = \<lparr>handle = 0, buffer = 1000, buffer_mode = IOFBF, buffer_size = 0,
     buffer_auto_allocated = True, opened = True, file_error = False, eof = False, fat_accessors = True,
     extra_data = 5000, ffd = \<lparr>first_cluster = 2, current_cluster = 2, cluster_index = 0,
     current_sector_in_cluster = 0, position = 1, file_size = 3, is_directory = False\<rparr>\<rparr>"

lemma small_volume_ok: "volume_ok small_read small_volume"
  by (simp add: volume_ok_def drive_ok_def small_read_def small_volume_def)

lemma small_cluster: "cluster_ok small_volume 2"
  by (simp add: cluster_ok_def small_volume_def)

lemma small_regions: "region 1000 512 \<inter> partition_bytes (small_state h) = {}"
  "region 2000 5 \<inter> (region 1000 512 \<union> partition_bytes (small_state h)) = {}"
proof -
  have "region 1000 512 \<inter> region 100 36 = {}" "region 2000 5 \<inter> region 1000 512 = {}"
    "region 2000 5 \<inter> region 100 36 = {}"
    by (rule region_disjoint_nat; simp)+
  then show "region 1000 512 \<inter> partition_bytes (small_state h) = {}"
    "region 2000 5 \<inter> (region 1000 512 \<union> partition_bytes (small_state h)) = {}"
    by (auto simp: partition_bytes_def small_state_def sizeof_Partition_def)
qed

lemma small_mounted: "mounted small_volume (small_state h)"
  by (simp add: mounted_def small_volume_def small_state_def partition_drive_def partition_start_def
      partition_size_def read64_def read32_def small_mem_def)

lemma small_loaded: "load_bytes small_mem 1000 512 = replicate 512 10"
proof (rule nth_equalityI)
  fix i assume "i < length (load_bytes small_mem 1000 512)"
  then have i: "i < 512" by simp
  then have "unat (of_nat i :: addr) = i" by (intro unat_of_nat_small) simp
  with i show "load_bytes small_mem 1000 512 ! i = replicate 512 10 ! i" by (simp add: small_mem_def)
qed simp

lemma small_file_state: "file_state small_volume 1 small_file (small_state h)"
proof -
  have "chain_pos small_volume 1 (ffd small_file)"
    using small_cluster by (simp add: chain_pos_def chain_valid_def small_file_def)
  moreover have "loaded small_volume small_mem small_file"
    using small_loaded by (simp add: loaded_def small_file_def file_sector_def small_volume_def)
  ultimately show ?thesis using small_mounted [of h] small_regions(1) [of h]
    by (simp add: file_state_def small_file_def small_volume_def [THEN arg_cong, of vol_spc] small_state_def)
qed

text \<open>
  C19: reading an open file of a mounted volume copies the bytes of the file from the position on,
  as many as asked for and the file still has, follows the cluster chain across sectors and
  clusters, moves the position, reports the end of the file, writes nothing but the caller's and
  the file's buffers, and leaves the file ready for the next read.
\<close>

theorem fat_read_reads_file:
  assumes "volume_ok rs V" "n < 2 ^ 32" "file_state V n fd st" "\<not> file_error fd"
    and "region buff (unat sz) \<inter> (region (buffer fd) 512 \<union> partition_bytes st) = {}"
    and "k = min (unat sz) (unat (file_size (ffd fd)) - unat (position (ffd fd)))"
  shows "\<exists>fd' st'. fat_read rs fd buff sz st = Some (of_nat k, fd', st') \<and>
    after_read V n fd st buff k fd' st' \<and>
    eof fd' = (eof fd \<or> k < unat sz \<or> position (ffd fd) = file_size (ffd fd))"
  using assms by (rule fat_read_mounted)

theorem fat_read_reads_file_witness:
  "\<exists>fd' st'. fat_read small_read small_file 2000 5 small_fat = Some (2, fd', st') \<and>
     load_bytes (fat_mem st') 2000 2 = [10, 10] \<and> eof fd'"
proof -
  have e: "file_sector small_volume 2 0 = replicate 512 10"
    by (simp add: file_sector_def small_volume_def Let_def)
  have "file_bytes small_volume 2 1 2 = map (\<lambda>i. file_sector small_volume 2 (i div 512) ! (i mod 512)) [1, 2]"
    unfolding file_bytes_def by (rule arg_cong) (simp add: upt_rec numeral_2_eq_2)
  also have "\<dots> = [10, 10]" by (simp add: e)
  finally have b: "file_bytes small_volume 2 1 2 = [10, 10]" .
  have f: "unat (5 :: u32) = 5" "buffer small_file = 1000" "\<not> file_error small_file"
    "first_cluster (ffd small_file) = 2" "unat (position (ffd small_file)) = 1"
    "unat (file_size (ffd small_file)) = 3"
    by (simp_all add: small_file_def)
  have "\<exists>fd' st'. fat_read small_read small_file 2000 5 small_fat = Some (of_nat 2, fd', st') \<and>
    after_read small_volume 1 small_file small_fat 2000 2 fd' st' \<and>
    eof fd' = (eof small_file \<or> 2 < unat (5 :: u32) \<or> position (ffd small_file) = file_size (ffd small_file))"
    by (rule fat_read_reads_file [OF small_volume_ok _ small_file_state f(3)])
      (simp_all only: f small_regions(2), simp_all)
  then show ?thesis unfolding after_read_def f b by auto
qed

end
