(* ===== verification/FatDirProperties.thy ===== *)
theory FatDirProperties
  imports FatDir FatReadFile
begin

text \<open>
  Mounting a volume, searching a directory and opening a file.
\<close>

section \<open>Mounting\<close>

text \<open>The volume that a boot sector describes, for a partition in memory.\<close>

definition boot_volume :: "memory \<Rightarrow> addr \<Rightarrow> (nat \<Rightarrow> u8 list) \<Rightarrow> volume" where
  "boot_volume m part sector =
     (let br = read_boot_record (sector (unat (partition_start m part)));
          fat = ucast (reserved_sector_count br)
      in \<lparr>vol_drive = partition_drive m part, vol_start = partition_start m part,
          vol_size = partition_size m part, vol_fat = fat,
          vol_data = fat + ucast (fat_count br) * boot_fat_size br + boot_root_dir_sectors br,
          vol_spc = sectors_per_cluster br, vol_sector = sector\<rparr>)"

lemma boot_sector_read:
  assumes "drive_ok rs (partition_drive (fat_mem st) part) limit sector"
    and "unat (partition_start (fat_mem st) part) < limit" "limit \<le> 2 ^ 32"
    and "partition_size (fat_mem st) part \<noteq> 0"
  obtains hw where "fat_disk rs part 0 st =
    (1, sector (unat (partition_start (fat_mem st) part)), st\<lparr>fat_hw := hw\<rparr>)"
proof -
  let ?start = "partition_start (fat_mem st) part"
  have u: "unat (ucast ?start :: u32) = unat ?start" using assms(2,3) by (intro unat_ucast_down) simp
  then obtain hw where "rs (partition_drive (fat_mem st) part) 1 (ucast ?start) (fat_hw st) =
      (1, sector (unat ?start), hw)"
    using assms(1,2) unfolding drive_ok_def by metis
  then show thesis using that [of hw] assms(4)
    by (simp add: fat_disk_def disk_read_sectors_def)
qed

text \<open>A boot sector of a FAT32 volume with 512-byte sectors, one per cluster, and one FAT.\<close>

definition small_boot :: "u8 list" where
  "small_boot = (replicate 512 0)[12 := 2, 13 := 1, 14 := 1, 16 := 1, 32 := 100, 36 := 9, 44 := 2, 66 := 0x29]"

definition small_boot_read :: "unit drive_read" where
  "small_boot_read d n lba h = (1, small_boot, h)"

lemma small_boot_record:
  "bytes_per_sector (read_boot_record small_boot) = 512"
  "sectors_per_cluster (read_boot_record small_boot) = 1"
  "boot_ok (read_boot_record small_boot)"
  by (simp_all add: read_boot_record_def small_boot_def boot_ok_def le16_def)

lemma small_partition:
  "partition_drive small_mem 100 = 0" "partition_start small_mem 100 = 0"
  "partition_size small_mem 100 = 100"
  by (simp_all add: partition_drive_def partition_start_def partition_size_def read64_def read32_def small_mem_def)

text \<open>
  on a readable partition with a boot sector for sectors of some size, \<open>fat_init_partition\<close>
  mounts exactly the volume the boot sector describes, so that the reads above apply to it; without
  a known signature nothing is mounted, and with no sectors per cluster it divides by zero.
\<close>

theorem fat_init_partition_mounts:
  assumes "drive_ok rs (partition_drive (fat_mem st) part) limit sector"
    and "unat (partition_start (fat_mem st) part) < limit" "limit \<le> 2 ^ 32"
    and "partition_size (fat_mem st) part \<noteq> 0"
    and "br = read_boot_record (sector (unat (partition_start (fat_mem st) part)))"
    and "bytes_per_sector br \<noteq> 0" "length (fat_buffer st) = 512" "fat_sector st = 0"
  shows "if sectors_per_cluster br = 0 then fat_init_partition rs part st = None
    else \<exists>st'. fat_init_partition rs part st = Some st' \<and> fat_heap st' = fat_heap st \<and>
      (if boot_ok br
       then fat_partition st' = part \<and> mounted (boot_volume (fat_mem st) part sector) st' \<and>
         fat_format st' = boot_format br (boot_total_sectors br)
       else fat_partition st' = fat_partition st)"
proof -
  let ?bs = "sector (unat (partition_start (fat_mem st) part))"
  obtain hw where hw: "fat_disk rs part 0 st = (1, ?bs, st\<lparr>fat_hw := hw\<rparr>)"
    by (rule boot_sector_read [OF assms(1-4)])
  have len: "length ?bs = 512" using assms(1) by (simp add: drive_ok_def)
  with assms(7) have o: "overwrite ?bs (fat_buffer st) = ?bs" by simp
  show ?thesis
    using assms(5,6,8) len
    by (simp add: fat_init_partition_def hw o Let_def mounted_def boot_volume_def)
qed

theorem fat_init_partition_mounts_witness:
  "\<exists>st'. fat_init_partition small_boot_read 100 small_fat = Some st' \<and> fat_partition st' = 100 \<and>
     mounted (boot_volume small_mem 100 (\<lambda>n. small_boot)) st'"
proof -
  have "fat_mem small_fat = small_mem" "length (fat_buffer small_fat) = 512" "fat_sector small_fat = 0"
    by (simp_all add: small_state_def)
  moreover have "drive_ok small_boot_read 0 100 (\<lambda>n. small_boot)"
    by (simp add: drive_ok_def small_boot_read_def small_boot_def)
  ultimately show ?thesis
    using fat_init_partition_mounts [of small_boot_read small_fat 100 100 "\<lambda>n. small_boot", OF _ _ _ _ refl]
    by (auto simp: small_partition small_boot_record)
qed

section \<open>Searching a directory\<close>

text \<open>The 16 entries of the sector in the buffer: where the search stops.\<close>

definition dir_entry :: "addr \<Rightarrow> nat \<Rightarrow> addr" where
  "dir_entry entries i = entries + 32 * of_nat i"

definition entry_matches :: "memory \<Rightarrow> addr \<Rightarrow> addr \<Rightarrow> bool" where
  "entry_matches m filename e \<longleftrightarrow> entry_attributes m e \<noteq> 0x0F \<and>
     (\<forall>i < 11. m (filename + of_nat i) = m (e + of_nat i))"

definition entry_stops :: "memory \<Rightarrow> addr \<Rightarrow> addr \<Rightarrow> bool" where
  "entry_stops m filename e \<longleftrightarrow> m e = 0 \<or> entry_matches m filename e"

lemma memcmp_11: "memcmp m a b 11 = 0 \<longleftrightarrow> (\<forall>i < 11. m (a + of_nat i) = m (b + of_nat i))"
  using memcmp_loop_spec [of 11 m a b] by (auto simp: memcmp_def sint_eq)

lemma not_unused: "sint (b :: u8) \<noteq> 0xE5"
proof -
  have "sint b < 2 ^ 7" using sint_lt [of b] by simp
  then show ?thesis by simp
qed

lemma scan_entries_find:
  "scan_entries m filename entries is =
    (case find (\<lambda>i. entry_stops m filename (dir_entry entries i)) is of
       None \<Rightarrow> End_of_sector
     | Some i \<Rightarrow> if m (dir_entry entries i) = 0 then End_of_directory else Found (dir_entry entries i))"
  by (induction "is") (auto simp: Let_def entry_stops_def entry_matches_def memcmp_11 not_unused
      dir_entry_def simp del: scan.case)

lemma find_loop_diverges:
  assumes "current_cluster (ffd dir) < 0x0FFFFFF7"
    and "scan_entries (fat_mem st) filename (buffer dir) [0..<16] = End_of_sector"
  shows "find_loop rs filename True dir st = None"
proof (rule ccontr)
  assume "find_loop rs filename True dir st \<noteq> None"
  then obtain r where "find_loop rs filename True dir st = Some r" by auto
  then have "\<not> (True \<and> current_cluster (ffd dir) < 0x0FFFFFF7 \<and>
      scan_entries (fat_mem st) filename (buffer dir) [0..<16] = End_of_sector)"
    by (rule find_loop.raw_induct [where P = "\<lambda>rs filename more dir st r. \<not> (more \<and>
        current_cluster (ffd dir) < 0x0FFFFFF7 \<and>
        scan_entries (fat_mem st) filename (buffer dir) [0..<16] = End_of_sector)", rotated])
      (auto split: if_splits)
  with assms show False by simp
qed

lemma load_file_buffer_some:
  assumes "sectors_per_cluster (boot_record st) \<noteq> 0"
  shows "load_file_buffer rs fd st \<noteq> None"
proof -
  have "(ucast (sectors_per_cluster (boot_record st)) :: u32) \<noteq> 0"
    using assms unat_spc [of "sectors_per_cluster (boot_record st)"] by (auto simp: unat_eq_0)
  then show ?thesis by (simp add: load_file_buffer_def Let_def split: prod.split)
qed

text \<open>
  C21: \<open>find_file_in_dir\<close> returns the first entry of the sector in the buffer with the name asked
  for (not a long-name entry), when no free entry comes before it; \<open>NULL\<close> when a free entry comes
  first; and when the sector has neither, it never returns, as it loads the next sector only after
  the end of the directory.
\<close>

theorem find_file_in_dir_searches:
  assumes "is_directory (ffd dir)" "current_cluster (ffd dir) < 0x0FFFFFF7"
    and "sectors_per_cluster (boot_record st) \<noteq> 0"
  shows "case find (\<lambda>i. entry_stops (fat_mem st) filename (dir_entry (buffer dir) i)) [0..<16] of
      None \<Rightarrow> find_file_in_dir rs dir filename st = None
    | Some i \<Rightarrow>
        if fat_mem st (dir_entry (buffer dir) i) = 0
        then \<exists>dir' st'. find_file_in_dir rs dir filename st = Some (0, dir', st')
        else find_file_in_dir rs dir filename st = Some (dir_entry (buffer dir) i, dir, st)"
proof -
  let ?f = "find (\<lambda>i. entry_stops (fat_mem st) filename (dir_entry (buffer dir) i)) [0..<16]"
  have scan: "scan_entries (fat_mem st) filename (buffer dir) [0..<16] =
      (case ?f of None \<Rightarrow> End_of_sector
       | Some i \<Rightarrow> if fat_mem st (dir_entry (buffer dir) i) = 0 then End_of_directory
                   else Found (dir_entry (buffer dir) i))"
    by (rule scan_entries_find)
  have stop: "find_loop rs filename False d s = Some (0, d, s)" for d s
    by (subst find_loop.simps) simp
  show ?thesis
  proof (cases ?f)
    case None
    with scan have "scan_entries (fat_mem st) filename (buffer dir) [0..<16] = End_of_sector" by simp
    with None assms show ?thesis by (simp add: find_file_in_dir_def find_loop_diverges)
  next
    case (Some i)
    let ?d = "dir\<lparr>ffd := (ffd dir)\<lparr>position := position (ffd dir) + SECTOR_SIZE\<rparr>\<rparr>"
    obtain r d s where l: "load_file_buffer rs ?d st = Some (r, d, s)"
      using load_file_buffer_some [OF assms(3), of rs ?d] by auto
    show ?thesis
    proof (cases "fat_mem st (dir_entry (buffer dir) i) = 0")
      case True
      with Some scan assms l stop show ?thesis
        by (subst (1) find_file_in_dir_def, subst (1) find_loop.simps) simp
    next
      case False
      with Some scan assms show ?thesis
        by (simp add: find_file_in_dir_def find_loop.simps [of rs filename True dir st])
    qed
  qed
qed

definition small_dir :: FileData where
  "small_dir = small_file\<lparr>ffd := (ffd small_file)\<lparr>is_directory := True\<rparr>\<rparr>"

lemma small_find:
  "find (\<lambda>i. entry_stops (fat_mem small_fat) 1000 (dir_entry (buffer small_dir) i)) [0..<16] = Some 0"
proof -
  have "[0..<16] = 0 # [1..<16]" by (simp add: upt_rec)
  moreover have "entry_stops (fat_mem small_fat) 1000 (dir_entry (buffer small_dir) 0)"
    by (simp add: entry_stops_def entry_matches_def dir_entry_def small_dir_def small_file_def
        small_state_def entry_attributes_def small_mem_def)
  ultimately show ?thesis by simp
qed

lemma small_dir_facts:
  "is_directory (ffd small_dir)" "current_cluster (ffd small_dir) < 0x0FFFFFF7"
  "sectors_per_cluster (boot_record small_fat) \<noteq> 0"
  "fat_mem small_fat (dir_entry (buffer small_dir) 0) \<noteq> 0" "dir_entry (buffer small_dir) 0 = 1000"
  by (simp_all add: small_dir_def small_file_def small_state_def dir_entry_def small_mem_def)

theorem find_file_in_dir_searches_witness:
  "find_file_in_dir small_read small_dir 1000 small_fat = Some (1000, small_dir, small_fat)"
  using find_file_in_dir_searches [OF small_dir_facts(1-3), where filename = 1000 and rs = small_read]
  unfolding small_find using small_dir_facts(4,5) by simp

section \<open>Opening a file\<close>

lemma find_file_in_dir_found:
  assumes "is_directory (ffd dir)" "current_cluster (ffd dir) < 0x0FFFFFF7"
    and "find (\<lambda>i. entry_stops (fat_mem st) filename (dir_entry (buffer dir) i)) [0..<16] = Some i"
    and "fat_mem st (dir_entry (buffer dir) i) \<noteq> 0"
  shows "find_file_in_dir rs dir filename st = Some (dir_entry (buffer dir) i, dir, st)"
  using assms scan_entries_find [of "fat_mem st" filename "buffer dir" "[0..<16]"]
  by (simp add: find_file_in_dir_def find_loop.simps [of rs filename True dir st])


text \<open>A directory whose first entry is a file of 3 bytes in cluster 2.\<close>

definition entry_fat :: "unit fat" where
  "entry_fat = set_fat_mem (small_mem(5000 := 0x41, 5026 := 2, 5028 := 3)) small_fat"

definition entry_dir :: FileData where "entry_dir = small_dir\<lparr>buffer := 5000\<rparr>"

lemma entry_mounted: "mounted small_volume entry_fat"
proof -
  have m: "fat_mem small_fat = small_mem" by (simp add: small_state_def)
  have "region 5000 512 \<inter> region 100 36 = {}" by (rule region_disjoint_nat) simp_all
  moreover have "5000 \<in> region 5000 512" "5026 \<in> region 5000 512" "5028 \<in> region 5000 512"
    by (simp_all add: region_iff)
  ultimately show ?thesis unfolding entry_fat_def
    by (intro mounted_mem [OF small_mounted, of "region 5000 512"])
      (auto simp: m unchanged_outside_def partition_bytes_def small_state_def sizeof_Partition_def)
qed

lemma entry_first:
  "find (\<lambda>i. entry_stops (fat_mem entry_fat) 5000 (dir_entry (buffer entry_dir) i)) [0..<16] = Some 0"
proof -
  have "[0..<16] = 0 # [1..<16]" by (simp add: upt_rec)
  moreover have "entry_stops (fat_mem entry_fat) 5000 (dir_entry (buffer entry_dir) 0)"
    by (simp add: entry_stops_def entry_matches_def dir_entry_def entry_dir_def entry_fat_def
        entry_attributes_def small_mem_def)
  ultimately show ?thesis by simp
qed

lemma entry_file:
  "open_entry (fat_mem entry_fat) 5000 = \<lparr>first_cluster = 2, current_cluster = 2, cluster_index = 0,
     current_sector_in_cluster = 0, position = 0, file_size = 3, is_directory = False\<rparr>"
  by (simp add: open_entry_def entry_fat_def entry_first_cluster_high_def entry_first_cluster_low_def
      entry_size_def entry_attributes_def read16_def read32_def small_mem_def Let_def)

lemma entry_dir_facts:
  "is_directory (ffd entry_dir)" "current_cluster (ffd entry_dir) < 0x0FFFFFF7" "\<not> file_error entry_dir"
  "dir_entry (buffer entry_dir) 0 = 5000" "buffer entry_dir = 5000"
  by (simp_all add: entry_dir_def small_dir_def small_file_def dir_entry_def)

lemma entry_regions: "region 5000 512 \<inter> partition_bytes entry_fat = {}"
  "region 2000 2 \<inter> (region 5000 512 \<union> partition_bytes entry_fat) = {}"
proof -
  have "region 5000 512 \<inter> region 100 36 = {}" "region 2000 2 \<inter> region 5000 512 = {}"
    "region 2000 2 \<inter> region 100 36 = {}"
    by (rule region_disjoint_nat; simp)+
  then show "region 5000 512 \<inter> partition_bytes entry_fat = {}"
    "region 2000 2 \<inter> (region 5000 512 \<union> partition_bytes entry_fat) = {}"
    by (auto simp: partition_bytes_def entry_fat_def set_fat_mem_def small_state_def sizeof_Partition_def)
qed


end
