(* ===== verification/Ports.thy ===== *)
theory Ports
  imports Prelude
begin

text \<open>
  Port input and output (\<open>io.h\<close>, \<open>io_asm.asm\<close>). Everything that happens on the ports is kept in a
  trace, latest first; what a device answers to a read is a function of the trace so far, a
  parameter of the drivers that stands for the hardware.
\<close>

datatype io = Out_byte u16 u8 | Out_word u16 u16 | Out_double u16 u32
  | In_byte u16 | In_word u16 | In_double u16

type_synonym io_trace = "io list"
type_synonym devices = "io \<Rightarrow> io_trace \<Rightarrow> u32"

definition out_byte :: "u16 \<Rightarrow> u8 \<Rightarrow> io_trace \<Rightarrow> io_trace" where
  "out_byte port v t = Out_byte port v # t"

definition out_word :: "u16 \<Rightarrow> u32 \<Rightarrow> io_trace \<Rightarrow> io_trace" where
  "out_word port v t = Out_word port (ucast v) # t"

definition out_double :: "u16 \<Rightarrow> u32 \<Rightarrow> io_trace \<Rightarrow> io_trace" where
  "out_double port v t = Out_double port v # t"

definition in_byte :: "devices \<Rightarrow> u16 \<Rightarrow> io_trace \<Rightarrow> u8 \<times> io_trace" where
  "in_byte dv port t = (ucast (dv (In_byte port) t), In_byte port # t)"

definition in_word :: "devices \<Rightarrow> u16 \<Rightarrow> io_trace \<Rightarrow> u32 \<times> io_trace" where
  "in_word dv port t = (ucast (ucast (dv (In_word port) t) :: u16), In_word port # t)"

definition in_double :: "devices \<Rightarrow> u16 \<Rightarrow> io_trace \<Rightarrow> u32 \<times> io_trace" where
  "in_double dv port t = (dv (In_double port) t, In_double port # t)"

lemmas port_simps = out_byte_def out_word_def out_double_def in_byte_def in_word_def in_double_def

end
