(* ===== verification/Pci.thy ===== *)
theory Pci
  imports Ports LinkedList
begin

text \<open>
  The PCI scan of \<open>arch/i686/pci.c\<close>: configuration registers are read through the ports, and every
  function found becomes a \<open>PCI_Device\<close> on the kernel heap and an entry of \<open>device_list\<close>. Bridges
  make the scan recursive; \<open>scan_bus\<close> gets the depth it may go down to, and \<open>None\<close> says that it
  was not enough, as it is for every depth when a bridge leads back to its own bus.
\<close>

definition PORT_CONFIG_ADDR :: u16 where "PORT_CONFIG_ADDR = 0xCF8"
definition PORT_CONFIG_DATA :: u16 where "PORT_CONFIG_DATA = 0xCFC"
definition VENDOR_ID :: u8 where "VENDOR_ID = 0x0"
definition SUBCLASS :: u8 where "SUBCLASS = 0xA"
definition CLASS :: u8 where "CLASS = 0xB"
definition HEADER_TYPE :: u8 where "HEADER_TYPE = 0xE"
definition SECONDARY_BUS :: u8 where "SECONDARY_BUS = 0x1A"

record pci =
  pci_heap :: heap
  device_list :: addr
  pci_io :: io_trace

text \<open>\<open>PCI_Device\<close>: five bytes.\<close>

definition sizeof_PCI_Device :: u32 where "sizeof_PCI_Device = 5"

type_synonym pci_device = "u8 \<times> u8 \<times> u8 \<times> u8 \<times> u8"

definition pci_device_at :: "memory \<Rightarrow> addr \<Rightarrow> pci_device" where
  "pci_device_at m p = (m p, m (p + 1), m (p + 2), m (p + 3), m (p + 4))"

fun set_pci_device :: "memory \<Rightarrow> addr \<Rightarrow> pci_device \<Rightarrow> memory" where
  "set_pci_device m p (bus, device, func, class_code, subclass_code) =
     m(p := bus, p + 1 := device, p + 2 := func, p + 3 := class_code, p + 4 := subclass_code)"

section \<open>Configuration registers\<close>

definition config_address :: "u8 \<Rightarrow> u8 \<Rightarrow> u8 \<Rightarrow> u8 \<Rightarrow> u32" where
  "config_address bus device func offset =
     push_bit 16 (ucast bus) OR push_bit 11 (ucast device) OR push_bit 8 (ucast func) OR
       (ucast offset AND 0xFC) OR 0x80000000"

text \<open>The shift is one of an \<open>int\<close>.\<close>

definition config_read_reg ::
  "devices \<Rightarrow> u8 \<Rightarrow> u8 \<Rightarrow> u8 \<Rightarrow> u8 \<Rightarrow> io_trace \<Rightarrow> u32 \<times> io_trace" where
  "config_read_reg dv bus device func offset t =
     (let address = config_address bus device func offset;
          t = out_double PORT_CONFIG_ADDR address t;
          (temp, t) = in_double dv PORT_CONFIG_DATA t
      in (signed_drop_bit (unat (offset AND 0x3) * 8) temp, t))"

definition pci_read :: "devices \<Rightarrow> u8 \<Rightarrow> u8 \<Rightarrow> u8 \<Rightarrow> u8 \<Rightarrow> pci \<Rightarrow> u32 \<times> pci" where
  "pci_read dv bus device func offset s =
     (case config_read_reg dv bus device func offset (pci_io s) of (v, t) \<Rightarrow> (v, s\<lparr>pci_io := t\<rparr>))"

definition pci_dev_read_config_reg :: "devices \<Rightarrow> memory \<Rightarrow> addr \<Rightarrow> u8 \<Rightarrow> io_trace \<Rightarrow> u32 \<times> io_trace" where
  "pci_dev_read_config_reg dv m dev reg t =
     (case pci_device_at m dev of (bus, device, func, _) \<Rightarrow> config_read_reg dv bus device func reg t)"

section \<open>The scan\<close>

datatype pci_panic = No_memory_for_device

type_synonym pci_result = "(pci_panic + pci) option"

definition pci_and_then :: "pci_result \<Rightarrow> (pci \<Rightarrow> pci_result) \<Rightarrow> pci_result" where
  "pci_and_then r f = (case r of None \<Rightarrow> None | Some (Inl e) \<Rightarrow> Some (Inl e) | Some (Inr s) \<Rightarrow> f s)"

definition add_device :: "pci_device \<Rightarrow> pci \<Rightarrow> pci_result" where
  "add_device d s =
     (case malloc (pci_heap s) sizeof_PCI_Device of
        None \<Rightarrow> None
      | Some (new_dev, h) \<Rightarrow>
          if new_dev = 0 then Some (Inl No_memory_for_device)
          else case list_add_head (heap_write (set_pci_device (hmem h) new_dev d) h) (device_list s) new_dev of
                 None \<Rightarrow> None
               | Some (_, head, h) \<Rightarrow> Some (Inr (s\<lparr>pci_heap := h, device_list := head\<rparr>)))"

text \<open>\<open>scan\<close> is \<open>scan_bus\<close> for the bus behind a bridge.\<close>

definition check_function ::
  "(u8 \<Rightarrow> pci \<Rightarrow> pci_result) \<Rightarrow> devices \<Rightarrow> u8 \<Rightarrow> u8 \<Rightarrow> u8 \<Rightarrow> pci \<Rightarrow> pci_result" where
  "check_function scan dv bus device function s =
     (let (v, s) = pci_read dv bus device function CLASS s; cls = ucast v :: u8;
          (v, s) = pci_read dv bus device function SUBCLASS s; subclass = ucast v :: u8
      in pci_and_then
           (if cls = 0x6 \<and> subclass = 0x4
            then (let (v, s) = pci_read dv bus device function SECONDARY_BUS s in scan (ucast v) s)
            else Some (Inr s))
           (add_device (bus, device, function, cls, subclass)))"

primrec scan_functions ::
  "(u8 \<Rightarrow> pci \<Rightarrow> pci_result) \<Rightarrow> devices \<Rightarrow> u8 \<Rightarrow> u8 \<Rightarrow> u8 list \<Rightarrow> pci \<Rightarrow> pci_result" where
  "scan_functions scan dv bus device [] s = Some (Inr s)"
| "scan_functions scan dv bus device (function # fs) s =
     (let (v, s) = pci_read dv bus device function VENDOR_ID s
      in pci_and_then
           (if (ucast v :: u16) \<noteq> 0xFFFF then check_function scan dv bus device function s else Some (Inr s))
           (scan_functions scan dv bus device fs))"

definition scan_device :: "(u8 \<Rightarrow> pci \<Rightarrow> pci_result) \<Rightarrow> devices \<Rightarrow> u8 \<Rightarrow> u8 \<Rightarrow> pci \<Rightarrow> pci_result" where
  "scan_device scan dv bus device s =
     (let (v, s) = pci_read dv bus device 0 VENDOR_ID s
      in if (ucast v :: u16) = 0xFFFF then Some (Inr s)
         else pci_and_then (check_function scan dv bus device 0 s)
                (\<lambda>s. let (v, s) = pci_read dv bus device 0 HEADER_TYPE s
                     in if (ucast v :: u8) AND 0x80 \<noteq> 0
                        then scan_functions scan dv bus device [1, 2, 3, 4, 5, 6, 7] s
                        else Some (Inr s)))"

primrec scan_devices ::
  "(u8 \<Rightarrow> pci \<Rightarrow> pci_result) \<Rightarrow> devices \<Rightarrow> u8 \<Rightarrow> u8 list \<Rightarrow> pci \<Rightarrow> pci_result" where
  "scan_devices scan dv bus [] s = Some (Inr s)"
| "scan_devices scan dv bus (device # ds) s =
     pci_and_then (scan_device scan dv bus device s) (scan_devices scan dv bus ds)"

primrec scan_bus :: "devices \<Rightarrow> nat \<Rightarrow> u8 \<Rightarrow> pci \<Rightarrow> pci_result" where
  "scan_bus dv 0 bus s = None"
| "scan_bus dv (Suc depth) bus s = scan_devices (scan_bus dv depth) dv bus (map of_nat [0..<32]) s"

end
