(* ===== verification/Disk.thy ===== *)
theory Disk
  imports Partitions CString LinkedList
begin

text \<open>
  The partition table of \<open>disk.c\<close>. The list of partitions, the \<open>Partition\<close> structures and their
  names live on the kernel heap; what is printed is left out.
\<close>

section \<open>read_gpt\<close>

record 'h disk =
  disk_heap :: heap
  partitions :: addr
  partition_count :: u32
  disk_hw :: 'h

text \<open>"EFI PART".\<close>

definition ELF_MAGIC :: u64 where "ELF_MAGIC = 0x5452415020494645"

definition gpt_sector :: "'h drive_read \<Rightarrow> addr \<Rightarrow> u64 \<Rightarrow> addr \<Rightarrow> 'h disk \<Rightarrow> int \<times> 'h disk" where
  "gpt_sector rs drive lba buffer s =
     (case rs drive 1 (ucast lba) (disk_hw s) of
        (r, bytes, hw) \<Rightarrow>
          (r, s\<lparr>disk_heap := heap_write (store_bytes (hmem (disk_heap s)) buffer bytes) (disk_heap s),
                disk_hw := hw\<rparr>))"

text \<open>Offsets in \<open>GPT_PartitionTableHeader\<close> and \<open>GPT_Partition\<close>.\<close>

definition gpt_entry_start_lba :: "memory \<Rightarrow> addr \<Rightarrow> u64" where
  "gpt_entry_start_lba m b = read64 m (b + 72)"
definition gpt_partition_entry_count :: "memory \<Rightarrow> addr \<Rightarrow> u32" where
  "gpt_partition_entry_count m b = read32 m (b + 80)"
definition gpt_entry_size :: "memory \<Rightarrow> addr \<Rightarrow> u32" where
  "gpt_entry_size m b = read32 m (b + 84)"

definition gpt_used :: "memory \<Rightarrow> addr \<Rightarrow> bool" where
  "gpt_used m p \<longleftrightarrow> fold (\<lambda>j tguid_present. tguid_present OR m (p + of_nat j)) [0..<16] 0 \<noteq> 0"

definition set_partition :: "memory \<Rightarrow> addr \<Rightarrow> addr \<Rightarrow> addr \<Rightarrow> u32 \<Rightarrow> addr \<Rightarrow> memory" where
  "set_partition m part gpt name name_size drive =
     (let m = write64 m part (read64 m (gpt + 32));
          m = write64 m (part + 8) (read64 m (gpt + 40) - read64 m (gpt + 32));
          m = write64 m (part + 16) (read64 m (gpt + 48));
          m = write32 m (part + 24) name_size;
          m = write32 m (part + 28) name
      in write32 m (part + 32) drive)"

text \<open>One entry; the flag says that the scan is given up.\<close>

definition gpt_entry :: "addr \<Rightarrow> u32 \<Rightarrow> addr \<Rightarrow> 'h disk \<Rightarrow> (bool \<times> 'h disk) option" where
  "gpt_entry drive name_size gpt s =
     (if \<not> gpt_used (hmem (disk_heap s)) gpt then Some (False, s)
      else case malloc (disk_heap s) sizeof_Partition of
             None \<Rightarrow> None
           | Some (part, h1) \<Rightarrow>
               case malloc h1 name_size of
                 None \<Rightarrow> None
               | Some (name, h2) \<Rightarrow>
                   if part = 0 \<or> name = 0 then Some (True, s\<lparr>disk_heap := h2\<rparr>)
                   else let m = set_partition (hmem h2) part gpt name name_size drive;
                            m = memcpy m name (gpt + 56) name_size
                        in case list_add_tail (heap_write m h2) (partitions s) part of
                             None \<Rightarrow> None
                           | Some (_, head, h3) \<Rightarrow>
                               Some (False, s\<lparr>disk_heap := h3, partitions := head,
                                              partition_count := partition_count s + 1\<rparr>))"

fun gpt_loop :: "'h drive_read \<Rightarrow> addr \<Rightarrow> addr \<Rightarrow> u64 \<Rightarrow> u32 \<Rightarrow> nat \<Rightarrow> u64 \<Rightarrow> u64 \<Rightarrow> 'h disk \<Rightarrow>
    'h disk option" where
  "gpt_loop rs drive buffer lba_start entry_size 0 i lba s = Some s"
| "gpt_loop rs drive buffer lba_start entry_size (Suc n) i lba s =
     (let target_lba = i * ucast entry_size div 512 + lba_start;
          offset = i * ucast entry_size mod 512;
          (r, s) = (if lba \<noteq> target_lba then gpt_sector rs drive target_lba buffer s else (1, s))
      in if r = 0 then Some s
         else case gpt_entry drive (entry_size - 0x38) (buffer + ucast offset) s of
                None \<Rightarrow> None
              | Some (stop, s) \<Rightarrow>
                  if stop then Some s
                  else gpt_loop rs drive buffer lba_start entry_size n (i + 1) target_lba s)"

text \<open>Every way out after the buffer is allocated frees it.\<close>

definition free_buffer :: "addr \<Rightarrow> 'h disk \<Rightarrow> 'h disk option" where
  "free_buffer buffer s =
     (case free (disk_heap s) buffer of None \<Rightarrow> None | Some h \<Rightarrow> Some (s\<lparr>disk_heap := h\<rparr>))"

definition read_gpt :: "'h drive_read \<Rightarrow> addr \<Rightarrow> 'h disk \<Rightarrow> 'h disk option" where
  "read_gpt rs drive s =
     (case malloc (disk_heap s) 512 of
        None \<Rightarrow> None
      | Some (buffer, h) \<Rightarrow>
          if buffer = 0 then Some (s\<lparr>disk_heap := h\<rparr>)
          else let (r, s) = gpt_sector rs drive 1 buffer (s\<lparr>disk_heap := h, partition_count := 0\<rparr>);
                   m = hmem (disk_heap s)
               in if r = 0 \<or> read64 m buffer \<noteq> ELF_MAGIC then free_buffer buffer s
                  else case gpt_loop rs drive buffer (gpt_entry_start_lba m buffer) (gpt_entry_size m buffer)
                              (unat (gpt_partition_entry_count m buffer)) 0 0 s of
                         None \<Rightarrow> None | Some s \<Rightarrow> free_buffer buffer s)"

section \<open>disk_initialize\<close>

datatype ATA_DriveType = ATA_TYPE_PATA | ATA_TYPE_PATAPI | ATA_TYPE_SATAPI | ATA_TYPE_SATA
  | ATA_TYPE_UNKOWN

text \<open>
  The loop that looks for a drive; \<open>get_drive\<close> is \<open>ide_get_drive\<close>, and a drive that is not PATA
  is kept when it is the last one asked for.
\<close>

fun pick_drive :: "(nat \<Rightarrow> addr) \<Rightarrow> (addr \<Rightarrow> ATA_DriveType) \<Rightarrow> nat list \<Rightarrow> addr \<Rightarrow> addr" where
  "pick_drive get_drive typ_of [] drive = drive"
| "pick_drive get_drive typ_of (i # is) drive =
     (let drive = get_drive i
      in if drive \<noteq> 0 \<and> typ_of drive = ATA_TYPE_PATA then drive
         else pick_drive get_drive typ_of is drive)"

definition disk_initialize ::
  "'h drive_read \<Rightarrow> (nat \<Rightarrow> addr) \<Rightarrow> (addr \<Rightarrow> ATA_DriveType) \<Rightarrow> 'h disk \<Rightarrow> 'h disk option" where
  "disk_initialize rs get_drive typ_of s =
     (let drive = pick_drive get_drive typ_of [0..<4] 0
      in if drive = 0 then Some s else read_gpt rs drive s)"

definition disk_get_partitions :: "'h disk \<Rightarrow> addr" where
  "disk_get_partitions s = partitions s"

end
