(* ===== verification/Ide.thy ===== *)
theory Ide
  imports Pci Disk
begin

text \<open>
  The IDE driver of \<open>arch/i686/ide.c\<close> and \<open>pci_initialize\<close>, which starts it. The loops that poll a
  status register have no limit: \<open>None\<close> is a device that never answers. A pointer to a drive is its
  index in \<open>drives\<close>; \<open>junk\<close> is what a missing return statement leaves in the result register. The
  messages are left out.
\<close>

section \<open>Constants and state\<close>

definition ATA_SR_BSY :: u8 where "ATA_SR_BSY = 0x80"
definition ATA_SR_DF :: u8 where "ATA_SR_DF = 0x20"
definition ATA_SR_DRQ :: u8 where "ATA_SR_DRQ = 0x08"
definition ATA_SR_ERR :: u8 where "ATA_SR_ERR = 0x01"
definition ATA_CMD_READ_PIO :: u8 where "ATA_CMD_READ_PIO = 0x20"
definition ATA_CMD_IDENTIFY :: u8 where "ATA_CMD_IDENTIFY = 0xEC"
definition ATA_IDEN_MODEL :: nat where "ATA_IDEN_MODEL = 27 * 2"
definition ATA_IDEN_FEATURES :: nat where "ATA_IDEN_FEATURES = 83 * 2"
definition ATA_IDEN_SIZE_28 :: nat where "ATA_IDEN_SIZE_28 = 60 * 2"
definition ATA_IDEN_SIZE_48 :: nat where "ATA_IDEN_SIZE_48 = 100 * 2"
definition ATA_REG_DATA :: u16 where "ATA_REG_DATA = 0"
definition ATA_REG_SECCOUNT0 :: u16 where "ATA_REG_SECCOUNT0 = 2"
definition ATA_REG_LBA0 :: u16 where "ATA_REG_LBA0 = 3"
definition ATA_REG_LBA1 :: u16 where "ATA_REG_LBA1 = 4"
definition ATA_REG_LBA2 :: u16 where "ATA_REG_LBA2 = 5"
definition ATA_REG_HDDEVSEL :: u16 where "ATA_REG_HDDEVSEL = 6"
definition ATA_REG_COMMAND :: u16 where "ATA_REG_COMMAND = 7"
definition ATA_REG_ALTSTATUS :: u16 where "ATA_REG_ALTSTATUS = 0"

record ChannelRegisters =
  selected_dev :: u8
  chan_base :: u16
  chan_ctrl :: u16

text \<open>\<open>read_function\<close> is the index of the drive whose \<open>read_sectors_dN\<close> the pointer points to.\<close>

record ATA_Drive =
  drv_present :: bool
  drv_channel :: nat
  drv_drive :: nat
  drv_type :: ATA_DriveType
  drv_size :: u64
  lba_48_supported :: bool
  drv_model :: "u8 list"
  read_function :: nat

record ide =
  channels :: "ChannelRegisters list"
  drives :: "ATA_Drive list"
  ide_buffer :: "u8 list"
  ide_io :: io_trace

section \<open>Polling\<close>

definition alt_status :: "devices \<Rightarrow> u16 \<Rightarrow> io_trace \<Rightarrow> u8 \<times> io_trace" where
  "alt_status dv ctrl t = in_byte dv (ctrl + ATA_REG_ALTSTATUS) t"

text \<open>\<open>while (goes_on(status)) status = in_byte(ctrl)\<close>.\<close>

partial_function (option) poll ::
  "devices \<Rightarrow> u16 \<Rightarrow> (u8 \<Rightarrow> bool) \<Rightarrow> u8 \<Rightarrow> io_trace \<Rightarrow> (u8 \<times> io_trace) option" where
  "poll dv ctrl goes_on status t =
     (if goes_on status
      then (case alt_status dv ctrl t of (status, t) \<Rightarrow> poll dv ctrl goes_on status t)
      else Some (status, t))"

definition waste_time :: "devices \<Rightarrow> u16 \<Rightarrow> io_trace \<Rightarrow> io_trace" where
  "waste_time dv ctrl t = ((\<lambda>t. snd (alt_status dv ctrl t)) ^^ 14) t"

definition wait_dev_nbsy :: "devices \<Rightarrow> ChannelRegisters \<Rightarrow> io_trace \<Rightarrow> io_trace option" where
  "wait_dev_nbsy dv ch t =
     (case alt_status dv (chan_ctrl ch) t of
        (status, t) \<Rightarrow>
          map_option snd (poll dv (chan_ctrl ch) (\<lambda>status. status AND ATA_SR_BSY \<noteq> 0) status t))"

section \<open>read_sectors\<close>

text \<open>The words of a sector, stored in little-endian order.\<close>

fun read_words :: "devices \<Rightarrow> u16 \<Rightarrow> nat \<Rightarrow> io_trace \<Rightarrow> u8 list \<times> io_trace" where
  "read_words dv base 0 t = ([], t)"
| "read_words dv base (Suc n) t =
     (let (w, t) = in_word dv (base + ATA_REG_DATA) t;
          v = ucast w :: u16;
          (bs, t) = read_words dv base n t
      in (ucast v # ucast (drop_bit 8 v) # bs, t))"

definition sector_pending :: "u8 \<Rightarrow> bool" where
  "sector_pending status \<longleftrightarrow> (status AND ATA_SR_BSY \<noteq> 0 \<or> status AND ATA_SR_DRQ = 0) \<and>
     status AND ATA_SR_ERR = 0 \<and> status AND ATA_SR_DF = 0"

text \<open>\<open>n\<close> sectors to go after \<open>s\<close>; the bytes are those stored so far.\<close>

fun read_loop ::
  "devices \<Rightarrow> int \<Rightarrow> ChannelRegisters \<Rightarrow> nat \<Rightarrow> nat \<Rightarrow> u8 list \<Rightarrow> io_trace \<Rightarrow> (int \<times> u8 list \<times> io_trace) option"
where
  "read_loop dv junk ch s 0 bs t = Some (junk, bs, t)"
| "read_loop dv junk ch s (Suc n) bs t =
     (case alt_status dv (chan_ctrl ch) t of
        (status, t) \<Rightarrow>
          case poll dv (chan_ctrl ch) sector_pending status t of
            None \<Rightarrow> None
          | Some (status, t) \<Rightarrow>
              if status AND ATA_SR_ERR \<noteq> 0 \<or> status AND ATA_SR_DF \<noteq> 0 then Some (int s, bs, t)
              else case read_words dv (chan_base ch) 256 t of
                     (ws, t) \<Rightarrow>
                       read_loop dv junk ch (Suc s) n (bs @ ws) (waste_time dv (chan_ctrl ch) t))"

definition ide_read_sectors ::
  "devices \<Rightarrow> int \<Rightarrow> ChannelRegisters list \<Rightarrow> u8 \<Rightarrow> u32 \<Rightarrow> ATA_Drive \<Rightarrow> io_trace \<Rightarrow> (int \<times> u8 list \<times> io_trace) option"
where
  "ide_read_sectors dv junk chs sectors lba drive t =
     (if \<not> drv_present drive then Some (0, [], t)
      else if lba > 0x0FFFFFFF then Some (0, [], t)
      else let ch = chs ! drv_channel drive;
               base = chan_base ch;
               drive_select = (0xE0 OR push_bit 4 (of_nat (drv_drive drive))) OR (drop_bit 24 lba AND 0x0F);
               t = out_byte (base + ATA_REG_HDDEVSEL) (ucast drive_select) t;
               t = out_byte (base + ATA_REG_SECCOUNT0) sectors t;
               t = out_byte (base + ATA_REG_LBA0) (ucast lba) t;
               t = out_byte (base + ATA_REG_LBA1) (ucast (drop_bit 8 lba)) t;
               t = out_byte (base + ATA_REG_LBA2) (ucast (drop_bit 16 lba)) t
           in case wait_dev_nbsy dv ch t of
                None \<Rightarrow> None
              | Some t \<Rightarrow>
                  read_loop dv junk ch 0 (unat sectors) []
                    (out_byte (base + ATA_REG_COMMAND) ATA_CMD_READ_PIO t))"

text \<open>\<open>read_sectors_d0\<close> to \<open>read_sectors_d3\<close>: the function for drive \<open>n\<close>.\<close>

definition read_sectors_d ::
  "devices \<Rightarrow> int \<Rightarrow> nat \<Rightarrow> u8 \<Rightarrow> u32 \<Rightarrow> ide \<Rightarrow> (int \<times> u8 list \<times> ide) option" where
  "read_sectors_d dv junk n sectors lba s =
     (case ide_read_sectors dv junk (channels s) sectors lba (drives s ! n) (ide_io s) of
        None \<Rightarrow> None | Some (r, bs, t) \<Rightarrow> Some (r, bs, s\<lparr>ide_io := t\<rparr>))"

section \<open>initialize_drive\<close>

definition select_device :: "devices \<Rightarrow> nat \<Rightarrow> ide \<Rightarrow> ide" where
  "select_device dv i s =
     (let drive = drives s ! i; c = drv_channel drive; ch = channels s ! c
      in if unat (selected_dev ch) \<noteq> drv_drive drive
         then let devsel = (if drv_drive drive = 0 then 0xA0 else 0xB0);
                  t = out_byte (chan_base ch + ATA_REG_HDDEVSEL) devsel (ide_io s)
              in s\<lparr>channels := (channels s)[c := ch\<lparr>selected_dev := of_nat (drv_drive drive)\<rparr>],
                   ide_io := waste_time dv (chan_ctrl ch) t\<rparr>
         else s)"

definition set_drive :: "nat \<Rightarrow> (ATA_Drive \<Rightarrow> ATA_Drive) \<Rightarrow> ide \<Rightarrow> ide" where
  "set_drive i f s = s\<lparr>drives := (drives s)[i := f (drives s ! i)]\<rparr>"

text \<open>Word \<open>i\<close> of the answer and those behind it, while the device has data.\<close>

fun read_packet ::
  "devices \<Rightarrow> u16 \<Rightarrow> u16 \<Rightarrow> nat \<Rightarrow> nat \<Rightarrow> u8 \<Rightarrow> u8 list \<Rightarrow> io_trace \<Rightarrow> u8 list \<times> io_trace" where
  "read_packet dv base ctrl i 0 status buf t = (buf, t)"
| "read_packet dv base ctrl i (Suc n) status buf t =
     (if status AND ATA_SR_DRQ \<noteq> 0
      then let (w, t) = in_word dv (base + ATA_REG_DATA) t;
               v = ucast w :: u16;
               buf = buf[i := ucast (v AND 0xFF), i + 1 := ucast (drop_bit 8 v)];
               (status, t) = alt_status dv ctrl t
           in read_packet dv base ctrl (i + 2) n status buf t
      else (buf, t))"

definition drive_type_of :: "u8 \<Rightarrow> u8 \<Rightarrow> ATA_DriveType" where
  "drive_type_of sig_low sig_high =
     (if sig_low = 0 \<and> sig_high = 0 then ATA_TYPE_PATA
      else if sig_low = 0x14 \<and> sig_high = 0xEB then ATA_TYPE_PATAPI
      else if sig_low = 0x69 \<and> sig_high = 0x96 then ATA_TYPE_SATAPI
      else if sig_low = 0x3C \<and> sig_high = 0xC3 then ATA_TYPE_SATA
      else ATA_TYPE_UNKOWN)"

text \<open>What is taken from the answer: the size, and the model with the bytes of each word swapped.\<close>

definition model_of :: "u8 list \<Rightarrow> u8 list" where
  "model_of buf =
     concat (map (\<lambda>i. [buf ! (ATA_IDEN_MODEL + 2 * i + 1), buf ! (ATA_IDEN_MODEL + 2 * i)]) [0..<20]) @ [0]"

definition identify :: "u8 list \<Rightarrow> ATA_Drive \<Rightarrow> ATA_Drive" where
  "identify buf drive =
     (let supported = le16 buf ATA_IDEN_FEATURES AND push_bit 10 1 \<noteq> 0;
          drive = drive\<lparr>lba_48_supported := supported\<rparr>;
          drive = (if supported
                   then let drive = drive\<lparr>drv_size := le64 buf ATA_IDEN_SIZE_48\<rparr>
                        in if drv_size drive = 0 then drive\<lparr>lba_48_supported := False\<rparr> else drive
                   else drive);
          drive = (if \<not> lba_48_supported drive
                   then drive\<lparr>drv_size := ucast (le32 buf ATA_IDEN_SIZE_28)\<rparr> else drive)
      in drive\<lparr>drv_model := model_of buf\<rparr>)"

definition identify_command :: "devices \<Rightarrow> u16 \<Rightarrow> io_trace \<Rightarrow> io_trace" where
  "identify_command dv base t =
     (let t = out_byte (base + ATA_REG_SECCOUNT0) 0 t;
          t = out_byte (base + ATA_REG_LBA0) 0 t;
          t = out_byte (base + ATA_REG_LBA1) 0 t;
          t = out_byte (base + ATA_REG_LBA2) 0 t
      in out_byte (base + ATA_REG_COMMAND) ATA_CMD_IDENTIFY t)"

definition initialize_drive :: "devices \<Rightarrow> nat \<Rightarrow> ide \<Rightarrow> ide option" where
  "initialize_drive dv i s =
     (let ch = channels s ! drv_channel (drives s ! i);
          base = chan_base ch; ctrl = chan_ctrl ch;
          s = select_device dv i (set_drive i (drv_present_update (\<lambda>_. False)) s);
          (status, t) = alt_status dv ctrl (identify_command dv base (ide_io s));
          s = s\<lparr>ide_io := t\<rparr>
      in if status = 0 then Some s
         else let s = set_drive i (drv_present_update (\<lambda>_. True)) s
              in case poll dv ctrl (\<lambda>status. status AND ATA_SR_BSY \<noteq> 0) status (ide_io s) of
                   None \<Rightarrow> None
                 | Some (status, t) \<Rightarrow>
                     let (sig_low, t) = in_byte dv (base + ATA_REG_LBA1) t;
                         (sig_high, t) = in_byte dv (base + ATA_REG_LBA2) t;
                         typ = drive_type_of sig_low sig_high;
                         s = set_drive i (drv_type_update (\<lambda>_. typ)) (s\<lparr>ide_io := t\<rparr>)
                     in if typ \<noteq> ATA_TYPE_PATA
                        then Some (set_drive i (\<lambda>d. d\<lparr>lba_48_supported := False, drv_size := 0, drv_present := False\<rparr>) s)
                        else case poll dv ctrl (\<lambda>status. status AND ATA_SR_DRQ = 0 \<and> status AND ATA_SR_ERR = 0)
                                    status (ide_io s) of
                               None \<Rightarrow> None
                             | Some (status, t) \<Rightarrow>
                                 if status AND ATA_SR_ERR \<noteq> 0 then Some (s\<lparr>ide_io := t\<rparr>)
                                 else let (buf, t) = read_packet dv base ctrl 0 256 status (ide_buffer s) t
                                      in Some (set_drive i (identify buf) (s\<lparr>ide_buffer := buf, ide_io := t\<rparr>)))"

section \<open>Initialisation\<close>

definition initialize_channels :: "devices \<Rightarrow> memory \<Rightarrow> addr \<Rightarrow> ide \<Rightarrow> ide" where
  "initialize_channels dv m dev s =
     (let (v, t) = pci_dev_read_config_reg dv m dev 0x9 (ide_io s);
          prog_if = ucast v :: u8;
          c0 = \<lparr>selected_dev = 0xFF, chan_base = 0x1F0, chan_ctrl = 0x3F6\<rparr>;
          c1 = \<lparr>selected_dev = 0xFF, chan_base = 0x170, chan_ctrl = 0x376\<rparr>;
          (c0, t) = (if prog_if AND 0x1 \<noteq> 0
                     then let (b, t) = pci_dev_read_config_reg dv m dev 0x10 t;
                              (c, t) = pci_dev_read_config_reg dv m dev 0x14 t
                          in (c0\<lparr>chan_base := ucast b, chan_ctrl := ucast c\<rparr>, t)
                     else (c0, t));
          (c1, t) = (if prog_if AND 0x4 \<noteq> 0
                     then let (b, t) = pci_dev_read_config_reg dv m dev 0x18 t;
                              (c, t) = pci_dev_read_config_reg dv m dev 0x1C t
                          in (c1\<lparr>chan_base := ucast b, chan_ctrl := ucast c\<rparr>, t)
                     else (c1, t))
      in s\<lparr>channels := [c0, c1], ide_io := t\<rparr>)"

fun drives_loop :: "devices \<Rightarrow> (nat \<times> nat) list \<Rightarrow> ide \<Rightarrow> ide option" where
  "drives_loop dv [] s = Some s"
| "drives_loop dv ((c, d) # cds) s =
     (case initialize_drive dv (2 * c + d)
             (set_drive (2 * c + d) (\<lambda>x. x\<lparr>drv_channel := c, drv_drive := d\<rparr>) s) of
        None \<Rightarrow> None | Some s \<Rightarrow> drives_loop dv cds s)"

definition initialize_drives :: "devices \<Rightarrow> ide \<Rightarrow> ide option" where
  "initialize_drives dv s =
     drives_loop dv [(0, 0), (0, 1), (1, 0), (1, 1)]
       (fold (\<lambda>i. set_drive i (\<lambda>d. d\<lparr>read_function := i\<rparr>)) [0..<4] s)"

definition ide_get_drive :: "ide \<Rightarrow> nat \<Rightarrow> nat option" where
  "ide_get_drive s i = (if drv_present (drives s ! i) then Some i else None)"

definition ide_initialize :: "devices \<Rightarrow> memory \<Rightarrow> addr \<Rightarrow> ide \<Rightarrow> ide option" where
  "ide_initialize dv m dev s =
     (case pci_device_at m dev of
        (bus, device, func, class_code, subclass_code) \<Rightarrow>
          if class_code \<noteq> 0x01 \<or> subclass_code \<noteq> 0x01 then Some s
          else initialize_drives dv (initialize_channels dv m dev s))"

section \<open>pci_initialize\<close>

partial_function (option) start_devices :: "devices \<Rightarrow> memory \<Rightarrow> addr \<Rightarrow> ide \<Rightarrow> ide option" where
  "start_devices dv m curr_dev s =
     (if curr_dev \<noteq> 0
      then let dev = list_value m curr_dev
           in case (if m (dev + 3) = 0x01 \<and> m (dev + 4) = 0x01 then ide_initialize dv m dev s else Some s) of
                None \<Rightarrow> None | Some s \<Rightarrow> start_devices dv m (list_next m curr_dev) s
      else Some s)"

text \<open>
  \<open>config_method_1\<close> is set from the boot data and looked at only for a message; \<open>depth\<close> is how deep
  the scan may go.
\<close>

definition pci_initialize ::
  "devices \<Rightarrow> nat \<Rightarrow> bool \<Rightarrow> u8 \<Rightarrow> pci \<Rightarrow> ide \<Rightarrow> (pci_panic + bool \<times> pci \<times> ide) option" where
  "pci_initialize dv depth v2_installed flags p s =
     (let config_method_1 = v2_installed \<and> flags AND 0x1 \<noteq> 0
      in case scan_bus dv depth 0 p of
           None \<Rightarrow> None
         | Some (Inl e) \<Rightarrow> Some (Inl e)
         | Some (Inr p) \<Rightarrow>
             case start_devices dv (hmem (pci_heap p)) (device_list p) (s\<lparr>ide_io := pci_io p\<rparr>) of
               None \<Rightarrow> None
             | Some s \<Rightarrow> Some (Inr (config_method_1, p\<lparr>pci_io := ide_io s\<rparr>, s)))"

end
