(* ===== verification/IdeProperties.thy ===== *)
theory IdeProperties
  imports Ide FatReadFile
begin

text \<open>
  What the IDE driver relies on, as a contract over the port trace, and that it reads exactly the
  sectors asked for, or those before the first bad one. A file read through the file system and
  this driver gives the bytes on the disk.
\<close>

section \<open>The drive's contract\<close>

text \<open>The last value written to a port, and the last read command with the words read since.\<close>

primrec reg_value :: "u16 \<Rightarrow> io_trace \<Rightarrow> u8" where
  "reg_value p [] = 0"
| "reg_value p (e # t) = (case e of Out_byte q v \<Rightarrow> if q = p then v else reg_value p t | _ \<Rightarrow> reg_value p t)"

primrec read_progress :: "u16 \<Rightarrow> io_trace \<Rightarrow> (io_trace \<times> nat) option" where
  "read_progress base [] = None"
| "read_progress base (e # t) =
     (case e of
        Out_byte q v \<Rightarrow>
          if q = base + ATA_REG_COMMAND then (if v = ATA_CMD_READ_PIO then Some (t, 0) else None)
          else read_progress base t
      | In_word q \<Rightarrow>
          if q = base + ATA_REG_DATA then map_option (\<lambda>(c, w). (c, Suc w)) (read_progress base t)
          else read_progress base t
      | _ \<Rightarrow> read_progress base t)"

text \<open>The drive, the first sector and the number of sectors of a command; 0 stands for 256.\<close>

definition cmd_slave :: "u16 \<Rightarrow> io_trace \<Rightarrow> bool" where
  "cmd_slave base c = bit (reg_value (base + ATA_REG_HDDEVSEL) c) 4"

definition cmd_lba_mode :: "u16 \<Rightarrow> io_trace \<Rightarrow> bool" where
  "cmd_lba_mode base c = bit (reg_value (base + ATA_REG_HDDEVSEL) c) 6"

definition cmd_lba :: "u16 \<Rightarrow> io_trace \<Rightarrow> nat" where
  "cmd_lba base c =
     unat (reg_value (base + ATA_REG_LBA0) c) + 2 ^ 8 * unat (reg_value (base + ATA_REG_LBA1) c) +
     2 ^ 16 * unat (reg_value (base + ATA_REG_LBA2) c) +
     2 ^ 24 * unat (reg_value (base + ATA_REG_HDDEVSEL) c AND 0x0F)"

definition cmd_count :: "u16 \<Rightarrow> io_trace \<Rightarrow> nat" where
  "cmd_count base c =
     (let n = unat (reg_value (base + ATA_REG_SECCOUNT0) c) in if n = 0 then 256 else n)"

definition status_at :: "devices \<Rightarrow> u16 \<Rightarrow> io_trace \<Rightarrow> u8" where
  "status_at dv ctrl t = ucast (dv (In_byte ctrl) t)"

definition sector_word :: "u8 list \<Rightarrow> nat \<Rightarrow> u16" where
  "sector_word bs i = le16 bs (2 * i)"

definition failed :: "u8 \<Rightarrow> bool" where
  "failed status \<longleftrightarrow> status AND ATA_SR_ERR \<noteq> 0 \<or> status AND ATA_SR_DF \<noteq> 0"

text \<open>
  A drive that answers PIO reads. It does not stay busy for ever. After a read command for it, with
  \<open>w\<close> words of its sectors still to come, it has an answer in the end: an error exactly for a bad
  sector. The words of a good sector are those on the disk, once the status said so.
\<close>

definition ata_drive ::
  "devices \<Rightarrow> u16 \<Rightarrow> u16 \<Rightarrow> bool \<Rightarrow> nat \<Rightarrow> (nat \<Rightarrow> bool) \<Rightarrow> (nat \<Rightarrow> u8 list) \<Rightarrow> bool" where
  "ata_drive dv base ctrl slave limit good sector \<longleftrightarrow>
     (\<forall>n. length (sector n) = 512) \<and>
     (\<forall>t. \<exists>k. status_at dv ctrl (replicate k (In_byte ctrl) @ t) AND ATA_SR_BSY = 0) \<and>
     (\<forall>t c w n. read_progress base t = Some (c, w) \<and> cmd_slave base c = slave \<and> cmd_lba_mode base c \<and>
        n = cmd_lba base c + w div 256 \<and> w < 256 * cmd_count base c \<and> n < limit \<longrightarrow>
        (w mod 256 = 0 \<longrightarrow>
           (\<exists>k. \<not> sector_pending (status_at dv ctrl (replicate k (In_byte ctrl) @ t))) \<and>
           (\<not> sector_pending (status_at dv ctrl t) \<longrightarrow> (failed (status_at dv ctrl t) \<longleftrightarrow> \<not> good n))) \<and>
        (good n \<and> (w mod 256 = 0 \<longrightarrow>
             (\<exists>t'. t = In_byte ctrl # t' \<and> \<not> sector_pending (status_at dv ctrl t'))) \<longrightarrow>
           ucast (dv (In_word base) t) = sector_word (sector n) (w mod 256)))"

lemma ata_simps [simp]: "base + ATA_REG_DATA = base" "ctrl + ATA_REG_ALTSTATUS = ctrl"
  by (simp_all add: ATA_REG_DATA_def ATA_REG_ALTSTATUS_def)

lemma alt_status_eq: "alt_status dv ctrl t = (status_at dv ctrl t, In_byte ctrl # t)"
  by (simp add: alt_status_def in_byte_def status_at_def)

lemma progress_polls [simp]: "read_progress base (replicate k (In_byte ctrl) @ t) = read_progress base t"
  by (induction k) simp_all

section \<open>Polling\<close>

text \<open>A poll of a status that changes in the end returns, after nothing but reads of the status.\<close>

lemma poll_returns:
  assumes "\<not> goes_on (status_at dv ctrl (replicate k (In_byte ctrl) @ t))"
  shows "\<exists>j. poll dv ctrl goes_on (status_at dv ctrl t) (In_byte ctrl # t) =
      Some (status_at dv ctrl (replicate j (In_byte ctrl) @ t), In_byte ctrl # replicate j (In_byte ctrl) @ t) \<and>
    \<not> goes_on (status_at dv ctrl (replicate j (In_byte ctrl) @ t))"
  using assms
proof (induction k arbitrary: t)
  case 0
  then show ?case by (intro exI [of _ 0]) (subst poll.simps, simp)
next
  case (Suc k)
  show ?case
  proof (cases "goes_on (status_at dv ctrl t)")
    case False
    then show ?thesis by (intro exI [of _ 0]) (subst poll.simps, simp)
  next
    case True
    let ?t = "In_byte ctrl # t"
    have r: "replicate j (In_byte ctrl) @ ?t = replicate (Suc j) (In_byte ctrl) @ t" for j
      by (simp add: replicate_app_Cons_same)
    have "\<not> goes_on (status_at dv ctrl (replicate k (In_byte ctrl) @ ?t))"
      using Suc.prems unfolding r .
    from Suc.IH [OF this] obtain j where
      "poll dv ctrl goes_on (status_at dv ctrl ?t) (In_byte ctrl # ?t) =
        Some (status_at dv ctrl (replicate j (In_byte ctrl) @ ?t), In_byte ctrl # replicate j (In_byte ctrl) @ ?t)"
      "\<not> goes_on (status_at dv ctrl (replicate j (In_byte ctrl) @ ?t))"
      by blast
    then show ?thesis using True unfolding r
      by (intro exI [of _ "Suc j"]) (subst poll.simps, simp add: alt_status_eq)
  qed
qed

lemma wait_dev_nbsy_returns:
  assumes "ata_drive dv base (chan_ctrl ch) slave limit good sector"
  obtains k where "wait_dev_nbsy dv ch t = Some (replicate k (In_byte (chan_ctrl ch)) @ t)"
proof -
  obtain k where "status_at dv (chan_ctrl ch) (replicate k (In_byte (chan_ctrl ch)) @ t) AND ATA_SR_BSY = 0"
    using assms unfolding ata_drive_def by blast
  then have "\<exists>j. wait_dev_nbsy dv ch t = Some (replicate (Suc j) (In_byte (chan_ctrl ch)) @ t)"
    using poll_returns [of "\<lambda>s. s AND ATA_SR_BSY \<noteq> 0" dv "chan_ctrl ch" k t]
    by (auto simp: wait_dev_nbsy_def alt_status_eq)
  then show thesis using that by blast
qed

lemma waste_time_eq: "waste_time dv ctrl t = replicate 14 (In_byte ctrl) @ t"
proof -
  have "((\<lambda>t. snd (alt_status dv ctrl t)) ^^ n) t = replicate n (In_byte ctrl) @ t" for n
    by (induction n) (simp_all add: alt_status_eq)
  then show ?thesis by (simp only: waste_time_def)
qed

section \<open>The words of a sector\<close>

lemma word_bytes16:
  assumes "2 * i + 1 < length bs"
  shows "(ucast (sector_word bs i) :: u8) = bs ! (2 * i)"
    and "(ucast (drop_bit 8 (sector_word bs i)) :: u8) = bs ! (2 * i + 1)"
  by (rule bit_word_eqI; auto simp: sector_word_def le16_def bit_simps dest: bit_imp_le_length)+

lemma word16_again [simp]: "(ucast (ucast (x :: u16) :: u32) :: u16) = x"
  by (rule bit_word_eqI) (simp add: bit_simps)

text \<open>The command \<open>c\<close> reads at least \<open>count\<close> sectors from \<open>lba\<close> on, all of them on the drive.\<close>

definition reads_from :: "u16 \<Rightarrow> bool \<Rightarrow> nat \<Rightarrow> io_trace \<Rightarrow> nat \<Rightarrow> nat \<Rightarrow> bool" where
  "reads_from base slave limit c lba count \<longleftrightarrow> cmd_slave base c = slave \<and> cmd_lba_mode base c \<and>
     cmd_lba base c = lba \<and> count \<le> cmd_count base c \<and> lba + count \<le> limit"

lemma ata_drive_answers:
  assumes "ata_drive dv base ctrl slave limit good sector" "reads_from base slave limit c lba count"
    and "read_progress base t = Some (c, 256 * s)" "s < count"
  shows "\<exists>k. \<not> sector_pending (status_at dv ctrl (replicate k (In_byte ctrl) @ t))"
    and "\<not> sector_pending (status_at dv ctrl t) \<Longrightarrow> failed (status_at dv ctrl t) \<longleftrightarrow> \<not> good (lba + s)"
proof -
  have "lba + s < limit" "256 * s < 256 * cmd_count base c" using assms(2,4) by (auto simp: reads_from_def)
  with assms show "\<exists>k. \<not> sector_pending (status_at dv ctrl (replicate k (In_byte ctrl) @ t))"
    and "\<not> sector_pending (status_at dv ctrl t) \<Longrightarrow> failed (status_at dv ctrl t) \<longleftrightarrow> \<not> good (lba + s)"
    unfolding ata_drive_def reads_from_def by (metis mod_mult_self1_is_0 nonzero_mult_div_cancel_left zero_neq_numeral)+
qed

lemma ata_drive_word:
  assumes "ata_drive dv base ctrl slave limit good sector" "reads_from base slave limit c lba count"
    and "read_progress base t = Some (c, 256 * s + i)" "s < count" "i < 256" "good (lba + s)"
    and "i = 0 \<Longrightarrow> \<exists>t'. t = In_byte ctrl # t' \<and> \<not> sector_pending (status_at dv ctrl t')"
  shows "ucast (dv (In_word base) t) = sector_word (sector (lba + s)) i"
proof -
  have "(256 * s + i) div 256 = s" "(256 * s + i) mod 256 = i" using assms(5) by simp_all
  moreover have "256 * s + i < 256 * cmd_count base c"
  proof -
    have "s + 1 \<le> cmd_count base c" using assms(2,4) by (auto simp: reads_from_def)
    then have "256 * (s + 1) \<le> 256 * cmd_count base c" by (rule mult_le_mono2)
    with assms(5) show ?thesis by simp
  qed
  moreover have "lba + s < limit" using assms(2,4) by (auto simp: reads_from_def)
  ultimately show ?thesis
    using assms unfolding ata_drive_def reads_from_def by metis
qed

lemma read_words_sector:
  assumes "ata_drive dv base ctrl slave limit good sector" "reads_from base slave limit c lba count"
    and "s < count" "good (lba + s)"
    and "read_progress base t = Some (c, 256 * s + i)" "i + m = 256"
    and "i = 0 \<Longrightarrow> \<exists>t'. t = In_byte ctrl # t' \<and> \<not> sector_pending (status_at dv ctrl t')"
  shows "\<exists>t'. read_words dv base m t = (drop (2 * i) (sector (lba + s)), t') \<and>
    read_progress base t' = Some (c, 256 * s + 256)"
  using assms(5-7)
proof (induction m arbitrary: t i)
  case 0
  have "length (sector (lba + s)) = 512" using assms(1) by (simp add: ata_drive_def)
  then show ?case using 0 by simp
next
  case (Suc m)
  let ?bs = "sector (lba + s)"
  have len: "length ?bs = 512" using assms(1) by (simp add: ata_drive_def)
  have i: "i < 256" using Suc.prems(2) by simp
  have v: "ucast (dv (In_word base) t) = sector_word ?bs i"
    by (rule ata_drive_word [OF assms(1,2) Suc.prems(1) assms(3) i assms(4) Suc.prems(3)])
  have "\<exists>t'. read_words dv base m (In_word base # t) = (drop (2 * Suc i) ?bs, t') \<and>
      read_progress base t' = Some (c, 256 * s + 256)"
    using Suc.prems by (intro Suc.IH) simp_all
  moreover have "drop (2 * i) ?bs = ?bs ! (2 * i) # ?bs ! (2 * i + 1) # drop (2 * Suc i) ?bs"
    using len i by (simp add: Cons_nth_drop_Suc)
  ultimately show ?case
    using word_bytes16 [of i ?bs] v len i by (auto simp: in_word_def Let_def)
qed


section \<open>read_sectors\<close>

text \<open>The good sectors in front of the first bad one.\<close>

definition good_run :: "(nat \<Rightarrow> bool) \<Rightarrow> nat \<Rightarrow> nat \<Rightarrow> nat list" where
  "good_run good lba n = takeWhile good [lba..<lba + n]"

lemma good_run_Suc:
  "good_run good lba (Suc n) = (if good lba then lba # good_run good (Suc lba) n else [])"
proof -
  have "[lba..<lba + Suc n] = lba # [Suc lba..<Suc lba + n]"
    by (simp add: upt_conv_Cons del: upt_Suc)
  then show ?thesis by (simp add: good_run_def del: upt_Suc)
qed

lemma read_loop_sectors:
  assumes "ata_drive dv base (chan_ctrl ch) slave limit good sector" "chan_base ch = base"
    and "reads_from base slave limit c lba (s + n)" "read_progress base t = Some (c, 256 * s)"
  shows "\<exists>t'. read_loop dv junk ch s n bs t =
    Some (if length (good_run good (lba + s) n) = n then junk else int (s + length (good_run good (lba + s) n)),
          bs @ concat (map sector (good_run good (lba + s) n)), t')"
  using assms(3,4)
proof (induction n arbitrary: s bs t)
  case 0
  then show ?case by (simp add: good_run_def)
next
  case (Suc n)
  let ?ctrl = "chan_ctrl ch"
  note answers = ata_drive_answers [OF assms(1) Suc.prems(1)]
  obtain k where "\<not> sector_pending (status_at dv ?ctrl (replicate k (In_byte ?ctrl) @ t))"
    using answers(1) [OF Suc.prems(2)] by auto
  from poll_returns [of sector_pending, OF this] obtain t1 where
    p: "poll dv ?ctrl sector_pending (status_at dv ?ctrl t) (In_byte ?ctrl # t) =
        Some (status_at dv ?ctrl t1, In_byte ?ctrl # t1)" "\<not> sector_pending (status_at dv ?ctrl t1)"
      "read_progress base t1 = Some (c, 256 * s)"
    using Suc.prems(2) by (metis progress_polls)
  have f: "failed (status_at dv ?ctrl t1) \<longleftrightarrow> \<not> good (lba + s)"
    using answers(2) [OF p(3) _ p(2)] by simp
  show ?case
  proof (cases "good (lba + s)")
    case False
    then show ?thesis using p(1) f by (simp add: alt_status_eq good_run_Suc failed_def)
  next
    case True
    have "\<exists>t'. read_words dv base 256 (In_byte ?ctrl # t1) = (drop (2 * 0) (sector (lba + s)), t') \<and>
        read_progress base t' = Some (c, 256 * s + 256)"
      by (rule read_words_sector [OF assms(1) Suc.prems(1) _ True]) (use p in simp_all)
    then obtain t2 where w: "read_words dv base 256 (In_byte ?ctrl # t1) = (sector (lba + s), t2)"
        "read_progress base t2 = Some (c, 256 * Suc s)" by auto
    have "\<exists>t'. read_loop dv junk ch (Suc s) n (bs @ sector (lba + s)) (waste_time dv ?ctrl t2) =
      Some (if length (good_run good (lba + Suc s) n) = n then junk
            else int (Suc s + length (good_run good (lba + Suc s) n)),
            (bs @ sector (lba + s)) @ concat (map sector (good_run good (lba + Suc s) n)), t')"
      using Suc.prems(1) w(2) by (intro Suc.IH) (simp_all only: waste_time_eq progress_polls, simp_all)
    then show ?thesis using p(1) f True w(1) assms(2)
      by (elim exE) (simp add: alt_status_eq good_run_Suc failed_def)
  qed
qed

section \<open>The command\<close>

lemma unat_lba_bytes:
  assumes "unat (lba :: u32) < 2 ^ 28"
  shows "unat (ucast lba :: u8) + 2 ^ 8 * unat (ucast (drop_bit 8 lba) :: u8) +
    2 ^ 16 * unat (ucast (drop_bit 16 lba) :: u8) + 2 ^ 24 * unat (ucast (drop_bit 24 lba) :: u8) = unat lba"
proof -
  define n where "n = unat lba"
  define q1 q2 q3 where q: "q1 = n div 256" "q2 = q1 div 256" "q3 = q2 div 256"
  have d: "n div 65536 = q2" "n div 16777216 = q3" by (simp_all add: q div_mult2_eq [symmetric])
  have "unat (ucast lba :: u8) = n mod 256" "unat (ucast (drop_bit 8 lba) :: u8) = q1 mod 256"
    "unat (ucast (drop_bit 16 lba) :: u8) = q2 mod 256" "unat (ucast (drop_bit 24 lba) :: u8) = q3 mod 256"
    by (simp_all add: d [symmetric] q(1) n_def unsigned_ucast_eq unsigned_take_bit_eq take_bit_eq_mod
        unsigned_drop_bit_eq drop_bit_eq_div unat_div)
  moreover have "q3 mod 256 = q3" using assms by (simp add: d(2) [symmetric] n_def)
  moreover have "n = 256 * q1 + n mod 256" "q1 = 256 * q2 + q1 mod 256" "q2 = 256 * q3 + q2 mod 256"
    by (simp_all add: q)
  ultimately obtain a b c e where
    "unat (ucast lba :: u8) = a" "unat (ucast (drop_bit 8 lba) :: u8) = b"
    "unat (ucast (drop_bit 16 lba) :: u8) = c" "unat (ucast (drop_bit 24 lba) :: u8) = e"
    "n = a + 256 * (b + 256 * (c + 256 * e))"
    by (metis add.commute)
  then show ?thesis unfolding n_def by simp
qed

lemma drive_select_bits:
  fixes lba :: u32 and slave :: bool
  defines "sel \<equiv> (ucast ((0xE0 OR push_bit 4 (of_bool slave :: u32)) OR (drop_bit 24 lba AND 0x0F)) :: u8)"
  assumes "unat lba < 2 ^ 28"
  shows "bit sel 4 = slave" "bit sel 6" "sel AND 0x0F = ucast (drop_bit 24 lba)"
proof -
  have m: "(0xE0 :: u32) = push_bit 5 (mask 3)" "(0x0F :: u32) = mask 4" "(0x0F :: u8) = mask 4"
    by (simp_all add: mask_eq_exp_minus_1 push_bit_eq_mult)
  have hi: "n < 28" if "bit lba n" for n
    using assms(2) that by (metis bit_take_bit_iff less_mask_eq linorder_not_less take_bit_nat_eq_self_iff unsigned_take_bit_eq word_unat_eq_iff)
  show "bit sel 4 = slave" "bit sel 6" unfolding sel_def m by (auto simp: bit_simps)
  show "sel AND 0x0F = ucast (drop_bit 24 lba)" unfolding sel_def m
    by (rule bit_word_eqI) (auto simp: bit_simps dest: hi)
qed


lemma reg_value_polls [simp]: "reg_value p (replicate k (In_byte ctrl) @ t) = reg_value p t"
  by (induction k) simp_all

lemmas ata_regs = ATA_REG_SECCOUNT0_def ATA_REG_LBA0_def ATA_REG_LBA1_def ATA_REG_LBA2_def
  ATA_REG_HDDEVSEL_def ATA_REG_COMMAND_def

lemma read_sectors_good_run:
  assumes "ata_drive dv base ctrl slave limit good sector"
    and "chs ! drv_channel d = \<lparr>selected_dev = sel, chan_base = base, chan_ctrl = ctrl\<rparr>"
    and "drv_present d" "drv_drive d = of_bool slave"
    and "unat lba < 2 ^ 28" "unat lba + unat sectors \<le> limit"
  shows "\<exists>t'. ide_read_sectors dv junk chs sectors lba d t =
    Some (let ns = good_run good (unat lba) (unat sectors)
          in (if length ns = unat sectors then junk else int (length ns), concat (map sector ns), t'))"
proof -
  let ?ch = "\<lparr>selected_dev = sel, chan_base = base, chan_ctrl = ctrl\<rparr>"
  let ?sel = "ucast ((0xE0 OR push_bit 4 (of_bool slave :: u32)) OR (drop_bit 24 lba AND 0x0F)) :: u8"
  note bits = drive_select_bits [OF assms(5), of slave]
  define t0 where "t0 = Out_byte (base + 5) (ucast (drop_bit 16 lba)) # Out_byte (base + 4) (ucast (drop_bit 8 lba)) #
    Out_byte (base + 3) (ucast lba) # Out_byte (base + 2) sectors # Out_byte (base + 6) ?sel # t"
  obtain k where k: "wait_dev_nbsy dv ?ch t0 = Some (replicate k (In_byte ctrl) @ t0)"
    by (rule wait_dev_nbsy_returns [where ch = ?ch and t = t0]) (use assms(1) in simp_all)
  let ?c = "replicate k (In_byte ctrl) @ t0"
  have big: "\<not> lba > 0x0FFFFFFF" using assms(5) by (simp add: word_less_nat_alt)
  have "reads_from base slave limit ?c (unat lba) (unat sectors)"
    using bits unat_lba_bytes [OF assms(5)] assms(6)
    by (simp add: reads_from_def cmd_slave_def cmd_lba_mode_def cmd_lba_def cmd_count_def t0_def ata_regs Let_def)
  then have "\<exists>t'. read_loop dv junk ?ch 0 (unat sectors) [] (Out_byte (base + 7) 0x20 # ?c) =
      Some (if length (good_run good (unat lba + 0) (unat sectors)) = unat sectors then junk
            else int (0 + length (good_run good (unat lba + 0) (unat sectors))),
        [] @ concat (map sector (good_run good (unat lba + 0) (unat sectors))), t')"
    by (intro read_loop_sectors [where base = base and c = ?c])
      (use assms(1) in \<open>simp_all add: ATA_REG_COMMAND_def ATA_CMD_READ_PIO_def\<close>)
  then show ?thesis
    using k big assms(2-4)
    by (auto simp: ide_read_sectors_def out_byte_def ata_regs ATA_CMD_READ_PIO_def t0_def Let_def)
qed

end
