(* ===== verification/Mount.thy ===== *)
theory Mount
  imports Disk FatDir
begin

text \<open>
  \<open>fat_initialize\<close> of \<open>fat.c\<close>: the partitions are tried in the order of the list of \<open>disk.c\<close>
  until one is mounted. \<open>None\<close> is a division by zero in a boot record or a list without end.
\<close>

partial_function (option) mount_loop :: "'h drive_read \<Rightarrow> addr \<Rightarrow> 'h fat \<Rightarrow> 'h fat option" where
  "mount_loop rs partition_node st =
     (if partition_node \<noteq> 0 \<and> fat_partition st = 0
      then case fat_init_partition rs (list_value (fat_mem st) partition_node) st of
             None \<Rightarrow> None
           | Some st \<Rightarrow> mount_loop rs (list_next (fat_mem st) partition_node) st
      else Some st)"

definition fat_initialize :: "'h drive_read \<Rightarrow> addr \<Rightarrow> 'h fat \<Rightarrow> 'h fat option" where
  "fat_initialize rs partition_list st = mount_loop rs partition_list st"

end
