(* ===== verification/HeapRoom.thy ===== *)
theory HeapRoom
  imports LinkedList
begin

text \<open>
  When \<open>malloc\<close> succeeds: a run of free bytes long enough for the object, its header and the
  alignment is enough, and an allocation shortens no run by more than that.
\<close>

definition room :: "addr set \<Rightarrow> nat \<Rightarrow> bool" where
  "room F k \<longleftrightarrow> (\<exists>a. unat a + k < 2 ^ 32 \<and> region a k \<subseteq> F)"

lemma room_0: "room F 0"
  by (auto simp: room_def intro: exI [of _ 0])

lemma room_mono:
  assumes "room F k" "j \<le> k" shows "room F j"
proof -
  obtain a where a: "unat a + k < 2 ^ 32" "region a k \<subseteq> F" using assms(1) by (auto simp: room_def)
  then have "unat a + j < 2 ^ 32" "region a j \<subseteq> F" using assms(2) region_mono [OF assms(2), of a] by auto
  then show ?thesis by (auto simp: room_def)
qed

text \<open>A run of free bytes lies in one node, because free nodes never touch.\<close>

lemma run_in_node:
  assumes "wf_from lo xs" "0 < k" "{a..<a + k} \<subseteq> free_bytes xs"
  shows "\<exists>b s. (b, s) \<in> set xs \<and> b \<le> a \<and> a + k \<le> b + s"
  using assms(1,3)
proof (induction xs arbitrary: lo)
  case Nil
  then show ?case using assms(2) by (auto simp: free_bytes_def)
next
  case (Cons x xs)
  obtain b s where x: "x = (b, s)" by fastforce
  have wf: "wf_from (b + s) xs" using Cons.prems(1) by (simp add: x)
  have above: "y \<in> free_bytes xs \<Longrightarrow> b + s < y" for y using free_bytes_bounds [OF wf] by auto
  have sub: "y \<in> {b..<b + s} \<or> y \<in> free_bytes xs" if "a \<le> y" "y < a + k" for y
    using Cons.prems(2) that by (auto simp: x)
  show ?case
  proof (cases "a < b + s")
    case True
    then have ab: "b \<le> a" using sub [of a] above [of a] assms(2) by auto
    have "a + k \<le> b + s"
    proof (rule ccontr)
      assume "\<not> a + k \<le> b + s"
      then show False using sub [of "b + s"] above [of "b + s"] True by auto
    qed
    with ab show ?thesis by (auto simp: x)
  next
    case False
    have "{a..<a + k} \<subseteq> free_bytes xs" using sub False by fastforce
    from Cons.IH [OF wf this] show ?thesis by (auto simp: x)
  qed
qed

lemma room_run:
  assumes "room (free_region xs) k"
  obtains a where "a + k < 2 ^ 32" "{a..<a + k} \<subseteq> free_bytes xs"
proof -
  obtain a where a: "unat a + k < 2 ^ 32" "region a k \<subseteq> free_region xs" using assms by (auto simp: room_def)
  have "y \<in> free_bytes xs" if "unat a \<le> y" "y < unat a + k" for y
  proof -
    have y: "unat (of_nat y :: addr) = y" using that a(1) by (simp add: unat_of_nat take_bit_eq_mod)
    then have "of_nat y \<in> region a k" using that a(1) by (subst region_nat) simp_all
    then show ?thesis using a(2) y by (auto simp: free_region_def)
  qed
  then have "{unat a..<unat a + k} \<subseteq> free_bytes xs" by auto
  then show thesis using that a(1) by blast
qed

lemma roomI:
  assumes "a + k < 2 ^ 32" "\<And>y. a \<le> y \<Longrightarrow> y < a + k \<Longrightarrow> of_nat y \<in> F" shows "room F k"
proof -
  have u: "unat (of_nat a :: addr) = a" using assms(1) by (simp add: unat_of_nat take_bit_eq_mod)
  have "x \<in> F" if "x \<in> region (of_nat a) k" for x
  proof -
    have "a \<le> unat x" "unat x < a + k" using that assms(1) u by (simp_all add: region_nat)
    then show ?thesis using assms(2) [of "unat x"] by simp
  qed
  then have "region (of_nat a) k \<subseteq> F" by blast
  moreover have "unat (of_nat a :: addr) + k < 2 ^ 32" using u assms(1) by simp
  ultimately show ?thesis unfolding room_def by blast
qed

text \<open>Taking a block off one node leaves the rest of any run.\<close>

lemma room_take:
  assumes wf: "wf_from 0 xs" and r: "room (free_region xs) k" and b: "(unat a, s) \<in> set xs" "t \<le> s"
  shows "room (free_region xs - region a t) (k - t)"
proof (cases "t < k")
  case False
  then show ?thesis using room_0 by simp
next
  case True
  obtain q where q: "q + k < 2 ^ 32" "{q..<q + k} \<subseteq> free_bytes xs" using room_run [OF r] .
  obtain c u where c: "(c, u) \<in> set xs" "c \<le> q" "q + k \<le> c + u"
    using run_in_node [OF wf _ q(2)] True by auto
  have at: "unat a + t < 2 ^ 32" using wf_from_bounds [OF wf b(1)] b(2) by simp
  have free: "of_nat y \<in> free_region xs" if "q \<le> y" "y < q + k" for y
    using that q by (auto simp: free_region_def unat_of_nat take_bit_eq_mod)
  have apart: "(of_nat y :: addr) \<notin> region a t" if "unat a + t \<le> y \<or> y < unat a" "y < 2 ^ 32" for y
    using that at by (auto simp: region_nat unat_of_nat take_bit_eq_mod)
  show ?thesis
  proof (cases "c = unat a")
    case True
    show ?thesis
    proof (rule roomI [of "q + t"])
      show "q + t + (k - t) < 2 ^ 32" using q(1) \<open>t < k\<close> by simp
      fix y assume "q + t \<le> y" "y < q + t + (k - t)"
      then show "of_nat y \<in> free_region xs - region a t"
        using free [of y] apart [of y] c(2) True q(1) \<open>t < k\<close> by auto
    qed
  next
    case False
    then have "c + u < unat a \<or> unat a + s < c"
      using wf_from_apart [OF wf c(1) b(1)] wf_from_apart [OF wf b(1) c(1)] by linarith
    then have out: "unat a + t \<le> y \<or> y < unat a" if "q \<le> y" "y < q + k" for y
      using that c(2,3) b(2) by linarith
    show ?thesis
    proof (rule roomI [of q])
      show "q + (k - t) < 2 ^ 32" using q(1) by simp
      fix y assume y: "q \<le> y" "y < q + (k - t)"
      then have "y < q + k" by simp
      with free [of y] apart [of y] out [of y] y q(1) show "of_nat y \<in> free_region xs - region a t" by auto
    qed
  qed
qed

lemma node_offset_small: "unat (node_offset malloc_align_size a) \<le> 19"
proof -
  have "unat (a + 12) mod 8 < 8" by simp
  then show ?thesis
    using node_offset_bounds(3) [OF malloc_bounds, of a] by (simp add: malloc_align_size_def)
qed

lemma malloc_room:
  assumes h: "heap_ok h F" and r: "room F k" and n: "n \<noteq> 0" "unat n + 135 < 2 ^ 32" "unat n + 27 \<le> k"
  obtains p h' B where "malloc h n = Some (p, h')" "p \<noteq> 0" "B \<subseteq> F" "heap_ok h' (F - B)"
    "heap_owned (hmem h') p n B" "unchanged_outside F (hmem h) (hmem h')" "room (F - B) (k - (unat n + 27))"
proof -
  obtain xs where xs: "free_ok h xs" "F = free_region xs" using h by (auto simp: heap_ok_def)
  then have wf: "wf_from 0 xs" by (simp add: free_ok_def)
  obtain q where q: "{q..<q + k} \<subseteq> free_bytes xs" using room_run r xs(2) by metis
  then obtain c u where c: "(c, u) \<in> set xs" "k \<le> u" using run_in_node [OF wf _ q] n(3) by fastforce
  have "c < 2 ^ 32" using wf_from_bounds [OF wf c(1)] by simp
  then have uc: "unat (of_nat c :: addr) = c" by (simp add: unat_of_nat take_bit_eq_mod)
  have fit: "fits malloc_align_size n (c, u)"
    using fits_nat(1) [OF malloc_bounds n(2), of "of_nat c" u] uc node_offset_small [of "of_nat c"] n(3) c(2) by simp
  then obtain a s p h' where m: "(unat a, s) \<in> set xs" "fits malloc_align_size n (unat a, s)"
    "malloc h n = Some (p, h')" "p \<noteq> 0" "allocated_from h xs malloc_align_size n a s p h'"
    using aligned_alloc_correct [OF xs(1) n(1,2) malloc_bounds] c(1) unfolding malloc_def by blast
  let ?off = "node_offset malloc_align_size a"
  define t where "t = taken (unat n + unat ?off) s"
  have f: "unat n + unat ?off \<le> s" using fits_nat(1) [OF malloc_bounds n(2)] m(2) by simp
  then have t: "t = s \<or> t + 8 < s" "unat ?off + unat n \<le> t" "t \<le> s" "t \<le> unat n + 27"
    using node_offset_small [of a] by (auto simp: t_def taken_def)
  have ab: "0 < unat a" "unat a + t < 2 ^ 32" using wf_from_bounds [OF wf m(1)] t(3) by auto
  have alloc: "p = a + ?off" "free_ok h' (take_block (unat a) t xs)" "block_at (hmem h') p a t n"
    "unchanged_outside (free_region xs) (hmem h) (hmem h')"
    using m(5) by (auto simp: allocated_from_def Let_def t_def)
  note take = free_region_take [OF wf m(1) t(1)]
  have "heap_owned (hmem h') p n (region a t)"
    using alloc(1,3) t(2) ab node_offset_bounds(1) [OF malloc_bounds, of a]
    unfolding heap_owned_def by (intro exI [of _ a] exI [of _ ?off] exI [of _ t]) auto
  moreover have "heap_ok h' (F - region a t)" using alloc(2) take(1) xs(2) by (auto simp: heap_ok_def)
  moreover have "room (F - region a t) (k - (unat n + 27))"
    using room_mono [OF room_take [OF wf _ m(1) t(3)], of k] r xs(2) t(4) by simp
  ultimately show thesis using that [OF m(3,4)] take(2) alloc(4) xs(2) by blast
qed

text \<open>A list node: the cell is written with the value \<open>v\<close> and any link \<open>q\<close>.\<close>

lemma new_node_room:
  assumes l: "list_rep h head vs F U" and r: "room F k" "35 \<le> k"
  obtains c h1 B where "malloc h sizeof_ListNode = Some (c, h1)" "c \<noteq> 0" "B \<subseteq> F" "room (F - B) (k - 35)"
    "\<And>q m. m = set_list_next (set_list_value (hmem h1) c v) c q \<Longrightarrow>
       heap_ok (heap_write m h1) (F - B) \<and> chain heap_owned list_layout m c [[v]] q B \<and>
       chain heap_owned list_layout m head (map (\<lambda>v. [v]) vs) 0 U \<and> unchanged_outside F (hmem h) m"
proof -
  have ok: "heap_ok h F" "U \<inter> F = {}" using l by (simp_all add: list_rep_def)
  have n: "sizeof_ListNode \<noteq> 0" "unat sizeof_ListNode + 135 < 2 ^ 32" "unat sizeof_ListNode + 27 = 35"
    by (simp_all add: sizeof_ListNode_def)
  obtain c h1 B where al: "malloc h sizeof_ListNode = Some (c, h1)" "c \<noteq> 0" "B \<subseteq> F"
    "heap_ok h1 (F - B)" "heap_owned (hmem h1) c sizeof_ListNode B"
    "unchanged_outside F (hmem h) (hmem h1)" "room (F - B) (k - 35)"
    using malloc_room [OF ok(1) r(1) n(1,2)] n(3) r(2) by metis
  have c: "unat c + 8 < 2 ^ 32" "region c 8 \<subseteq> B"
    using heap_owned_region [OF al(5)] by (simp_all add: sizeof_ListNode_def)
  have sub: "region c 4 \<subseteq> region c 8" "region (c + 4) 4 \<subseteq> region c 8"
    using region_mono [of 4 8 c] region_sub [of 4 4 8 c] by auto
  have "heap_ok (heap_write m h1) (F - B) \<and> chain heap_owned list_layout m c [[v]] q B \<and>
      chain heap_owned list_layout m head (map (\<lambda>v. [v]) vs) 0 U \<and> unchanged_outside F (hmem h) m"
    if m: "m = set_list_next (set_list_value (hmem h1) c v) c q" for q m
  proof (intro conjI)
    have un: "unchanged_outside (region c 8) (hmem h1) m"
      unfolding m set_list_next_def set_list_value_def using sub by (intro unchanged_write32 unchanged_refl)
    show "heap_ok (heap_write m h1) (F - B)"
      by (rule kheap.write_block_ok [OF al(4) _ unchanged_mono [OF un c(2)]]) blast
    have "chain heap_owned list_layout (hmem h) head (map (\<lambda>v. [v]) vs) 0 U" using l by (simp add: list_rep_def)
    then show "chain heap_owned list_layout m head (map (\<lambda>v. [v]) vs) 0 U"
      using kheap.chain_frame [OF list_layout_ok _ al(6)] kheap.chain_frame [OF list_layout_ok _ un]
        ok(2) c(2) al(3) by blast
    have cell: "heap_owned m c 8 B"
      using kheap.owned_stable [OF al(5), of m] unchanged_mono [OF un, of "region c 8 \<union> - B"]
      by (simp add: sizeof_ListNode_def)
    have u4: "unat (c + 4) = unat c + 4" using unat_plus_small [of c 4] c(1) by simp
    have "list_value m c = v" "list_next m c = q"
      using c(1) u4 by (simp_all add: m list_value_def list_next_def set_list_next_def
          set_list_value_def mem_simps)
    then show "chain heap_owned list_layout m c [[v]] q B" using cell by (intro kheap.chain_single) auto
    show "unchanged_outside F (hmem h) m"
      using unchanged_trans [OF al(6) unchanged_mono [OF un]] c(2) al(3) by blast
  qed
  then show thesis by (rule that [OF al(1-3,7)])
qed

lemma list_add_head_room:
  assumes l: "list_rep h head vs F U" and r: "room F k" "35 \<le> k"
  obtains head' h' F' U' where "list_add_head h head v = Some (0, head', h')"
    "list_rep h' head' (v # vs) F' U'" "F' \<union> U' = F \<union> U" "unchanged_outside F (hmem h) (hmem h')"
    "room F' (k - 35)"
proof -
  have UF: "U \<inter> F = {}" using l by (simp add: list_rep_def)
  obtain c h1 B where n: "malloc h sizeof_ListNode = Some (c, h1)" "c \<noteq> 0" "B \<subseteq> F" "room (F - B) (k - 35)"
    "\<And>q m. m = set_list_next (set_list_value (hmem h1) c v) c q \<Longrightarrow>
       heap_ok (heap_write m h1) (F - B) \<and> chain heap_owned list_layout m c [[v]] q B \<and>
       chain heap_owned list_layout m head (map (\<lambda>v. [v]) vs) 0 U \<and> unchanged_outside F (hmem h) m"
    by (rule new_node_room [OF l r, of v]) (rule that)
  define m where "m = set_list_next (set_list_value (hmem h1) c v) c head"
  note m = n(5) [OF m_def]
  have "B \<inter> U = {}" using UF n(3) by blast
  then have "chain heap_owned list_layout m c ([[v]] @ map (\<lambda>v. [v]) vs) 0 (B \<union> U)"
    using m by (blast intro: chain_appendI)
  then have rep: "list_rep (heap_write m h1) c (v # vs) (F - B) (B \<union> U)"
    using m UF n(3) by (auto simp: list_rep_def heap_write_def)
  have "list_add_head h head v = Some (0, c, heap_write m h1)"
    using n(1,2) by (simp add: list_add_head_def m_def Let_def)
  moreover have "(F - B) \<union> (B \<union> U) = F \<union> U" using n(3) by blast
  ultimately show thesis using that [OF _ rep] n(4) m by (simp add: heap_write_def)
qed

lemma list_add_tail_room:
  assumes l: "list_rep h head vs F U" and r: "room F k" "35 \<le> k"
  obtains head' h' F' U' where "list_add_tail h head v = Some (0, head', h')"
    "list_rep h' head' (vs @ [v]) F' U'" "F' \<union> U' = F \<union> U" "unchanged_outside (F \<union> U) (hmem h) (hmem h')"
    "room F' (k - 35)"
proof -
  have UF: "U \<inter> F = {}" using l by (simp add: list_rep_def)
  obtain c h1 B where n: "malloc h sizeof_ListNode = Some (c, h1)" "c \<noteq> 0" "B \<subseteq> F" "room (F - B) (k - 35)"
    "\<And>q m. m = set_list_next (set_list_value (hmem h1) c v) c q \<Longrightarrow>
       heap_ok (heap_write m h1) (F - B) \<and> chain heap_owned list_layout m c [[v]] q B \<and>
       chain heap_owned list_layout m head (map (\<lambda>v. [v]) vs) 0 U \<and> unchanged_outside F (hmem h) m"
    by (rule new_node_room [OF l r, of v]) (rule that)
  define m where "m = set_list_next (set_list_value (hmem h1) c v) c 0"
  from n(5) [OF m_def] have m: "heap_ok (heap_write m h1) (F - B)" "chain heap_owned list_layout m c [[v]] 0 B"
    "chain heap_owned list_layout m head (map (\<lambda>v. [v]) vs) 0 U" "unchanged_outside F (hmem h) m" by blast+
  have FU: "(F - B) \<union> (U \<union> B) = F \<union> U" "U \<inter> B = {}" using n(3) UF by auto
  have un: "unchanged_outside (F \<union> U) (hmem h) m" by (rule unchanged_mono [OF m(4)]) blast
  show thesis
  proof (cases "vs = []")
    case True
    with m(3) have e: "head = 0" "U = {}" by auto
    have rep: "list_rep (heap_write m h1) c (vs @ [v]) (F - B) (U \<union> B)"
      using m(1,2) True e by (auto simp: list_rep_def heap_write_def)
    have "list_add_tail h head v = Some (0, c, heap_write m h1)"
      using n(1,2) e by (simp add: list_add_tail_def m_def [symmetric] Let_def)
    then show thesis using that [OF _ rep FU(1)] n(4) un by (simp add: heap_write_def)
  next
    case False
    then obtain us u where vs: "vs = us @ [u]" by (meson rev_exhaust)
    have "head \<noteq> 0" using kheap.chain_null [OF m(3)] False by simp
    obtain t V where t: "chain heap_owned list_layout m head (map (\<lambda>v. [v]) us) t V"
      "V \<subseteq> U" "list_next m t = 0" "t \<noteq> 0" "[list_value m t] = [u]"
      "\<And>r. chain heap_owned list_layout (set_list_next m t r) head (map (\<lambda>v. [v]) us @ [[u]]) r U"
      "\<And>r. unchanged_outside U m (set_list_next m t r)"
      by (rule list_relink [OF m(3) [unfolded vs map_append list.map]]) (rule that)
    let ?m = "set_list_next m t c"
    have "chain heap_owned list_layout ?m c [[v]] 0 B"
      using kheap.chain_frame [OF list_layout_ok m(2) t(7)] FU(2) by blast
    with t(6) [of c] FU(2) have "chain heap_owned list_layout ?m head (map (\<lambda>v. [v]) (vs @ [v])) 0 (U \<union> B)"
      unfolding vs map_append list.map using chain_appendI by blast
    moreover have "heap_ok (heap_write ?m h1) (F - B)"
    proof -
      have "unchanged_outside (- (F - B)) (hmem (heap_write m h1)) ?m"
        using t(7) [of c] UF by (auto simp: heap_write_def elim!: unchanged_mono)
      from heap_ok_write [OF m(1) this] show ?thesis by (simp add: heap_write_def)
    qed
    ultimately have rep: "list_rep (heap_write ?m h1) head (vs @ [v]) (F - B) (U \<union> B)"
      using UF n(3) by (auto simp: list_rep_def heap_write_def)
    have "list_add_tail h head v = Some (0, head, heap_write ?m h1)"
      using n(1,2) \<open>head \<noteq> 0\<close> list_last_chain [OF t(1,4,3)]
      by (simp add: list_add_tail_def m_def [symmetric] Let_def)
    moreover have "unchanged_outside (F \<union> U) (hmem h) ?m"
      by (rule unchanged_trans [OF un unchanged_mono [OF t(7)]]) blast
    ultimately show thesis using that [OF _ rep FU(1)] n(4) by (simp add: heap_write_def)
  qed
qed

end
