(* ===== verification/DiskProperties.thy ===== *)
theory DiskProperties
  imports Disk FatReadFile HeapRoom
begin

text \<open>
  The partition table on the disk and the list of partitions in memory: \<open>read_gpt\<close> refines the
  enumeration of the used entries of the table.
\<close>

section \<open>64-bit fields\<close>

lemma word_halves64: "ucast (ucast v :: u32) OR push_bit 32 (ucast (ucast (drop_bit 32 v) :: u32)) = (v :: u64)"
  by (rule bit_word_eqI) (auto simp: bit_simps)

lemma read64_write64 [simp]:
  assumes "unat a + 8 \<le> 2 ^ 32" shows "read64 (write64 m a v) a = v"
proof -
  have u: "unat (a + 4) = unat a + 4" using unat_plus_small [of a 4] assms by simp
  show ?thesis using assms u word_halves64 [of v] by (simp add: read64_def write64_def mem_simps)
qed

lemma unchanged_write64:
  assumes "region a 8 \<subseteq> S" "unchanged_outside S m m'" shows "unchanged_outside S m (write64 m' a v)"
proof -
  have "region a 4 \<subseteq> region a 8" "region (a + 4) 4 \<subseteq> region a 8"
    by (simp_all add: region_mono region_sub)
  then show ?thesis using assms unfolding write64_def by (intro unchanged_write32) auto
qed

lemma unchanged_read64:
  assumes "unchanged_outside S m m'" "region a 8 \<inter> S = {}" shows "read64 m' a = read64 m a"
  using assms by (intro read64_cong) (auto simp: unchanged_outside_def)

lemma read64_load:
  assumes "i + 8 \<le> n" shows "read64 m (a + of_nat i) = le64 (load_bytes m a n) i"
proof -
  have "a + of_nat i + 4 = a + of_nat (i + 4)" by simp
  then show ?thesis using assms read32_load [of i n m a] read32_load [of "i + 4" n m a]
    by (simp only: read64_def le64_def)
qed

section \<open>Partitions in memory\<close>

record part_info =
  info_start :: u64
  info_size :: u64
  info_attributes :: u64
  info_name :: "u8 list"
  info_drive :: addr

definition partition_info :: "memory \<Rightarrow> addr \<Rightarrow> part_info" where
  "partition_info m p = \<lparr>info_start = partition_start m p, info_size = partition_size m p,
     info_attributes = partition_attributes m p,
     info_name = load_bytes m (partition_name m p) (unat (partition_name_length m p)),
     info_drive = partition_drive m p\<rparr>"

definition partition_space :: "memory \<Rightarrow> addr \<Rightarrow> addr set" where
  "partition_space m p = region p 36 \<union> region (partition_name m p) (unat (partition_name_length m p))"

lemma partition_fields_cong:
  assumes "\<And>x. x \<in> region p 36 \<Longrightarrow> m' x = m x"
  shows "partition_start m' p = partition_start m p" "partition_size m' p = partition_size m p"
    "partition_attributes m' p = partition_attributes m p" "partition_name m' p = partition_name m p"
    "partition_name_length m' p = partition_name_length m p" "partition_drive m' p = partition_drive m p"
proof -
  have a: "read64 m' (p + i) = read64 m (p + i)" if "unat i + 8 \<le> 36" for i
    using region_sub [OF that, of p] assms by (intro read64_cong) auto
  have b: "read32 m' (p + i) = read32 m (p + i)" if "unat i + 4 \<le> 36" for i
    using region_sub [OF that, of p] assms by (intro read32_cong) auto
  show "partition_start m' p = partition_start m p" "partition_size m' p = partition_size m p"
    "partition_attributes m' p = partition_attributes m p" "partition_name m' p = partition_name m p"
    "partition_name_length m' p = partition_name_length m p" "partition_drive m' p = partition_drive m p"
    using a [of 0] a [of 8] a [of 16] b [of 24] b [of 28] b [of 32]
    by (simp_all add: partition_start_def partition_size_def partition_attributes_def partition_name_def
        partition_name_length_def partition_drive_def)
qed

lemma partition_info_cong:
  assumes "\<And>x. x \<in> partition_space m p \<Longrightarrow> m' x = m x"
  shows "partition_info m' p = partition_info m p" "partition_space m' p = partition_space m p"
proof -
  note f = partition_fields_cong [of p m' m]
  have "load_bytes m' (partition_name m p) (unat (partition_name_length m p)) =
      load_bytes m (partition_name m p) (unat (partition_name_length m p))"
    using assms unat_lt_2p32 [of "partition_name_length m p"]
    by (intro load_bytes_cong) (auto simp: partition_space_def)
  then show "partition_info m' p = partition_info m p" "partition_space m' p = partition_space m p"
    using f assms by (simp_all add: partition_info_def partition_space_def)
qed

text \<open>What \<open>set_partition\<close> writes.\<close>

lemma set_partition_fields:
  assumes p: "unat part + 36 \<le> 2 ^ 32" and apart: "region part 36 \<inter> region gpt 56 = {}"
    and m': "m' = set_partition m part gpt name len drive"
  shows "partition_start m' part = read64 m (gpt + 32)"
    "partition_size m' part = read64 m (gpt + 40) - read64 m (gpt + 32)"
    "partition_attributes m' part = read64 m (gpt + 48)" "partition_name_length m' part = len"
    "partition_name m' part = name" "partition_drive m' part = drive"
    "unchanged_outside (region part 36) m m'"
proof -
  let ?S = "region part 36"
  define m1 where "m1 = write64 m part (read64 m (gpt + 32))"
  define m2 where "m2 = write64 m1 (part + 8) (read64 m1 (gpt + 40) - read64 m1 (gpt + 32))"
  define m3 where "m3 = write64 m2 (part + 16) (read64 m2 (gpt + 48))"
  define m4 where "m4 = write32 m3 (part + 24) len"
  define m5 where "m5 = write32 m4 (part + 28) name"
  have m6: "m' = write32 m5 (part + 32) drive"
    by (simp add: m' set_partition_def m1_def m2_def m3_def m4_def m5_def Let_def)
  have s8: "region (part + i) 8 \<subseteq> ?S" if "unat i + 8 \<le> 36" for i using that by (rule region_sub)
  have s4: "region (part + i) 4 \<subseteq> ?S" if "unat i + 4 \<le> 36" for i using that by (rule region_sub)
  have u1: "unchanged_outside ?S m m1" unfolding m1_def using s8 [of 0] by (intro unchanged_write64) auto
  have u2: "unchanged_outside ?S m m2" unfolding m2_def using s8 [of 8] u1 by (intro unchanged_write64) auto
  have u3: "unchanged_outside ?S m m3" unfolding m3_def using s8 [of 16] u2 by (intro unchanged_write64) auto
  show u6: "unchanged_outside ?S m m'"
    unfolding m6 m5_def m4_def using s4 [of 24] s4 [of 28] s4 [of 32] u3 by (intro unchanged_write32) auto
  have g: "read64 m'' (gpt + i) = read64 m (gpt + i)" if "unchanged_outside ?S m m''" "unat i + 8 \<le> 56" for m'' i
    using unchanged_read64 [OF that(1)] region_sub [OF that(2), of gpt] apart by blast
  have a: "unat (part + of_nat i) = unat part + i" if "i < 36" for i
    using unat_plus_small [of part i] p that by simp
  note at = a [of 4, simplified] a [of 8, simplified] a [of 12, simplified] a [of 16, simplified] a [of 20, simplified]
    a [of 24, simplified] a [of 28, simplified] a [of 32, simplified]
    a [of 12, simplified, unfolded add.commute [of part]] a [of 20, simplified, unfolded add.commute [of part]]
  have v1: "m1 = write64 m part (read64 m (gpt + 32))"
    and v2: "m2 = write64 m1 (part + 8) (read64 m (gpt + 40) - read64 m (gpt + 32))"
    and v3: "m3 = write64 m2 (part + 16) (read64 m (gpt + 48))"
    using g [OF u1] g [OF u2] by (simp_all add: m1_def m2_def m3_def)
  note simps = m6 m5_def m4_def v3 v2 v1 write64_def read64_def [of _ part] read64_def [of _ "part + 8"]
    read64_def [of _ "part + 16"] mem_simps at word_halves64
  show "partition_start m' part = read64 m (gpt + 32)" using p by (simp add: partition_start_def simps)
  show "partition_size m' part = read64 m (gpt + 40) - read64 m (gpt + 32)"
    using p by (simp add: partition_size_def simps)
  show "partition_attributes m' part = read64 m (gpt + 48)" using p by (simp add: partition_attributes_def simps)
  show "partition_name_length m' part = len" using p by (simp add: partition_name_length_def simps)
  show "partition_name m' part = name" using p by (simp add: partition_name_def simps)
  show "partition_drive m' part = drive" using p by (simp add: partition_drive_def simps)
qed

section \<open>The list of partitions\<close>

text \<open>
  The list holds the partitions \<open>ds\<close>; list, partitions, names and free memory make up \<open>T\<close>, apart
  from the bytes \<open>R\<close> of the sector buffer; and there is a run of \<open>k\<close> free bytes.
\<close>

definition parts_are :: "part_info list \<Rightarrow> addr set \<Rightarrow> addr set \<Rightarrow> nat \<Rightarrow> 'h disk \<Rightarrow> bool" where
  "parts_are ds R T k s \<longleftrightarrow>
     (\<exists>ps F U D. list_rep (disk_heap s) (partitions s) ps F U \<and> D \<inter> (F \<union> U) = {} \<and> R \<inter> T = {} \<and>
        F \<union> U \<union> D = T \<and> room F k \<and> (\<forall>p\<in>set ps. p \<noteq> 0 \<and> partition_space (hmem (disk_heap s)) p \<subseteq> D) \<and>
        map (partition_info (hmem (disk_heap s))) ps = ds)"

lemma partitions_keep:
  assumes "\<forall>p\<in>set ps. p \<noteq> 0 \<and> partition_space m p \<subseteq> D" "\<And>x. x \<in> D \<Longrightarrow> m' x = m x"
  shows "\<forall>p\<in>set ps. p \<noteq> 0 \<and> partition_space m' p \<subseteq> D" "map (partition_info m') ps = map (partition_info m) ps"
  using assms partition_info_cong [of m _ m'] by (auto simp: subset_iff)

text \<open>The buffer and the hardware do not matter.\<close>

lemma parts_are_buffer:
  assumes p: "parts_are ds R T k s" and un: "unchanged_outside R (hmem (disk_heap s)) m"
    and s': "disk_heap s' = heap_write m (disk_heap s)" "partitions s' = partitions s"
  shows "parts_are ds R T k s'"
proof -
  obtain ps F U D where a: "list_rep (disk_heap s) (partitions s) ps F U" "D \<inter> (F \<union> U) = {}" "R \<inter> T = {}"
    "F \<union> U \<union> D = T" "room F k" "\<forall>p\<in>set ps. p \<noteq> 0 \<and> partition_space (hmem (disk_heap s)) p \<subseteq> D"
    "map (partition_info (hmem (disk_heap s))) ps = ds"
    using p unfolding parts_are_def by blast
  from a(1) have l: "heap_ok (disk_heap s) F" "U \<inter> F = {}"
    "chain heap_owned list_layout (hmem (disk_heap s)) (partitions s) (map (\<lambda>v. [v]) ps) 0 U"
    by (simp_all add: list_rep_def)
  have R: "R \<inter> F = {}" "R \<inter> U = {}" "R \<inter> D = {}" using a(3,4) by auto
  have "heap_ok (heap_write m (disk_heap s)) F" by (rule kheap.write_block_ok [OF l(1) R(1) un])
  moreover have "chain heap_owned list_layout m (partitions s) (map (\<lambda>v. [v]) ps) 0 U"
    using kheap.chain_frame [OF list_layout_ok l(3) un R(2)] .
  ultimately have rep: "list_rep (disk_heap s') (partitions s') ps F U"
    using l(2) s' by (simp add: list_rep_def heap_write_def)
  have "m x = hmem (disk_heap s) x" if "x \<in> D" for x using unchangedD [OF un] R(3) that by blast
  note keep = partitions_keep [OF a(6) this]
  have "hmem (disk_heap s') = m" using s'(1) by (simp add: heap_write_def)
  then show ?thesis unfolding parts_are_def using rep a(2-5,7) keep by auto
qed

lemma parts_are_room: "parts_are ds R T k s \<Longrightarrow> j \<le> k \<Longrightarrow> parts_are ds R T j s"
  unfolding parts_are_def by (elim exE conjE, intro exI conjI) (assumption | erule (1) room_mono)+

section \<open>An entry\<close>

definition entry_used :: "u8 list \<Rightarrow> bool" where
  "entry_used bs \<longleftrightarrow> (\<exists>j<16. bs ! j \<noteq> 0)"

definition entry_info :: "addr \<Rightarrow> u8 list \<Rightarrow> part_info" where
  "entry_info drive bs = \<lparr>info_start = le64 bs 32, info_size = le64 bs 40 - le64 bs 32,
     info_attributes = le64 bs 48, info_name = drop 56 bs, info_drive = drive\<rparr>"

lemma fold_or_zero: "fold (\<lambda>j t. t OR f j) js (t :: u8) = 0 \<longleftrightarrow> t = 0 \<and> (\<forall>j\<in>set js. f j = 0)"
proof (induction js arbitrary: t)
  case (Cons j js)
  have "t OR f j = 0 \<longleftrightarrow> t = 0 \<and> f j = 0" by (metis or_eq_0_iff)
  with Cons show ?case by auto
qed simp

lemma gpt_used_entry:
  assumes "16 \<le> n" shows "gpt_used m p \<longleftrightarrow> entry_used (load_bytes m p n)"
  using assms by (auto simp: gpt_used_def entry_used_def fold_or_zero)

text \<open>The structure and the name are written: \<open>A\<close> and \<open>B\<close> are their blocks.\<close>

lemma write_partition:
  assumes A: "unat part + 36 \<le> 2 ^ 32" "region part 36 \<subseteq> A" and B: "region name (es - 56) \<subseteq> B" "A \<inter> B = {}"
    and bs: "load_bytes m gpt es = bs" "region gpt es \<inter> (A \<union> B) = {}" and es: "56 < es" "es \<le> 512"
    and len: "unat len = es - 56"
    and m2: "m2 = memcpy (set_partition m part gpt name len drive) name (gpt + 56) len"
  shows "unchanged_outside (A \<union> B) m m2"
    and "(\<And>x. x \<in> A \<union> B \<Longrightarrow> m3 x = m2 x) \<Longrightarrow> partition_info m3 part = entry_info drive bs"
    and "(\<And>x. x \<in> A \<union> B \<Longrightarrow> m3 x = m2 x) \<Longrightarrow> partition_space m3 part \<subseteq> A \<union> B"
proof -
  define m1 where "m1 = set_partition m part gpt name len drive"
  have gpt: "region gpt 56 \<inter> (A \<union> B) = {}" "region (gpt + 56) (es - 56) \<inter> (A \<union> B) = {}"
    using region_mono [of 56 es gpt] region_sub [of 56 "es - 56" es gpt] bs(2) es(1) by auto
  then have "region part 36 \<inter> region gpt 56 = {}" using A(2) by blast
  note f = set_partition_fields [OF A(1) this m1_def]
  have "region name (unat len) \<inter> region (gpt + 56) (unat len) = {}" using B(1) gpt(2) len by auto
  from memcpy_store [OF this] have m2': "m2 = store_bytes m1 name (load_bytes m1 (gpt + 56) (es - 56))"
    unfolding m2 m1_def len .
  have un2: "unchanged_outside B m1 m2" unfolding m2' using B(1) by (intro unchanged_store_bytes) simp
  show "unchanged_outside (A \<union> B) m m2"
    by (rule unchanged_trans [OF unchanged_mono [OF f(7)] unchanged_mono [OF un2]]) (use A(2) in auto)
  assume m3: "\<And>x. x \<in> A \<union> B \<Longrightarrow> m3 x = m2 x"
  have "m3 x = m1 x" if "x \<in> region part 36" for x
  proof -
    have "x \<in> A" "x \<notin> B" using that A(2) B(2) by auto
    then show ?thesis using m3 [of x] unchangedD [OF un2, of x] by simp
  qed
  note g = partition_fields_cong [of part m3 m1, OF this, unfolded f(1-6)]
  show "partition_space m3 part \<subseteq> A \<union> B" using A(2) B(1) len by (auto simp: partition_space_def g)
  have le: "read64 m (gpt + 32) = le64 bs 32" "read64 m (gpt + 40) = le64 bs 40" "read64 m (gpt + 48) = le64 bs 48"
    using read64_load [of 32 es m gpt] read64_load [of 40 es m gpt] read64_load [of 48 es m gpt] es(1) bs(1)
    by simp_all
  have "load_bytes m3 name (es - 56) = load_bytes m2 name (es - 56)"
    using m3 B(1) es(2) by (intro load_bytes_cong) auto
  also have "\<dots> = load_bytes m1 (gpt + 56) (es - 56)"
    unfolding m2' using es(2) load_store_bytes [of "load_bytes m1 (gpt + 56) (es - 56)" m1 name] by simp
  also have "\<dots> = load_bytes m (gpt + 56) (es - 56)"
  proof (rule load_bytes_cong)
    fix x assume "x \<in> region (gpt + 56) (es - 56)"
    then have "x \<notin> region part 36" using A(2) gpt(2) by blast
    then show "m1 x = m x" by (rule unchangedD [OF f(7)])
  qed (use es(2) in simp)
  also have "\<dots> = drop 56 bs"
  proof -
    have "bs = load_bytes m gpt 56 @ load_bytes m (gpt + 56) (es - 56)"
      using load_bytes_append [of m gpt 56 "es - 56"] bs(1) es(1) by simp
    then show ?thesis by simp
  qed
  finally show "partition_info m3 part = entry_info drive bs"
    using len by (simp add: partition_info_def entry_info_def g le)
qed

text \<open>Both blocks are allocated.\<close>

lemma alloc_partition:
  assumes h: "heap_ok h F" "room F k" and es: "56 < es" "es \<le> 512" "es + 69 \<le> k"
  obtains part h1 A name h2 B where "malloc h sizeof_Partition = Some (part, h1)" "part \<noteq> 0" "A \<subseteq> F"
    "malloc h1 (of_nat es - 0x38) = Some (name, h2)" "name \<noteq> 0" "B \<subseteq> F - A" "heap_ok h2 (F - A - B)"
    "unchanged_outside F (hmem h) (hmem h2)" "room (F - A - B) (k - (es + 34))"
    "unat part + 36 \<le> 2 ^ 32" "region part 36 \<subseteq> A" "region name (es - 56) \<subseteq> B"
proof -
  have "(of_nat es - 0x38 :: u32) = of_nat (es - 56)" using es by (simp add: of_nat_diff)
  then have len: "unat (of_nat es - 0x38 :: u32) = es - 56" using es unat_of_nat_small [of "es - 56"] by simp
  obtain part h1 A where al: "malloc h sizeof_Partition = Some (part, h1)" "part \<noteq> 0" "A \<subseteq> F"
    "heap_ok h1 (F - A)" "heap_owned (hmem h1) part sizeof_Partition A" "unchanged_outside F (hmem h) (hmem h1)"
    "room (F - A) (k - 63)"
    by (rule malloc_room [OF h, of sizeof_Partition]) (use es in \<open>simp_all add: sizeof_Partition_def\<close>)
  obtain name h2 B where bl: "malloc h1 (of_nat es - 0x38) = Some (name, h2)" "name \<noteq> 0" "B \<subseteq> F - A"
    "heap_ok h2 (F - A - B)" "heap_owned (hmem h2) name (of_nat es - 0x38) B"
    "unchanged_outside (F - A) (hmem h1) (hmem h2)" "room (F - A - B) (k - 63 - (es - 56 + 27))"
    by (rule malloc_room [OF al(4,7), of "of_nat es - 0x38"])
      (use es len in \<open>auto simp: unat_eq_0 [symmetric]\<close>)
  have "unchanged_outside F (hmem h1) (hmem h2)" by (rule unchanged_mono [OF bl(6)]) blast
  then have "unchanged_outside F (hmem h) (hmem h2)" by (rule unchanged_trans [OF al(6)])
  moreover have "unat part + 36 \<le> 2 ^ 32" "region part 36 \<subseteq> A"
    using heap_owned_region [OF al(5)] by (simp_all add: sizeof_Partition_def)
  moreover have "region name (es - 56) \<subseteq> B" using heap_owned_region [OF bl(5)] len by simp
  moreover have "k - 63 - (es - 56 + 27) = k - (es + 34)" using es by simp
  ultimately show thesis using that [OF al(1-3) bl(1-4)] bl(7) by simp
qed

lemma gpt_entry_lists:
  assumes p: "parts_are ds R T k s" and bs: "load_bytes (hmem (disk_heap s)) gpt es = bs" "region gpt es \<subseteq> R"
    and es: "56 < es" "es \<le> 512" "es + 69 \<le> k"
  shows "\<exists>s'. gpt_entry drive (of_nat es - 0x38) gpt s = Some (False, s') \<and>
    parts_are (ds @ (if entry_used bs then [entry_info drive bs] else [])) R T (k - (es + 69)) s' \<and>
    partition_count s' = partition_count s + (if entry_used bs then 1 else 0) \<and>
    (\<forall>x\<in>R. hmem (disk_heap s') x = hmem (disk_heap s) x)"
proof (cases "entry_used bs")
  case False
  then have "gpt_entry drive (of_nat es - 0x38) gpt s = Some (False, s)"
    using gpt_used_entry [of es "hmem (disk_heap s)" gpt] bs(1) es(1) by (simp add: gpt_entry_def)
  then show ?thesis using False parts_are_room [OF p, of "k - (es + 69)"] by simp
next
  case True
  let ?m = "hmem (disk_heap s)" and ?len = "of_nat es - 0x38 :: u32"
  obtain ps F U D where a: "list_rep (disk_heap s) (partitions s) ps F U" "D \<inter> (F \<union> U) = {}" "R \<inter> T = {}"
    "F \<union> U \<union> D = T" "room F k" "\<forall>p\<in>set ps. p \<noteq> 0 \<and> partition_space ?m p \<subseteq> D"
    "map (partition_info ?m) ps = ds"
    using p unfolding parts_are_def by blast
  from a(1) have l: "heap_ok (disk_heap s) F" "U \<inter> F = {}"
    "chain heap_owned list_layout ?m (partitions s) (map (\<lambda>v. [v]) ps) 0 U"
    by (simp_all add: list_rep_def)
  have RF: "R \<inter> F = {}" "R \<inter> U = {}" "R \<inter> D = {}" using a(3,4) by auto
  obtain part h1 A name h2 B where al: "malloc (disk_heap s) sizeof_Partition = Some (part, h1)" "part \<noteq> 0"
    "A \<subseteq> F" "malloc h1 ?len = Some (name, h2)" "name \<noteq> 0" "B \<subseteq> F - A" "heap_ok h2 (F - A - B)"
    "unchanged_outside F ?m (hmem h2)" "room (F - A - B) (k - (es + 34))"
    "unat part + 36 \<le> 2 ^ 32" "region part 36 \<subseteq> A" "region name (es - 56) \<subseteq> B"
    by (rule alloc_partition [OF l(1) a(5) es])
  have AB: "A \<union> B \<subseteq> F" "A \<inter> B = {}" "region gpt es \<inter> (A \<union> B) = {}" using al(3,6) bs(2) RF(1) by auto
  have "load_bytes (hmem h2) gpt es = load_bytes ?m gpt es"
    by (rule load_bytes_cong) (use unchangedD [OF al(8)] bs(2) RF(1) es(2) in auto)
  then have raw: "load_bytes (hmem h2) gpt es = bs" using bs(1) by simp
  have "?len = of_nat (es - 56)" using es by (simp add: of_nat_diff)
  then have len: "unat ?len = es - 56" using es unat_of_nat_small [of "es - 56"] by simp
  define m2 where "m2 = memcpy (set_partition (hmem h2) part gpt name ?len drive) name (gpt + 56) ?len"
  note w = write_partition [OF al(10-12) AB(2) raw AB(3) es(1,2) len m2_def]
  have un: "unchanged_outside F ?m m2" using unchanged_trans [OF al(8) unchanged_mono [OF w(1) AB(1)]] .
  let ?h = "heap_write m2 h2"
  have "heap_ok ?h (F - A - B)" by (rule kheap.write_block_ok [OF al(7) _ w(1)]) blast
  moreover have "chain heap_owned list_layout m2 (partitions s) (map (\<lambda>v. [v]) ps) 0 U"
    using kheap.chain_frame [OF list_layout_ok l(3) un] l(2) by blast
  ultimately have rep: "list_rep ?h (partitions s) ps (F - A - B) U"
    using l(2) by (auto simp: list_rep_def heap_write_def)
  obtain head' h3 F' U' where r: "list_add_tail ?h (partitions s) part = Some (0, head', h3)"
    "list_rep h3 head' (ps @ [part]) F' U'" "F' \<union> U' = (F - A - B) \<union> U"
    "unchanged_outside ((F - A - B) \<union> U) (hmem ?h) (hmem h3)" "room F' (k - (es + 34) - 35)"
    by (rule list_add_tail_room [OF rep al(9), of part]) (use es in simp, rule that)
  have m3: "hmem h3 x = m2 x" if "x \<in> A \<union> B \<union> D \<union> R" for x
  proof -
    have "x \<notin> (F - A - B) \<union> U" using that a(2) RF AB(1) l(2) by blast
    then show ?thesis using unchangedD [OF r(4)] by (simp add: heap_write_def)
  qed
  have m0: "hmem h3 x = ?m x" if "x \<in> D \<union> R" for x
  proof -
    have "x \<notin> F" using that a(2) RF by blast
    then show ?thesis using m3 [of x] unchangedD [OF un, of x] that by simp
  qed
  have info: "partition_info (hmem h3) part = entry_info drive bs" "partition_space (hmem h3) part \<subseteq> A \<union> B"
    by (rule w(2,3); use m3 in blast)+
  have keep: "\<forall>p\<in>set ps. p \<noteq> 0 \<and> partition_space (hmem h3) p \<subseteq> D" "map (partition_info (hmem h3)) ps = ds"
    using partitions_keep [OF a(6), of "hmem h3"] m0 a(7) by auto
  let ?s = "s\<lparr>disk_heap := h3, partitions := head', partition_count := partition_count s + 1\<rparr>"
  have "gpt_entry drive ?len gpt s = Some (False, ?s)"
    using gpt_used_entry [of es ?m gpt] True bs(1) es(1) al(1,2,4,5) r(1)
    by (simp add: gpt_entry_def m2_def [symmetric] Let_def)
  moreover have "parts_are (ds @ [entry_info drive bs]) R T (k - (es + 69)) ?s"
    unfolding parts_are_def
  proof (intro exI conjI)
    show "list_rep (disk_heap ?s) (partitions ?s) (ps @ [part]) F' U'" using r(2) by simp
    show "(D \<union> A \<union> B) \<inter> (F' \<union> U') = {}" using a(2) AB(1) l(2) unfolding r(3) by blast
    show "R \<inter> T = {}" by (rule a(3))
    show "F' \<union> U' \<union> (D \<union> A \<union> B) = T" using a(4) AB(1) unfolding r(3) by blast
    have "k - (es + 34) - 35 = k - (es + 69)" by simp
    then show "room F' (k - (es + 69))" using r(5) by simp
    show "\<forall>p\<in>set (ps @ [part]). p \<noteq> 0 \<and> partition_space (hmem (disk_heap ?s)) p \<subseteq> D \<union> A \<union> B"
      using keep(1) info(2) al(2) by auto
    show "map (partition_info (hmem (disk_heap ?s))) (ps @ [part]) = ds @ [entry_info drive bs]"
      using keep(2) info(1) by simp
  qed
  ultimately show ?thesis using True m0 by simp
qed

section \<open>The table\<close>

text \<open>Entry \<open>i\<close> of a table that starts at sector \<open>start\<close>, and the partitions of the entries in use.\<close>

definition raw_entry :: "(nat \<Rightarrow> u8 list) \<Rightarrow> nat \<Rightarrow> nat \<Rightarrow> nat \<Rightarrow> u8 list" where
  "raw_entry sec start es i = take es (drop (i * es mod 512) (sec (start + i * es div 512)))"

definition gpt_partitions :: "(nat \<Rightarrow> u8 list) \<Rightarrow> nat \<Rightarrow> nat \<Rightarrow> addr \<Rightarrow> nat list \<Rightarrow> part_info list" where
  "gpt_partitions sec start es drive is =
     map (entry_info drive) (filter entry_used (map (raw_entry sec start es) is))"

lemma entry_fits:
  assumes "es dvd 512" "0 < es" shows "i * es mod 512 + es \<le> (512 :: nat)"
proof -
  obtain q where q: "512 = es * q" using assms(1) by blast
  then have "i mod q < q" using assms(2) by (metis bot_nat_0.not_eq_extremum mod_less_divisor mult_0_right zero_neq_numeral)
  then have "es * (i mod q) + es \<le> es * q" by (metis Suc_leI add.commute mult_Suc_right mult_le_mono2)
  moreover have "i * es mod 512 = es * (i mod q)" using q by (simp add: mult.commute mult_mod_right)
  ultimately show ?thesis unfolding q by simp
qed

lemma load_bytes_part:
  assumes "load_bytes m a n = bs" "off + k \<le> n"
  shows "load_bytes m (a + of_nat off) k = take k (drop off bs)"
  using assms by (intro nth_equalityI) (auto simp: ac_simps)

text \<open>The sector buffer holds a sector, once one was read.\<close>

definition buffered :: "(nat \<Rightarrow> u8 list) \<Rightarrow> addr \<Rightarrow> nat \<Rightarrow> 'h disk \<Rightarrow> bool" where
  "buffered sec buf lba s \<longleftrightarrow> load_bytes (hmem (disk_heap s)) buf 512 = sec lba"

lemma gpt_sector_reads:
  assumes p: "parts_are ds R T k s" and d: "drive_ok rs drive limit sec" "limit \<le> 2 ^ 32" "unat lba < limit"
    and b: "heap_owned (hmem (disk_heap s)) buf 512 R"
  shows "\<exists>s'. gpt_sector rs drive lba buf s = (1, s') \<and> parts_are ds R T k s' \<and>
    buffered sec buf (unat lba) s' \<and> partition_count s' = partition_count s \<and>
    heap_owned (hmem (disk_heap s')) buf 512 R"
proof -
  have u: "unat (ucast lba :: u32) = unat lba" using d(2,3) by (intro unat_ucast_down) simp
  then have "unat (ucast lba :: u32) < limit" using d(3) by simp
  then obtain hw where hw: "rs drive 1 (ucast lba) (disk_hw s) = (1, sec (unat lba), hw)"
    using d(1) u unfolding drive_ok_def by metis
  have len: "length (sec (unat lba)) = 512" using d(1) by (simp add: drive_ok_def)
  let ?m = "store_bytes (hmem (disk_heap s)) buf (sec (unat lba))"
  let ?s = "s\<lparr>disk_heap := heap_write ?m (disk_heap s), disk_hw := hw\<rparr>"
  have un: "unchanged_outside (region buf 512) (hmem (disk_heap s)) ?m"
    using len by (intro unchanged_store_bytes) simp
  have "region buf 512 \<subseteq> R" using heap_owned_region [OF b] by simp
  then have "parts_are ds R T k ?s" by (intro parts_are_buffer [OF p unchanged_mono [OF un]]) simp_all
  moreover have "load_bytes ?m buf 512 = sec (unat lba)"
    using load_store_bytes [of "sec (unat lba)" "hmem (disk_heap s)" buf] len by simp
  moreover have "heap_owned ?m buf 512 R"
    using heap_owned_stable [OF b, of ?m] unchanged_mono [OF un] by simp
  ultimately show ?thesis using hw by (simp add: gpt_sector_def buffered_def heap_write_def)
qed

text \<open>The sectors an entry of the table lies in.\<close>

lemma unat_add64:
  assumes "unat (a :: u64) + unat b < 2 ^ 64" shows "unat (a + b) = unat a + unat b"
  using assms unfolding unat_word_ariths(1) by simp

lemma entry_sector:
  assumes "unat i < 2 ^ 32" "es \<le> 512"
    and "unat start + unat i * es div 512 < limit" "limit \<le> 2 ^ 32"
  shows "unat (i * ucast (of_nat es :: u32) div 512 + start :: u64) = unat start + unat i * es div 512"
    and "(ucast (i * ucast (of_nat es :: u32) mod 512 :: u64) :: u32) = of_nat (unat i * es mod 512)"
proof -
  have "unat (ucast (of_nat es :: u32) :: u64) = es" using assms(2) by (simp add: unat_of_nat_small)
  moreover have "unat i * es < 2 ^ 64"
  proof -
    have "unat i * es \<le> 2 ^ 32 * 512" using assms(1,2) by (intro mult_le_mono) simp_all
    also have "\<dots> < (2 ^ 64 :: nat)" by simp
    finally show ?thesis .
  qed
  ultimately have m: "unat (i * ucast (of_nat es :: u32) :: u64) = unat i * es"
    by (simp add: unat_word_ariths)
  then have d: "unat (i * ucast (of_nat es :: u32) div 512 :: u64) = unat i * es div 512" by (simp add: unat_div)
  show "unat (i * ucast (of_nat es :: u32) div 512 + start :: u64) = unat start + unat i * es div 512"
  proof -
    have "limit < 2 ^ 64" using assms(4) by simp
    then have "unat i * es div 512 + unat start < 2 ^ 64" using assms(3) by linarith
    from unat_add64 [OF this [folded d]] show ?thesis unfolding d by (rule trans) (rule add.commute)
  qed
  have r: "unat (i * ucast (of_nat es :: u32) mod 512 :: u64) = unat i * es mod 512" using m by (simp add: unat_mod)
  have "(ucast (i * ucast (of_nat es :: u32) mod 512 :: u64) :: u32) =
      of_nat (unat (i * ucast (of_nat es :: u32) mod 512 :: u64))" by (rule of_nat_unat [symmetric])
  then show "(ucast (i * ucast (of_nat es :: u32) mod 512 :: u64) :: u32) = of_nat (unat i * es mod 512)"
    unfolding r .
qed

text \<open>The sector of an entry is in the buffer, or brought there.\<close>

lemma gpt_buffer_entry:
  assumes p: "parts_are ds R T k s" "heap_owned (hmem (disk_heap s)) buf 512 R"
    and d: "drive_ok rs drive limit sec" "limit \<le> 2 ^ 32" "unat t < limit" "t \<noteq> 0"
    and b: "lba = 0 \<or> buffered sec buf (unat lba) s"
  obtains s1 where "(if lba \<noteq> t then gpt_sector rs drive t buf s else (1, s)) = (1, s1)"
    "parts_are ds R T k s1" "buffered sec buf (unat t) s1" "partition_count s1 = partition_count s"
    "heap_owned (hmem (disk_heap s1)) buf 512 R"
proof (cases "lba = t")
  case True
  then show thesis using that [of s] p b d(4) by simp
next
  case False
  from gpt_sector_reads [OF p(1) d(1-3) p(2)] obtain s1 where
    "gpt_sector rs drive t buf s = (1, s1)" "parts_are ds R T k s1" "buffered sec buf (unat t) s1"
    "partition_count s1 = partition_count s" "heap_owned (hmem (disk_heap s1)) buf 512 R" by blast
  with False show thesis by (intro that [of s1]) simp_all
qed

text \<open>A turn of the loop.\<close>

lemma gpt_turn:
  assumes d: "drive_ok rs drive limit sec" "limit \<le> 2 ^ 32" and es: "es dvd 512" "56 < es" and start: "start \<noteq> 0"
    and p: "parts_are ds R T k s" "heap_owned (hmem (disk_heap s)) buf 512 R" "es + 69 \<le> k"
    and i: "unat i < 2 ^ 32" "unat start + unat i * es div 512 < limit"
    and b: "lba = 0 \<or> buffered sec buf (unat lba) s"
    and e: "e = raw_entry sec (unat start) es (unat i)"
  obtains t s2 where "\<And>n. gpt_loop rs drive buf start (of_nat es) (Suc n) i lba s =
      gpt_loop rs drive buf start (of_nat es) n (i + 1) t s2"
    "parts_are (ds @ (if entry_used e then [entry_info drive e] else [])) R T (k - (es + 69)) s2"
    "partition_count s2 = partition_count s + (if entry_used e then 1 else 0)"
    "heap_owned (hmem (disk_heap s2)) buf 512 R" "buffered sec buf (unat t) s2"
proof -
  have es512: "es \<le> 512" using es(1) by (rule dvd_imp_le) simp
  define t where "t = i * ucast (of_nat es :: u32) div 512 + start"
  define off where "off = unat i * es mod 512"
  have t: "unat t = unat start + unat i * es div 512"
    and off: "(ucast (i * ucast (of_nat es :: u32) mod 512 :: u64) :: u32) = of_nat off"
    unfolding t_def off_def by (rule entry_sector [OF i(1) es512 i(2) d(2)])+
  have "unat start \<noteq> 0" using start by (simp add: unat_eq_0)
  then have t0: "t \<noteq> 0" using t by auto
  have "unat t < limit" using t i(2) by simp
  from gpt_buffer_entry [OF p(1,2) d this t0 b] obtain s1 where
    s1: "(if lba \<noteq> t then gpt_sector rs drive t buf s else (1, s)) = (1, s1)"
    "parts_are ds R T k s1" "buffered sec buf (unat t) s1" "partition_count s1 = partition_count s"
    "heap_owned (hmem (disk_heap s1)) buf 512 R" .
  have fits: "off + es \<le> 512" using entry_fits [OF es(1), of "unat i"] es(2) by (simp add: off_def)
  have raw: "load_bytes (hmem (disk_heap s1)) (buf + of_nat off) es = e"
    using load_bytes_part [OF _ fits] s1(3) t by (simp add: buffered_def raw_entry_def off_def e)
  have R: "region buf 512 \<subseteq> R" using heap_owned_region [OF p(2)] by simp
  then have reg: "region (buf + of_nat off) es \<subseteq> R"
    using region_sub [of "of_nat off" es 512 buf] fits by (auto simp: unat_of_nat_small)
  from gpt_entry_lists [OF s1(2) raw reg es(2) es512 p(3), of drive] obtain s2 where
    s2: "gpt_entry drive (of_nat es - 0x38) (buf + of_nat off) s1 = Some (False, s2)"
      "parts_are (ds @ (if entry_used e then [entry_info drive e] else [])) R T (k - (es + 69)) s2"
      "partition_count s2 = partition_count s1 + (if entry_used e then 1 else 0)"
      "\<forall>x\<in>R. hmem (disk_heap s2) x = hmem (disk_heap s1) x" by blast
  have own: "heap_owned (hmem (disk_heap s2)) buf 512 R"
    by (rule heap_owned_stable [OF s1(5)]) (use s2(4) in \<open>auto simp: unchanged_outside_def\<close>)
  have "load_bytes (hmem (disk_heap s2)) buf 512 = load_bytes (hmem (disk_heap s1)) buf 512"
    using s2(4) R by (intro load_bytes_cong) auto
  then have "buffered sec buf (unat t) s2" using s1(3) by (simp add: buffered_def)
  moreover have "gpt_loop rs drive buf start (of_nat es) (Suc n) i lba s =
      gpt_loop rs drive buf start (of_nat es) n (i + 1) t s2" for n
    using s1(1) s2(1) off by (simp add: t_def [symmetric] Let_def)
  ultimately show thesis using that [of t s2] s2(2,3) s1(4) own by simp
qed

lemma gpt_loop_lists:
  assumes d: "drive_ok rs drive limit sec" "limit \<le> 2 ^ 32" and es: "es dvd 512" "56 < es"
    and start: "start \<noteq> 0"
    and p: "parts_are ds R T k s" "heap_owned (hmem (disk_heap s)) buf 512 R"
      "n * (es + 69) \<le> k" "unat i + n < 2 ^ 32"
      "\<forall>j<unat i + n. unat start + j * es div 512 < limit" "lba = 0 \<or> buffered sec buf (unat lba) s"
  shows "\<exists>s'. gpt_loop rs drive buf start (of_nat es) n i lba s = Some s' \<and>
    parts_are (ds @ gpt_partitions sec (unat start) es drive [unat i..<unat i + n]) R T (k - n * (es + 69)) s' \<and>
    partition_count s' = partition_count s +
      of_nat (length (gpt_partitions sec (unat start) es drive [unat i..<unat i + n])) \<and>
    heap_owned (hmem (disk_heap s')) buf 512 R"
  using p
proof (induction n arbitrary: ds k s i lba)
  case 0
  then show ?case by (simp add: gpt_partitions_def)
next
  case (Suc n)
  let ?e = "raw_entry sec (unat start) es (unat i)"
  let ?first = "if entry_used ?e then [entry_info drive ?e] else []"
  let ?rest = "gpt_partitions sec (unat start) es drive [unat (i + 1)..<unat (i + 1) + n]"
  have "es + 69 \<le> k" "unat i < 2 ^ 32" "unat start + unat i * es div 512 < limit" using Suc.prems(3-5) by simp_all
  note turn = gpt_turn [OF d es start Suc.prems(1,2) this Suc.prems(6) refl]
  obtain t s2 where
    step: "\<And>n. gpt_loop rs drive buf start (of_nat es) (Suc n) i lba s =
      gpt_loop rs drive buf start (of_nat es) n (i + 1) t s2"
    and s2: "parts_are (ds @ ?first) R T (k - (es + 69)) s2"
      "partition_count s2 = partition_count s + (if entry_used ?e then 1 else 0)"
      "heap_owned (hmem (disk_heap s2)) buf 512 R" "buffered sec buf (unat t) s2"
    by (rule turn) (rule that)
  have i: "unat (i + 1) = unat i + 1" using Suc.prems(4) by (simp add: unat_word_ariths)
  have split: "[unat i..<unat i + Suc n] = unat i # [unat (i + 1)..<unat (i + 1) + n]"
    unfolding i by (simp add: upt_conv_Cons)
  have head: "gpt_partitions sec (unat start) es drive [unat i..<unat i + Suc n] = ?first @ ?rest"
    unfolding split by (simp add: gpt_partitions_def)
  have k: "k - Suc n * (es + 69) = k - (es + 69) - n * (es + 69)" by simp
  have "n * (es + 69) \<le> k - (es + 69)" "unat (i + 1) + n < 2 ^ 32"
    "\<forall>j<unat (i + 1) + n. unat start + j * es div 512 < limit"
    using Suc.prems(3-5) i by simp_all
  from Suc.IH [OF s2(1,3) this disjI2 [OF s2(4)]] obtain s3 where
    s3: "gpt_loop rs drive buf start (of_nat es) n (i + 1) t s2 = Some s3"
      "parts_are ((ds @ ?first) @ ?rest) R T (k - (es + 69) - n * (es + 69)) s3"
      "partition_count s3 = partition_count s2 + of_nat (length ?rest)"
      "heap_owned (hmem (disk_heap s3)) buf 512 R" by blast
  have "partition_count s3 = partition_count s + of_nat (length (?first @ ?rest))"
    unfolding s3(3) s2(2) by simp
  then show ?case unfolding step head k using s3(1,2,4) by (simp only: append_assoc) blast
qed

section \<open>The whole table\<close>

text \<open>Giving the sector buffer back.\<close>

lemma parts_are_free:
  assumes p: "parts_are ds R T k s" "heap_owned (hmem (disk_heap s)) buf n R"
  shows "\<exists>s'. free_buffer buf s = Some s' \<and> parts_are ds {} (R \<union> T) k s' \<and> partition_count s' = partition_count s"
proof -
  obtain ps F U D where a: "list_rep (disk_heap s) (partitions s) ps F U" "D \<inter> (F \<union> U) = {}" "R \<inter> T = {}"
    "F \<union> U \<union> D = T" "room F k" "\<forall>p\<in>set ps. p \<noteq> 0 \<and> partition_space (hmem (disk_heap s)) p \<subseteq> D"
    "map (partition_info (hmem (disk_heap s))) ps = ds"
    using p(1) unfolding parts_are_def by blast
  from a(1) have l: "heap_ok (disk_heap s) F" "U \<inter> F = {}"
    "chain heap_owned list_layout (hmem (disk_heap s)) (partitions s) (map (\<lambda>v. [v]) ps) 0 U"
    by (simp_all add: list_rep_def)
  have "R \<inter> F = {}" using a(3,4) by blast
  from kheap.release_ok [OF l(1) p(2) this] obtain h' where h': "free (disk_heap s) buf = Some h'"
    "heap_ok h' (F \<union> R)" "unchanged_outside (F \<union> R) (hmem (disk_heap s)) (hmem h')" by blast
  have "(F \<union> R) \<inter> U = {}" using a(3,4) l(2) by blast
  then have rep: "list_rep h' (partitions s) ps (F \<union> R) U"
    using kheap.chain_frame [OF list_layout_ok l(3) h'(3)] h'(2) by (auto simp: list_rep_def)
  have "hmem h' x = hmem (disk_heap s) x" if "x \<in> D" for x
    using unchangedD [OF h'(3), of x] that a(2-4) by blast
  note keep = partitions_keep [OF a(6) this]
  let ?s = "s\<lparr>disk_heap := h'\<rparr>"
  have "parts_are ds {} (R \<union> T) k ?s"
    unfolding parts_are_def
  proof (intro exI conjI)
    show "list_rep (disk_heap ?s) (partitions ?s) ps (F \<union> R) U" using rep by simp
    show "D \<inter> (F \<union> R \<union> U) = {}" "F \<union> R \<union> U \<union> D = R \<union> T" using a(2-4) by auto
    show "room (F \<union> R) k" using a(5) by (auto simp: room_def)
  qed (use keep a(7) in simp_all)
  then show ?thesis using h'(1) by (simp add: free_buffer_def)
qed

text \<open>Taking it.\<close>

lemma parts_are_alloc:
  assumes p: "parts_are ds {} T k s" "unat n + 27 \<le> k" "n \<noteq> 0" "unat n + 135 < 2 ^ 32"
  obtains buf h R where "malloc (disk_heap s) n = Some (buf, h)" "buf \<noteq> 0" "heap_owned (hmem h) buf n R" "R \<subseteq> T"
    "\<And>c. parts_are ds R (T - R) (k - (unat n + 27)) (s\<lparr>disk_heap := h, partition_count := c\<rparr>)"
proof -
  obtain ps F U D where a: "list_rep (disk_heap s) (partitions s) ps F U" "D \<inter> (F \<union> U) = {}"
    "F \<union> U \<union> D = T" "room F k" "\<forall>p\<in>set ps. p \<noteq> 0 \<and> partition_space (hmem (disk_heap s)) p \<subseteq> D"
    "map (partition_info (hmem (disk_heap s))) ps = ds"
    using p(1) unfolding parts_are_def by blast
  from a(1) have l: "heap_ok (disk_heap s) F" "U \<inter> F = {}"
    "chain heap_owned list_layout (hmem (disk_heap s)) (partitions s) (map (\<lambda>v. [v]) ps) 0 U"
    by (simp_all add: list_rep_def)
  obtain buf h R where al: "malloc (disk_heap s) n = Some (buf, h)" "buf \<noteq> 0" "R \<subseteq> F" "heap_ok h (F - R)"
    "heap_owned (hmem h) buf n R" "unchanged_outside F (hmem (disk_heap s)) (hmem h)"
    "room (F - R) (k - (unat n + 27))"
    by (rule malloc_room [OF l(1) a(4) p(3,4,2)])
  have "F \<inter> U = {}" using l(2) by blast
  then have rep: "list_rep h (partitions s) ps (F - R) U"
    using kheap.chain_frame [OF list_layout_ok l(3) al(6)] al(4) l(2) by (auto simp: list_rep_def)
  have "hmem h x = hmem (disk_heap s) x" if "x \<in> D" for x
    using unchangedD [OF al(6), of x] that a(2) by blast
  note keep = partitions_keep [OF a(5) this]
  have "parts_are ds R (T - R) (k - (unat n + 27)) (s\<lparr>disk_heap := h, partition_count := c\<rparr>)" for c
    unfolding parts_are_def
  proof (intro exI conjI)
    let ?s = "s\<lparr>disk_heap := h, partition_count := c\<rparr>"
    show "list_rep (disk_heap ?s) (partitions ?s) ps (F - R) U" using rep by simp
    show "D \<inter> (F - R \<union> U) = {}" "R \<inter> (T - R) = {}" "F - R \<union> U \<union> D = T - R" using a(2,3) al(3) l(2) by auto
    show "room (F - R) (k - (unat n + 27))" by (rule al(7))
  qed (use keep a(6) in simp_all)
  moreover have "R \<subseteq> T" using al(3) a(3) by blast
  ultimately show thesis using that al(1,2,5) by blast
qed

text \<open>
  A table on the disk: \<open>n\<close> entries of \<open>es\<close> bytes from sector \<open>start\<close> on, none across a sector
  boundary, all of them on the disk.
\<close>

definition gpt_on_disk :: "(nat \<Rightarrow> u8 list) \<Rightarrow> nat \<Rightarrow> nat \<Rightarrow> nat \<Rightarrow> nat \<Rightarrow> bool" where
  "gpt_on_disk sec limit start n es \<longleftrightarrow> unat (le64 (sec 1) 72) = start \<and> unat (le32 (sec 1) 80) = n \<and>
     unat (le32 (sec 1) 84) = es \<and> es dvd 512 \<and> 56 < es \<and> start \<noteq> 0 \<and>
     (\<forall>j<n. start + j * es div 512 < limit) \<and> 1 < limit \<and> limit \<le> 2 ^ 32"

definition gpt_valid :: "(nat \<Rightarrow> u8 list) \<Rightarrow> bool" where
  "gpt_valid sec \<longleftrightarrow> le64 (sec 1) 0 = ELF_MAGIC"

lemma read_gpt_correct:
  assumes d: "drive_ok rs drive limit sec" and g: "gpt_on_disk sec limit start n es"
    and p: "parts_are ds {} T k s" "539 + n * (es + 69) \<le> k"
  shows "\<exists>s'. read_gpt rs drive s = Some s' \<and>
    (let ds' = (if gpt_valid sec then gpt_partitions sec start es drive [0..<n] else [])
     in parts_are (ds @ ds') {} T (k - (539 + n * (es + 69))) s' \<and> partition_count s' = of_nat (length ds'))"
proof -
  have lim: "unat (1 :: u64) < limit" "limit \<le> 2 ^ 32" using g by (simp_all add: gpt_on_disk_def)
  obtain buf h R where al: "malloc (disk_heap s) 512 = Some (buf, h)" "buf \<noteq> 0" "heap_owned (hmem h) buf 512 R"
    "R \<subseteq> T" "\<And>c. parts_are ds R (T - R) (k - 539) (s\<lparr>disk_heap := h, partition_count := c\<rparr>)"
    by (rule parts_are_alloc [OF p(1), of 512]) (use p(2) in simp_all)
  let ?s0 = "s\<lparr>disk_heap := h, partition_count := 0\<rparr>"
  have "heap_owned (hmem (disk_heap ?s0)) buf 512 R" using al(3) by simp
  from gpt_sector_reads [OF al(5) d lim(2,1) this] obtain s1 where
    s1: "gpt_sector rs drive 1 buf ?s0 = (1, s1)" "parts_are ds R (T - R) (k - 539) s1" "buffered sec buf 1 s1"
      "partition_count s1 = 0" "heap_owned (hmem (disk_heap s1)) buf 512 R" by auto
  have hdr: "load_bytes (hmem (disk_heap s1)) buf 512 = sec 1" using s1(3) by (simp add: buffered_def)
  have f: "read64 (hmem (disk_heap s1)) buf = le64 (sec 1) 0"
    "gpt_entry_start_lba (hmem (disk_heap s1)) buf = le64 (sec 1) 72"
    "gpt_partition_entry_count (hmem (disk_heap s1)) buf = le32 (sec 1) 80"
    "gpt_entry_size (hmem (disk_heap s1)) buf = le32 (sec 1) 84"
    using read64_load [of 0 512 "hmem (disk_heap s1)" buf] read64_load [of 72 512 "hmem (disk_heap s1)" buf]
      read32_load [of 80 512 "hmem (disk_heap s1)" buf] read32_load [of 84 512 "hmem (disk_heap s1)" buf] hdr
    by (simp_all add: gpt_entry_start_lba_def gpt_partition_entry_count_def gpt_entry_size_def)
  have T: "R \<union> (T - R) = T" using al(4) by blast
  show ?thesis
  proof (cases "gpt_valid sec")
    case False
    have "k - (539 + n * (es + 69)) \<le> k - 539" by simp
    from parts_are_free [OF parts_are_room [OF s1(2) this] s1(5)] obtain s2 where
      "free_buffer buf s1 = Some s2" "parts_are ds {} T (k - (539 + n * (es + 69))) s2" "partition_count s2 = 0"
      using s1(4) T by auto
    moreover have "read_gpt rs drive s = free_buffer buf s1"
      using False al(1,2) s1(1) f(1) by (simp add: read_gpt_def gpt_valid_def)
    ultimately show ?thesis using False by simp
  next
    case True
    let ?start = "le64 (sec 1) 72"
    have h: "unat ?start = start" "unat (le32 (sec 1) 80) = n" "of_nat es = le32 (sec 1) 84" "es dvd 512" "56 < es"
      "?start \<noteq> 0" "\<forall>j<n. start + j * es div 512 < limit"
      using g by (auto simp: gpt_on_disk_def)
    have "n * (es + 69) \<le> k - 539" "unat (0 :: u64) + n < 2 ^ 32"
      "\<forall>j<unat (0 :: u64) + n. unat ?start + j * es div 512 < limit"
      using p(2) h(1,2,7) unat_lt_2p32 [of "le32 (sec 1) 80"] by simp_all
    from gpt_loop_lists [OF d lim(2) h(4-6) s1(2,5) this, of 0] obtain s2 where
      s2: "gpt_loop rs drive buf ?start (of_nat es) n 0 0 s1 = Some s2"
        "parts_are (ds @ gpt_partitions sec start es drive [0..<n]) R (T - R) (k - 539 - n * (es + 69)) s2"
        "partition_count s2 = of_nat (length (gpt_partitions sec start es drive [0..<n]))"
        "heap_owned (hmem (disk_heap s2)) buf 512 R"
      using h(1) s1(4) by auto
    from parts_are_free [OF s2(2,4)] obtain s3 where
      s3: "free_buffer buf s2 = Some s3"
        "parts_are (ds @ gpt_partitions sec start es drive [0..<n]) {} T (k - 539 - n * (es + 69)) s3"
        "partition_count s3 = partition_count s2" unfolding T by blast
    have "read_gpt rs drive s = Some s3"
      using True al(1,2) s1(1) s2(1) s3(1) f h(2,3) by (simp add: read_gpt_def gpt_valid_def)
    then show ?thesis using True s2(3) s3(2,3) by (simp add: diff_diff_eq)
  qed
qed

lemma disk_initialize_correct:
  assumes "drive_ok rs drive limit sec" "gpt_on_disk sec limit start n es"
    and "parts_are ds {} T k s" "539 + n * (es + 69) \<le> k"
    and "pick_drive get_drive typ_of [0..<4] 0 = drive" "drive \<noteq> 0"
  shows "\<exists>s'. disk_initialize rs get_drive typ_of s = Some s' \<and>
    (let ds' = (if gpt_valid sec then gpt_partitions sec start es drive [0..<n] else [])
     in parts_are (ds @ ds') {} T (k - (539 + n * (es + 69))) s' \<and> partition_count s' = of_nat (length ds'))"
  using read_gpt_correct [OF assms(1-4)] assms(5,6) by (simp add: disk_initialize_def)

section \<open>A small disk\<close>

text \<open>
  A table of two entries of 128 bytes in sector 2; the first is a partition of 100 sectors from
  sector 3 on, the second is not used.
\<close>

definition disk_header :: "u8 list" where
  "disk_header = (replicate 512 0)[0 := 0x45, 1 := 0x46, 2 := 0x49, 3 := 0x20, 4 := 0x50, 5 := 0x41, 6 := 0x52,
     7 := 0x54, 72 := 2, 80 := 2, 84 := 128]"

definition disk_table :: "u8 list" where
  "disk_table = (replicate 512 0)[0 := 1, 32 := 3, 40 := 103]"

definition disk_sector :: "(nat \<Rightarrow> u8 list) \<Rightarrow> nat \<Rightarrow> u8 list" where
  "disk_sector rest n = (if n = 1 then disk_header else if n = 2 then disk_table else rest n)"

definition sector_read :: "(nat \<Rightarrow> u8 list) \<Rightarrow> unit drive_read" where
  "sector_read sec d n lba h = (1, sec (unat lba), h)"

definition disk_boot :: "'h \<Rightarrow> 'h disk" where
  "disk_boot h = \<lparr>disk_heap = example_heap, partitions = 0, partition_count = 0, disk_hw = h\<rparr>"

lemma sector_read_ok: "\<forall>n. length (sec n) = 512 \<Longrightarrow> drive_ok (sector_read sec) drive limit sec"
  by (simp add: drive_ok_def sector_read_def)

lemma disk_sector_length: "\<forall>n. length (rest n) = 512 \<Longrightarrow> \<forall>n. length (disk_sector rest n) = 512"
  by (simp add: disk_sector_def disk_header_def disk_table_def)

lemma disk_sector_gpt: "gpt_valid (disk_sector rest)" "gpt_on_disk (disk_sector rest) 1000 2 2 128"
proof -
  have "le64 disk_header 0 = ELF_MAGIC" by code_simp
  then show "gpt_valid (disk_sector rest)" by (simp add: gpt_valid_def disk_sector_def)
  have "le64 disk_header 72 = 2" "le32 disk_header 80 = 2" "le32 disk_header 84 = 128" by code_simp+
  then show "gpt_on_disk (disk_sector rest) 1000 2 2 128" by (simp add: gpt_on_disk_def disk_sector_def)
qed

lemma disk_sector_partitions:
  "\<exists>name. gpt_partitions (disk_sector rest) 2 128 drive [0..<2] =
     [\<lparr>info_start = 3, info_size = 100, info_attributes = 0, info_name = name, info_drive = drive\<rparr>]"
proof -
  let ?e = "raw_entry (disk_sector rest) 2 128"
  have e: "?e 0 = take 128 disk_table" "?e 1 = take 128 (drop 128 disk_table)"
    by (simp_all add: raw_entry_def disk_sector_def)
  have "entry_used (?e 0)" unfolding e entry_used_def by (intro exI [of _ 0]) (simp add: disk_table_def)
  moreover have "\<not> entry_used (?e 1)" unfolding e entry_used_def by (auto simp: disk_table_def)
  moreover have "le64 (?e 0) 32 = 3" "le64 (?e 0) 40 = 103" "le64 (?e 0) 48 = 0"
    unfolding e by (simp_all add: le64_def le32_def disk_table_def)
  moreover have "[0..<2] = [0, 1 :: nat]" by (simp add: upt_rec)
  ultimately show ?thesis by (simp add: gpt_partitions_def entry_info_def)
qed

lemma disk_boot_parts: "parts_are [] {} (free_region [(4096, 8192)]) 1000 (disk_boot h)"
proof -
  have "of_nat y \<in> free_region [(4096, 8192)]" if "4096 \<le> y" "y < 4096 + 1000" for y
    using that by (simp add: free_region_def unat_of_nat take_bit_eq_mod)
  then have "room (free_region [(4096, 8192)]) 1000" by (intro roomI [of 4096]) simp_all
  then show ?thesis
    using list_rep_empty [OF example_heap_F] unfolding parts_are_def disk_boot_def
    by (intro exI [of _ "[]"] exI [of _ "free_region [(4096, 8192)]"] exI [of _ "{}"]) simp
qed

lemma disk_boot_drive: "pick_drive (\<lambda>i. 0x2000) (\<lambda>d. ATA_TYPE_PATA) [0..<4] 0 = 0x2000"
  by (simp add: upt_rec)

section \<open>Properties\<close>

text \<open>
  C37: \<open>disk_initialize\<close> reads the partition table. When the table lies on the disk with no entry
  across a sector boundary, and memory suffices, the list of partitions grows by exactly the used
  entries, in the order of the table, with their start, length, attributes and name; the sector
  buffer is free again and no other byte is lost. Without the signature nothing is added.
\<close>

theorem gpt_lists_partitions:
  assumes "drive_ok rs drive limit sec" "gpt_on_disk sec limit start n es"
    and "parts_are ds {} T k s" "539 + n * (es + 69) \<le> k"
    and "pick_drive get_drive typ_of [0..<4] 0 = drive" "drive \<noteq> 0"
  shows "\<exists>s'. disk_initialize rs get_drive typ_of s = Some s' \<and>
    (let ds' = (if gpt_valid sec then gpt_partitions sec start es drive [0..<n] else [])
     in parts_are (ds @ ds') {} T (k - (539 + n * (es + 69))) s' \<and> partition_count s' = of_nat (length ds'))"
  using assms by (rule disk_initialize_correct)

theorem gpt_lists_partitions_witness:
  "\<exists>s'. disk_initialize (sector_read (disk_sector (\<lambda>n. replicate 512 0))) (\<lambda>i. 0x2000) (\<lambda>d. ATA_TYPE_PATA) (disk_boot ()) =
     Some s' \<and> partition_count s' = 1"
proof -
  let ?sec = "disk_sector (\<lambda>n. replicate 512 0)"
  have "\<forall>n. length (?sec n) = 512" by (rule disk_sector_length) simp
  from gpt_lists_partitions [OF sector_read_ok [OF this] disk_sector_gpt(2) disk_boot_parts _ disk_boot_drive]
  show ?thesis using disk_sector_gpt(1) [of "\<lambda>n. replicate 512 0"]
      disk_sector_partitions [of "\<lambda>n. replicate 512 0" "0x2000"] by (auto simp: Let_def)
qed

end
