(* ===== verification/MountProperties.thy ===== *)
theory MountProperties
  imports Mount DiskProperties FatDirProperties
begin

text \<open>
  From the partition table to the file system: of the partitions found on the disk the first with
  the boot record of a FAT volume is mounted.
\<close>

section \<open>A partition and its boot record\<close>

definition info_boot :: "(nat \<Rightarrow> u8 list) \<Rightarrow> part_info \<Rightarrow> BootRecord" where
  "info_boot sec i = read_boot_record (sec (unat (info_start i)))"

text \<open>What is mounted, and the boot records that do not make the code divide by zero.\<close>

definition bootable :: "(nat \<Rightarrow> u8 list) \<Rightarrow> part_info \<Rightarrow> bool" where
  "bootable sec i \<longleftrightarrow> bytes_per_sector (info_boot sec i) \<noteq> 0 \<and> boot_ok (info_boot sec i)"

definition info_readable :: "(nat \<Rightarrow> u8 list) \<Rightarrow> addr \<Rightarrow> nat \<Rightarrow> part_info \<Rightarrow> bool" where
  "info_readable sec drive limit i \<longleftrightarrow> info_drive i = drive \<and> unat (info_start i) < limit \<and> info_size i \<noteq> 0 \<and>
     (bytes_per_sector (info_boot sec i) = 0 \<or> sectors_per_cluster (info_boot sec i) \<noteq> 0)"

definition info_volume :: "(nat \<Rightarrow> u8 list) \<Rightarrow> part_info \<Rightarrow> volume" where
  "info_volume sec i =
     (let br = info_boot sec i; fat = ucast (reserved_sector_count br)
      in \<lparr>vol_drive = info_drive i, vol_start = info_start i, vol_size = info_size i, vol_fat = fat,
          vol_data = fat + ucast (fat_count br) * boot_fat_size br + boot_root_dir_sectors br,
          vol_spc = sectors_per_cluster br, vol_sector = sec\<rparr>)"

lemma fat_init_partition_info:
  assumes d: "drive_ok rs drive limit sec" "limit \<le> 2 ^ 32"
    and i: "partition_info (fat_mem st) p = i" "info_readable sec drive limit i"
    and st: "length (fat_buffer st) = 512" "fat_sector st = 0"
  shows "\<exists>st'. fat_init_partition rs p st = Some st' \<and> fat_heap st' = fat_heap st \<and>
    length (fat_buffer st') = 512 \<and> fat_sector st' = 0 \<and>
    (if bootable sec i then fat_partition st' = p \<and> mounted (info_volume sec i) st'
     else fat_partition st' = fat_partition st)"
proof -
  have f: "partition_drive (fat_mem st) p = drive" "partition_start (fat_mem st) p = info_start i"
    "partition_size (fat_mem st) p = info_size i" "unat (info_start i) < limit" "info_size i \<noteq> 0"
    "info_drive i = drive"
    using i by (auto simp: partition_info_def info_readable_def)
  obtain hw where hw: "fat_disk rs p 0 st = (1, sec (unat (info_start i)), st\<lparr>fat_hw := hw\<rparr>)"
    using boot_sector_read [of rs st p limit sec] d f by metis
  have len: "length (sec (unat (info_start i))) = 512" using d(1) by (simp add: drive_ok_def)
  with st(1) have o: "overwrite (sec (unat (info_start i))) (fat_buffer st) = sec (unat (info_start i))" by simp
  show ?thesis
  proof (cases "bytes_per_sector (info_boot sec i) = 0")
    case True
    then show ?thesis using st(2) len
      by (simp add: fat_init_partition_def hw o Let_def info_boot_def bootable_def)
  next
    case False
    then have "sectors_per_cluster (info_boot sec i) \<noteq> 0" using i(2) by (simp add: info_readable_def)
    with False show ?thesis using st(2) len f
      by (cases "boot_ok (info_boot sec i)")
        (simp_all add: fat_init_partition_def hw o Let_def info_boot_def bootable_def mounted_def info_volume_def)
  qed
qed

section \<open>Trying the partitions\<close>

lemma mount_loop_done: "fat_partition st \<noteq> 0 \<Longrightarrow> mount_loop rs q st = Some st"
  by (simp add: mount_loop.simps)

lemma mount_loop_finds:
  assumes d: "drive_ok rs drive limit sec" "limit \<le> 2 ^ 32"
    and "chain heap_owned list_layout (fat_mem st) q (map (\<lambda>v. [v]) ps) 0 U"
    and "\<forall>p\<in>set ps. p \<noteq> 0 \<and> info_readable sec drive limit (partition_info (fat_mem st) p)"
    and "length (fat_buffer st) = 512" "fat_sector st = 0" "fat_partition st = 0"
  shows "\<exists>st'. mount_loop rs q st = Some st' \<and> fat_heap st' = fat_heap st \<and>
    (case find (\<lambda>p. bootable sec (partition_info (fat_mem st) p)) ps of
       None \<Rightarrow> fat_partition st' = 0
     | Some p \<Rightarrow> fat_partition st' = p \<and> mounted (info_volume sec (partition_info (fat_mem st) p)) st')"
  using assms(3-7)
proof (induction ps arbitrary: q st U)
  case Nil
  then show ?case by (simp add: mount_loop.simps)
next
  case (Cons p ps)
  let ?i = "partition_info (fat_mem st) p"
  obtain B V where c: "heap_owned (fat_mem st) q 8 B" "list_value (fat_mem st) q = p"
    "chain heap_owned list_layout (fat_mem st) (list_next (fat_mem st) q) (map (\<lambda>v. [v]) ps) 0 V"
    using Cons.prems(1) by auto
  have q: "q \<noteq> 0" using heap_owned_region [OF c(1)] by simp
  have r: "info_readable sec drive limit ?i" "p \<noteq> 0" using Cons.prems(2) by simp_all
  obtain st1 where st1: "fat_init_partition rs p st = Some st1" "fat_heap st1 = fat_heap st"
    "length (fat_buffer st1) = 512" "fat_sector st1 = 0"
    "if bootable sec ?i then fat_partition st1 = p \<and> mounted (info_volume sec ?i) st1
     else fat_partition st1 = fat_partition st"
    using fat_init_partition_info [OF d refl r(1) Cons.prems(3,4)] by blast
  have step: "mount_loop rs q st = mount_loop rs (list_next (fat_mem st) q) st1"
    using q c(2) Cons.prems(5) st1(1,2) by (subst mount_loop.simps) simp
  show ?case
  proof (cases "bootable sec ?i")
    case True
    then have "fat_partition st1 = p" "mounted (info_volume sec ?i) st1" using st1(5) by simp_all
    then show ?thesis using step mount_loop_done [of st1] r(2) st1(2) True by simp
  next
    case False
    then have z: "fat_partition st1 = 0" using st1(5) Cons.prems(5) by simp
    have m: "fat_mem st1 = fat_mem st" using st1(2) by simp
    from Cons.IH [OF _ _ st1(3,4) z, unfolded m, OF c(3)] Cons.prems(2) step False st1(2)
    show ?thesis by simp
  qed
qed

section \<open>Booting\<close>

text \<open>
  When the table is on the disk, all its partitions lie on the disk and memory suffices,
  \<open>disk_initialize\<close> and then \<open>fat_initialize\<close> mount the volume of the first partition, in the order of
  the table, whose boot record has a FAT signature; with none, no partition is mounted.
\<close>

lemma boot_correct:
  assumes "drive_ok rs drive limit sec" "gpt_on_disk sec limit start n es" "gpt_valid sec"
    and "parts_are [] {} T k s" "539 + n * (es + 69) \<le> k"
    and "pick_drive get_drive typ_of [0..<4] 0 = drive" "drive \<noteq> 0"
    and "\<forall>i\<in>set (gpt_partitions sec start es drive [0..<n]). info_readable sec drive limit i"
    and "length (fat_buffer st) = 512" "fat_sector st = 0" "fat_partition st = 0"
  shows "\<exists>s' st'. disk_initialize rs get_drive typ_of s = Some s' \<and>
    fat_initialize rs (disk_get_partitions s') (st\<lparr>fat_heap := disk_heap s', fat_hw := disk_hw s'\<rparr>) = Some st' \<and>
    (case find (bootable sec) (gpt_partitions sec start es drive [0..<n]) of
       None \<Rightarrow> fat_partition st' = 0
     | Some i \<Rightarrow> partition_info (fat_mem st') (fat_partition st') = i \<and> mounted (info_volume sec i) st')"
proof -
  let ?ds = "gpt_partitions sec start es drive [0..<n]"
  obtain s' where s': "disk_initialize rs get_drive typ_of s = Some s'" "parts_are ?ds {} T (k - (539 + n * (es + 69))) s'"
    using disk_initialize_correct [OF assms(1,2,4-7), unfolded Let_def if_P [OF assms(3)] append_Nil] by blast
  let ?st = "st\<lparr>fat_heap := disk_heap s', fat_hw := disk_hw s'\<rparr>" and ?m = "hmem (disk_heap s')"
  obtain ps F U D where a: "list_rep (disk_heap s') (partitions s') ps F U"
    "\<forall>p\<in>set ps. p \<noteq> 0 \<and> partition_space ?m p \<subseteq> D" "map (partition_info ?m) ps = ?ds"
    using s'(2) unfolding parts_are_def by (elim exE conjE) (rule that)
  have lim: "limit \<le> 2 ^ 32" using assms(2) by (simp add: gpt_on_disk_def)
  have c: "chain heap_owned list_layout ?m (partitions s') (map (\<lambda>v. [v]) ps) 0 U"
    using a(1) by (simp add: list_rep_def)
  have p: "p \<noteq> 0 \<and> info_readable sec drive limit (partition_info ?m p)" if "p \<in> set ps" for p
    using a(2) assms(8) that unfolding a(3) [symmetric] by simp
  have m: "fat_mem ?st = ?m" by simp
  have pre: "length (fat_buffer ?st) = 512" "fat_sector ?st = 0" "fat_partition ?st = 0" using assms(9-11) by simp_all
  from mount_loop_finds [OF assms(1) lim c [folded m] _ pre] p obtain st' where
    st': "mount_loop rs (partitions s') ?st = Some st'" "fat_heap st' = fat_heap ?st"
    "case find (\<lambda>p. bootable sec (partition_info ?m p)) ps of None \<Rightarrow> fat_partition st' = 0
     | Some p \<Rightarrow> fat_partition st' = p \<and> mounted (info_volume sec (partition_info ?m p)) st'"
    unfolding m by blast
  have m': "fat_mem st' = ?m" using st'(2) by simp
  have "find (bootable sec) ?ds = map_option (partition_info ?m) (find (\<lambda>p. bootable sec (partition_info ?m p)) ps)"
    unfolding a(3) [symmetric] by (induction ps) simp_all
  then have "case find (bootable sec) ?ds of None \<Rightarrow> fat_partition st' = 0
     | Some i \<Rightarrow> partition_info (fat_mem st') (fat_partition st') = i \<and> mounted (info_volume sec i) st'"
    using st'(3) unfolding m' by (cases "find (\<lambda>p. bootable sec (partition_info ?m p)) ps") simp_all
  moreover have "fat_initialize rs (disk_get_partitions s') ?st = Some st'"
    using st'(1) by (simp add: fat_initialize_def disk_get_partitions_def)
  ultimately show ?thesis using s'(1) by blast
qed

end
