(* ===== verification/DriveResult.thy ===== *)
theory DriveResult
  imports MountProperties
begin

text \<open>
  What the callers of a drive's \<open>read_sectors\<close> make of its result. \<open>disk.c\<close> and the mounting in
  \<open>fat.c\<close> only ask whether it is 0; \<open>load_file_buffer\<close> wants exactly 1. So a driver that delivers
  the sectors and returns another number serves the first and not the second.
\<close>

section \<open>A driver and its result\<close>

text \<open>Reading one of the first \<open>limit\<close> sectors delivers it and returns \<open>r\<close>.\<close>

definition drive_gives :: "int \<Rightarrow> 'h drive_read \<Rightarrow> addr \<Rightarrow> nat \<Rightarrow> (nat \<Rightarrow> u8 list) \<Rightarrow> bool" where
  "drive_gives r rs drive limit sector \<longleftrightarrow>
     (\<forall>lba h. unat lba < limit \<longrightarrow> (\<exists>hw. rs drive 1 lba h = (r, sector (unat lba), hw))) \<and>
     (\<forall>n. length (sector n) = 512)"

lemma drive_gives_1: "drive_gives 1 rs drive limit sector = drive_ok rs drive limit sector"
  by (simp add: drive_gives_def drive_ok_def)

text \<open>The same driver with a result of 1 for success: every result but 0, or (\<open>any\<close>) every result.\<close>

definition result_1 :: "bool \<Rightarrow> 'h drive_read \<Rightarrow> 'h drive_read" where
  "result_1 any rs drive n lba h =
     (case rs drive n lba h of (r, bytes, hw) \<Rightarrow> (of_bool (any \<or> r \<noteq> 0), bytes, hw))"

lemma drive_gives_result_1:
  assumes "drive_gives r rs drive limit sector" "any \<or> r \<noteq> 0"
  shows "drive_ok (result_1 any rs) drive limit sector"
proof -
  have "\<exists>hw. result_1 any rs drive 1 lba h = (1, sector (unat lba), hw)" if "unat lba < limit" for lba h
  proof -
    have "\<exists>hw. rs drive 1 lba h = (r, sector (unat lba), hw)"
      using assms(1) that unfolding drive_gives_def by blast
    then show ?thesis using assms(2) by (auto simp: result_1_def)
  qed
  then show ?thesis using assms(1) by (simp add: drive_ok_def drive_gives_def)
qed

section \<open>Only success counts\<close>

lemma gpt_sector_result_1:
  "gpt_sector (result_1 any rs) drive lba buf s =
     (case gpt_sector rs drive lba buf s of (r, s') \<Rightarrow> (of_bool (any \<or> r \<noteq> 0), s'))"
  by (simp add: gpt_sector_def result_1_def split: prod.split)

lemma gpt_loop_result_1:
  "gpt_loop (result_1 False rs) drive buf start es n i lba s = gpt_loop rs drive buf start es n i lba s"
  by (induction n arbitrary: i lba s)
    (simp_all add: gpt_sector_result_1 Let_def split: prod.split option.split)

lemma read_gpt_result_1: "read_gpt (result_1 False rs) drive s = read_gpt rs drive s"
  by (simp add: read_gpt_def gpt_sector_result_1 gpt_loop_result_1 Let_def split: prod.split option.split)

lemma disk_initialize_result_1: "disk_initialize (result_1 False rs) = disk_initialize rs"
  by (simp add: fun_eq_iff disk_initialize_def read_gpt_result_1 Let_def)

lemma fat_init_partition_result_1: "fat_init_partition (result_1 False rs) p st = fat_init_partition rs p st"
  by (simp add: fat_init_partition_def fat_disk_def disk_read_sectors_def result_1_def Let_def split: prod.split)

lemma mount_loop_cong:
  assumes "mount_loop rs q st = Some y" "\<And>p st. fat_init_partition rs p st = fat_init_partition rs' p st"
  shows "mount_loop rs' q st = Some y"
proof -
  have "(\<forall>p st. fat_init_partition rs p st = fat_init_partition rs' p st) \<longrightarrow> mount_loop rs' q st = Some y"
    by (rule mount_loop.raw_induct [where P = "\<lambda>rs q st y.
          (\<forall>p st. fat_init_partition rs p st = fat_init_partition rs' p st) \<longrightarrow> mount_loop rs' q st = Some y",
          OF _ assms(1)])
      (intro impI, subst mount_loop.simps, auto split: if_splits option.splits)
  then show ?thesis using assms(2) by blast
qed

lemma fat_initialize_result_1: "fat_initialize (result_1 False rs) q st = fat_initialize rs q st"
proof -
  have "mount_loop (result_1 False rs) q st = Some y \<longleftrightarrow> mount_loop rs q st = Some y" for y
    using mount_loop_cong [of rs q st y "result_1 False rs"] mount_loop_cong [of "result_1 False rs" q st y rs]
    by (auto simp: fat_init_partition_result_1)
  then show ?thesis unfolding fat_initialize_def by (cases "mount_loop rs q st") (auto simp: option.expand)
qed

section \<open>A result of 0\<close>

text \<open>The partition table is not looked at, and the buffer is free again.\<close>

lemma read_gpt_refused:
  assumes d: "drive_gives 0 rs drive limit sec" "1 < limit" "limit \<le> 2 ^ 32"
    and p: "parts_are ds {} T k s" "539 \<le> k"
  shows "\<exists>s'. read_gpt rs drive s = Some s' \<and> parts_are ds {} T (k - 539) s'"
proof -
  obtain buf h R where al: "malloc (disk_heap s) 512 = Some (buf, h)" "buf \<noteq> 0" "heap_owned (hmem h) buf 512 R"
    "R \<subseteq> T" "\<And>c. parts_are ds R (T - R) (k - 539) (s\<lparr>disk_heap := h, partition_count := c\<rparr>)"
    by (rule parts_are_alloc [OF p(1), of 512]) (use p(2) in simp_all)
  let ?s0 = "s\<lparr>disk_heap := h, partition_count := 0\<rparr>"
  have "heap_owned (hmem (disk_heap ?s0)) buf 512 R" "unat (1 :: u64) < limit" using al(3) d(2) by simp_all
  note sector = gpt_sector_reads [OF al(5) drive_gives_result_1 [OF d(1), of True, simplified] d(3) this(2) this(1)]
  obtain s1 where s1: "gpt_sector (result_1 True rs) drive 1 buf ?s0 = (1, s1)"
    "parts_are ds R (T - R) (k - 539) s1" "heap_owned (hmem (disk_heap s1)) buf 512 R"
    using sector by (elim exE conjE) (rule that, simp_all)
  obtain hw where "rs drive 1 1 (disk_hw ?s0) = (0, sec (unat (1 :: u32)), hw)"
    using d(1,2) unfolding drive_gives_def by (metis unat_1)
  then have "fst (gpt_sector rs drive 1 buf ?s0) = 0" by (simp add: gpt_sector_def)
  then have "gpt_sector rs drive 1 buf ?s0 = (0, s1)"
    using s1(1) by (auto simp: gpt_sector_result_1 split: prod.splits)
  then have "read_gpt rs drive s = free_buffer buf s1" using al(1,2) by (simp add: read_gpt_def)
  moreover have "R \<union> (T - R) = T" using al(4) by blast
  ultimately show ?thesis using parts_are_free [OF s1(2,3)] by auto
qed

section \<open>A result other than 1\<close>

text \<open>No sector of a file is loaded; what the search for its cluster leaves of the file.\<close>

lemma seek_cluster_frame:
  "seek_cluster rs n st f = (ok, st', f') \<Longrightarrow>
     fat_heap st' = fat_heap st \<and> fat_partition st' = fat_partition st \<and> position f' = position f"
proof (induction n arbitrary: st f)
  case (Suc n)
  obtain c st1 where c: "next_cluster rs (current_cluster f) st = (c, st1)" by fastforce
  then have "fat_heap st1 = fat_heap st \<and> fat_partition st1 = fat_partition st"
    by (auto simp: next_cluster_def fat_disk_def Let_def split: prod.splits if_splits)
  then show ?case using Suc c by (auto simp: Let_def split: if_splits)
qed simp

lemma load_file_buffer_refused:
  assumes d: "drive_gives r rs (vol_drive V) limit sec" "r \<noteq> 1"
    and v: "unat (vol_start V) + unat (vol_size V) \<le> limit" "limit \<le> 2 ^ 32" "vol_spc V \<noteq> 0" "mounted V st"
  obtains fd' st' where "load_file_buffer rs fd st = Some (EOF, fd', st')"
    "position (ffd fd') = position (ffd fd)" "unchanged_outside (region (buffer fd) 512) (fat_mem st) (fat_mem st')"
proof -
  have spc: "(ucast (sectors_per_cluster (boot_record st)) :: u32) \<noteq> 0"
    using v(3,4) unfolding mounted_def by (metis unat_0 unat_eq_zero unat_spc)
  define pos where "pos = position (ffd fd) div SECTOR_SIZE"
  define ci where "ci = pos div ucast (sectors_per_cluster (boot_record st))"
  define si where "si = pos mod ucast (sectors_per_cluster (boot_record st))"
  define f where "f = (if ci < cluster_index (ffd fd)
    then (ffd fd)\<lparr>cluster_index := 0, current_cluster := first_cluster (ffd fd)\<rparr> else ffd fd)"
  obtain ok st1 f1 where s: "seek_cluster rs (unat ci - unat (cluster_index f)) st f = (ok, st1, f1)"
    by (metis surj_pair)
  then have fr: "fat_heap st1 = fat_heap st" "fat_partition st1 = fat_partition st" "position f1 = position f"
    using seek_cluster_frame by blast+
  have load: "load_file_buffer rs fd st = (if \<not> ok then Some (EOF, fd\<lparr>ffd := f1\<rparr>, st1)
    else let f = f1\<lparr>current_sector_in_cluster := si\<rparr>;
             (r, st) = read_cluster rs (current_cluster f) (ucast si) (buffer fd) st1
         in Some (if r \<noteq> 1 then EOF else 0, fd\<lparr>ffd := f\<rparr>, st))"
    using spc s unfolding load_file_buffer_def Let_def
    by (simp add: pos_def [symmetric] ci_def [symmetric] si_def [symmetric] f_def [symmetric])
  have p: "position f1 = position (ffd fd)" unfolding fr(3) by (simp add: f_def)
  show thesis
  proof (cases ok)
    case False
    then show thesis using load fr p by (intro that [of "fd\<lparr>ffd := f1\<rparr>" st1]) (simp_all add: unchanged_outside_def)
  next
    case True
    let ?f = "f1\<lparr>current_sector_in_cluster := si\<rparr>"
    let ?lba = "ucast (cluster_to_lba st1 (current_cluster ?f) + ucast (ucast si :: u8)) :: u64"
    have part: "partition_drive (fat_mem st1) (fat_partition st1) = vol_drive V"
      "partition_start (fat_mem st1) (fat_partition st1) = vol_start V"
      "partition_size (fat_mem st1) (fat_partition st1) = vol_size V"
      using v(4) unfolding fr(1,2) mounted_def by simp_all
    obtain q bs hw where q: "fat_disk rs (fat_partition st1) ?lba st1 = (q, bs, st1\<lparr>fat_hw := hw\<rparr>)"
      "q \<noteq> 1" "length bs \<le> 512"
    proof (cases "?lba \<ge> vol_size V")
      case True
      then show thesis using part that [of 0 "[]" "fat_hw st1"] by (simp add: fat_disk_def disk_read_sectors_def)
    next
      case False
      have "unat ?lba + unat (vol_start V) < limit" using False v(1) by (simp add: word_le_nat_alt)
      then have fit: "unat (?lba + vol_start V) < limit"
        using v(2) by (simp add: unat_word_ariths)
      then have "unat (ucast (?lba + vol_start V) :: u32) < limit"
        using v(2) by (subst unat_ucast_down) simp_all
      with d(1) obtain hw where "rs (vol_drive V) 1 (ucast (?lba + vol_start V)) (fat_hw st1) =
          (r, sec (unat (ucast (?lba + vol_start V) :: u32)), hw)" unfolding drive_gives_def by blast
      then show thesis using False part d that [of r]
        by (simp add: fat_disk_def disk_read_sectors_def drive_gives_def)
    qed
    let ?st = "set_fat_mem (store_bytes (fat_mem st1) (buffer fd) bs) (st1\<lparr>fat_hw := hw\<rparr>)"
    have "read_cluster rs (current_cluster ?f) (ucast si) (buffer fd) st1 = (q, ?st)"
      using q(1) by (simp add: read_cluster_def)
    then have l: "load_file_buffer rs fd st = Some (EOF, fd\<lparr>ffd := ?f\<rparr>, ?st)" using True load q(2) by simp
    have "region (buffer fd) (length bs) \<subseteq> region (buffer fd) 512" using q(3) by (rule region_mono)
    then have "unchanged_outside (region (buffer fd) 512) (fat_mem st) (fat_mem ?st)"
      using unchanged_store_bytes [of "buffer fd" bs "region (buffer fd) 512" "fat_mem st1"] fr(1) by simp
    then show thesis using l p by (intro that [of "fd\<lparr>ffd := ?f\<rparr>" ?st]) simp_all
  qed
qed

text \<open>
  A read ends with the sector that is loaded: its bytes are copied, and if more are asked for and
  the file goes on the stream is in error.
\<close>

lemma fat_read_refused:
  assumes d: "drive_gives r rs (vol_drive V) limit sec" "r \<noteq> 1"
    and v: "unat (vol_start V) + unat (vol_size V) \<le> limit" "limit \<le> 2 ^ 32" "vol_spc V \<noteq> 0"
    and f: "file_state V n fd st" "\<not> file_error fd"
    and b: "region buff (unat sz) \<inter> (region (buffer fd) 512 \<union> partition_bytes st) = {}"
    and m: "rest = 512 - unat (position (ffd fd)) mod 512" "left = unat (file_size (ffd fd)) - unat (position (ffd fd))"
      "j = min (min (unat sz) left) rest"
  shows "\<exists>fd' st'. fat_read rs fd buff sz st = Some (of_nat j, fd', st') \<and>
    load_bytes (fat_mem st') buff j = file_bytes V (first_cluster (ffd fd)) (unat (position (ffd fd))) j \<and>
    position (ffd fd') = position (ffd fd) + of_nat j \<and>
    (file_error fd' \<longleftrightarrow> j = rest \<and> j < left)"
proof -
  have rest: "0 < rest" using m(1) by simp
  let ?p = "position (ffd fd)" and ?rif = "file_size (ffd fd) - position (ffd fd)"
  have le: "?p \<le> file_size (ffd fd)" using f(1) by (simp add: file_state_def)
  then have rif: "unat ?rif = left" using m(2) by (simp add: unat_sub)
  consider (empty) "left = 0" | (none) "left \<noteq> 0" "sz = 0" | (copy) "left \<noteq> 0" "sz \<noteq> 0" by blast
  then show ?thesis
  proof cases
    case empty
    then have "?rif = 0" using rif by (simp add: unat_eq_zero)
    then show ?thesis using empty f(2) m(3) rest by (simp add: fat_read_def load_bytes_def file_bytes_def)
  next
    case none
    then have "?rif \<noteq> 0" using rif by auto
    then show ?thesis using none f(2) m(3) rest by (simp add: fat_read_def load_bytes_def file_bytes_def)
  next
    case copy
    have lt: "?p < file_size (ffd fd)" using copy(1) m(2) by (simp add: word_less_nat_alt)
    define t where "t = step_size sz ?rif ?p"
    define st1 where "st1 = set_fat_mem (memcpy (fat_mem st) buff (buffer fd + ?p mod SECTOR_SIZE) t) st"
    note st = step_copied [OF f(1) refl lt b copy(2) t_def st1_def]
    have ut: "unat t = j"
      unfolding t_def unat_step_size rif m(3) m(1) by (simp add: min.assoc min.commute min.left_commute)
    have j: "j \<le> unat sz" "j \<le> left" "j \<le> rest" using m(3) by simp_all
    have dis: "region buff (unat t) \<inter> (region (buffer fd) 512 \<union> partition_bytes st) = {}"
      and fits: "unat ?p mod 512 + unat t \<le> 512" using st(1) by (simp_all add: copied_def)
    note cp = copy_step [OF f(1) lt fits dis st1_def]
    have bytes: "load_bytes (fat_mem st1) buff j = file_bytes V (first_cluster (ffd fd)) (unat ?p) j"
      using cp(2) unfolding ut .
    have t: "t = of_nat j" using ut by (metis of_nat_unat ucast_id)
    have sz: "sz > 0" using copy(2) by (simp add: word_gt_0)
    note step = fat_read_loop_step [OF sz, unfolded Let_def, of rs ?rif buff fd st, folded t_def, folded st1_def]
    have bound: "t = SECTOR_SIZE - ?p mod SECTOR_SIZE \<longleftrightarrow> j = rest"
      unfolding word_unat_eq_iff unat_sector_rest ut m(1) ..
    have last: "?rif = t \<longleftrightarrow> j = left" unfolding word_unat_eq_iff rif ut by auto
    have nz: "?rif \<noteq> 0" using copy(1) rif by auto
    have read: "fat_read rs fd buff sz st = (case fat_read_loop rs sz ?rif buff fd st of None \<Rightarrow> None
      | Some (remaining, fd, st) \<Rightarrow> Some (sz - remaining, fd, st))"
      using nz f(2) by (simp add: fat_read_def)
    consider (last) "j = left" | (full) "j \<noteq> left" "j = rest" | (part) "j \<noteq> left" "j \<noteq> rest" by blast
    then show ?thesis
    proof cases
      case last
      then show ?thesis using read step \<open>?rif = t \<longleftrightarrow> j = left\<close> bytes t f(2) by simp
    next
      case full
      obtain fd2 st2 where l: "load_file_buffer rs (advance t fd) st1 = Some (EOF, fd2, st2)"
        "position (ffd fd2) = position (ffd (advance t fd))"
        "unchanged_outside (region (buffer (advance t fd)) 512) (fat_mem st1) (fat_mem st2)"
        by (rule load_file_buffer_refused [OF d v cp(1)])
      have "load_bytes (fat_mem st2) buff j = load_bytes (fat_mem st1) buff j"
        using dis unat_lt_2p32 [of t] unfolding ut
        by (intro load_bytes_cong unchangedD [OF l(3)]) auto
      then show ?thesis using full read step last bound l t j bytes by (simp add: EOF_def)
    next
      case part
      then have "t = sz" using ut m(3) by (auto simp: word_unat_eq_iff min_def split: if_splits)
      then show ?thesis using part read step last bound t bytes f(2) by simp
    qed
  qed
qed

end
