(* ===== verification/BlockDevice.thy ===== *)
theory BlockDevice
  imports DriveResult
begin

text \<open>
  The interface between the disk drivers and the code above them (\<open>disk.c\<close>, \<open>fat.c\<close>): what reading
  through the function pointer \<open>read_sectors\<close> of a drive promises. A configuration \<open>c\<close> is what the
  driver knows of its hardware; \<open>attached c a limit sec\<close> says that a drive with the sectors \<open>sec\<close>
  stands behind the structure at \<open>a\<close>, and \<open>result c\<close> is what the driver returns when it has
  delivered a sector.
\<close>

locale block_device =
  fixes attached :: "'c \<Rightarrow> addr \<Rightarrow> nat \<Rightarrow> (nat \<Rightarrow> u8 list) \<Rightarrow> bool"
    and result :: "'c \<Rightarrow> int"
    and read_from :: "'c \<Rightarrow> 'h drive_read"
  assumes read_sector: "attached c a limit sec \<Longrightarrow> unat lba < limit \<Longrightarrow>
      \<exists>hw. read_from c a 1 lba h = (result c, sec (unat lba), hw)"
    and sector_length: "attached c a limit sec \<Longrightarrow> length (sec n) = 512"
begin

text \<open>The contracts the clients' lemmas are stated over.\<close>

lemma gives: "attached c a limit sec \<Longrightarrow> drive_gives (result c) (read_from c) a limit sec"
  using read_sector sector_length unfolding drive_gives_def by blast

lemma drive:
  assumes "attached c a limit sec" "result c = 1" "n \<le> limit"
  shows "drive_ok (read_from c) a n sec"
proof -
  have "\<exists>hw. read_from c a 1 lba h = (1, sec (unat lba), hw)" if "unat lba < n" for lba h
    using read_sector [OF assms(1), of lba h] that assms(2,3) by simp
  then show ?thesis using sector_length [OF assms(1)] by (simp add: drive_ok_def)
qed

lemma volume:
  assumes "attached c (vol_drive V) limit (vol_sector V)" "result c = 1"
    and "unat (vol_start V) + unat (vol_size V) \<le> limit"
    and "limit \<le> 2 ^ 32" "vol_fat V \<noteq> 0" "vol_spc V \<noteq> 0"
  shows "volume_ok (read_from c) V"
  using drive [OF assms(1-3)] assms(3-6) by (simp add: volume_ok_def)

text \<open>An open file is read, if the result is 1; otherwise no further than to the end of the sector.\<close>

lemma read_file:
  assumes "attached c (vol_drive V) limit (vol_sector V)" "result c = 1"
    and "unat (vol_start V) + unat (vol_size V) \<le> limit"
    and "limit \<le> 2 ^ 32" "vol_fat V \<noteq> 0" "vol_spc V \<noteq> 0"
    and "n < 2 ^ 32" "file_state V n fd st" "\<not> file_error fd"
    and "region buff (unat sz) \<inter> (region (buffer fd) 512 \<union> partition_bytes st) = {}"
    and "k = min (unat sz) (unat (file_size (ffd fd)) - unat (position (ffd fd)))"
  shows "\<exists>fd' st'. fat_read (read_from c) fd buff sz st = Some (of_nat k, fd', st') \<and> after_read V n fd st buff k fd' st'"
  using fat_read_mounted [OF volume [OF assms(1-6)] assms(7-11)] by blast

lemma read_rest:
  assumes "attached c (vol_drive V) limit (vol_sector V)" "result c \<noteq> 1"
    and "unat (vol_start V) + unat (vol_size V) \<le> limit" "limit \<le> 2 ^ 32" "vol_spc V \<noteq> 0"
    and "file_state V n fd st" "\<not> file_error fd"
    and "region buff (unat sz) \<inter> (region (buffer fd) 512 \<union> partition_bytes st) = {}"
    and "rest = 512 - unat (position (ffd fd)) mod 512" "left = unat (file_size (ffd fd)) - unat (position (ffd fd))"
    and "j = min (min (unat sz) left) rest"
  shows "\<exists>fd' st'. fat_read (read_from c) fd buff sz st = Some (of_nat j, fd', st') \<and>
    load_bytes (fat_mem st') buff j = file_bytes V (first_cluster (ffd fd)) (unat (position (ffd fd))) j \<and>
    position (ffd fd') = position (ffd fd) + of_nat j \<and>
    (file_error fd' \<longleftrightarrow> j = rest \<and> j < left)"
  using gives [OF assms(1)] assms(2-11) by (rule fat_read_refused)

text \<open>The partition table is listed, and the first FAT volume of it mounted, unless the result is 0.\<close>

lemma list_partitions:
  assumes "attached c drive limit sec" "result c \<noteq> 0" "gpt_on_disk sec limit start n es"
    and "parts_are ds {} T k s" "539 + n * (es + 69) \<le> k"
    and "pick_drive get_drive typ_of [0..<4] 0 = drive" "drive \<noteq> 0"
  shows "\<exists>s'. disk_initialize (read_from c) get_drive typ_of s = Some s' \<and>
    (let ds' = (if gpt_valid sec then gpt_partitions sec start es drive [0..<n] else [])
     in parts_are (ds @ ds') {} T (k - (539 + n * (es + 69))) s' \<and> partition_count s' = of_nat (length ds'))"
  using disk_initialize_correct [OF drive_gives_result_1 [OF gives [OF assms(1)], of False] assms(3-7)] assms(2)
  by (simp only: disk_initialize_result_1) simp

lemma boot:
  assumes "attached c drive limit sec" "result c \<noteq> 0" "gpt_on_disk sec limit start n es" "gpt_valid sec"
    and "parts_are [] {} T k s" "539 + n * (es + 69) \<le> k"
    and "pick_drive get_drive typ_of [0..<4] 0 = drive" "drive \<noteq> 0"
    and "\<forall>i\<in>set (gpt_partitions sec start es drive [0..<n]). info_readable sec drive limit i"
    and "length (fat_buffer st) = 512" "fat_sector st = 0" "fat_partition st = 0"
  shows "\<exists>s' st'. disk_initialize (read_from c) get_drive typ_of s = Some s' \<and>
    fat_initialize (read_from c) (disk_get_partitions s') (st\<lparr>fat_heap := disk_heap s', fat_hw := disk_hw s'\<rparr>) = Some st' \<and>
    (case find (bootable sec) (gpt_partitions sec start es drive [0..<n]) of
       None \<Rightarrow> fat_partition st' = 0
     | Some i \<Rightarrow> partition_info (fat_mem st') (fat_partition st') = i \<and> mounted (info_volume sec i) st')"
proof -
  have "drive_ok (result_1 False (read_from c)) drive limit sec"
    using assms(2) by (intro drive_gives_result_1 [OF gives [OF assms(1)]]) simp
  from boot_correct [OF this assms(3-12)] show ?thesis
    by (simp only: disk_initialize_result_1 fat_initialize_result_1)
qed

text \<open>With 0 there is no partition, so nothing to mount.\<close>

lemma boot_none:
  assumes "attached c drive limit sec" "result c = 0" "1 < limit" "limit \<le> 2 ^ 32"
    and "parts_are [] {} T k s" "539 \<le> k"
    and "pick_drive get_drive typ_of [0..<4] 0 = drive" "drive \<noteq> 0"
  shows "\<exists>s'. disk_initialize (read_from c) get_drive typ_of s = Some s' \<and> disk_get_partitions s' = 0 \<and>
    fat_initialize (read_from c) (disk_get_partitions s') st = Some st"
proof -
  have "drive_gives 0 (read_from c) drive limit sec" using gives [OF assms(1)] assms(2) by simp
  from read_gpt_refused [OF this assms(3-6)] obtain s' where
    s': "read_gpt (read_from c) drive s = Some s'" "parts_are [] {} T (k - 539) s'" by blast
  have "partitions s' = 0" using s'(2) by (auto simp: parts_are_def list_rep_def)
  then have "disk_get_partitions s' = 0" "fat_initialize (read_from c) (disk_get_partitions s') st = Some st"
    by (simp_all add: disk_get_partitions_def fat_initialize_def mount_loop.simps)
  moreover have "disk_initialize (read_from c) get_drive typ_of s = Some s'"
    using s'(1) assms(7,8) by (simp add: disk_initialize_def)
  ultimately show ?thesis by blast
qed

end

end
