(* ===== verification/FatOverIde.thy ===== *)
theory FatOverIde
  imports IdeProperties BlockDevice
begin

text \<open>
  The IDE driver as the disk of the file system, a simulated drive that meets the contract, and the
  properties of the driver alone and under the file system.
\<close>

section \<open>The driver behind a partition\<close>

text \<open>
  \<open>drive->read_sectors\<close>: \<open>rs\<close> reads the drive at an address through the driver, wherever the driver
  returns. Nothing is said of a read whose polling never ends.
\<close>

definition ide_disk ::
  "devices \<Rightarrow> int \<Rightarrow> ChannelRegisters list \<Rightarrow> (addr \<Rightarrow> ATA_Drive) \<Rightarrow> io_trace drive_read \<Rightarrow> bool" where
  "ide_disk dv junk chs drive_at rs \<longleftrightarrow>
     (\<forall>drive sectors lba t r. ide_read_sectors dv junk chs sectors lba (drive_at drive) t = Some r \<longrightarrow>
        rs drive sectors lba t = r)"

text \<open>A drive without bad sectors, found present, behind the registers of its channel.\<close>

definition ide_ready ::
  "devices \<Rightarrow> ChannelRegisters list \<Rightarrow> ATA_Drive \<Rightarrow> nat \<Rightarrow> (nat \<Rightarrow> u8 list) \<Rightarrow> bool" where
  "ide_ready dv chs d limit sector \<longleftrightarrow> drv_present d \<and> drv_drive d < 2 \<and>
     (let ch = chs ! drv_channel d
      in ata_drive dv (chan_base ch) (chan_ctrl ch) (drv_drive d = 1) limit (\<lambda>_. True) sector)"

lemma good_run_all [simp]: "good_run (\<lambda>_. True) lba n = [lba..<lba + n]"
  unfolding good_run_def by (rule takeWhile_eq_all_conv [THEN iffD2]) simp

lemma ide_ready_reads:
  assumes "ide_ready dv chs d limit sector"
    and "unat lba < 2 ^ 28" "unat lba + unat sectors \<le> limit"
  shows "\<exists>t'. ide_read_sectors dv junk chs sectors lba d t =
    Some (junk, concat (map sector [unat lba..<unat lba + unat sectors]), t')"
proof -
  let ?ch = "chs ! drv_channel d"
  have "\<exists>t'. ide_read_sectors dv junk chs sectors lba d t =
    Some (let ns = good_run (\<lambda>_. True) (unat lba) (unat sectors)
          in (if length ns = unat sectors then junk else int (length ns), concat (map sector ns), t'))"
    by (rule read_sectors_good_run [where base = "chan_base ?ch" and ctrl = "chan_ctrl ?ch"
          and slave = "drv_drive d = 1" and sel = "selected_dev ?ch"])
      (use assms in \<open>auto simp: ide_ready_def Let_def\<close>)
  then show ?thesis by (simp add: Let_def)
qed

text \<open>
  The driver provides what the file system relies on. Its configuration: the devices on the ports,
  what the result register holds where the missing return statement of \<open>read_sectors\<close> leaves it to
  chance, the registers of the two channels, the \<open>ATA_Drive\<close> structures by address, and the reading
  through them.
\<close>

type_synonym ide_config =
  "devices \<times> int \<times> ChannelRegisters list \<times> (addr \<Rightarrow> ATA_Drive) \<times> io_trace drive_read"

fun ide_attached :: "ide_config \<Rightarrow> addr \<Rightarrow> nat \<Rightarrow> (nat \<Rightarrow> u8 list) \<Rightarrow> bool" where
  "ide_attached (dv, junk, chs, drive_at, rs) a limit sector \<longleftrightarrow>
     limit \<le> 2 ^ 28 \<and> ide_ready dv chs (drive_at a) limit sector \<and> ide_disk dv junk chs drive_at rs"

fun ide_result :: "ide_config \<Rightarrow> int" where "ide_result (dv, junk, chs, drive_at, rs) = junk"

fun ide_reader :: "ide_config \<Rightarrow> io_trace drive_read" where "ide_reader (dv, junk, chs, drive_at, rs) = rs"

interpretation ide: block_device ide_attached ide_result ide_reader
proof unfold_locales
  fix c :: ide_config and a limit sec
  assume at: "ide_attached c a limit sec"
  obtain dv junk chs drive_at rs where c: "c = (dv, junk, chs, drive_at, rs)" by (cases c)
  have r: "limit \<le> 2 ^ 28" "ide_ready dv chs (drive_at a) limit sec" "ide_disk dv junk chs drive_at rs"
    using at unfolding c by simp_all
  show "\<exists>hw. ide_reader c a 1 lba h = (ide_result c, sec (unat lba), hw)" if "unat lba < limit" for lba h
    using ide_ready_reads [OF r(2), of lba 1 junk h] that r(1,3) by (auto simp: c ide_disk_def)
  show "length (sec n) = 512" for n using r(2) by (simp add: ide_ready_def ata_drive_def Let_def)
qed

section \<open>A simulated drive\<close>

text \<open>Always ready, with the words of the sectors one after the other; a bad sector is an error.\<close>

definition sim_drive :: "u16 \<Rightarrow> u16 \<Rightarrow> (nat \<Rightarrow> bool) \<Rightarrow> (nat \<Rightarrow> u8 list) \<Rightarrow> devices" where
  "sim_drive base ctrl good sector e t =
     (case read_progress base t of
        None \<Rightarrow> 0x48
      | Some (c, w) \<Rightarrow>
          let n = cmd_lba base c + w div 256
          in (case e of
                In_word p \<Rightarrow> ucast (sector_word (sector n) (w mod 256))
              | _ \<Rightarrow> if w mod 256 = 0 \<and> \<not> good n then 0x41 else 0x48))"

lemma sim_drive_ok:
  assumes "\<And>n. length (sector n) = 512"
  shows "ata_drive (sim_drive base ctrl good sector) base ctrl slave limit good sector"
proof -
  have st: "status_at (sim_drive base ctrl good sector) ctrl t =
      (case read_progress base t of None \<Rightarrow> 0x48
       | Some (c, w) \<Rightarrow> if w mod 256 = 0 \<and> \<not> good (cmd_lba base c + w div 256) then 0x41 else 0x48)" for t
    by (auto simp: status_at_def sim_drive_def Let_def split: option.split)
  have ready: "\<not> sector_pending (status_at (sim_drive base ctrl good sector) ctrl t)"
    "status_at (sim_drive base ctrl good sector) ctrl t AND ATA_SR_BSY = 0" for t
    by (auto simp: st sector_pending_def ATA_SR_BSY_def ATA_SR_DRQ_def ATA_SR_ERR_def split: option.split)
  have fails: "failed (status_at (sim_drive base ctrl good sector) ctrl t) \<longleftrightarrow>
      \<not> good (cmd_lba base c + w div 256)" if "read_progress base t = Some (c, w)" "w mod 256 = 0" for t c w
    using that by (simp add: st failed_def ATA_SR_DF_def ATA_SR_ERR_def)
  have w: "ucast (sim_drive base ctrl good sector (In_word base) t) =
      sector_word (sector (cmd_lba base c + w div 256)) (w mod 256)" if "read_progress base t = Some (c, w)" for t c w
    using that by (simp add: sim_drive_def Let_def)
  show ?thesis unfolding ata_drive_def using assms ready fails w by simp
qed

definition sim_channels :: "ChannelRegisters list" where
  "sim_channels = [\<lparr>selected_dev = 0, chan_base = 0x1F0, chan_ctrl = 0x3F6\<rparr>]"

definition sim_master :: ATA_Drive where
  "sim_master = \<lparr>drv_present = True, drv_channel = 0, drv_drive = 0, drv_type = ATA_TYPE_PATA, drv_size = 100,
     lba_48_supported = False, drv_model = [], read_function = 0\<rparr>"

section \<open>Properties\<close>

text \<open>
  C29: for a drive that keeps the contract \<open>read_sectors\<close> ends. It reads the sectors in order up to
  the first bad one: when there is none the buffer gets all of them and the result is whatever was
  in the result register, as the function has no return statement there; otherwise the result is
  the number of sectors read before it. A missing drive or a sector beyond 28 bits reads nothing.
\<close>

theorem ide_read_sectors_correct:
  assumes "ata_drive dv base ctrl slave limit good sector"
    and "chs ! drv_channel d = \<lparr>selected_dev = sel, chan_base = base, chan_ctrl = ctrl\<rparr>"
    and "drv_drive d = of_bool slave" "unat lba + unat sectors \<le> limit"
  shows "\<exists>t'. ide_read_sectors dv junk chs sectors lba d t =
    Some (if \<not> drv_present d \<or> 2 ^ 28 \<le> unat lba then (0, [], t)
          else let ns = takeWhile good [unat lba..<unat lba + unat sectors]
               in (if length ns = unat sectors then junk else int (length ns), concat (map sector ns), t'))"
proof (cases "\<not> drv_present d \<or> 2 ^ 28 \<le> unat lba")
  case True
  then show ?thesis by (auto simp: ide_read_sectors_def word_less_nat_alt)
next
  case False
  then show ?thesis using read_sectors_good_run [OF assms(1,2) _ assms(3) _ assms(4)]
    by (simp add: good_run_def)
qed

theorem ide_read_sectors_correct_witness:
  "\<exists>t'. ide_read_sectors (sim_drive 0x1F0 0x3F6 (\<lambda>n. n < 6) (\<lambda>n. replicate 512 (of_nat n))) 7 sim_channels 3 5
     sim_master [] = Some (1, replicate 512 5, t')"
proof -
  have "unat (5 :: u32) = 5" "unat (3 :: u8) = 3" by simp_all
  moreover have "takeWhile (\<lambda>n. n < 6) [5..<5 + 3] = [5 :: nat]" by (simp add: upt_rec)
  moreover have "\<exists>t'. ide_read_sectors (sim_drive 0x1F0 0x3F6 (\<lambda>n. n < 6) (\<lambda>n. replicate 512 (of_nat n))) 7
      sim_channels 3 5 sim_master [] =
    Some (if \<not> drv_present sim_master \<or> 2 ^ 28 \<le> unat (5 :: u32) then (0, [], [])
          else let ns = takeWhile (\<lambda>n. n < 6) [unat (5 :: u32)..<unat (5 :: u32) + unat (3 :: u8)]
               in (if length ns = unat (3 :: u8) then 7 else int (length ns),
                   concat (map (\<lambda>n. replicate 512 (of_nat n)) ns), t'))"
    by (rule ide_read_sectors_correct [OF sim_drive_ok, where slave = False and limit = 100 and sel = 0])
      (simp_all add: sim_channels_def sim_master_def)
  ultimately show ?thesis by (simp only: Let_def) (simp add: sim_master_def)
qed

text \<open>
  C30: the file system over the driver. The volume lies on an IDE drive without bad sectors, and a
  read of it returns \<open>junk\<close>, what the result register happens to hold, as \<open>read_sectors\<close> has no
  return statement on its way of success. If that is 1, reading an open file copies the bytes of its
  cluster chain as they are on the disk: the port traffic of the driver and the caching of the
  file system compose. With anything else no further sector can be loaded: what is copied are the
  bytes asked for as far as the sector of the position goes, which is in the file's buffer already,
  and if that sector is used up and the file goes on the stream is in error.
\<close>

theorem fat_read_through_ide:
  assumes "ide_disk dv junk chs drive_at rs"
    and "ide_ready dv chs (drive_at (vol_drive V)) limit (vol_sector V)" "limit \<le> 2 ^ 28"
    and "unat (vol_start V) + unat (vol_size V) \<le> limit" "vol_fat V \<noteq> 0" "vol_spc V \<noteq> 0"
    and "n < 2 ^ 32" "file_state V n fd st" "\<not> file_error fd"
    and "region buff (unat sz) \<inter> (region (buffer fd) 512 \<union> partition_bytes st) = {}"
    and "rest = 512 - unat (position (ffd fd)) mod 512" "left = unat (file_size (ffd fd)) - unat (position (ffd fd))"
    and "k = (if junk = 1 then min (unat sz) left else min (min (unat sz) left) rest)"
  shows "\<exists>fd' st'. fat_read rs fd buff sz st = Some (of_nat k, fd', st') \<and>
    load_bytes (fat_mem st') buff k = file_bytes V (first_cluster (ffd fd)) (unat (position (ffd fd))) k \<and>
    position (ffd fd') = position (ffd fd) + of_nat k \<and>
    (if junk = 1 then after_read V n fd st buff k fd' st' else file_error fd' \<longleftrightarrow> k = rest \<and> k < left)"
proof -
  let ?c = "(dv, junk, chs, drive_at, rs)"
  have at: "ide_attached ?c (vol_drive V) limit (vol_sector V)" using assms(1-3) by simp
  have lim: "limit \<le> 2 ^ 32" using assms(3) by simp
  show ?thesis
  proof (cases "junk = 1")
    case True
    then have k: "k = min (unat sz) (unat (file_size (ffd fd)) - unat (position (ffd fd)))" using assms(12,13) by simp
    have "ide_result ?c = 1" using True by simp
    from ide.read_file [OF at this assms(4) lim assms(5-10) k] obtain fd' st' where
      "fat_read rs fd buff sz st = Some (of_nat k, fd', st')" "after_read V n fd st buff k fd' st'" by auto
    then show ?thesis using True by (auto simp: after_read_def)
  next
    case False
    then have "ide_result ?c \<noteq> 1" "k = min (min (unat sz) left) rest" using assms(13) by simp_all
    from ide.read_rest [OF at this(1) assms(4) lim assms(6,8-12) this(2)] False show ?thesis by simp
  qed
qed

text \<open>A reader that gives up where the driver would wait for ever.\<close>

definition ide_reading :: "devices \<Rightarrow> int \<Rightarrow> ChannelRegisters list \<Rightarrow> (addr \<Rightarrow> ATA_Drive) \<Rightarrow> io_trace drive_read" where
  "ide_reading dv junk chs drive_at drive sectors lba t =
     (case ide_read_sectors dv junk chs sectors lba (drive_at drive) t of None \<Rightarrow> (0, [], t) | Some r \<Rightarrow> r)"

lemma ide_reading_disk: "ide_disk dv junk chs drive_at (ide_reading dv junk chs drive_at)"
  by (simp add: ide_disk_def ide_reading_def)

text \<open>A file of 3 bytes is read from its second byte on, with 1 in the register.\<close>

theorem fat_read_through_ide_witness:
  "\<exists>fd' st'. fat_read (ide_reading (sim_drive 0x1F0 0x3F6 (\<lambda>_. True) (\<lambda>n. replicate 512 (of_nat n))) 1 sim_channels
       (\<lambda>_. sim_master)) small_file 2000 5 (small_state []) = Some (2, fd', st') \<and>
     load_bytes (fat_mem st') 2000 2 = file_bytes small_volume 2 1 2"
proof -
  let ?dv = "sim_drive 0x1F0 0x3F6 (\<lambda>_. True) (\<lambda>n. replicate 512 (of_nat n))"
  have v: "vol_drive small_volume = 0" "vol_sector small_volume = (\<lambda>n. replicate 512 (of_nat n))"
    "vol_start small_volume = 0" "unat (vol_size small_volume) = 100" "vol_fat small_volume \<noteq> 0"
    "vol_spc small_volume \<noteq> 0"
    by (simp_all add: small_volume_def)
  have ready: "ide_ready ?dv sim_channels sim_master 100 (vol_sector small_volume)"
    by (simp add: ide_ready_def sim_master_def sim_channels_def v(2) sim_drive_ok)
  have f: "unat (5 :: u32) = 5" "buffer small_file = 1000" "\<not> file_error small_file"
    "first_cluster (ffd small_file) = 2" "unat (position (ffd small_file)) = 1"
    "unat (file_size (ffd small_file)) = 3"
    by (simp_all add: small_file_def)
  have "\<exists>fd' st'. fat_read (ide_reading ?dv 1 sim_channels (\<lambda>_. sim_master)) small_file 2000 5 (small_state []) =
      Some (of_nat 2, fd', st') \<and>
      load_bytes (fat_mem st') 2000 2 = file_bytes small_volume (first_cluster (ffd small_file)) (unat (position (ffd small_file))) 2 \<and>
      position (ffd fd') = position (ffd small_file) + of_nat 2 \<and>
      (if (1 :: int) = 1 then after_read small_volume 1 small_file (small_state []) 2000 2 fd' st'
       else file_error fd' \<longleftrightarrow> 2 = (511 :: nat) \<and> 2 < (2 :: nat))"
    by (rule fat_read_through_ide [OF ide_reading_disk ready _ _ v(5,6) _ small_file_state f(3)])
      (simp_all only: f v small_regions(2), simp_all)
  then show ?thesis unfolding f by auto
qed

end
