(* ===== verification/DriveBoot.thy ===== *)
theory DriveBoot
  imports FatOverIde
begin

text \<open>
  The disk at boot: \<open>disk_initialize\<close> and \<open>fat_initialize\<close> over the drives the IDE driver has found.
  The array \<open>drives\<close> of \<open>ide.c\<close> stands at an address; \<open>ide_get_drive\<close> returns a pointer into it, and
  reads go through the function pointer of the structure.
\<close>

section \<open>The array of drives\<close>

text \<open>The size with the alignment of the i386 ABI.\<close>

definition sizeof_ATA_Drive :: u32 where "sizeof_ATA_Drive = 72"

definition drive_addr :: "addr \<Rightarrow> nat \<Rightarrow> addr" where
  "drive_addr base i = base + of_nat i * sizeof_ATA_Drive"

definition drive_slot :: "addr \<Rightarrow> addr \<Rightarrow> nat" where
  "drive_slot base a = unat (a - base) div unat sizeof_ATA_Drive"

text \<open>The result of \<open>ide_get_drive\<close> as a pointer, \<open>drive->type\<close>, and the drive \<open>read_sectors_dN\<close> reads.\<close>

definition drive_pointer :: "addr \<Rightarrow> ide \<Rightarrow> nat \<Rightarrow> addr" where
  "drive_pointer base d i = (case ide_get_drive d i of None \<Rightarrow> 0 | Some j \<Rightarrow> drive_addr base j)"

definition pointer_type :: "addr \<Rightarrow> ide \<Rightarrow> addr \<Rightarrow> ATA_DriveType" where
  "pointer_type base d a = drv_type (drives d ! drive_slot base a)"

definition pointer_drive :: "addr \<Rightarrow> ide \<Rightarrow> addr \<Rightarrow> ATA_Drive" where
  "pointer_drive base d a = drives d ! read_function (drives d ! drive_slot base a)"

lemma drive_slot_addr [simp]: "i < 4 \<Longrightarrow> drive_slot base (drive_addr base i) = i"
proof -
  assume i: "i < 4"
  then have "unat (of_nat (i * 72) :: u32) = i * 72" by (intro unat_of_nat_small) simp
  then show ?thesis by (simp add: drive_slot_def drive_addr_def sizeof_ATA_Drive_def)
qed

section \<open>The read functions\<close>

text \<open>The drive at index \<open>j\<close> is read by \<open>read_sectors_dj\<close>, which reads the drive at that index.\<close>

definition wired :: "ide \<Rightarrow> bool" where
  "wired d \<longleftrightarrow> length (drives d) = 4 \<and> (\<forall>j<4. read_function (drives d ! j) = j)"

lemma wired_cong: "drives s' = drives s \<Longrightarrow> wired s' = wired s"
  by (simp add: wired_def)

lemma wired_io [simp]: "wired (s\<lparr>ide_io := t\<rparr>) = wired s" "wired (s\<lparr>ide_buffer := b\<rparr>) = wired s"
  "wired (select_device dv i s) = wired s"
  by (simp_all add: wired_def select_device_def Let_def)

lemma wired_set_drive: "wired s \<Longrightarrow> (\<And>x. read_function (f x) = read_function x) \<Longrightarrow> wired (set_drive i f s)"
  by (cases "i < 4") (auto simp: wired_def set_drive_def nth_list_update)

lemma identify_reads [simp]: "read_function (identify buf d) = read_function d"
  by (simp add: identify_def Let_def)

lemma initialize_drive_wired: "wired s \<Longrightarrow> initialize_drive dv i s = Some s' \<Longrightarrow> wired s'"
  by (auto simp: initialize_drive_def Let_def split: prod.splits option.splits if_splits intro!: wired_set_drive)

lemma drives_loop_wired: "wired s \<Longrightarrow> drives_loop dv cds s = Some s' \<Longrightarrow> wired s'"
  by (induction dv cds s rule: drives_loop.induct)
    (auto split: option.splits intro!: wired_set_drive dest: initialize_drive_wired [rotated])

text \<open>\<open>initialize_drives\<close> wires them, whatever the devices answer.\<close>

lemma initialize_drives_wired:
  assumes "initialize_drives dv s = Some s'" "length (drives s) = 4"
  shows "wired s'"
proof -
  obtain d0 d1 d2 d3 where "drives s = [d0, d1, d2, d3]"
    using assms(2) by (auto simp: numeral_eq_Suc length_Suc_conv)
  then have "wired (fold (\<lambda>i. set_drive i (\<lambda>d. d\<lparr>read_function := i\<rparr>)) [0..<4] s)"
    by (auto simp: wired_def set_drive_def upt_rec less_Suc_eq numeral_eq_Suc)
  then show ?thesis using assms(1) unfolding initialize_drives_def by (rule drives_loop_wired)
qed

section \<open>The first PATA drive\<close>

definition pata :: "ide \<Rightarrow> nat \<Rightarrow> bool" where
  "pata d i \<longleftrightarrow> drv_present (drives d ! i) \<and> drv_type (drives d ! i) = ATA_TYPE_PATA"

lemma pick_drive_find:
  assumes "find P is = Some i" "\<forall>i\<in>set is. P i \<longleftrightarrow> g i \<noteq> 0 \<and> typ_of (g i) = ATA_TYPE_PATA"
  shows "pick_drive g typ_of is x = g i"
  using assms by (induction "is" arbitrary: x) (auto simp: Let_def split: if_splits)

lemma pick_first_pata:
  assumes "find (pata d) [0..<4] = Some i" "\<forall>j<4. drive_addr base j \<noteq> 0"
  shows "pick_drive (drive_pointer base d) (pointer_type base d) [0..<4] 0 = drive_addr base i" "i < 4"
proof -
  show i: "i < 4" using assms(1) by (auto simp: find_Some_iff)
  have "pata d i" using assms(1) by (auto simp: find_Some_iff)
  then have "drive_pointer base d i = drive_addr base i"
    by (simp add: drive_pointer_def ide_get_drive_def pata_def)
  moreover have "pick_drive (drive_pointer base d) (pointer_type base d) [0..<4] 0 = drive_pointer base d i"
    using assms(2) by (intro pick_drive_find [OF assms(1)])
      (auto simp: pata_def drive_pointer_def ide_get_drive_def pointer_type_def split: option.splits if_splits)
  ultimately show "pick_drive (drive_pointer base d) (pointer_type base d) [0..<4] 0 = drive_addr base i" by simp
qed

section \<open>Properties\<close>

text \<open>
  C38: from the ports to the mounted file system. When the drives are wired to their read functions, as
  \<open>initialize_drives\<close> leaves them, the first PATA drive keeps the contract of a drive,
  its partition table and partitions lie on it and memory suffices,
  \<open>disk_initialize\<close> and then \<open>fat_initialize\<close>, reading through the driver, mount the volume of the first
  partition, in the order of the table, whose boot record has a FAT signature; with none, no
  partition is mounted. All this if \<open>junk\<close>, what the result register happens to hold after a sector has
  been read (\<open>read_sectors\<close> has no return statement there), is not 0. If it is 0, no partition is
  listed and none is mounted, whatever is on the disk.
\<close>

theorem boot_mounts_first_fat:
  assumes "find (pata d) [0..<4] = Some i" "\<forall>j<4. drive_addr base j \<noteq> 0" "wired d"
    and "ide_ready dv (channels d) (drives d ! i) limit sec" "limit \<le> 2 ^ 28"
    and "gpt_on_disk sec limit start n es" "gpt_valid sec"
    and "parts_are [] {} T k s" "539 + n * (es + 69) \<le> k"
    and "\<forall>p\<in>set (gpt_partitions sec start es (drive_addr base i) [0..<n]). info_readable sec (drive_addr base i) limit p"
    and "length (fat_buffer st) = 512" "fat_sector st = 0" "fat_partition st = 0"
    and "ide_disk dv junk (channels d) (pointer_drive base d) rs"
  shows "\<exists>s' st'. disk_initialize rs (drive_pointer base d) (pointer_type base d) s = Some s' \<and>
    fat_initialize rs (disk_get_partitions s') (st\<lparr>fat_heap := disk_heap s', fat_hw := disk_hw s'\<rparr>) = Some st' \<and>
    (if junk = 0 then disk_get_partitions s' = 0 \<and> fat_partition st' = 0
     else case find (bootable sec) (gpt_partitions sec start es (drive_addr base i) [0..<n]) of
       None \<Rightarrow> fat_partition st' = 0
     | Some p \<Rightarrow> partition_info (fat_mem st') (fat_partition st') = p \<and> mounted (info_volume sec p) st')"
proof -
  note pick = pick_first_pata [OF assms(1,2)]
  let ?c = "(dv, junk, channels d, pointer_drive base d, rs)"
  have "pointer_drive base d (drive_addr base i) = drives d ! i"
    using pick(2) assms(3) by (simp add: pointer_drive_def wired_def)
  then have at: "ide_attached ?c (drive_addr base i) limit sec" using assms(4,5,14) by simp
  have nz: "drive_addr base i \<noteq> 0" using pick(2) assms(2) by blast
  show ?thesis
  proof (cases "junk = 0")
    case True
    then have "ide_result ?c = 0" by simp
    moreover have "1 < limit" "limit \<le> 2 ^ 32" "539 \<le> k" using assms(6,9) by (simp_all add: gpt_on_disk_def)
    ultimately obtain s' where
      s': "disk_initialize rs (drive_pointer base d) (pointer_type base d) s = Some s'" "disk_get_partitions s' = 0"
      using ide.boot_none [OF at _ _ _ assms(8) _ pick(1) nz] by auto
    have "fat_initialize rs 0 st1 = Some st1" for st1 by (simp add: fat_initialize_def mount_loop.simps)
    then show ?thesis using s' assms(13) True by simp
  next
    case False
    then have "ide_result ?c \<noteq> 0" by simp
    from ide.boot [OF at this assms(6-9) pick(1) nz assms(10-13)] False show ?thesis by simp
  qed
qed

definition sim_ide :: ide where
  "sim_ide = \<lparr>channels = sim_channels, drives = map (\<lambda>j. sim_master\<lparr>read_function := j\<rparr>) [0..<4],
     ide_buffer = replicate 512 0, ide_io = []\<rparr>"

lemma sim_ide_facts: "find (pata sim_ide) [0..<4] = Some 0" "\<forall>j<4. drive_addr 0x2000 j \<noteq> 0"
  "wired sim_ide" "channels sim_ide = sim_channels"
  "ide_ready dv chs (drives sim_ide ! 0) limit sec = ide_ready dv chs sim_master limit sec"
proof -
  show "\<forall>j<4. drive_addr 0x2000 j \<noteq> 0"
  proof (intro allI impI)
    fix j :: nat assume "j < 4"
    then consider "j = 0" | "j = 1" | "j = 2" | "j = 3" by linarith
    then show "drive_addr 0x2000 j \<noteq> 0" by cases (simp_all add: drive_addr_def sizeof_ATA_Drive_def)
  qed
  show "wired sim_ide" by (simp add: wired_def sim_ide_def)
qed (simp_all add: sim_ide_def pata_def sim_master_def upt_rec ide_ready_def)

definition fat_off :: "'h \<Rightarrow> 'h fat" where "fat_off h = (small_state h)\<lparr>fat_partition := 0\<rparr>"

theorem boot_mounts_first_fat_witness:
  "let rs = ide_reading (sim_drive 0x1F0 0x3F6 (\<lambda>_. True) (disk_sector (\<lambda>n. small_boot))) 1 sim_channels
         (pointer_drive 0x2000 sim_ide)
   in \<exists>s' st'. disk_initialize rs (drive_pointer 0x2000 sim_ide) (pointer_type 0x2000 sim_ide) (disk_boot []) = Some s' \<and>
     fat_initialize rs (disk_get_partitions s') ((fat_off [])\<lparr>fat_heap := disk_heap s', fat_hw := disk_hw s'\<rparr>) =
       Some st' \<and>
     partition_start (fat_mem st') (fat_partition st') = 3"
proof -
  let ?sec = "disk_sector (\<lambda>n. small_boot)" and ?a = "drive_addr 0x2000 0"
  let ?dv = "sim_drive 0x1F0 0x3F6 (\<lambda>_. True) ?sec"
  have len: "\<forall>n. length (?sec n) = 512" by (rule disk_sector_length) (simp add: small_boot_def)
  have ready: "ide_ready ?dv (channels sim_ide) (drives sim_ide ! 0) 1000 ?sec"
    unfolding sim_ide_facts(4,5) using len by (simp add: ide_ready_def sim_master_def sim_channels_def sim_drive_ok)
  obtain name where ds: "gpt_partitions ?sec 2 128 ?a [0..<2] =
     [\<lparr>info_start = 3, info_size = 100, info_attributes = 0, info_name = name, info_drive = ?a\<rparr>]"
    using disk_sector_partitions by blast
  have st: "length (fat_buffer (fat_off [])) = 512" "fat_sector (fat_off []) = 0" "fat_partition (fat_off []) = 0"
    by (simp_all add: fat_off_def small_state_def)
  have "?sec 3 = small_boot" by (simp add: disk_sector_def)
  then have i: "\<forall>i\<in>set (gpt_partitions ?sec 2 128 ?a [0..<2]). info_readable ?sec ?a 1000 i"
    "find (bootable ?sec) (gpt_partitions ?sec 2 128 ?a [0..<2]) =
     Some \<lparr>info_start = 3, info_size = 100, info_attributes = 0, info_name = name, info_drive = ?a\<rparr>"
    unfolding ds by (simp_all add: info_readable_def bootable_def info_boot_def small_boot_record)
  from boot_mounts_first_fat [OF sim_ide_facts(1-3) ready _ disk_sector_gpt(2,1)
      disk_boot_parts [where h = "[]"] _ i(1) st, of 1, OF _ _ ide_reading_disk]
  show ?thesis unfolding i(2) sim_ide_facts(4) by (auto simp: partition_info_def Let_def)
qed

end
