(* ===== verification/Vga.thy ===== *)
theory Vga
  imports Prelude
begin

text \<open>
  The text console of \<open>arch/i686/vga_text.c\<close> and the debug port of \<open>e9.c\<close>. The screen is memory
  from \<open>0xB8000\<close> on, two bytes per character; indices into it are computed at 32 bits unsigned, as
  \<open>SCREEN_WIDTH\<close> is unsigned, so a row above the first lies below the screen. The writes to the
  ports of the controller are recorded in order.
\<close>

section \<open>State and cells\<close>

record vga =
  vmem :: memory
  cursor_x :: int
  cursor_y :: int
  vga_ports :: "(u16 \<times> u8) list"

definition SCREEN_WIDTH :: nat where "SCREEN_WIDTH = 80"
definition SCREEN_HEIGHT :: nat where "SCREEN_HEIGHT = 25"
definition DEFAULT_COLOR :: u8 where "DEFAULT_COLOR = 7"
definition screen_buffer :: addr where "screen_buffer = 0xB8000"

definition char_addr :: "int \<Rightarrow> int \<Rightarrow> addr" where
  "char_addr x y = screen_buffer + 2 * (of_int y * of_nat SCREEN_WIDTH + of_int x)"

definition set_char :: "int \<Rightarrow> int \<Rightarrow> u8 \<Rightarrow> memory \<Rightarrow> memory" where
  "set_char x y c m = m(char_addr x y := c, char_addr x y + 1 := DEFAULT_COLOR)"

definition get_char :: "memory \<Rightarrow> int \<Rightarrow> int \<Rightarrow> u8" where
  "get_char m x y = m (char_addr x y)"

definition vga_out :: "u16 \<Rightarrow> u8 \<Rightarrow> vga \<Rightarrow> vga" where
  "vga_out port v s = s\<lparr>vga_ports := vga_ports s @ [(port, v)]\<rparr>"

definition update_cursor :: "vga \<Rightarrow> vga" where
  "update_cursor s =
     (let pos = of_int (cursor_y s) * of_nat SCREEN_WIDTH + of_int (cursor_x s) :: u32;
          s = vga_out 0x3D4 0x0F s;
          s = vga_out 0x3D5 (ucast (pos AND 0xFF)) s;
          s = vga_out 0x3D4 0x0E s
      in vga_out 0x3D5 (ucast (drop_bit 8 pos AND 0xFF)) s)"

section \<open>Scrolling\<close>

text \<open>\<open>lines\<close> is at most the height; the code scrolls by one line.\<close>

definition move_up :: "nat \<Rightarrow> memory \<Rightarrow> memory" where
  "move_up lines m =
     fold (\<lambda>y. fold (\<lambda>x m. set_char (int x) (int y - int lines) (get_char m (int x) (int y)) m)
                 [0..<SCREEN_WIDTH])
       [lines..<SCREEN_HEIGHT] m"

definition clear_rows :: "nat \<Rightarrow> memory \<Rightarrow> memory" where
  "clear_rows first m =
     fold (\<lambda>y. fold (\<lambda>x. set_char (int x) (int y) 0) [0..<SCREEN_WIDTH]) [first..<SCREEN_HEIGHT] m"

definition vga_scrollback :: "nat \<Rightarrow> vga \<Rightarrow> vga" where
  "vga_scrollback lines s =
     update_cursor (s\<lparr>vmem := clear_rows (SCREEN_HEIGHT - lines) (move_up lines (vmem s)),
                      cursor_y := cursor_y s - int lines\<rparr>)"

definition vga_clear_screen :: "vga \<Rightarrow> vga" where
  "vga_clear_screen s = update_cursor (s\<lparr>vmem := clear_rows 0 (vmem s), cursor_x := 0, cursor_y := 0\<rparr>)"

section \<open>Output\<close>

text \<open>
  The walk back over the empty end of a row. The remainder at a tab is C's; the column is not
  negative there, so it is \<open>mod\<close>.
\<close>

fun back_scan :: "memory \<Rightarrow> int \<Rightarrow> nat \<Rightarrow> nat" where
  "back_scan m y 0 = 0"
| "back_scan m y (Suc x) = (if get_char m (int (Suc x)) y = 0 then back_scan m y x else Suc x)"

definition put_backspace :: "vga \<Rightarrow> vga" where
  "put_backspace s =
     (let s = s\<lparr>cursor_x := cursor_x s - 1\<rparr>;
          s = (if cursor_x s < 0
               then let y = cursor_y s - 1;
                        x = int (back_scan (vmem s) y (SCREEN_WIDTH - 1));
                        x = (if x < int SCREEN_WIDTH - 1 \<and> get_char (vmem s) x y \<noteq> 0 then x + 1 else x)
                    in s\<lparr>cursor_x := x, cursor_y := y\<rparr>
               else s)
      in s\<lparr>vmem := set_char (cursor_x s) (cursor_y s) 0 (vmem s)\<rparr>)"

text \<open>The comparisons with the size of the screen are unsigned: a negative row counts as too large.\<close>

definition beyond :: "int \<Rightarrow> nat \<Rightarrow> bool" where
  "beyond i n \<longleftrightarrow> (of_int i :: u32) \<ge> of_nat n"

definition put_char :: "u8 \<Rightarrow> vga \<Rightarrow> vga" where
  "put_char c s =
     (let s = (if c = 0x0A then s\<lparr>cursor_y := cursor_y s + 1, cursor_x := 0\<rparr>
               else if c = 0x0D then s\<lparr>cursor_x := 0\<rparr>
               else if c = 0x09 then s\<lparr>cursor_x := cursor_x s + 4 - (cursor_x s + 4) mod 4\<rparr>
               else if c = 0x08 then put_backspace s
               else s\<lparr>vmem := set_char (cursor_x s) (cursor_y s) c (vmem s), cursor_x := cursor_x s + 1\<rparr>);
          s = (if beyond (cursor_x s) SCREEN_WIDTH then s\<lparr>cursor_x := 0, cursor_y := cursor_y s + 1\<rparr> else s)
      in if beyond (cursor_y s) SCREEN_HEIGHT then vga_scrollback 1 s else s)"

definition vga_putc :: "u8 \<Rightarrow> vga \<Rightarrow> vga" where
  "vga_putc c s = update_cursor (put_char c s)"

text \<open>\<open>e9_putc\<close> writes the character to the debug port.\<close>

definition e9_putc :: "u8 \<Rightarrow> (u16 \<times> u8) list \<Rightarrow> (u16 \<times> u8) list" where
  "e9_putc c ports = ports @ [(0xE9, c)]"

end
