(* ===== verification/VgaProperties.thy ===== *)
theory VgaProperties
  imports Vga
begin

text \<open>
  The console refines a terminal of 25 rows of 80 characters that scrolls at the end.
\<close>

section \<open>The terminal\<close>

record terminal =
  cell :: "nat \<Rightarrow> nat \<Rightarrow> u8"  \<comment> \<open>by row and column\<close>
  column :: nat
  row :: nat

definition term_scroll :: "terminal \<Rightarrow> terminal" where
  "term_scroll T =
     (if row T < SCREEN_HEIGHT then T
      else T\<lparr>cell := (\<lambda>y x. if y < SCREEN_HEIGHT - 1 then cell T (Suc y) x else 0), row := row T - 1\<rparr>)"

definition term_wrap :: "terminal \<Rightarrow> terminal" where
  "term_wrap T = (if column T < SCREEN_WIDTH then T else T\<lparr>column := 0, row := row T + 1\<rparr>)"

definition term_set :: "u8 \<Rightarrow> terminal \<Rightarrow> terminal" where
  "term_set c T = T\<lparr>cell := (cell T)(row T := (cell T (row T))(column T := c))\<rparr>"

text \<open>A backspace at the start of a row goes behind the last character of the row above.\<close>

definition row_length :: "(nat \<Rightarrow> u8) \<Rightarrow> nat" where
  "row_length f = length (dropWhile (\<lambda>c. c = 0) (rev (map f [0..<SCREEN_WIDTH])))"

definition term_back :: "terminal \<Rightarrow> terminal" where
  "term_back T =
     term_set 0 (if 0 < column T then T\<lparr>column := column T - 1\<rparr>
       else T\<lparr>row := row T - 1, column := min (SCREEN_WIDTH - 1) (row_length (cell T (row T - 1)))\<rparr>)"

definition term_put :: "u8 \<Rightarrow> terminal \<Rightarrow> terminal" where
  "term_put c T =
     term_scroll (term_wrap
       (if c = 0x0A then T\<lparr>row := row T + 1, column := 0\<rparr>
        else if c = 0x0D then T\<lparr>column := 0\<rparr>
        else if c = 0x09 then T\<lparr>column := column T + 4 - (column T + 4) mod 4\<rparr>
        else if c = 0x08 then term_back T
        else (term_set c T)\<lparr>column := column T + 1\<rparr>))"

definition on_screen :: "nat \<Rightarrow> nat \<Rightarrow> bool" where
  "on_screen x y \<longleftrightarrow> x < SCREEN_WIDTH \<and> y < SCREEN_HEIGHT"

definition shows_term :: "vga \<Rightarrow> terminal \<Rightarrow> bool" where
  "shows_term s T \<longleftrightarrow> cursor_x s = int (column T) \<and> cursor_y s = int (row T) \<and>
     (\<forall>x y. on_screen x y \<longrightarrow> get_char (vmem s) (int x) (int y) = cell T y x)"

definition screen_bytes :: "addr set" where
  "screen_bytes = region screen_buffer (2 * (SCREEN_WIDTH * SCREEN_HEIGHT))"

section \<open>Cells\<close>

lemmas screen_size = SCREEN_WIDTH_def SCREEN_HEIGHT_def

lemma char_addr_nat: "char_addr (int x) (int y) = screen_buffer + of_nat (2 * (y * 80 + x))"
  by (simp add: char_addr_def SCREEN_WIDTH_def)

lemma unat_char_addr:
  assumes "on_screen x y" shows "unat (char_addr (int x) (int y)) = 0xB8000 + 2 * (y * 80 + x)"
proof -
  have "0xB8000 + 2 * (y * 80 + x) < 2 ^ 32" using assms by (simp add: on_screen_def screen_size)
  then have "unat (screen_buffer + of_nat (2 * (y * 80 + x))) = unat screen_buffer + 2 * (y * 80 + x)"
    by (intro unat_plus_small) (simp add: screen_buffer_def)
  then show ?thesis by (simp add: char_addr_nat screen_buffer_def)
qed

lemma unat_color_addr:
  assumes "on_screen x y" shows "unat (char_addr (int x) (int y) + 1) = 0xB8000 + 2 * (y * 80 + x) + 1"
  using unat_plus_small [of "char_addr (int x) (int y)" 1] assms
  by (simp add: unat_char_addr on_screen_def screen_size)

lemma char_addr_inj:
  assumes "on_screen x y" "on_screen u v"
  shows "char_addr (int x) (int y) = char_addr (int u) (int v) \<longleftrightarrow> x = u \<and> y = v"
    and "char_addr (int x) (int y) \<noteq> char_addr (int u) (int v) + 1"
proof -
  have xy: "x < 80" "u < 80" using assms by (simp_all add: on_screen_def screen_size)
  have "x = u \<and> y = v" if e: "y * 80 + x = v * 80 + u"
  proof -
    have "(y * 80 + x) mod 80 = x" "(v * 80 + u) mod 80 = u" using xy by simp_all
    with e show ?thesis by simp
  qed
  moreover have "char_addr (int x) (int y) = char_addr (int u) (int v) \<longleftrightarrow> y * 80 + x = v * 80 + u"
    unfolding word_unat_eq_iff unat_char_addr [OF assms(1)] unat_char_addr [OF assms(2)]
    by (simp only: add_left_cancel mult_cancel1) simp
  ultimately show "char_addr (int x) (int y) = char_addr (int u) (int v) \<longleftrightarrow> x = u \<and> y = v" by blast
  show "char_addr (int x) (int y) \<noteq> char_addr (int u) (int v) + 1"
  proof -
    have "2 * a \<noteq> 2 * b + 1" for a b :: nat by presburger
    then have "2 * (y * 80 + x) \<noteq> 2 * (v * 80 + u) + 1" by blast
    then show ?thesis
      unfolding word_unat_eq_iff unat_char_addr [OF assms(1)] unat_color_addr [OF assms(2)] by linarith
  qed
qed

lemma get_set_char:
  assumes "on_screen x y" "on_screen u v"
  shows "get_char (set_char (int u) (int v) c m) (int x) (int y) =
    (if x = u \<and> y = v then c else get_char m (int x) (int y))"
  using char_addr_inj [OF assms] char_addr_inj(2) [OF assms(2,2)]
  by (auto simp: get_char_def set_char_def)

lemma set_char_screen:
  assumes "on_screen u v" shows "unchanged_outside screen_bytes m (set_char (int u) (int v) c m)"
proof -
  have "2 * (v * 80 + u) + 1 < 4000" using assms by (simp add: on_screen_def screen_size)
  then have "char_addr (int u) (int v) \<in> screen_bytes" "char_addr (int u) (int v) + 1 \<in> screen_bytes"
    using assms unfolding screen_bytes_def
    by (simp_all add: region_nat screen_buffer_def screen_size unat_char_addr unat_color_addr)
  then show ?thesis by (auto simp: unchanged_outside_def set_char_def)
qed

section \<open>Scrolling\<close>

lemma move_row:
  assumes "y < 24" "n \<le> 80"
  defines "f \<equiv> \<lambda>x m. set_char (int x) (int (Suc y) - int 1) (get_char m (int x) (int (Suc y))) m"
  shows "on_screen u v \<Longrightarrow> get_char (fold f [0..<n] m) (int u) (int v) =
      (if v = y \<and> u < n then get_char m (int u) (int (Suc y)) else get_char m (int u) (int v))"
    and "unchanged_outside screen_bytes m (fold f [0..<n] m)"
proof -
  have "(\<forall>u v. on_screen u v \<longrightarrow> get_char (fold f [0..<n] m) (int u) (int v) =
      (if v = y \<and> u < n then get_char m (int u) (int (Suc y)) else get_char m (int u) (int v))) \<and>
    unchanged_outside screen_bytes m (fold f [0..<n] m)"
    using assms(2)
  proof (induction n)
    case (Suc n)
    let ?m = "fold f [0..<n] m"
    have n: "on_screen n y" "on_screen n (Suc y)"
      using Suc.prems assms(1) by (simp_all add: on_screen_def screen_size)
    have i: "int (Suc y) - int 1 = int y" by simp
    have f: "fold f [0..<Suc n] m = set_char (int n) (int y) (get_char ?m (int n) (int (Suc y))) ?m"
    proof -
      have "f n k = set_char (int n) (int y) (get_char k (int n) (int (Suc y))) k" for k
        by (simp only: f_def i)
      then show ?thesis by (simp del: of_nat_Suc)
    qed
    have "unchanged_outside screen_bytes ?m (fold f [0..<Suc n] m)"
      unfolding f by (rule set_char_screen [OF n(1)])
    with Suc show ?case unfolding f
      by (auto simp: get_set_char n less_Suc_eq simp del: of_nat_Suc intro: unchanged_trans)
  qed simp
  then show "on_screen u v \<Longrightarrow> get_char (fold f [0..<n] m) (int u) (int v) =
      (if v = y \<and> u < n then get_char m (int u) (int (Suc y)) else get_char m (int u) (int v))"
    "unchanged_outside screen_bytes m (fold f [0..<n] m)" by blast+
qed

lemma move_up_cells:
  "(\<forall>u v. on_screen u v \<longrightarrow> get_char (move_up 1 m) (int u) (int v) =
      (if v < 24 then get_char m (int u) (int (Suc v)) else get_char m (int u) (int v))) \<and>
    unchanged_outside screen_bytes m (move_up 1 m)"
proof -
  define g where "g = (\<lambda>y. fold (\<lambda>x m. set_char (int x) (int y - int 1) (get_char m (int x) (int y)) m) [0..<80])"
  have "n \<le> 24 \<Longrightarrow> (\<forall>u v. on_screen u v \<longrightarrow> get_char (fold g [1..<Suc n] m) (int u) (int v) =
      (if v < n then get_char m (int u) (int (Suc v)) else get_char m (int u) (int v))) \<and>
    unchanged_outside screen_bytes m (fold g [1..<Suc n] m)" for n
  proof (induction n)
    case (Suc n)
    let ?m = "fold g [1..<Suc n] m"
    have IH: "on_screen u v \<Longrightarrow> get_char ?m (int u) (int v) =
      (if v < n then get_char m (int u) (int (Suc v)) else get_char m (int u) (int v))"
      "unchanged_outside screen_bytes m ?m" for u v
      using Suc by auto
    have n: "n < 24" using Suc.prems by simp
    have f: "fold g [1..<Suc (Suc n)] m = g (Suc n) ?m" by simp
    have step: "get_char (g (Suc n) ?m) (int u) (int v) =
        (if v = n \<and> u < 80 then get_char ?m (int u) (int (Suc n)) else get_char ?m (int u) (int v))"
      if "on_screen u v" for u v
      unfolding g_def by (rule move_row(1) [OF n order_refl that])
    have "unchanged_outside screen_bytes ?m (g (Suc n) ?m)"
      unfolding g_def by (rule move_row(2) [OF n order_refl])
    with IH(2) have "unchanged_outside screen_bytes m (g (Suc n) ?m)" by (rule unchanged_trans)
    moreover have "get_char (g (Suc n) ?m) (int u) (int v) =
        (if v < Suc n then get_char m (int u) (int (Suc v)) else get_char m (int u) (int v))"
      if o: "on_screen u v" for u v
    proof -
      have u: "u < 80" "on_screen u (Suc n)" using o n by (simp_all add: on_screen_def screen_size)
      show ?thesis unfolding step [OF o] IH(1) [OF o] IH(1) [OF u(2)] using u(1) by (auto simp: less_Suc_eq)
    qed
    ultimately show ?case unfolding f by blast
  qed simp
  from this [of 24] show ?thesis
    by (simp add: move_up_def screen_size g_def)
qed

lemma clear_row:
  assumes "y < 25" "n \<le> 80"
  shows "(\<forall>u v. on_screen u v \<longrightarrow>
      get_char (fold (\<lambda>x. set_char (int x) (int y) 0) [0..<n] m) (int u) (int v) =
        (if v = y \<and> u < n then 0 else get_char m (int u) (int v))) \<and>
    unchanged_outside screen_bytes m (fold (\<lambda>x. set_char (int x) (int y) 0) [0..<n] m)"
  using assms(2)
proof (induction n)
  case (Suc n)
  let ?m = "fold (\<lambda>x. set_char (int x) (int y) 0) [0..<n] m"
  have n: "on_screen n y" using Suc.prems assms(1) by (simp add: on_screen_def screen_size)
  have "unchanged_outside screen_bytes ?m (set_char (int n) (int y) 0 ?m)"
    by (rule set_char_screen [OF n])
  with Suc show ?case by (auto simp: get_set_char n less_Suc_eq intro: unchanged_trans)
qed simp

lemma clear_rows_cells:
  assumes "first \<le> 25"
  shows "(\<forall>u v. on_screen u v \<longrightarrow> get_char (clear_rows first m) (int u) (int v) =
      (if first \<le> v then 0 else get_char m (int u) (int v))) \<and>
    unchanged_outside screen_bytes m (clear_rows first m)"
proof -
  define g where "g = (\<lambda>y. fold (\<lambda>x. set_char (int x) (int y) 0) [0..<80])"
  have "first + n \<le> 25 \<Longrightarrow> (\<forall>u v. on_screen u v \<longrightarrow> get_char (fold g [first..<first + n] m) (int u) (int v) =
      (if first \<le> v \<and> v < first + n then 0 else get_char m (int u) (int v))) \<and>
    unchanged_outside screen_bytes m (fold g [first..<first + n] m)" for n
  proof (induction n)
    case (Suc n)
    let ?m = "fold g [first..<first + n] m"
    have lt: "first + n < 25" using Suc.prems by simp
    have row: "(\<forall>u v. on_screen u v \<longrightarrow> get_char (g (first + n) ?m) (int u) (int v) =
        (if v = first + n \<and> u < 80 then 0 else get_char ?m (int u) (int v))) \<and>
      unchanged_outside screen_bytes ?m (g (first + n) ?m)"
      unfolding g_def by (rule clear_row [OF lt order_refl])
    have "fold g [first..<first + Suc n] m = g (first + n) ?m" by simp
    with Suc row show ?case
      by (auto simp: on_screen_def screen_size less_Suc_eq simp del: of_nat_add intro: unchanged_trans)
  qed auto
  from this [of "25 - first"] assms show ?thesis
    by (auto simp: clear_rows_def screen_size g_def on_screen_def)
qed

section \<open>Output\<close>

text \<open>The cursor's place in the ports.\<close>

definition cursor_writes :: "terminal \<Rightarrow> (u16 \<times> u8) list" where
  "cursor_writes T =
     (let pos = row T * SCREEN_WIDTH + column T
      in [(0x3D4, 0x0F), (0x3D5, of_nat pos), (0x3D4, 0x0E), (0x3D5, of_nat (pos div 256))])"

lemma beyond_nat: "n < 2 ^ 32 \<Longrightarrow> i < 2 ^ 32 \<Longrightarrow> beyond (int i) n \<longleftrightarrow> n \<le> i"
  by (simp add: beyond_def word_le_nat_alt unat_of_nat take_bit_eq_mod)

lemma byte_of: "ucast (of_nat n :: u32) = (of_nat n :: u8)"
proof -
  have "n mod 4294967296 mod 256 = n mod 256" by (rule mod_mod_cancel) simp
  then show ?thesis
    by (intro word_unat_eq_iff [THEN iffD2]) (simp add: unsigned_ucast_eq unat_of_nat take_bit_eq_mod)
qed

lemma drop_byte:
  assumes "n < 2 ^ 32" shows "drop_bit 8 (of_nat n :: u32) = of_nat (n div 256)"
proof (rule word_unat_eq_iff [THEN iffD2])
  have "unat (of_nat n :: u32) = n" "unat (of_nat (n div 256) :: u32) = n div 256"
    using assms by (simp_all add: unat_of_nat take_bit_eq_mod)
  then show "unat (drop_bit 8 (of_nat n :: u32)) = unat (of_nat (n div 256) :: u32)"
    using assms by (simp only: unsigned_drop_bit_eq) (simp add: drop_bit_eq_div take_bit_eq_mod)
qed

lemma low_byte: "ucast (w AND 0xFF) = (ucast (w :: u32) :: u8)"
proof -
  have "w AND 0xFF = take_bit 8 w" by (simp add: take_bit_eq_mask mask_eq_exp_minus_1)
  then show ?thesis by (simp add: unsigned_ucast_eq word_unat_eq_iff unsigned_take_bit_eq)
qed

lemma update_cursor_writes:
  assumes "cursor_x s = int (column T)" "cursor_y s = int (row T)" "on_screen (column T) (row T)"
  shows "update_cursor s = s\<lparr>vga_ports := vga_ports s @ cursor_writes T\<rparr>"
proof -
  define n where "n = row T * SCREEN_WIDTH + column T"
  have p: "of_int (int (row T)) * of_nat SCREEN_WIDTH + of_int (int (column T)) = (of_nat n :: u32)"
    by (simp add: n_def)
  have "n < 2 ^ 32" using assms(3) by (simp add: n_def on_screen_def screen_size)
  then show ?thesis
    unfolding update_cursor_def assms(1,2) p
    by (simp add: Let_def vga_out_def cursor_writes_def low_byte byte_of drop_byte n_def [symmetric])
qed

lemma shows_wrap:
  assumes "shows_term s T" "column T \<le> 80" "row T \<le> 25"
  shows "shows_term (if beyond (cursor_x s) SCREEN_WIDTH then s\<lparr>cursor_x := 0, cursor_y := cursor_y s + 1\<rparr>
    else s) (term_wrap T)"
  using assms beyond_nat [of SCREEN_WIDTH "column T"]
  by (simp add: shows_term_def term_wrap_def screen_size)

lemma shows_scroll:
  assumes "shows_term s T" "column T < 80" "row T \<le> 25"
  defines "s' \<equiv> if beyond (cursor_y s) SCREEN_HEIGHT then vga_scrollback 1 s else s"
  shows "shows_term s' (term_scroll T)" "on_screen (column (term_scroll T)) (row (term_scroll T))"
    "unchanged_outside screen_bytes (vmem s) (vmem s')" "\<exists>ps. vga_ports s' = vga_ports s @ ps"
proof -
  show on: "on_screen (column (term_scroll T)) (row (term_scroll T))"
    using assms(2,3) by (simp add: term_scroll_def on_screen_def screen_size)
  have b: "beyond (cursor_y s) SCREEN_HEIGHT \<longleftrightarrow> 25 \<le> row T"
    using assms(1,3) beyond_nat [of SCREEN_HEIGHT "row T"] by (simp add: shows_term_def screen_size)
  have "shows_term s' (term_scroll T) \<and> unchanged_outside screen_bytes (vmem s) (vmem s') \<and>
    (\<exists>ps. vga_ports s' = vga_ports s @ ps)"
  proof (cases "row T < 25")
    case True
    then show ?thesis using b assms(1) by (simp add: s'_def term_scroll_def screen_size)
  next
    case False
    let ?m = "clear_rows (SCREEN_HEIGHT - 1) (move_up 1 (vmem s))"
    have c: "get_char ?m (int u) (int v) = cell (term_scroll T) v u" if o: "on_screen u v" for u v
    proof -
      have "get_char ?m (int u) (int v) =
          (if 24 \<le> v then 0 else get_char (move_up 1 (vmem s)) (int u) (int v))"
        using clear_rows_cells [of 24 "move_up 1 (vmem s)"] o by (simp add: screen_size)
      moreover have "get_char (move_up 1 (vmem s)) (int u) (int v) = get_char (vmem s) (int u) (int (Suc v))"
        if "v < 24" using move_up_cells [of "vmem s"] o that by simp
      moreover have "get_char (vmem s) (int u) (int (Suc v)) = cell T (Suc v) u" if "v < 24"
        using assms(1) o that unfolding shows_term_def by (auto simp: on_screen_def screen_size simp del: of_nat_Suc)
      ultimately show ?thesis using False by (simp add: term_scroll_def screen_size)
    qed
    have un: "unchanged_outside screen_bytes (vmem s) ?m"
      using move_up_cells [of "vmem s"] clear_rows_cells [of 24 "move_up 1 (vmem s)"]
      by (auto simp: screen_size intro: unchanged_trans)
    let ?t = "s\<lparr>vmem := ?m, cursor_y := cursor_y s - int 1\<rparr>"
    have cur: "cursor_x ?t = int (column (term_scroll T))" "cursor_y ?t = int (row (term_scroll T))"
      using assms(1,3) False by (simp_all add: shows_term_def term_scroll_def screen_size)
    have "s' = update_cursor ?t" using b False by (simp add: s'_def vga_scrollback_def)
    also have "\<dots> = ?t\<lparr>vga_ports := vga_ports ?t @ cursor_writes (term_scroll T)\<rparr>"
      using cur on by (rule update_cursor_writes)
    finally show ?thesis using c un cur by (simp add: shows_term_def)
  qed
  then show "shows_term s' (term_scroll T)" "unchanged_outside screen_bytes (vmem s) (vmem s')"
    "\<exists>ps. vga_ports s' = vga_ports s @ ps" by blast+
qed

text \<open>The walk back of a backspace.\<close>

definition used :: "memory \<Rightarrow> int \<Rightarrow> nat \<Rightarrow> nat" where
  "used m y n = length (dropWhile (\<lambda>c. c = 0) (rev (map (\<lambda>x. get_char m (int x) y) [0..<n])))"

lemma used_Suc: "used m y (Suc n) = (if get_char m (int n) y = 0 then used m y n else Suc n)"
  by (simp add: used_def)

lemma back_scan_nonzero: "get_char m (int (back_scan m y n)) y = 0 \<Longrightarrow> back_scan m y n = 0"
  by (induction n) (auto simp del: of_nat_Suc split: if_splits)

lemma back_scan_le: "back_scan m y n \<le> n"
  by (induction n) (auto simp del: of_nat_Suc)

lemma row_scan:
  "used m y (Suc n) = (let x = back_scan m y n in if get_char m (int x) y = 0 then 0 else Suc x)"
proof (induction n)
  case 0
  then show ?case by (simp add: used_Suc) (simp add: used_def)
next
  case (Suc n)
  then show ?case by (simp add: used_Suc [of m y "Suc n"] Let_def del: of_nat_Suc)
qed

lemma backspace_row:
  assumes "\<forall>x < 80. get_char m (int x) y = f x"
  shows "(let x = back_scan m y 79 in if x < 79 \<and> get_char m (int x) y \<noteq> 0 then x + 1 else x) =
    min 79 (row_length f)"
proof -
  have "map f [0..<80] = map (\<lambda>x. get_char m (int x) y) [0..<80]" using assms by simp
  then have "row_length f = used m y (Suc 79)"
    by (simp only: row_length_def used_def SCREEN_WIDTH_def Suc_numeral) simp
  then show ?thesis using row_scan [of m y 79] back_scan_nonzero [of m y 79] back_scan_le [of m y 79]
    by (auto simp: Let_def min_def)
qed

lemma shows_set:
  assumes "shows_term s T" "on_screen (column T) (row T)"
  shows "shows_term (s\<lparr>vmem := set_char (cursor_x s) (cursor_y s) c (vmem s)\<rparr>) (term_set c T)"
    and "unchanged_outside screen_bytes (vmem s) (set_char (cursor_x s) (cursor_y s) c (vmem s))"
  using assms get_set_char [OF _ assms(2)] set_char_screen [OF assms(2)]
  by (auto simp: shows_term_def term_set_def)

lemma shows_back:
  assumes "shows_term s T" "on_screen (column T) (row T)" "0 < column T \<or> 0 < row T"
  shows "shows_term (put_backspace s) (term_back T) \<and> column (term_back T) \<le> 80 \<and>
    row (term_back T) \<le> 25 \<and> unchanged_outside screen_bytes (vmem s) (vmem (put_backspace s)) \<and>
    vga_ports (put_backspace s) = vga_ports s"
proof (cases "0 < column T")
  case True
  let ?s = "s\<lparr>cursor_x := cursor_x s - 1\<rparr>" and ?T = "T\<lparr>column := column T - 1\<rparr>"
  have st: "shows_term ?s ?T" "on_screen (column ?T) (row ?T)" "cursor_x ?s \<ge> 0"
    using assms(1,2) True by (auto simp: shows_term_def on_screen_def)
  have "term_back T = term_set 0 ?T" using True by (simp add: term_back_def)
  moreover have "put_backspace s = ?s\<lparr>vmem := set_char (cursor_x ?s) (cursor_y ?s) 0 (vmem ?s)\<rparr>"
    using st(3) by (simp add: put_backspace_def)
  ultimately show ?thesis using shows_set [OF st(1,2), of 0] assms(2)
    by (simp add: term_set_def on_screen_def screen_size) linarith
next
  case False
  let ?y = "row T - 1"
  have y: "cursor_y s - 1 = int ?y" "?y < 25" using assms by (auto simp: shows_term_def on_screen_def screen_size False)
  have row: "\<forall>x < 80. get_char (vmem s) (int x) (int ?y) = cell T ?y x"
    using assms(1) y(2) by (simp add: shows_term_def on_screen_def screen_size)
  let ?b = "back_scan (vmem s) (int ?y) 79" and ?r = "row_length (cell T ?y)"
  have "(let x = ?b in if x < 79 \<and> get_char (vmem s) (int x) (int ?y) \<noteq> 0 then x + 1 else x) = min 79 ?r"
    by (rule backspace_row [OF row])
  then have x: "(let x = int ?b in if x < 79 \<and> get_char (vmem s) x (int ?y) \<noteq> 0 then x + 1 else x) = int (min 79 ?r)"
    by (auto simp: Let_def split: if_splits)
  let ?s = "s\<lparr>cursor_x := int (min 79 ?r), cursor_y := int ?y\<rparr>"
  let ?T = "T\<lparr>row := ?y, column := min 79 ?r\<rparr>"
  have st: "shows_term ?s ?T" "on_screen (column ?T) (row ?T)"
    using assms(1) y(2) by (simp_all add: shows_term_def on_screen_def screen_size)
  have "cursor_x s = 0" using assms(1) False by (simp add: shows_term_def)
  then have "put_backspace s = ?s\<lparr>vmem := set_char (cursor_x ?s) (cursor_y ?s) 0 (vmem ?s)\<rparr>"
    using x y(1) by (cases s) (simp add: put_backspace_def Let_def SCREEN_WIDTH_def split del: if_split)
  moreover have "term_back T = term_set 0 ?T" using False by (simp add: term_back_def SCREEN_WIDTH_def)
  ultimately show ?thesis using shows_set [OF st, of 0] st(2)
    by (simp add: term_set_def on_screen_def screen_size)
qed

text \<open>The text cursor's steps before wrapping.\<close>

definition char_step :: "u8 \<Rightarrow> vga \<Rightarrow> vga" where
  "char_step c s = (if c = 0x0A then s\<lparr>cursor_y := cursor_y s + 1, cursor_x := 0\<rparr>
     else if c = 0x0D then s\<lparr>cursor_x := 0\<rparr>
     else if c = 0x09 then s\<lparr>cursor_x := cursor_x s + 4 - (cursor_x s + 4) mod 4\<rparr>
     else if c = 0x08 then put_backspace s
     else s\<lparr>vmem := set_char (cursor_x s) (cursor_y s) c (vmem s), cursor_x := cursor_x s + 1\<rparr>)"

definition term_step :: "u8 \<Rightarrow> terminal \<Rightarrow> terminal" where
  "term_step c T = (if c = 0x0A then T\<lparr>row := row T + 1, column := 0\<rparr>
     else if c = 0x0D then T\<lparr>column := 0\<rparr>
     else if c = 0x09 then T\<lparr>column := column T + 4 - (column T + 4) mod 4\<rparr>
     else if c = 0x08 then term_back T
     else (term_set c T)\<lparr>column := column T + 1\<rparr>)"

lemma shows_step:
  assumes "shows_term s T" "on_screen (column T) (row T)" "c = 0x08 \<Longrightarrow> 0 < column T \<or> 0 < row T"
  shows "shows_term (char_step c s) (term_step c T) \<and> column (term_step c T) \<le> 80 \<and>
    row (term_step c T) \<le> 25 \<and> unchanged_outside screen_bytes (vmem s) (vmem (char_step c s)) \<and>
    vga_ports (char_step c s) = vga_ports s"
proof -
  consider "c = 0x0A" | "c = 0x0D" | "c = 0x09" | "c = 0x08"
    | "c \<noteq> 0x0A" "c \<noteq> 0x0D" "c \<noteq> 0x09" "c \<noteq> 0x08" by blast
  then show ?thesis
  proof cases
    case 3
    have "column T + 4 - (column T + 4) mod 4 \<le> 80" using assms(2) by (simp add: on_screen_def screen_size) presburger
    moreover have "int (column T) + 4 - (int (column T) + 4) mod 4 = int (column T + 4 - (column T + 4) mod 4)"
      by (simp add: of_nat_diff zmod_int)
    ultimately show ?thesis using assms(1,2) 3
      by (simp add: char_step_def term_step_def shows_term_def on_screen_def screen_size)
  next
    case 4
    with assms show ?thesis using shows_back [OF assms(1,2)] by (simp add: char_step_def term_step_def)
  next
    case 5
    with assms(1,2) show ?thesis using shows_set [OF assms(1,2), of c]
      by (simp add: char_step_def term_step_def shows_term_def on_screen_def screen_size term_set_def)
  qed (use assms in \<open>simp_all add: char_step_def term_step_def shows_term_def on_screen_def screen_size\<close>)
qed

lemma vga_putc_terminal:
  assumes "shows_term s T" "on_screen (column T) (row T)" "c \<noteq> 0x08 \<or> 0 < column T \<or> 0 < row T"
  shows "shows_term (vga_putc c s) (term_put c T) \<and> on_screen (column (term_put c T)) (row (term_put c T)) \<and>
    unchanged_outside screen_bytes (vmem s) (vmem (vga_putc c s)) \<and>
    (\<exists>ps. vga_ports (vga_putc c s) = vga_ports s @ ps @ cursor_writes (term_put c T))"
proof -
  let ?s1 = "char_step c s" and ?T1 = "term_step c T"
  have step: "shows_term ?s1 ?T1" "column ?T1 \<le> 80" "row ?T1 \<le> 25"
    "unchanged_outside screen_bytes (vmem s) (vmem ?s1)" "vga_ports ?s1 = vga_ports s"
    using shows_step [OF assms(1,2)] assms(3) by auto
  let ?s2 = "if beyond (cursor_x ?s1) SCREEN_WIDTH then ?s1\<lparr>cursor_x := 0, cursor_y := cursor_y ?s1 + 1\<rparr> else ?s1"
  have s2: "shows_term ?s2 (term_wrap ?T1)" by (rule shows_wrap [OF step(1-3)])
  have w: "column (term_wrap ?T1) < 80" "row (term_wrap ?T1) \<le> 25"
  proof -
    show "column (term_wrap ?T1) < 80" by (simp add: term_wrap_def SCREEN_WIDTH_def)
    have "row ?T1 < 25" if "80 \<le> column ?T1"
      using that assms(2) row_scan by (auto simp: term_step_def term_back_def term_set_def on_screen_def
          screen_size split: if_splits)
    then show "row (term_wrap ?T1) \<le> 25" using step(3) by (auto simp: term_wrap_def SCREEN_WIDTH_def)
  qed
  let ?s3 = "if beyond (cursor_y ?s2) SCREEN_HEIGHT then vga_scrollback 1 ?s2 else ?s2"
  note s3 = shows_scroll [OF s2 w]
  have T: "term_put c T = term_scroll (term_wrap ?T1)" by (simp only: term_put_def term_step_def)
  have put: "vga_putc c s = update_cursor ?s3"
    by (simp only: vga_putc_def put_char_def char_step_def Let_def)
  have "cursor_x ?s3 = int (column (term_put c T))" "cursor_y ?s3 = int (row (term_put c T))"
    using s3(1) unfolding T shows_term_def by blast+
  then have "vga_putc c s = ?s3\<lparr>vga_ports := vga_ports ?s3 @ cursor_writes (term_put c T)\<rparr>"
    unfolding put using s3(2) unfolding T by (rule update_cursor_writes)
  moreover have "vmem ?s2 = vmem ?s1" "vga_ports ?s2 = vga_ports ?s1" by simp_all
  ultimately show ?thesis using s3 step(4,5) unfolding T
    by (auto simp: shows_term_def intro: unchanged_trans)
qed

text \<open>
  C22: \<open>vga_putc\<close> refines the terminal: with the cursor on the screen, every character, a
  backspace in the upper left corner alone excluded (\<open>backspace_home\<close> below says what that does), does
  to the screen what the terminal does, scrolling
  included; the cursor stays on the screen, only the screen's memory is written, and the last
  four port writes set the hardware cursor to the new place.
\<close>

theorem vga_putc_refines:
  assumes "shows_term s T" "on_screen (column T) (row T)" "c \<noteq> 0x08 \<or> 0 < column T \<or> 0 < row T"
  shows "shows_term (vga_putc c s) (term_put c T) \<and> on_screen (column (term_put c T)) (row (term_put c T)) \<and>
    unchanged_outside screen_bytes (vmem s) (vmem (vga_putc c s)) \<and>
    (\<exists>ps. vga_ports (vga_putc c s) = vga_ports s @ ps @ cursor_writes (term_put c T))"
  using assms by (rule vga_putc_terminal)

text \<open>An empty screen with the cursor in the middle of the first row.\<close>

definition empty_screen :: vga where
  "empty_screen = \<lparr>vmem = (\<lambda>_. 0), cursor_x = 5, cursor_y = 0, vga_ports = []\<rparr>"

definition empty_terminal :: terminal where
  "empty_terminal = \<lparr>cell = (\<lambda>_ _. 0), column = 5, row = 0\<rparr>"

theorem vga_putc_refines_witness:
  "shows_term (vga_putc 0x41 empty_screen) (term_put 0x41 empty_terminal) \<and>
   cell (term_put 0x41 empty_terminal) 0 5 = 0x41 \<and> column (term_put 0x41 empty_terminal) = 6"
proof -
  have "shows_term empty_screen empty_terminal"
    by (simp add: shows_term_def empty_screen_def empty_terminal_def get_char_def)
  then have "shows_term (vga_putc 0x41 empty_screen) (term_put 0x41 empty_terminal)"
    using vga_putc_refines [of empty_screen empty_terminal "0x41"]
    by (simp add: on_screen_def screen_size empty_terminal_def)
  then show ?thesis
    by (simp add: term_put_def term_wrap_def term_scroll_def term_set_def empty_terminal_def screen_size)
qed

section \<open>The upper left corner\<close>

text \<open>
  A backspace there takes the row to -1, which the unsigned comparison finds beyond the last row:
  the screen is scrolled and the cursor ends in row -2, where it is never on the screen again.
\<close>

lemma backspace_home:
  assumes "cursor_x s = 0" "cursor_y s = 0"
  shows "cursor_y (vga_putc 0x08 s) = -2"
proof -
  have b: "beyond (-1) SCREEN_HEIGHT" by (simp add: beyond_def SCREEN_HEIGHT_def)
  have y: "cursor_y (put_backspace s) = -1" using assms by (simp add: put_backspace_def Let_def)
  let ?x = "back_scan (vmem s) (-1) 79"
  have "\<exists>x \<le> 79. cursor_x (put_backspace s) = int x"
    using back_scan_le [of "vmem s" "-1" 79] assms
    by (auto simp: put_backspace_def Let_def SCREEN_WIDTH_def intro: exI [of _ "Suc ?x"])
  then have "\<not> beyond (cursor_x (put_backspace s)) SCREEN_WIDTH"
    using beyond_nat [of SCREEN_WIDTH]  by (auto simp: SCREEN_WIDTH_def)
  with b y show ?thesis
    by (simp add: vga_putc_def put_char_def Let_def update_cursor_def vga_out_def vga_scrollback_def)
qed

end
