(* ===== verification/Stdio.thy ===== *)
theory Stdio
  imports FatDir FormatPrint Vga
begin

text \<open>
  Streams: \<open>hal/vfs.c\<close>, which sends output to the console and the debug port and passes files on
  to the FAT driver, and the character and string functions of \<open>libc/stdio.c\<close> on top of it. Output
  data are lists of bytes; input goes through memory, with the one-byte buffer of \<open>fgetc\<close> at an
  address of the stack that is an argument.
\<close>

section \<open>State\<close>

record console =
  screen :: vga
  debug_port :: "(u16 \<times> u8) list"

definition STREAM_STDIN :: int where "STREAM_STDIN = -1"
definition STREAM_STDOUT :: int where "STREAM_STDOUT = -2"
definition STREAM_STDERR :: int where "STREAM_STDERR = -3"
definition STREAM_STDDBG :: int where "STREAM_STDDBG = -4"

section \<open>vfs_write and vfs_read\<close>

definition debug_putc :: "u8 \<Rightarrow> console \<Rightarrow> console" where
  "debug_putc c s = s\<lparr>debug_port := e9_putc c (debug_port s)\<rparr>"

definition screen_putc :: "u8 \<Rightarrow> console \<Rightarrow> console" where
  "screen_putc c s = debug_putc c (s\<lparr>screen := vga_putc c (screen s)\<rparr>)"

definition vfs_write :: "FileData \<Rightarrow> u8 list \<Rightarrow> console \<Rightarrow> u32 \<times> console" where
  "vfs_write file data s =
     (if handle file = STREAM_STDIN then (0, s)
      else if handle file = STREAM_STDOUT \<or> handle file = STREAM_STDERR
      then (of_nat (length data), fold screen_putc data s)
      else if handle file = STREAM_STDDBG then (of_nat (length data), fold debug_putc data s)
      else if \<not> fat_accessors file then (0, s)
      else (fat_write file 0 (of_nat (length data)), s))"

definition vfs_read ::
  "'h drive_read \<Rightarrow> FileData \<Rightarrow> addr \<Rightarrow> u32 \<Rightarrow> 'h fat \<Rightarrow> (u32 \<times> FileData \<times> 'h fat) option" where
  "vfs_read rs file buff sz st =
     (if handle file = STREAM_STDIN \<or> handle file = STREAM_STDOUT \<or> handle file = STREAM_STDERR \<or>
         handle file = STREAM_STDDBG \<or> \<not> fat_accessors file
      then Some (0, file, st)
      else fat_read rs file buff sz st)"

section \<open>Output\<close>

definition fputc :: "u32 \<Rightarrow> FileData \<Rightarrow> console \<Rightarrow> int \<times> console" where
  "fputc c stream s =
     (let to_put = ucast c :: u8
      in case vfs_write stream [to_put] s of
           (n, s) \<Rightarrow> (if n \<noteq> 1 then EOF else uint to_put, s))"

definition putc :: "u8 \<Rightarrow> FileData \<Rightarrow> console \<Rightarrow> int \<times> console" where
  "putc c stream s = fputc (scast c) stream s"

text \<open>\<open>fputs\<close> counts the characters whether they were written or not.\<close>

partial_function (option) fputs_loop ::
  "memory \<Rightarrow> addr \<Rightarrow> FileData \<Rightarrow> int \<Rightarrow> console \<Rightarrow> (int \<times> console) option" where
  "fputs_loop m p stream count s =
     (if m p \<noteq> 0 then fputs_loop m (p + 1) stream (count + 1) (snd (fputc (scast (m p)) stream s))
      else Some (count, s))"

definition fputs :: "memory \<Rightarrow> addr \<Rightarrow> FileData \<Rightarrow> console \<Rightarrow> (int \<times> console) option" where
  "fputs m p stream s = fputs_loop m p stream 0 s"

definition putchar :: "u32 \<Rightarrow> FileData \<Rightarrow> console \<Rightarrow> int \<times> console" where
  "putchar c stdout s = fputc c stdout s"

definition puts :: "memory \<Rightarrow> addr \<Rightarrow> FileData \<Rightarrow> console \<Rightarrow> (int \<times> console) option" where
  "puts m p stdout s =
     (case fputs m p stdout s of
        None \<Rightarrow> None | Some (count, s) \<Rightarrow> Some (count + 1, snd (fputc 0x0A stdout s)))"

fun fwrite_loop :: "memory \<Rightarrow> addr \<Rightarrow> u32 \<Rightarrow> nat \<Rightarrow> nat \<Rightarrow> FileData \<Rightarrow> console \<Rightarrow> u32 \<times> console" where
  "fwrite_loop m ptr sz i 0 stream s = (of_nat i, s)"
| "fwrite_loop m ptr sz i (Suc n) stream s =
     (case vfs_write stream (load_bytes m (ptr + sz * of_nat i) (unat sz)) s of
        (k, s) \<Rightarrow> if k \<noteq> sz then (of_nat i, s) else fwrite_loop m ptr sz (Suc i) n stream s)"

definition fwrite :: "memory \<Rightarrow> addr \<Rightarrow> u32 \<Rightarrow> u32 \<Rightarrow> FileData \<Rightarrow> console \<Rightarrow> u32 \<times> console" where
  "fwrite m ptr sz nmemb stream s = fwrite_loop m ptr sz 0 (unat nmemb) stream s"

text \<open>
  The \<open>printf\<close> family: the characters \<open>format_print\<close> produces go to \<open>fputc\<close>. \<open>vfprintf\<close> has no
  return statement, so only the effect is kept.
\<close>

definition vfprintf ::
  "memory \<Rightarrow> FileData \<Rightarrow> addr \<Rightarrow> u32 list \<Rightarrow> console \<Rightarrow> (format_error + console) option" where
  "vfprintf m stream fmt args s =
     (case format_print m fmt args of
        None \<Rightarrow> None
      | Some (Inl e) \<Rightarrow> Some (Inl e)
      | Some (Inr (out, _)) \<Rightarrow> Some (Inr (fold (\<lambda>c s. snd (fputc (scast c) stream s)) out s)))"

section \<open>Printing to an array\<close>

record array_out =
  array_max :: u32
  array_index :: u32
  limit_array_size :: bool
  array_mem :: memory

definition print_char_to_array :: "addr \<Rightarrow> u8 \<Rightarrow> array_out \<Rightarrow> array_out" where
  "print_char_to_array out c a =
     (if \<not> limit_array_size a \<or> array_index a < array_max a - 1
      then a\<lparr>array_mem := (array_mem a)(out + array_index a := c), array_index := array_index a + 1\<rparr>
      else a)"

text \<open>
  The format and its arguments are read from the memory before the call: the array must not
  overlap them.
\<close>

definition print_to_array ::
  "bool \<Rightarrow> u32 \<Rightarrow> memory \<Rightarrow> addr \<Rightarrow> addr \<Rightarrow> u32 list \<Rightarrow> (format_error + int \<times> memory) option" where
  "print_to_array limited n m s fmt args =
     (case format_print m fmt args of
        None \<Rightarrow> None
      | Some (Inl e) \<Rightarrow> Some (Inl e)
      | Some (Inr (out, result)) \<Rightarrow>
          let a = fold (print_char_to_array s) out
                \<lparr>array_max = n, array_index = 0, limit_array_size = limited, array_mem = m\<rparr>
          in Some (Inr (result, (array_mem a)(s + array_index a := 0))))"

definition vsnprintf ::
  "memory \<Rightarrow> addr \<Rightarrow> u32 \<Rightarrow> addr \<Rightarrow> u32 list \<Rightarrow> (format_error + int \<times> memory) option" where
  "vsnprintf m s n fmt args = print_to_array True n m s fmt args"

text \<open>\<open>vsprintf\<close> leaves \<open>array_max\<close> as the last \<open>vsnprintf\<close> set it; it is not used.\<close>

definition vsprintf :: "memory \<Rightarrow> addr \<Rightarrow> addr \<Rightarrow> u32 list \<Rightarrow> (format_error + int \<times> memory) option" where
  "vsprintf m s fmt args = print_to_array False 0 m s fmt args"

section \<open>Input\<close>

definition fgetc ::
  "'h drive_read \<Rightarrow> addr \<Rightarrow> FileData \<Rightarrow> 'h fat \<Rightarrow> (int \<times> FileData \<times> 'h fat) option" where
  "fgetc rs tmp stream st =
     (case vfs_read rs stream tmp 1 st of
        None \<Rightarrow> None
      | Some (n, stream, st) \<Rightarrow> Some (if n \<noteq> 1 then EOF else uint (fat_mem st tmp), stream, st))"

fun fread_loop ::
  "'h drive_read \<Rightarrow> addr \<Rightarrow> u32 \<Rightarrow> nat \<Rightarrow> nat \<Rightarrow> FileData \<Rightarrow> 'h fat \<Rightarrow> (u32 \<times> FileData \<times> 'h fat) option"
where
  "fread_loop rs ptr sz i 0 stream st = Some (of_nat i, stream, st)"
| "fread_loop rs ptr sz i (Suc n) stream st =
     (case vfs_read rs stream (ptr + sz * of_nat i) sz st of
        None \<Rightarrow> None
      | Some (k, stream, st) \<Rightarrow>
          if k \<noteq> sz then Some (of_nat i, stream, st) else fread_loop rs ptr sz (Suc i) n stream st)"

definition fread ::
  "'h drive_read \<Rightarrow> addr \<Rightarrow> u32 \<Rightarrow> u32 \<Rightarrow> FileData \<Rightarrow> 'h fat \<Rightarrow> (u32 \<times> FileData \<times> 'h fat) option" where
  "fread rs ptr sz nmemb stream st = fread_loop rs ptr sz 0 (unat nmemb) stream st"

text \<open>
  The loop of \<open>fgets\<close> with \<open>k\<close> turns left. The result of \<open>fgetc\<close> is stored in a \<open>char\<close> before it
  is compared with \<open>EOF\<close>.
\<close>

fun fgets_loop ::
  "'h drive_read \<Rightarrow> addr \<Rightarrow> addr \<Rightarrow> nat \<Rightarrow> nat \<Rightarrow> FileData \<Rightarrow> 'h fat \<Rightarrow> (nat \<times> FileData \<times> 'h fat) option"
where
  "fgets_loop rs tmp s 0 i stream st = Some (i, stream, st)"
| "fgets_loop rs tmp s (Suc k) i stream st =
     (case fgetc rs tmp stream st of
        None \<Rightarrow> None
      | Some (r, stream, st) \<Rightarrow>
          let c = of_int r :: u8
          in if sint c = EOF then Some (i, stream, st)
             else let st = set_fat_mem ((fat_mem st)(s + of_nat i := c)) st
                  in if c = 0x0A then Some (Suc i, stream, st)
                     else fgets_loop rs tmp s k (Suc i) stream st)"

definition fgets ::
  "'h drive_read \<Rightarrow> addr \<Rightarrow> addr \<Rightarrow> int \<Rightarrow> FileData \<Rightarrow> 'h fat \<Rightarrow> (addr \<times> FileData \<times> 'h fat) option" where
  "fgets rs tmp s n stream st =
     (case fgets_loop rs tmp s (nat (n - 1)) 0 stream st of
        None \<Rightarrow> None
      | Some (i, stream, st) \<Rightarrow>
          if i = 0 then Some (0, stream, st)
          else Some (s, stream, set_fat_mem ((fat_mem st)(s + of_nat i := 0)) st))"

section \<open>Opening and closing\<close>

definition FOPEN_MAX :: nat where "FOPEN_MAX = 16"

text \<open>The first file not opened is used; a file that cannot be opened stays as far as it got.\<close>

definition fopen ::
  "'h drive_read \<Rightarrow> addr \<Rightarrow> addr \<Rightarrow> FileData list \<Rightarrow> 'h fat \<Rightarrow> (nat option \<times> FileData list \<times> 'h fat) option"
where
  "fopen rs slash filename files st =
     (case find (\<lambda>i. \<not> opened (files ! i)) [0..<FOPEN_MAX] of
        None \<Rightarrow> Some (None, files, st)
      | Some i \<Rightarrow>
          case fat_open_file rs slash ((files ! i)\<lparr>handle := int i, eof := False, file_error := False\<rparr>)
                 filename st of
            None \<Rightarrow> None
          | Some (r, stream, st) \<Rightarrow>
              if r = 0 then Some (Some i, files[i := stream\<lparr>opened := True\<rparr>], st)
              else Some (None, files[i := stream], st))"

text \<open>
  \<open>fclose\<close> calls through \<open>accessors\<close>, which a file that was never opened does not have: \<open>None\<close>.
  \<open>fflush(NULL)\<close> looks at the \<open>opened\<close> flag of the null pointer, byte 17, and calls itself again
  with the same argument when it is set.
\<close>

definition fflush :: "memory \<Rightarrow> FileData option \<Rightarrow> int option" where
  "fflush m stream = (case stream of None \<Rightarrow> if m 17 \<noteq> 0 then None else Some 0 | Some f \<Rightarrow> Some 0)"

definition fclose :: "FileData \<Rightarrow> 'h fat \<Rightarrow> (int \<times> FileData \<times> 'h fat) option" where
  "fclose stream st =
     (if handle stream < 0 \<or> handle stream \<ge> int FOPEN_MAX then Some (EOF, stream, st)
      else if \<not> fat_accessors stream then None
      else case fat_close stream st of
             None \<Rightarrow> None
           | Some st \<Rightarrow>
               let reset = stream\<lparr>buffer := 0, fat_accessors := False, buffer_auto_allocated := False,
                     buffer_mode := IONBF, buffer_size := 0, opened := False, eof := False,
                     file_error := False\<rparr>
               in if buffer stream \<noteq> 0 \<and> buffer_auto_allocated stream
                  then (case free (fat_heap st) (buffer stream) of
                          None \<Rightarrow> None | Some h \<Rightarrow> Some (0, reset, st\<lparr>fat_heap := h\<rparr>))
                  else Some (0, reset, st))"

end
