(* ===== verification/StdioProperties.thy ===== *)
theory StdioProperties
  imports Stdio FatReadFile FormatPrintRuns
begin

text \<open>
  \<open>vsnprintf\<close> against its array, and \<open>fgets\<close> on a file of a mounted volume.
\<close>

section \<open>vsnprintf\<close>

lemma store_bytes_snoc:
  assumes "length xs < 2 ^ 32"
  shows "(store_bytes m a xs)(a + of_nat (length xs) := c) = store_bytes m a (xs @ [c])"
proof
  fix x
  have n: "unat (of_nat (length xs) :: addr) = length xs" using assms by (rule unat_of_nat_small)
  show "((store_bytes m a xs)(a + of_nat (length xs) := c)) x = store_bytes m a (xs @ [c]) x"
  proof (cases "x = a + of_nat (length xs)")
    case True
    then show ?thesis using n by (simp add: store_bytes_def)
  next
    case False
    then have "x - a \<noteq> of_nat (length xs)" by (metis add.commute diff_add_cancel)
    then have "unat (x - a) \<noteq> length xs" using n by (metis word_unat_eq_iff)
    with False show ?thesis by (auto simp: store_bytes_def nth_append less_Suc_eq)
  qed
qed

definition array_limit :: "array_out \<Rightarrow> nat" where
  "array_limit a = (if limit_array_size a then unat (array_max a - 1) else 2 ^ 32 - 1)"

lemma array_out_fold:
  assumes "array_index a = 0" "length out < 2 ^ 32 - 1"
  shows "fold (print_char_to_array s) out a =
    a\<lparr>array_index := of_nat (min (length out) (array_limit a)),
      array_mem := store_bytes (array_mem a) s (take (array_limit a) out)\<rparr>"
  using assms(2)
proof (induction out rule: rev_induct)
  case Nil
  then show ?case using assms(1) by (simp add: store_bytes_def)
next
  case (snoc c out)
  let ?a = "fold (print_char_to_array s) out a" and ?L = "array_limit a"
  have L: "?L < 2 ^ 32" using unat_lt_2p32 [of "array_max a - 1"] by (simp add: array_limit_def)
  have IH: "?a = a\<lparr>array_index := of_nat (min (length out) ?L),
      array_mem := store_bytes (array_mem a) s (take ?L out)\<rparr>" using snoc by simp
  have i: "unat (of_nat (min (length out) ?L) :: u32) = min (length out) ?L"
    using L by (intro unat_of_nat_small) simp
  have room: "(\<not> limit_array_size ?a \<or> array_index ?a < array_max ?a - 1) \<longleftrightarrow> length out < ?L"
    unfolding IH using i snoc.prems by (auto simp: word_less_nat_alt array_limit_def)
  show ?case
  proof (cases "length out < ?L")
    case True
    then have "fold (print_char_to_array s) (out @ [c]) a =
        ?a\<lparr>array_mem := (array_mem ?a)(s + array_index ?a := c), array_index := array_index ?a + 1\<rparr>"
      using room by (simp add: print_char_to_array_def)
    also have "\<dots> = a\<lparr>array_index := of_nat (length out + 1),
        array_mem := (store_bytes (array_mem a) s out)(s + of_nat (length out) := c)\<rparr>"
      unfolding IH using True by simp
    also have "(store_bytes (array_mem a) s out)(s + of_nat (length out) := c) =
        store_bytes (array_mem a) s (out @ [c])"
      using True L by (intro store_bytes_snoc) simp
    finally show ?thesis using True by (simp add: min_def)
  next
    case False
    then have "fold (print_char_to_array s) (out @ [c]) a = ?a"
      using room by (simp add: print_char_to_array_def)
    then show ?thesis unfolding IH using False by simp
  qed
qed

text \<open>With size 0 the limit \<open>array_max - 1\<close> wraps round and everything is stored.\<close>

lemma vsnprintf_stores:
  assumes "format_print m fmt args = Some (Inr (out, r))" "length out < 2 ^ 32 - 1"
    and "k = (if n = 0 then length out else min (length out) (unat n - 1))"
  shows "vsnprintf m s n fmt args = Some (Inr (r, store_bytes m s (take k out @ [0])))"
proof -
  let ?a = "\<lparr>array_max = n, array_index = 0, limit_array_size = True, array_mem = m\<rparr>"
  have lim: "min (length out) (array_limit ?a) = k"
  proof (cases "n = 0")
    case True
    moreover have "unat (- 1 :: u32) = 2 ^ 32 - 1"
      by (simp add: unsigned_minus_1_eq_mask mask_eq_exp_minus_1)
    ultimately show ?thesis using assms(2,3) by (simp add: array_limit_def)
  next
    case False
    then have "unat (n - 1) = unat n - 1" by (simp add: unat_minus_one)
    with False show ?thesis using assms(3) by (simp add: array_limit_def)
  qed
  have t: "take (array_limit ?a) out = take k out"
    unfolding lim [symmetric] by (simp add: min_def)
  have "fold (print_char_to_array s) out ?a =
      ?a\<lparr>array_index := of_nat k, array_mem := store_bytes m s (take k out)\<rparr>"
    using array_out_fold [of ?a out s] assms(2) unfolding lim t by simp
  moreover have "(store_bytes m s (take k out))(s + of_nat k := 0) = store_bytes m s (take k out @ [0])"
    using store_bytes_snoc [of "take k out" m s 0] lim assms(2) by (simp add: min_def split: if_splits)
  ultimately show ?thesis
    using assms(1) by (simp add: vsnprintf_def print_to_array_def)
qed

text \<open>
  C23: \<open>vsnprintf\<close> with a size \<open>n\<close> of at least 1 stores the first \<open>n - 1\<close> characters of the output (all
  of them if there are fewer) and a terminator behind them, changes no byte of memory but the first
  \<open>n\<close> of the array, and returns what \<open>format_print\<close> does. With size 0
  the limit \<open>array_max - 1\<close> wraps round and the whole output and its terminator are stored, although
  \<open>n\<close> is documented as the most that is written.
\<close>

theorem vsnprintf_bounds:
  assumes "format_print m fmt args = Some (Inr (out, r))" "length out < 2 ^ 32 - 1"
  shows "\<exists>m'. vsnprintf m s n fmt args = Some (Inr (r, m')) \<and>
    (if n = 0 then m' = store_bytes m s (out @ [0])
     else m' = store_bytes m s (take (unat n - 1) out @ [0]) \<and> (\<forall>x. x \<notin> region s (unat n) \<longrightarrow> m' x = m x))"
proof (cases "n = 0")
  case True
  then show ?thesis using vsnprintf_stores [OF assms refl, of s n] by simp
next
  case False
  let ?k = "min (length out) (unat n - 1)"
  have t: "take ?k out = take (unat n - 1) out" by (simp add: min_def)
  have "unat n \<noteq> 0" using False by (simp add: unat_eq_0)
  then have "length (take (unat n - 1) out @ [0]) \<le> unat n" by simp
  then have "store_bytes m s (take (unat n - 1) out @ [0]) x = m x" if "x \<notin> region s (unat n)" for x
    using that by (intro store_bytes_outside) (auto simp: region_iff)
  then show ?thesis using False vsnprintf_stores [OF assms refl, of s n] unfolding if_not_P [OF False] t
    by (intro exI [of _ "store_bytes m s (take (unat n - 1) out @ [0])"]) simp
qed

definition letter_format :: memory where
  "letter_format a = (if a = 100 then 0x61 else if a = 101 then 0x62 else 0)"

lemma letter_output: "format_print letter_format 100 [] = Some (Inr ([0x61, 0x62], 2))"
  using run_format [of "fp_start 100 []" letter_format "[Text 0x61, Text 0x62]"]
  by (simp add: format_print_result ready_def fp_start_def letter_format_def cong: option.case_cong)

theorem vsnprintf_bounds_witness:
  "vsnprintf letter_format 200 2 100 [] = Some (Inr (2, store_bytes letter_format 200 [0x61, 0])) \<and>
   vsnprintf letter_format 200 0 100 [] = Some (Inr (2, store_bytes letter_format 200 [0x61, 0x62, 0]))"
  using vsnprintf_bounds [OF letter_output, of 200 2] vsnprintf_bounds [OF letter_output, of 200 0] by simp

section \<open>fgets\<close>

text \<open>The line read from the bytes ahead: up to a newline, \<open>k\<close> bytes, or a byte \<open>0xFF\<close>.\<close>

fun line_of :: "nat \<Rightarrow> u8 list \<Rightarrow> u8 list" where
  "line_of 0 xs = []"
| "line_of (Suc k) [] = []"
| "line_of (Suc k) (x # xs) = (if x = 0xFF then [] else if x = 0x0A then [x] else x # line_of k xs)"

text \<open>The bytes taken from the file: a byte \<open>0xFF\<close> that ends the line is lost.\<close>

fun taken_by :: "nat \<Rightarrow> u8 list \<Rightarrow> nat" where
  "taken_by 0 xs = 0"
| "taken_by (Suc k) [] = 0"
| "taken_by (Suc k) (x # xs) = (if x = 0xFF \<or> x = 0x0A then 1 else Suc (taken_by k xs))"

definition ahead :: "volume \<Rightarrow> FileData \<Rightarrow> u8 list" where
  "ahead V fd = file_bytes V (first_cluster (ffd fd)) (unat (position (ffd fd)))
     (unat (file_size (ffd fd)) - unat (position (ffd fd)))"

definition open_stream :: "volume \<Rightarrow> nat \<Rightarrow> FileData \<Rightarrow> 'h fat \<Rightarrow> bool" where
  "open_stream V n fd st \<longleftrightarrow> file_state V n fd st \<and> 0 \<le> handle fd \<and> fat_accessors fd \<and> \<not> file_error fd"

text \<open>The bytes a stream must not share with the caller.\<close>

definition stream_bytes :: "FileData \<Rightarrow> 'h fat \<Rightarrow> addr set" where
  "stream_bytes fd st = region (buffer fd) 512 \<union> partition_bytes st"

lemma file_bytes_1: "file_bytes V c a (Suc n) = file_bytes V c a 1 @ file_bytes V c (Suc a) n"
  using file_bytes_append [of V c a 1 n] by simp

lemma fgetc_mounted:
  assumes "volume_ok rs V" "n < 2 ^ 32" "open_stream V n fd st" "tmp \<notin> stream_bytes fd st"
  shows "\<exists>fd' st'. fgetc rs tmp fd st =
      Some (case ahead V fd of [] \<Rightarrow> EOF | x # xs \<Rightarrow> uint x, fd', st') \<and>
    open_stream V n fd' st' \<and> ahead V fd' = tl (ahead V fd) \<and> stream_bytes fd' st' = stream_bytes fd st \<and>
    unat (position (ffd fd')) = unat (position (ffd fd)) + of_bool (ahead V fd \<noteq> []) \<and>
    unchanged_outside ({tmp} \<union> stream_bytes fd st) (fat_mem st) (fat_mem st')"
proof -
  let ?p = "unat (position (ffd fd))" and ?sz = "unat (file_size (ffd fd))" and ?c = "first_cluster (ffd fd)"
  let ?k = "min (unat (1 :: u32)) (?sz - ?p)"
  have state: "file_state V n fd st" "\<not> file_error fd" "0 \<le> handle fd" "fat_accessors fd"
    using assms(3) by (simp_all add: open_stream_def)
  have le: "?p \<le> ?sz" using state(1) by (simp add: file_state_def word_le_nat_alt)
  have "region tmp (unat (1 :: u32)) = {tmp}"
    by (auto simp: region_iff unat_eq_0)
  with assms(4) have "region tmp (unat (1 :: u32)) \<inter> (region (buffer fd) 512 \<union> partition_bytes st) = {}"
    by (simp add: stream_bytes_def)
  from fat_read_mounted [OF assms(1,2) state(1,2) this refl]
  obtain fd' st' where r: "fat_read rs fd tmp 1 st = Some (of_nat ?k, fd', st')"
    "after_read V n fd st tmp ?k fd' st'" by blast
  have st': "file_state V n fd' st'" "position (ffd fd') = position (ffd fd) + of_nat ?k"
    "file_size (ffd fd') = file_size (ffd fd)" "first_cluster (ffd fd') = ?c" "buffer fd' = buffer fd"
    "handle fd' = handle fd" "fat_accessors fd' = fat_accessors fd" "file_error fd' = file_error fd"
    "fat_partition st' = fat_partition st" "load_bytes (fat_mem st') tmp ?k = file_bytes V ?c ?p ?k"
    "unchanged_outside (region tmp ?k \<union> region (buffer fd) 512) (fat_mem st) (fat_mem st')"
    using r(2) by (simp_all add: after_read_def)
  have pos: "unat (position (ffd fd')) = ?p + ?k"
    unfolding st'(2) using le unat_lt_2p32 [of "file_size (ffd fd)"] by (intro unat_plus_small) simp
  have "vfs_read rs fd tmp 1 st = Some (of_nat ?k, fd', st')"
    using r(1) state by (simp add: vfs_read_def STREAM_STDIN_def STREAM_STDOUT_def STREAM_STDERR_def STREAM_STDDBG_def)
  then have get: "fgetc rs tmp fd st = Some (if ?p < ?sz then uint (fat_mem st' tmp) else EOF, fd', st')"
    by (auto simp: fgetc_def min_def)
  have "region tmp ?k \<subseteq> {tmp}" by (auto simp: region_iff min_def unat_eq_0)
  with st'(11) have un: "unchanged_outside ({tmp} \<union> stream_bytes fd st) (fat_mem st) (fat_mem st')"
    by (auto simp: stream_bytes_def unchanged_outside_def)
  have byte: "ahead V fd = fat_mem st' tmp # ahead V fd'" if "?p < ?sz"
  proof -
    have "file_bytes V ?c ?p 1 = [fat_mem st' tmp]"
    proof -
      have "?k = 1" using that by simp
      with st'(10) show ?thesis by (simp add: load_bytes_def)
    qed
    moreover have "?sz - ?p = Suc (?sz - Suc ?p)" using that by simp
    moreover have "unat (position (ffd fd')) = Suc ?p" using pos that by simp
    ultimately show ?thesis unfolding ahead_def st'(3,4)
      using file_bytes_1 [of V ?c ?p "?sz - Suc ?p"] by simp
  qed
  have none: "ahead V fd = []" "ahead V fd' = []" if "\<not> ?p < ?sz"
    using that le pos unfolding ahead_def st'(3) by (simp_all add: file_bytes_def)
  have "open_stream V n fd' st'" "stream_bytes fd' st' = stream_bytes fd st"
    using state st' by (simp_all add: open_stream_def stream_bytes_def partition_bytes_def)
  then show ?thesis using get byte none un pos by (cases "?p < ?sz") auto
qed

lemma line_of_length: "length (line_of k xs) \<le> k"
  by (induction k xs rule: line_of.induct) auto

lemma open_stream_write:
  assumes "open_stream V n fd st" "a \<notin> stream_bytes fd st" "st2 = set_fat_mem ((fat_mem st)(a := x)) st"
  shows "open_stream V n fd st2" and "stream_bytes fd st2 = stream_bytes fd st"
proof -
  have "mounted V st2" unfolding assms(3) using assms(1,2)
    by (intro mounted_mem [where S = "{a}"])
      (auto simp: open_stream_def file_state_def stream_bytes_def unchanged_outside_def)
  moreover have "load_bytes (fat_mem st2) (buffer fd) 512 = load_bytes (fat_mem st) (buffer fd) 512"
    using assms(2,3) by (intro load_bytes_cong) (auto simp: stream_bytes_def)
  ultimately show "open_stream V n fd st2" "stream_bytes fd st2 = stream_bytes fd st"
    using assms(1,3) by (simp_all add: open_stream_def file_state_def loaded_def stream_bytes_def)
qed

text \<open>A byte stored in front of a line stored behind it.\<close>

lemma region_1: "region a 1 = {a}"
  by (auto simp: region_iff unat_eq_0)

lemma line_store:
  assumes "1 + length ys \<le> 2 ^ 32" "unchanged_outside C m0 m1" "a \<notin> C"
    and "unchanged_outside (region (a + 1) (length ys) \<union> C) (m1(a := x)) m2"
    and "load_bytes m2 (a + 1) (length ys) = ys"
  shows "load_bytes m2 a (length (x # ys)) = x # ys"
    and "unchanged_outside (region a (length (x # ys)) \<union> C) m0 m2"
proof -
  have split: "region a (length (x # ys)) = {a} \<union> region (a + 1) (length ys)"
    "{a} \<inter> region (a + 1) (length ys) = {}"
    using region_append [OF assms(1), of a] region_1 [of a] by simp_all
  then have "m2 a = x" using unchangedD [OF assms(4), of a] assms(3) by simp
  then show "load_bytes m2 a (length (x # ys)) = x # ys"
    using load_bytes_append [of m2 a 1 "length ys"] assms(5) by (simp add: load_bytes_def)
  show "unchanged_outside (region a (length (x # ys)) \<union> C) m0 m2"
    unfolding split(1) using assms(2,4) by (auto simp: unchanged_outside_def)
qed

text \<open>One turn of the loop.\<close>

lemma fgets_step:
  assumes "fgetc rs tmp fd st = Some (case ys of [] \<Rightarrow> EOF | x # xs \<Rightarrow> uint x, fd1, st1)"
  shows "fgets_loop rs tmp s (Suc k) i fd st =
    (case ys of [] \<Rightarrow> Some (i, fd1, st1)
     | x # xs \<Rightarrow>
         if x = 0xFF then Some (i, fd1, st1)
         else let st2 = set_fat_mem ((fat_mem st1)(s + of_nat i := x)) st1
              in if x = 0x0A then Some (Suc i, fd1, st2) else fgets_loop rs tmp s k (Suc i) fd1 st2)"
proof -
  have "sint (of_int EOF :: u8) = EOF" by (simp add: EOF_def)
  moreover have "sint x = EOF \<longleftrightarrow> x = 0xFF" for x :: u8
    using sint_eq [of x "0xFF"] by (simp add: EOF_def)
  ultimately show ?thesis using assms by (simp add: Let_def split: list.split)
qed

lemma fgets_loop_mounted:
  assumes "volume_ok rs V" "n < 2 ^ 32" "open_stream V n fd st" "tmp \<notin> stream_bytes fd st"
    and "i + k < 2 ^ 32" "region s (i + k) \<inter> ({tmp} \<union> stream_bytes fd st) = {}"
    and "xs = line_of k (ahead V fd)"
  shows "\<exists>fd' st'. fgets_loop rs tmp s k i fd st = Some (i + length xs, fd', st') \<and>
    open_stream V n fd' st' \<and> load_bytes (fat_mem st') (s + of_nat i) (length xs) = xs \<and>
    unat (position (ffd fd')) = unat (position (ffd fd)) + taken_by k (ahead V fd) \<and>
    ahead V fd' = drop (taken_by k (ahead V fd)) (ahead V fd) \<and> stream_bytes fd' st' = stream_bytes fd st \<and>
    unchanged_outside (region (s + of_nat i) (length xs) \<union> {tmp} \<union> stream_bytes fd st) (fat_mem st) (fat_mem st')"
  using assms(3-7)
proof (induction k arbitrary: i fd st xs)
  case 0
  then show ?case by (simp add: load_bytes_def)
next
  case (Suc k)
  let ?C = "{tmp} \<union> stream_bytes fd st"
  obtain fd1 st1 where g: "fgetc rs tmp fd st =
      Some (case ahead V fd of [] \<Rightarrow> EOF | x # xs \<Rightarrow> uint x, fd1, st1)"
    "open_stream V n fd1 st1" "ahead V fd1 = tl (ahead V fd)" "stream_bytes fd1 st1 = stream_bytes fd st"
    "unat (position (ffd fd1)) = unat (position (ffd fd)) + of_bool (ahead V fd \<noteq> [])"
    "unchanged_outside ?C (fat_mem st) (fat_mem st1)"
    using fgetc_mounted [OF assms(1,2) Suc.prems(1,2)] by blast
  note step = fgets_step [OF g(1)]
  have here: "fgets_loop rs tmp s (Suc k) i fd st = Some (i, fd1, st1) \<Longrightarrow> xs = [] \<Longrightarrow>
      taken_by (Suc k) (ahead V fd) = of_bool (ahead V fd \<noteq> []) \<Longrightarrow> ?case"
    using g by (cases "ahead V fd") (simp_all add: load_bytes_def)
  show ?case
  proof (cases "ahead V fd")
    case Nil
    with step Suc.prems(5) show ?thesis by (intro here) simp_all
  next
    case (Cons x rest)
    show ?thesis
    proof (cases "x = 0xFF")
      case True
      with Cons step Suc.prems(5) show ?thesis by (intro here) simp_all
    next
      case F: False
      let ?a = "s + of_nat i"
      define st2 where "st2 = set_fat_mem ((fat_mem st1)(?a := x)) st1"
      have "?a \<in> region s (i + Suc k)"
        using Suc.prems(3) unat_of_nat_small [of i] by (intro region_offset) simp
      then have apart: "?a \<notin> ?C" using Suc.prems(4) by auto
      then have a1: "?a \<notin> stream_bytes fd1 st1" using g(4) by simp
      note w = open_stream_write [OF g(2) a1 st2_def]
      have m2: "fat_mem st2 = (fat_mem st1)(?a := x)" by (simp add: st2_def)
      show ?thesis
      proof (cases "x = 0x0A")
        case True
        have "fgets_loop rs tmp s (Suc k) i fd st = Some (Suc i, fd1, st2)"
          using step Cons F True by (simp add: st2_def)
        moreover have "xs = [x]" "taken_by (Suc k) (ahead V fd) = 1"
          using Suc.prems(5) Cons F True by simp_all
        moreover have "load_bytes (fat_mem st2) ?a 1 = [x]" by (simp add: load_bytes_def m2)
        moreover have "unchanged_outside (region ?a 1 \<union> {tmp} \<union> stream_bytes fd st) (fat_mem st) (fat_mem st2)"
          using g(6) unfolding region_1 m2 by (auto simp: unchanged_outside_def)
        ultimately show ?thesis using Cons g w by simp
      next
        case False
        let ?ys = "line_of k (ahead V fd1)"
        have xs: "xs = x # ?ys" "taken_by (Suc k) (ahead V fd) = Suc (taken_by k (ahead V fd1))"
          using Suc.prems(5) Cons F False g(3) by simp_all
        have go: "fgets_loop rs tmp s (Suc k) i fd st = fgets_loop rs tmp s k (Suc i) fd1 st2"
          using step Cons F False by (simp add: st2_def)
        have tmp: "tmp \<notin> stream_bytes fd1 st2" and k: "Suc i + k < 2 ^ 32"
          and dis: "region s (Suc i + k) \<inter> ({tmp} \<union> stream_bytes fd1 st2) = {}"
          using Suc.prems(2,3,4) w(2) g(4) by simp_all
        obtain fd' st' where r: "fgets_loop rs tmp s k (Suc i) fd1 st2 = Some (Suc i + length ?ys, fd', st')"
          "open_stream V n fd' st'" "load_bytes (fat_mem st') (s + of_nat (Suc i)) (length ?ys) = ?ys"
          "unat (position (ffd fd')) = unat (position (ffd fd1)) + taken_by k (ahead V fd1)"
          "ahead V fd' = drop (taken_by k (ahead V fd1)) (ahead V fd1)"
          "stream_bytes fd' st' = stream_bytes fd1 st2"
          "unchanged_outside (region (s + of_nat (Suc i)) (length ?ys) \<union> {tmp} \<union> stream_bytes fd1 st2)
            (fat_mem st2) (fat_mem st')"
          using Suc.IH [OF w(1) tmp k dis refl] by blast
        have next_addr: "s + of_nat (Suc i) = ?a + 1" by (simp add: ac_simps)
        have len: "1 + length ?ys \<le> 2 ^ 32"
          using line_of_length [of k "ahead V fd1"] Suc.prems(3) by simp
        have "unchanged_outside (region (?a + 1) (length ?ys) \<union> ?C) ((fat_mem st1)(?a := x)) (fat_mem st')"
          using r(7) unfolding next_addr w(2) g(4) m2 Un_assoc .
        note line = line_store [OF len g(6) apart this r(3) [unfolded next_addr], folded xs(1)]
        have "i + length xs = Suc i + length ?ys" by (simp add: xs(1))
        then show ?thesis
          using r(1,2,4,5,6) line w(2) g(3,4,5) Cons unfolding go xs(2) Un_assoc by auto
      qed
    qed
  qed
qed

text \<open>What \<open>fgets\<close> returns and what it leaves.\<close>

lemma fgets_mounted:
  assumes "volume_ok rs V" "n < 2 ^ 32" "open_stream V n fd st" "tmp \<notin> stream_bytes fd st"
    and "0 < sz" "sz < 2 ^ 31" "region s (nat sz) \<inter> ({tmp} \<union> stream_bytes fd st) = {}"
    and "line = line_of (nat (sz - 1)) (ahead V fd)"
  shows "\<exists>fd' st'. fgets rs tmp s sz fd st = Some (if line = [] then 0 else s, fd', st') \<and>
    open_stream V n fd' st' \<and> ahead V fd' = drop (taken_by (nat (sz - 1)) (ahead V fd)) (ahead V fd) \<and>
    stream_bytes fd' st' = stream_bytes fd st \<and>
    unat (position (ffd fd')) = unat (position (ffd fd)) + taken_by (nat (sz - 1)) (ahead V fd) \<and>
    (line = [] \<or> load_bytes (fat_mem st') s (length line + 1) = line @ [0])"
proof -
  let ?k = "nat (sz - 1)"
  have k: "0 + ?k < 2 ^ 32" "Suc ?k = nat sz" using assms(5,6) by auto
  have dis: "region s (0 + ?k) \<inter> ({tmp} \<union> stream_bytes fd st) = {}"
    using assms(7) region_mono [of ?k "nat sz" s] k(2) by auto
  obtain fd1 st1 where r: "fgets_loop rs tmp s ?k 0 fd st = Some (0 + length line, fd1, st1)"
    "open_stream V n fd1 st1" "load_bytes (fat_mem st1) (s + of_nat 0) (length line) = line"
    "unat (position (ffd fd1)) = unat (position (ffd fd)) + taken_by ?k (ahead V fd)"
    "stream_bytes fd1 st1 = stream_bytes fd st" "ahead V fd1 = drop (taken_by ?k (ahead V fd)) (ahead V fd)"
    using fgets_loop_mounted [OF assms(1-4) k(1) dis assms(8)] by blast
  show ?thesis
  proof (cases "line = []")
    case True
    with r show ?thesis by (simp add: fgets_def)
  next
    case False
    let ?a = "s + of_nat (length line)"
    let ?st2 = "set_fat_mem ((fat_mem st1)(?a := 0)) st1"
    have len: "length line \<le> ?k" using assms(8) line_of_length by simp
    have u: "unat (of_nat (length line) :: addr) = length line" using len k by (intro unat_of_nat_small) simp
    then have "?a \<in> region s (nat sz)" using len k(2) by (intro region_offset) simp
    then have "?a \<notin> stream_bytes fd1 st1" using assms(7) r(5) by auto
    note w = open_stream_write [OF r(2) this refl, of 0]
    have "fat_mem ?st2 x = fat_mem st1 x" if "x \<in> region s (length line)" for x
      using that u by (auto simp: region_iff)
    then have "load_bytes (fat_mem ?st2) s (length line) = line"
      using r(3) len k by (subst load_bytes_cong [of s "length line" _ "fat_mem st1"]) simp_all
    then have "load_bytes (fat_mem ?st2) s (length line + 1) = line @ [0]"
      by (simp add: load_bytes_append [of _ _ _ 1, simplified] load_bytes_def)
    with False r w show ?thesis by (simp add: fgets_def)
  qed
qed

lemma small_ahead: "ahead small_volume small_file = [10, 10]"
proof -
  have e: "file_sector small_volume 2 0 = replicate 512 10"
    by (simp add: file_sector_def small_volume_def Let_def)
  have "file_bytes small_volume 2 1 2 = map (\<lambda>i. file_sector small_volume 2 (i div 512) ! (i mod 512)) [1, 2]"
    unfolding file_bytes_def by (rule arg_cong) (simp add: upt_rec numeral_2_eq_2)
  also have "\<dots> = [10, 10]" by (simp add: e)
  finally show ?thesis by (simp add: ahead_def small_file_def)
qed

lemma small_stream: "open_stream small_volume 1 small_file small_fat"
  using small_file_state by (simp add: open_stream_def small_file_def)

text \<open>
  C24: \<open>fgets\<close> on an open file of a mounted volume stores the next line of the file, its newline
  included, at most \<open>n - 1\<close> bytes, with a terminator, and moves the file behind it; it returns
  \<open>NULL\<close> when there is nothing to store. A byte \<open>0xFF\<close> ends the line as if the file ended there,
  and is lost.
\<close>

theorem fgets_reads_line:
  assumes "volume_ok rs V" "n < 2 ^ 32" "open_stream V n fd st" "tmp \<notin> stream_bytes fd st"
    and "0 < sz" "sz < 2 ^ 31" "region s (nat sz) \<inter> ({tmp} \<union> stream_bytes fd st) = {}"
    and "line = line_of (nat (sz - 1)) (ahead V fd)"
  shows "\<exists>fd' st'. fgets rs tmp s sz fd st = Some (if line = [] then 0 else s, fd', st') \<and>
    open_stream V n fd' st' \<and>
    unat (position (ffd fd')) = unat (position (ffd fd)) + taken_by (nat (sz - 1)) (ahead V fd) \<and>
    (line = [] \<or> load_bytes (fat_mem st') s (length line + 1) = line @ [0])"
  using fgets_mounted [OF assms] by blast

theorem fgets_reads_line_witness:
  "\<exists>fd' st'. fgets small_read 3000 2000 5 small_file small_fat = Some (2000, fd', st') \<and>
     load_bytes (fat_mem st') 2000 2 = [0x0A, 0]"
proof -
  have "ahead small_volume small_file = [10, 10]" by (rule small_ahead)
  moreover have "nat (5 - 1) = Suc 3" by simp
  ultimately have line: "[0x0A] = line_of (nat (5 - 1)) (ahead small_volume small_file)"
    by (simp only: line_of.simps) simp
  have b: "stream_bytes small_file small_fat = region 1000 512 \<union> partition_bytes small_fat"
    by (simp add: stream_bytes_def small_file_def)
  have t: "3000 \<notin> stream_bytes small_file small_fat"
    unfolding b by (simp add: partition_bytes_def region_iff small_state_def sizeof_Partition_def)
  have "3000 \<notin> region 2000 5" by (simp add: region_iff)
  then have d: "region 2000 (nat 5) \<inter> ({3000} \<union> stream_bytes small_file small_fat) = {}"
    using small_regions(2) [of "()"] unfolding b by auto
  have two: "length [0x0A :: u8] + 1 = 2" by simp
  show ?thesis
    using fgets_reads_line [OF small_volume_ok _ small_stream t _ _ d line] unfolding two by auto
qed

end
