(* ===== verification/Debug.thy ===== *)
theory Debug
  imports Stdio
begin

text \<open>
  The rest of \<open>libc/stdio.c\<close>, the \<open>printf\<close> functions and the dumps, and the log of \<open>debug.c\<close> on
  top of it. String literals are in memory, at addresses that are arguments. A result is the console
  afterwards, the error of a format without its argument, or \<open>None\<close> for a loop without end.
\<close>

section \<open>Standard streams\<close>

definition standard_file :: "int \<Rightarrow> FileData" where
  "standard_file h = \<lparr>handle = h, buffer = 0, buffer_mode = 0, buffer_size = 0, buffer_auto_allocated = False,
     opened = False, file_error = False, eof = False, fat_accessors = False, extra_data = 0,
     ffd = \<lparr>first_cluster = 0, current_cluster = 0, cluster_index = 0, current_sector_in_cluster = 0,
       position = 0, file_size = 0, is_directory = False\<rparr>\<rparr>"

definition stdout_file :: FileData where "stdout_file = standard_file STREAM_STDOUT"
definition stderr_file :: FileData where "stderr_file = standard_file STREAM_STDERR"
definition stddbg_file :: FileData where "stddbg_file = standard_file STREAM_STDDBG"

section \<open>The printf functions\<close>

type_synonym print_result = "(format_error + console) option"

definition vprintf :: "memory \<Rightarrow> addr \<Rightarrow> u32 list \<Rightarrow> console \<Rightarrow> print_result" where
  "vprintf m fmt args s = vfprintf m stdout_file fmt args s"

definition fprintf :: "memory \<Rightarrow> FileData \<Rightarrow> addr \<Rightarrow> u32 list \<Rightarrow> console \<Rightarrow> print_result" where
  "fprintf m stream fmt args s = vfprintf m stream fmt args s"

definition printf :: "memory \<Rightarrow> addr \<Rightarrow> u32 list \<Rightarrow> console \<Rightarrow> print_result" where
  "printf m fmt args s = vfprintf m stdout_file fmt args s"

definition snprintf ::
  "memory \<Rightarrow> addr \<Rightarrow> u32 \<Rightarrow> addr \<Rightarrow> u32 list \<Rightarrow> (format_error + int \<times> memory) option" where
  "snprintf m s n fmt args = vsnprintf m s n fmt args"

definition sprintf :: "memory \<Rightarrow> addr \<Rightarrow> addr \<Rightarrow> u32 list \<Rightarrow> (format_error + int \<times> memory) option" where
  "sprintf m s fmt args = vsprintf m s fmt args"

definition and_print :: "print_result \<Rightarrow> (console \<Rightarrow> print_result) \<Rightarrow> print_result" where
  "and_print r f = (case r of None \<Rightarrow> None | Some (Inl e) \<Rightarrow> Some (Inl e) | Some (Inr s) \<Rightarrow> f s)"

section \<open>Dumps\<close>

text \<open>\<open>hhx\<close> is the address of "%hhx". The counter has 16 bits.\<close>

partial_function (option) fprintbuf_loop ::
  "memory \<Rightarrow> addr \<Rightarrow> FileData \<Rightarrow> addr \<Rightarrow> u32 \<Rightarrow> u16 \<Rightarrow> console \<Rightarrow> print_result" where
  "fprintbuf_loop m hhx stream buf count i s =
     (if ucast i < count
      then (case fprintf m stream hhx [ucast (m (buf + ucast i))] s of
              None \<Rightarrow> None
            | Some (Inl e) \<Rightarrow> Some (Inl e)
            | Some (Inr s) \<Rightarrow> fprintbuf_loop m hhx stream buf count (i + 1) s)
      else Some (Inr s))"

definition fprintbuf :: "memory \<Rightarrow> addr \<Rightarrow> FileData \<Rightarrow> addr \<Rightarrow> u32 \<Rightarrow> console \<Rightarrow> print_result" where
  "fprintbuf m hhx stream buf count s = fprintbuf_loop m hhx stream buf count 0 s"

text \<open>The literals "%#x: \t", "%02x ", "| " and "\n".\<close>

record dump_literals =
  lit_offset :: addr
  lit_byte :: addr
  lit_bar :: addr
  lit_newline :: addr

primrec print_columns :: "memory \<Rightarrow> addr \<Rightarrow> addr \<Rightarrow> nat list \<Rightarrow> console \<Rightarrow> print_result" where
  "print_columns m fmt buf [] s = Some (Inr s)"
| "print_columns m fmt buf (col # cols) s =
     and_print (printf m fmt [ucast (m (buf + of_nat col))] s) (print_columns m fmt buf cols)"

definition dump_char :: "u8 \<Rightarrow> u8" where
  "dump_char c = (if 0x30 \<le> c \<and> c \<le> 0x7D then c else 0x20)"

text \<open>
  One line: the columns go to 8 or the whole \<open>count\<close>, whatever is left of it; the numbers go to
  \<open>stdout\<close>, the offset and the characters to \<open>stream\<close>.
\<close>

definition hexdump_line ::
  "memory \<Rightarrow> dump_literals \<Rightarrow> FileData \<Rightarrow> addr \<Rightarrow> u32 \<Rightarrow> u32 \<Rightarrow> console \<Rightarrow> print_result" where
  "hexdump_line m L stream buf count offset s =
     (let cols = [0..<min 8 (unat count)]; row = buf + offset
      in and_print (fprintf m stream (lit_offset L) [offset] s) (\<lambda>s.
         and_print (print_columns m (lit_byte L) row cols s) (\<lambda>s.
         and_print (printf m (lit_bar L) [] s) (\<lambda>s.
         printf m (lit_newline L) []
           (fold (\<lambda>col s. snd (fputc (ucast (dump_char (m (row + of_nat col)))) stream s)) cols s)))))"

partial_function (option) hexdump_loop ::
  "memory \<Rightarrow> dump_literals \<Rightarrow> FileData \<Rightarrow> addr \<Rightarrow> u32 \<Rightarrow> u32 \<Rightarrow> console \<Rightarrow> print_result" where
  "hexdump_loop m L stream buf count offset s =
     (if offset < count
      then (case hexdump_line m L stream buf count offset s of
              None \<Rightarrow> None
            | Some (Inl e) \<Rightarrow> Some (Inl e)
            | Some (Inr s) \<Rightarrow> hexdump_loop m L stream buf count (offset + 8) s)
      else Some (Inr s))"

definition hexdump :: "memory \<Rightarrow> dump_literals \<Rightarrow> FileData \<Rightarrow> addr \<Rightarrow> u32 \<Rightarrow> console \<Rightarrow> print_result" where
  "hexdump m L stream buf count s = hexdump_loop m L stream buf count 0 s"

section \<open>The log\<close>

datatype DebugLevel = LVL_DEBUG | LVL_INFO | LVL_WARN | LVL_ERROR | LVL_CRITICAL

fun level_number :: "DebugLevel \<Rightarrow> nat" where
  "level_number LVL_DEBUG = 0" | "level_number LVL_INFO = 1" | "level_number LVL_WARN = 3"
| "level_number LVL_ERROR = 4" | "level_number LVL_CRITICAL = 5"

text \<open>The levels are ordered as their numbers.\<close>

lemma level_number_inj: "level_number a = level_number b \<Longrightarrow> a = b"
  by (cases a; cases b) simp_all

instantiation DebugLevel :: "{linorder, order_bot}"
begin

definition less_eq_DebugLevel :: "DebugLevel \<Rightarrow> DebugLevel \<Rightarrow> bool" where
  "less_eq_DebugLevel a b \<longleftrightarrow> level_number a \<le> level_number b"

definition less_DebugLevel :: "DebugLevel \<Rightarrow> DebugLevel \<Rightarrow> bool" where
  "less_DebugLevel a b \<longleftrightarrow> level_number a < level_number b"

definition bot_DebugLevel :: DebugLevel where "bot_DebugLevel = LVL_DEBUG"

instance
  by standard (auto simp: less_eq_DebugLevel_def less_DebugLevel_def bot_DebugLevel_def intro: level_number_inj)

end

definition MIN_LOG_LEVEL :: nat where "MIN_LOG_LEVEL = 0"

text \<open>The colors, the reset sequence, "[%s] ", "Panicking:\n  " and "KERNEL PANIC".\<close>

record log_literals =
  log_severity_colors :: "nat \<Rightarrow> addr"
  color_reset :: addr
  lit_module :: addr
  lit_panicking :: addr
  lit_kernel_panic :: addr

definition put_string :: "memory \<Rightarrow> addr \<Rightarrow> FileData \<Rightarrow> console \<Rightarrow> print_result" where
  "put_string m p stream s = map_option (\<lambda>r. Inr (snd r)) (fputs m p stream s)"

definition put_char_to :: "u32 \<Rightarrow> FileData \<Rightarrow> console \<Rightarrow> print_result" where
  "put_char_to c stream s = Some (Inr (snd (fputc c stream s)))"

definition debug_buffer :: "memory \<Rightarrow> addr \<Rightarrow> addr \<Rightarrow> addr \<Rightarrow> u32 \<Rightarrow> console \<Rightarrow> print_result" where
  "debug_buffer m hhx msg buf count s =
     and_print (put_string m msg stddbg_file s) (\<lambda>s.
     and_print (fprintbuf m hhx stddbg_file buf count s) (put_char_to 0x0A stddbg_file))"

definition logf ::
  "memory \<Rightarrow> log_literals \<Rightarrow> addr \<Rightarrow> DebugLevel \<Rightarrow> addr \<Rightarrow> u32 list \<Rightarrow> console \<Rightarrow> print_result" where
  "logf m L module level fmt args s =
     (if level_number level < MIN_LOG_LEVEL then Some (Inr s)
      else and_print (put_string m (log_severity_colors L (level_number level)) stddbg_file s) (\<lambda>s.
           and_print (fprintf m stddbg_file (lit_module L) [module] s) (\<lambda>s.
           and_print (vfprintf m stddbg_file fmt args s) (\<lambda>s.
           and_print (put_string m (color_reset L) stddbg_file s) (put_char_to 0x0A stddbg_file)))))"

text \<open>
  What \<open>panic\<close> writes before the processor stops: the message to the debug port and again to the
  screen. Interrupts are off by then.
\<close>

definition panic :: "memory \<Rightarrow> log_literals \<Rightarrow> addr \<Rightarrow> addr \<Rightarrow> u32 list \<Rightarrow> console \<Rightarrow> print_result" where
  "panic m L module fmt args s =
     and_print (put_string m (log_severity_colors L (level_number LVL_CRITICAL)) stddbg_file s) (\<lambda>s.
     and_print (fprintf m stddbg_file (lit_panicking L) [] s) (\<lambda>s.
     and_print (fprintf m stddbg_file (lit_module L) [module] s) (\<lambda>s.
     and_print (vfprintf m stddbg_file fmt args s) (\<lambda>s.
     and_print (put_char_to 0x0A stddbg_file s) (\<lambda>s.
     and_print (fprintf m stderr_file (lit_kernel_panic L) [] s) (\<lambda>s.
     and_print (put_string m (color_reset L) stddbg_file s) (\<lambda>s.
     and_print (put_char_to 0x0A stddbg_file s) (\<lambda>s.
     and_print (fprintf m stderr_file (lit_panicking L) [] s) (\<lambda>s.
     and_print (fprintf m stderr_file (lit_module L) [module] s) (\<lambda>s.
     and_print (vfprintf m stderr_file fmt args s) (\<lambda>s.
     and_print (put_char_to 0x0A stderr_file s) (\<lambda>s.
     fprintf m stderr_file (lit_kernel_panic L) [] s))))))))))))"

section \<open>What they do\<close>

text \<open>The debug stream leaves the screen alone.\<close>

definition off_screen :: "(console \<Rightarrow> print_result) \<Rightarrow> bool" where
  "off_screen f \<longleftrightarrow> (\<forall>s s'. f s = Some (Inr s') \<longrightarrow> screen s' = screen s)"

lemma debug_handles [simp]: "handle stddbg_file = -4" "STREAM_STDIN = -1" "STREAM_STDOUT = -2"
  "STREAM_STDERR = -3" "STREAM_STDDBG = -4"
  by (simp_all add: stddbg_file_def standard_file_def STREAM_STDIN_def STREAM_STDOUT_def STREAM_STDERR_def
      STREAM_STDDBG_def)

lemma screen_fputc [simp]: "screen (snd (fputc c stddbg_file s)) = screen s"
  by (simp add: fputc_def vfs_write_def debug_putc_def Let_def)

lemma off_screen_printf: "off_screen (vfprintf m stddbg_file fmt args)" "off_screen (fprintf m stddbg_file fmt args)"
proof -
  have "screen (fold (\<lambda>c s. snd (fputc (scast c) stddbg_file s)) out s) = screen s" for out s
    by (induction out arbitrary: s) simp_all
  then show "off_screen (vfprintf m stddbg_file fmt args)" "off_screen (fprintf m stddbg_file fmt args)"
    by (auto simp: off_screen_def fprintf_def vfprintf_def split: option.splits sum.splits)
qed

lemma off_screen_fputs: "off_screen (put_string m p stddbg_file)"
proof -
  have "screen (snd r) = screen s" if "fputs_loop m p stddbg_file count s = Some r" for p count s r
    by (rule fputs_loop.raw_induct [where P = "\<lambda>m p stream count s r. stream = stddbg_file \<longrightarrow> screen (snd r) = screen s",
          OF _ that, rule_format]) (auto split: if_splits)
  then show ?thesis by (auto simp: off_screen_def put_string_def fputs_def)
qed

lemma off_screen_put_char: "off_screen (put_char_to c stddbg_file)"
  by (simp add: off_screen_def put_char_to_def)

lemma off_screen_and: "off_screen f \<Longrightarrow> off_screen g \<Longrightarrow> off_screen (\<lambda>s. and_print (f s) g)"
  by (fastforce simp: off_screen_def and_print_def split: option.splits sum.splits)

text \<open>No level is filtered out: the least one has the number of \<open>MIN_LOG_LEVEL\<close>.\<close>

lemma no_level_filtered: "\<not> level_number level < MIN_LOG_LEVEL"
  using bot_least [of level] by (simp add: less_eq_DebugLevel_def bot_DebugLevel_def MIN_LOG_LEVEL_def)

text \<open>Logging never touches the screen.\<close>

lemma logf_off_screen: "off_screen (logf m L module level fmt args)"
  unfolding logf_def if_not_P [OF no_level_filtered]
  by (intro off_screen_and off_screen_printf off_screen_fputs off_screen_put_char)

text \<open>\<open>fprintbuf\<close> of 65536 bytes or more never ends: the counter wraps round.\<close>

lemma fprintbuf_diverges:
  assumes "2 ^ 16 \<le> unat count" shows "fprintbuf m hhx stream buf count s \<noteq> Some (Inr s')"
proof
  assume "fprintbuf m hhx stream buf count s = Some (Inr s')"
  then have r: "fprintbuf_loop m hhx stream buf count 0 s = Some (Inr s')" by (simp add: fprintbuf_def)
  have small: "(ucast i :: u32) < count" for i :: u16
  proof -
    have "unat i < 2 ^ 16" by (rule order_less_le_trans [OF unsigned_less]) simp
    moreover have "unat (ucast i :: u32) = unat i" by transfer (simp add: take_bit_int_eq_self_iff order_less_le_trans [OF take_bit_int_less_exp])
    ultimately have "unat (ucast i :: u32) < 2 ^ 16" by simp
    then show ?thesis using assms by (simp add: word_less_nat_alt)
  qed
  have "c = count \<longrightarrow> (\<forall>s'. r \<noteq> Inr s')" if "fprintbuf_loop m hhx stream buf c i s = Some r" for c i s r
    by (rule fprintbuf_loop.raw_induct [where P = "\<lambda>m hhx stream buf c i s r. c = count \<longrightarrow> (\<forall>s'. r \<noteq> Inr s')",
          OF _ that]) (auto simp: small split: option.splits sum.splits if_splits)
  from this [OF r] show False by simp
qed

end
