(* ===== verification/ShowText.thy ===== *)
theory ShowText
  imports StdioProperties FormatPrintRuns Debug VgaProperties
begin

text \<open>
  The text file that \<open>Start\<close> of \<open>main.c\<close> shows: its lines are read with \<open>fgets\<close> and printed, as format
  strings, with \<open>printf\<close>.
\<close>

section \<open>The loop\<close>

text \<open>\<open>tmp\<close> is the address of the byte in \<open>fgetc\<close>, \<open>line_buf\<close> that of the array \<open>text\<close>.\<close>

partial_function (option) show_text ::
  "'h drive_read \<Rightarrow> addr \<Rightarrow> addr \<Rightarrow> FileData \<Rightarrow> 'h fat \<Rightarrow> console \<Rightarrow>
   (format_error + FileData \<times> 'h fat \<times> console) option" where
  "show_text rs tmp line_buf file st con =
     (case fgets rs tmp line_buf 256 file st of
        None \<Rightarrow> None
      | Some (p, file, st) \<Rightarrow>
          if p = 0 then Some (Inr (file, st, con))
          else case printf (fat_mem st) line_buf [] con of
                 None \<Rightarrow> None
               | Some (Inl e) \<Rightarrow> Some (Inl e)
               | Some (Inr con) \<Rightarrow> show_text rs tmp line_buf file st con)"

text \<open>
  Opening it first: \<open>filename\<close> and \<open>message\<close> are the addresses of the name and of what is printed when it
  cannot be opened. The files, the file system and the console afterwards.
\<close>

definition show_file ::
  "'h drive_read \<Rightarrow> addr \<Rightarrow> addr \<Rightarrow> addr \<Rightarrow> addr \<Rightarrow> addr \<Rightarrow> FileData list \<Rightarrow> 'h fat \<Rightarrow> console \<Rightarrow>
   (format_error + FileData list \<times> 'h fat \<times> console) option" where
  "show_file rs slash filename message tmp line_buf files st con =
     (case fopen rs slash filename files st of
        None \<Rightarrow> None
      | Some (None, files, st) \<Rightarrow>
          map_option (map_sum id (\<lambda>con. (files, st, con))) (printf (fat_mem st) message [] con)
      | Some (Some i, files, st) \<Rightarrow>
          map_option (map_sum id (\<lambda>(file, st, con). (files[i := file], st, con)))
            (show_text rs tmp line_buf (files ! i) st con))"

section \<open>Lines\<close>

text \<open>The bytes that reach the screen as they are: no terminator, no conversion, no \<open>EOF\<close>.\<close>

definition plain :: "u8 list \<Rightarrow> bool" where
  "plain xs \<longleftrightarrow> 0 \<notin> set xs \<and> 0x25 \<notin> set xs \<and> 0xFF \<notin> set xs"

lemma plain_take: "plain xs \<Longrightarrow> plain (take k xs) \<and> plain (drop k xs)"
  unfolding plain_def by (meson in_set_takeD in_set_dropD)

lemma line_of_take: "0xFF \<notin> set xs \<Longrightarrow> line_of k xs = take (taken_by k xs) xs"
  by (induction k xs rule: line_of.induct) auto

lemma taken_by_pos: "xs \<noteq> [] \<Longrightarrow> 0 < taken_by (Suc k) xs"
  by (cases xs) auto

section \<open>Printing a line\<close>

lemma render_text [simp]: "render (map Text xs) as = Some xs"
  by (induction xs) simp_all

lemma piece_bytes_text [simp]: "concat (map (piece_bytes \<circ> Text) xs) = xs"
  by (induction xs) simp_all

lemma bytes_at_load: "load_bytes m p (length xs) = xs \<longleftrightarrow> bytes_at m p xs"
proof (induction xs arbitrary: p)
  case Nil
  then show ?case by (simp add: load_bytes_def)
next
  case (Cons x xs)
  have "load_bytes m p (length (x # xs)) = m p # load_bytes m (p + 1) (length xs)"
    using load_bytes_append [of m p 1 "length xs"] by (simp add: load_bytes_def)
  then show ?case using Cons.IH by simp
qed

lemma format_print_plain:
  assumes "plain xs" "bytes_at m p (xs @ [0])"
  shows "format_print m p as = Some (Inr (xs, int (length xs)))"
proof -
  have "list_all legal_piece (map Text xs)" using assms(1) by (auto simp: plain_def list_all_iff)
  then show ?thesis
    using run_format [of "fp_start p as" m "map Text xs"] assms
    by (simp add: format_print_result ready_def fp_start_def plain_def)
qed

definition put_bytes :: "u8 list \<Rightarrow> console \<Rightarrow> console" where
  "put_bytes xs con = fold (\<lambda>c s. snd (fputc (scast c) stdout_file s)) xs con"

lemma put_bytes_append: "put_bytes (xs @ ys) con = put_bytes ys (put_bytes xs con)"
  by (simp add: put_bytes_def)

lemma printf_plain:
  assumes "plain xs" "load_bytes m p (length xs + 1) = xs @ [0]"
  shows "printf m p [] con = Some (Inr (put_bytes xs con))"
proof -
  have "bytes_at m p (xs @ [0])" using assms(2) bytes_at_load [of m p "xs @ [0]"] by simp
  from format_print_plain [OF assms(1) this] show ?thesis
    by (simp add: printf_def vfprintf_def put_bytes_def)
qed

text \<open>
  What these bytes do to the screen and on the debug port, without the functions of the code: the
  terminal they are typed on.
\<close>

lemma scast_byte: "ucast (scast (c :: u8) :: u32) = c"
proof (rule bit_word_eqI)
  fix n assume "n < LENGTH(8)"
  then have "n = 7 \<or> n < 7" by auto
  then show "bit (ucast (scast c :: u32) :: u8) n = bit c n" by (auto simp: bit_simps)
qed

lemma fputc_stdout: "snd (fputc (scast c) stdout_file s) = screen_putc c s"
  by (simp add: fputc_def Let_def vfs_write_def stdout_file_def standard_file_def scast_byte STREAM_STDIN_def STREAM_STDOUT_def
      split: prod.split)

lemma put_bytes_terminal:
  assumes "shows_term (screen con) T" "on_screen (column T) (row T)" "0x08 \<notin> set xs"
  shows "shows_term (screen (put_bytes xs con)) (fold term_put xs T) \<and>
    unchanged_outside screen_bytes (vmem (screen con)) (vmem (screen (put_bytes xs con))) \<and>
    debug_port (put_bytes xs con) = debug_port con @ map (Pair 0xE9) xs"
  using assms
proof (induction xs arbitrary: con T)
  case (Cons c xs)
  let ?con = "screen_putc c con"
  have s: "screen ?con = vga_putc c (screen con)" "debug_port ?con = debug_port con @ [(0xE9, c)]"
    by (simp_all add: screen_putc_def debug_putc_def e9_putc_def)
  have "c \<noteq> 0x08 \<or> 0 < column T \<or> 0 < row T" using Cons.prems(3) by auto
  note put = vga_putc_terminal [OF Cons.prems(1,2) this]
  have "shows_term (screen ?con) (term_put c T)" "on_screen (column (term_put c T)) (row (term_put c T))" "0x08 \<notin> set xs"
    using put Cons.prems(3) unfolding s by auto
  from Cons.IH [OF this] have IH: "shows_term (screen (put_bytes xs ?con)) (fold term_put xs (term_put c T))"
    "unchanged_outside screen_bytes (vmem (screen ?con)) (vmem (screen (put_bytes xs ?con)))"
    "debug_port (put_bytes xs ?con) = debug_port ?con @ map (Pair 0xE9) xs" by blast+
  have "put_bytes (c # xs) con = put_bytes xs ?con" by (simp add: put_bytes_def fputc_stdout)
  moreover have "unchanged_outside screen_bytes (vmem (screen con)) (vmem (screen ?con))" using put unfolding s by blast
  ultimately show ?case using IH unchanged_trans s(2) by auto
qed (simp add: put_bytes_def)

section \<open>The whole file\<close>

lemma show_text_mounted:
  assumes "volume_ok rs V" "n < 2 ^ 32"
    and "open_stream V n fd st" "tmp \<notin> stream_bytes fd st" "region line_buf 256 \<inter> ({tmp} \<union> stream_bytes fd st) = {}"
    and "line_buf \<noteq> 0" "plain (ahead V fd)"
  shows "\<exists>fd' st'. show_text rs tmp line_buf fd st con = Some (Inr (fd', st', put_bytes (ahead V fd) con)) \<and>
    open_stream V n fd' st' \<and> ahead V fd' = []"
  using assms(3-7)
proof (induction "length (ahead V fd)" arbitrary: fd st con rule: less_induct)
  case less
  let ?xs = "ahead V fd"
  let ?k = "taken_by 255 ?xs"
  have line: "line_of 255 ?xs = take ?k ?xs" using less.prems(5) by (simp add: plain_def line_of_take)
  have "region line_buf (nat 256) \<inter> ({tmp} \<union> stream_bytes fd st) = {}" using less.prems(3) by simp
  from fgets_mounted [OF assms(1,2) less.prems(1,2) _ _ this refl]
  obtain fd1 st1 where r: "fgets rs tmp line_buf 256 fd st = Some (if take ?k ?xs = [] then 0 else line_buf, fd1, st1)"
    "open_stream V n fd1 st1" "ahead V fd1 = drop ?k ?xs" "stream_bytes fd1 st1 = stream_bytes fd st"
    "take ?k ?xs = [] \<or> load_bytes (fat_mem st1) line_buf (length (take ?k ?xs) + 1) = take ?k ?xs @ [0]"
    by (auto simp: line)
  show ?case
  proof (cases "?xs = []")
    case True
    then show ?thesis using r by (subst show_text.simps) (simp add: put_bytes_def)
  next
    case False
    have k: "0 < ?k" using taken_by_pos [OF False, of 254] by simp
    then have t: "take ?k ?xs \<noteq> []" using False by simp
    note p = plain_take [OF less.prems(5), of ?k]
    have "printf (fat_mem st1) line_buf [] con = Some (Inr (put_bytes (take ?k ?xs) con))"
      using printf_plain p r(5) t by blast
    then have step: "show_text rs tmp line_buf fd st con = show_text rs tmp line_buf fd1 st1 (put_bytes (take ?k ?xs) con)"
      using r(1) t less.prems(4) by (subst show_text.simps) simp
    have "length (ahead V fd1) < length ?xs" using k False by (simp add: r(3))
    from less.hyps [OF this r(2) less.prems(2,3) [folded r(4)] less.prems(4), of "put_bytes (take ?k ?xs) con"]
    show ?thesis using p unfolding step r(3) put_bytes_append [symmetric] by simp
  qed
qed

text \<open>A line is a format string: with \<open>%d\<close> on it, \<open>printf\<close> takes an argument that was never passed.\<close>

lemma text_with_number_fails:
  assumes "volume_ok rs V" "n < 2 ^ 32" "open_stream V n fd st" "tmp \<notin> stream_bytes fd st"
    and "region line_buf 256 \<inter> ({tmp} \<union> stream_bytes fd st) = {}" "line_buf \<noteq> 0"
    and "line_of 255 (ahead V fd) = [0x25, 0x64]"
  shows "show_text rs tmp line_buf fd st con = Some (Inl No_argument)"
proof -
  have "region line_buf (nat 256) \<inter> ({tmp} \<union> stream_bytes fd st) = {}" using assms(5) by simp
  from fgets_mounted [OF assms(1-4) _ _ this refl] obtain fd1 st1 where
    r: "fgets rs tmp line_buf 256 fd st = Some (line_buf, fd1, st1)" "load_bytes (fat_mem st1) line_buf 3 = [0x25, 0x64, 0]"
    by (auto simp: assms(7) numeral_3_eq_3)
  then have "bytes_at (fat_mem st1) line_buf (concat (map piece_bytes [Num 0 0x64]) @ [0])"
    using bytes_at_load [of "fat_mem st1" line_buf "[0x25, 0x64, 0]"] by (simp add: numeral_3_eq_3)
  then have "format_print (fat_mem st1) line_buf [] = Some (Inl No_argument)"
    using run_format [of "fp_start line_buf []" "fat_mem st1" "[Num 0 0x64]"]
    by (simp add: format_print_result ready_def fp_start_def is_number_spec_def)
  then show ?thesis using r(1) assms(6) by (subst show_text.simps) (simp add: printf_def vfprintf_def)
qed

section \<open>Properties\<close>

text \<open>
  C39: the text file is shown. For an open file of a mounted volume whose bytes ahead contain no zero, no
  percent sign, no backspace and no \<open>0xFF\<close>, the loop of \<open>Start\<close> ends without an error and leaves the
  file at its end, however its bytes fall into lines, sectors and clusters. If the screen showed the
  terminal \<open>T\<close> with its cursor on the screen, it shows the terminal on which exactly these bytes have
  been typed in their order, no memory but the screen's has been written by this, and the same
  bytes have gone to the debug port.
\<close>

theorem text_file_shown:
  assumes "volume_ok rs V" "n < 2 ^ 32" "open_stream V n fd st" "tmp \<notin> stream_bytes fd st"
    and "region line_buf 256 \<inter> ({tmp} \<union> stream_bytes fd st) = {}" "line_buf \<noteq> 0" "plain (ahead V fd)"
    and "0x08 \<notin> set (ahead V fd)" "shows_term (screen con) T" "on_screen (column T) (row T)"
  shows "\<exists>fd' st' con'. show_text rs tmp line_buf fd st con = Some (Inr (fd', st', con')) \<and>
    open_stream V n fd' st' \<and> position (ffd fd') = file_size (ffd fd') \<and>
    shows_term (screen con') (fold term_put (ahead V fd) T) \<and>
    unchanged_outside screen_bytes (vmem (screen con)) (vmem (screen con')) \<and>
    debug_port con' = debug_port con @ map (Pair 0xE9) (ahead V fd)"
proof -
  obtain fd' st' where r: "show_text rs tmp line_buf fd st con = Some (Inr (fd', st', put_bytes (ahead V fd) con))"
    "open_stream V n fd' st'" "ahead V fd' = []"
    using show_text_mounted [OF assms(1-7)] by blast
  have "file_size (ffd fd') \<le> position (ffd fd')"
    using r(3) by (auto simp: ahead_def file_bytes_def word_le_nat_alt)
  moreover have "position (ffd fd') \<le> file_size (ffd fd')"
    using r(2) by (simp add: open_stream_def file_state_def)
  ultimately have "position (ffd fd') = file_size (ffd fd')" by (rule order.antisym [rotated])
  then show ?thesis using r(1,2) put_bytes_terminal [OF assms(9,10,8)] by blast
qed

lemma small_text_regions: "3000 \<notin> stream_bytes small_file small_fat"
  "region 2000 256 \<inter> ({3000} \<union> stream_bytes small_file small_fat) = {}"
proof -
  have b: "stream_bytes small_file small_fat = region 1000 512 \<union> region 100 36"
    by (simp add: stream_bytes_def small_file_def partition_bytes_def small_state_def sizeof_Partition_def)
  show t: "3000 \<notin> stream_bytes small_file small_fat" unfolding b by (simp add: region_iff)
  have "region 2000 256 \<inter> region 1000 512 = {}" "region 2000 256 \<inter> region 100 36 = {}"
    by (rule region_disjoint_nat; simp)+
  moreover have "3000 \<notin> region 2000 256" by (simp add: region_iff)
  ultimately show "region 2000 256 \<inter> ({3000} \<union> stream_bytes small_file small_fat) = {}" unfolding b by blast
qed

theorem text_file_shown_witness:
  "\<exists>fd' st' con'. show_text small_read 3000 2000 small_file small_fat \<lparr>screen = empty_screen, debug_port = []\<rparr> =
     Some (Inr (fd', st', con')) \<and> cursor_x (screen con') = 0 \<and> cursor_y (screen con') = 2 \<and>
     debug_port con' = [(0xE9, 0x0A), (0xE9, 0x0A)]"
proof -
  let ?con = "\<lparr>screen = empty_screen, debug_port = []\<rparr>"
  have ahead: "ahead small_volume small_file = [10, 10]" by (rule small_ahead)
  have p: "plain (ahead small_volume small_file)" "0x08 \<notin> set (ahead small_volume small_file)"
    by (simp_all add: ahead plain_def)
  have T: "shows_term (screen ?con) empty_terminal" "on_screen (column empty_terminal) (row empty_terminal)"
    by (simp_all add: shows_term_def empty_screen_def empty_terminal_def get_char_def on_screen_def screen_size)
  have put: "column (fold term_put [10, 10] empty_terminal) = 0" "row (fold term_put [10, 10] empty_terminal) = 2"
    by (simp_all add: term_put_def term_wrap_def term_scroll_def empty_terminal_def screen_size)
  obtain fd' st' con' where "show_text small_read 3000 2000 small_file small_fat ?con = Some (Inr (fd', st', con'))"
    "shows_term (screen con') (fold term_put (ahead small_volume small_file) empty_terminal)"
    "debug_port con' = debug_port ?con @ map (Pair 0xE9) (ahead small_volume small_file)"
    using text_file_shown [OF small_volume_ok _ small_stream small_text_regions _ p T] by auto
  then show ?thesis using put unfolding ahead by (auto simp: shows_term_def)
qed

end
