(* ===== verification/Interrupts.thy ===== *)
theory Interrupts
  imports Prelude
begin

text \<open>
  Segments, interrupts and the interrupt controller: \<open>gdt.c\<close>, \<open>idt.c\<close>, \<open>isr.c\<close>, \<open>isrs_gen.c\<close>,
  \<open>irq.c\<close> and \<open>i8259.c\<close> of \<open>arch/i686\<close>. Port writes are recorded in order, and a port read is a
  function of the port and the writes before it, a parameter that stands for the controller. The
  loads of the descriptor tables are in \<open>Descriptors\<close>; what is printed is left out.
\<close>

section \<open>gdt.c\<close>

record GDT_Entry =
  limit_low :: u16
  base_low :: u16
  base_middle :: u8
  access :: u8
  flags_limit_high :: u8
  base_high :: u8

definition GDT_ENTRY :: "u32 \<Rightarrow> u32 \<Rightarrow> u8 \<Rightarrow> u8 \<Rightarrow> GDT_Entry" where
  "GDT_ENTRY base limit acc flags =
     \<lparr>limit_low = ucast (limit AND 0xFFFF), base_low = ucast (base AND 0xFFFF),
      base_middle = ucast (drop_bit 16 base AND 0xFF), access = acc,
      flags_limit_high = ucast (drop_bit 16 limit AND 0xF) OR (flags AND 0xF0),
      base_high = ucast (drop_bit 24 base AND 0xFF)\<rparr>"

definition GDT_ACCESS_PRESENT :: u8 where "GDT_ACCESS_PRESENT = 0x80"
definition GDT_ACCESS_RING0 :: u8 where "GDT_ACCESS_RING0 = 0"
definition GDT_ACCESS_CODE_SEGMENT :: u8 where "GDT_ACCESS_CODE_SEGMENT = 0x18"
definition GDT_ACCESS_DATA_SEGMENT :: u8 where "GDT_ACCESS_DATA_SEGMENT = 0x10"
definition GDT_ACCESS_CODE_READABLE :: u8 where "GDT_ACCESS_CODE_READABLE = 2"
definition GDT_ACCESS_DATA_WRITEABLE :: u8 where "GDT_ACCESS_DATA_WRITEABLE = 2"
definition GDT_FLAG_32BIT :: u8 where "GDT_FLAG_32BIT = 0x40"
definition GDT_FLAG_GRANULARITY_4K :: u8 where "GDT_FLAG_GRANULARITY_4K = 0x80"
definition GDT_CODE_SEGMENT :: u16 where "GDT_CODE_SEGMENT = 8"
definition GDT_DATA_SEGMENT :: u16 where "GDT_DATA_SEGMENT = 0x10"

definition gdt :: "GDT_Entry list" where
  "gdt =
     [GDT_ENTRY 0 0 0 0,
      GDT_ENTRY 0 0xFFFFF
        (GDT_ACCESS_PRESENT OR GDT_ACCESS_RING0 OR GDT_ACCESS_CODE_SEGMENT OR GDT_ACCESS_CODE_READABLE)
        (GDT_FLAG_32BIT OR GDT_FLAG_GRANULARITY_4K),
      GDT_ENTRY 0 0xFFFFF
        (GDT_ACCESS_PRESENT OR GDT_ACCESS_RING0 OR GDT_ACCESS_DATA_SEGMENT OR GDT_ACCESS_DATA_WRITEABLE)
        (GDT_FLAG_32BIT OR GDT_FLAG_GRANULARITY_4K)]"

section \<open>idt.c\<close>

record IDT_Entry =
  gate_base_low :: u16
  segment_selector :: u16
  reserved :: u8
  gate_flags :: u8
  gate_base_high :: u16

definition IDT_FLAG_GATE_32BIT_INT :: u8 where "IDT_FLAG_GATE_32BIT_INT = 0xE"
definition IDT_FLAG_RING0 :: u8 where "IDT_FLAG_RING0 = 0"
definition IDT_FLAG_PRESENT :: u8 where "IDT_FLAG_PRESENT = 0x80"

definition idt_set_gate :: "nat \<Rightarrow> addr \<Rightarrow> u16 \<Rightarrow> u8 \<Rightarrow> IDT_Entry list \<Rightarrow> IDT_Entry list" where
  "idt_set_gate interrupt base segmentDescriptor flags idt =
     idt[interrupt := \<lparr>gate_base_low = ucast (base AND 0xFFFF), segment_selector = segmentDescriptor,
       reserved = 0, gate_flags = flags, gate_base_high = ucast (drop_bit 16 base AND 0xFFFF)\<rparr>]"

definition idt_enable_gate :: "nat \<Rightarrow> IDT_Entry list \<Rightarrow> IDT_Entry list" where
  "idt_enable_gate interrupt idt =
     idt[interrupt := (idt ! interrupt)\<lparr>gate_flags := gate_flags (idt ! interrupt) OR IDT_FLAG_PRESENT\<rparr>]"

definition idt_disable_gate :: "nat \<Rightarrow> IDT_Entry list \<Rightarrow> IDT_Entry list" where
  "idt_disable_gate interrupt idt =
     idt[interrupt := (idt ! interrupt)\<lparr>gate_flags := gate_flags (idt ! interrupt) AND NOT IDT_FLAG_PRESENT\<rparr>]"

section \<open>i8259.c\<close>

definition PIC_PORT_CMD_1 :: u16 where "PIC_PORT_CMD_1 = 0x20"
definition PIC_PORT_DATA_1 :: u16 where "PIC_PORT_DATA_1 = 0x21"
definition PIC_PORT_CMD_2 :: u16 where "PIC_PORT_CMD_2 = 0xA0"
definition PIC_PORT_DATA_2 :: u16 where "PIC_PORT_DATA_2 = 0xA1"
definition PIC_ICW1_IC4 :: u8 where "PIC_ICW1_IC4 = 1"
definition PIC_ICW1_Initialize :: u8 where "PIC_ICW1_Initialize = 0x10"
definition PIC_ICW4_8086 :: u8 where "PIC_ICW4_8086 = 1"
definition PIC_ICW4_AUTO_EOI :: u8 where "PIC_ICW4_AUTO_EOI = 2"
definition PIC_CMD_END_OF_INTERRUPT :: u8 where "PIC_CMD_END_OF_INTERRUPT = 0x20"
definition PIC_CMD_READ_IRR :: u8 where "PIC_CMD_READ_IRR = 0x0A"
definition PIC_CMD_READ_ISR :: u8 where "PIC_CMD_READ_ISR = 0x0B"

type_synonym port_log = "(u16 \<times> u8) list"
type_synonym port_reader = "u16 \<Rightarrow> port_log \<Rightarrow> u8"

record pic =
  pic_mask :: u16
  pic_log :: port_log

definition pic_out :: "u16 \<Rightarrow> u8 \<Rightarrow> pic \<Rightarrow> pic" where
  "pic_out port v s = s\<lparr>pic_log := pic_log s @ [(port, v)]\<rparr>"

text \<open>\<open>io_wait\<close> of \<open>io_asm.asm\<close> writes 8 to port 0.\<close>

definition io_wait :: "pic \<Rightarrow> pic" where "io_wait s = pic_out 0 8 s"

text \<open>A write followed by \<open>io_wait\<close>.\<close>

definition out_wait :: "u16 \<Rightarrow> u8 \<Rightarrow> pic \<Rightarrow> pic" where
  "out_wait port v s = io_wait (pic_out port v s)"

definition set_mask :: "u16 \<Rightarrow> pic \<Rightarrow> pic" where
  "set_mask new_mask s =
     (let s = s\<lparr>pic_mask := new_mask\<rparr>;
          s = out_wait PIC_PORT_DATA_1 (ucast (new_mask AND 0xFF)) s
      in out_wait PIC_PORT_DATA_2 (ucast (drop_bit 8 new_mask)) s)"

definition get_mask :: "port_reader \<Rightarrow> pic \<Rightarrow> u16" where
  "get_mask rd s =
     ucast (rd PIC_PORT_DATA_1 (pic_log s)) OR push_bit 8 (ucast (rd PIC_PORT_DATA_2 (pic_log s)))"

definition configure :: "u8 \<Rightarrow> u8 \<Rightarrow> bool \<Rightarrow> pic \<Rightarrow> pic" where
  "configure offset_pic1 offset_pic2 auto_eoi s =
     (let s = set_mask 0xFFFF s;
          s = out_wait PIC_PORT_CMD_1 (PIC_ICW1_IC4 OR PIC_ICW1_Initialize) s;
          s = out_wait PIC_PORT_CMD_2 (PIC_ICW1_IC4 OR PIC_ICW1_Initialize) s;
          s = out_wait PIC_PORT_DATA_1 offset_pic1 s;
          s = out_wait PIC_PORT_DATA_2 offset_pic2 s;
          s = out_wait PIC_PORT_DATA_1 4 s;
          s = out_wait PIC_PORT_DATA_2 2 s;
          icw4 = (if auto_eoi then PIC_ICW4_8086 OR PIC_ICW4_AUTO_EOI else PIC_ICW4_8086);
          s = out_wait PIC_PORT_DATA_1 icw4 s;
          s = out_wait PIC_PORT_DATA_2 icw4 s;
          s = out_wait PIC_PORT_DATA_1 0 s;
          s = out_wait PIC_PORT_DATA_2 0 s
      in set_mask 0xFFFF s)"

definition send_eoi :: "int \<Rightarrow> pic \<Rightarrow> pic" where
  "send_eoi irq s =
     (let s = (if irq \<ge> 8 then pic_out PIC_PORT_CMD_2 PIC_CMD_END_OF_INTERRUPT s else s)
      in pic_out PIC_PORT_CMD_1 PIC_CMD_END_OF_INTERRUPT s)"

definition pic_disable :: "pic \<Rightarrow> pic" where "pic_disable s = set_mask 0xFFFF s"

text \<open>\<open>1 << irq\<close> is an \<open>int\<close>, cut to the 16 bits of the mask.\<close>

definition mask_irq :: "nat \<Rightarrow> pic \<Rightarrow> pic" where
  "mask_irq irq s = set_mask (pic_mask s OR push_bit irq 1) s"

definition unmask_irq :: "nat \<Rightarrow> pic \<Rightarrow> pic" where
  "unmask_irq irq s = set_mask (pic_mask s AND NOT (push_bit irq 1)) s"

definition read_pair :: "port_reader \<Rightarrow> u8 \<Rightarrow> pic \<Rightarrow> u16 \<times> pic" where
  "read_pair rd cmd s =
     (let s = pic_out PIC_PORT_CMD_2 cmd (pic_out PIC_PORT_CMD_1 cmd s)
      in (ucast (rd PIC_PORT_CMD_1 (pic_log s)) OR push_bit 8 (ucast (rd PIC_PORT_CMD_2 (pic_log s))), s))"

definition read_irr :: "port_reader \<Rightarrow> pic \<Rightarrow> u16 \<times> pic" where
  "read_irr rd s = read_pair rd PIC_CMD_READ_IRR s"

definition read_isr :: "port_reader \<Rightarrow> pic \<Rightarrow> u16 \<times> pic" where
  "read_isr rd s = read_pair rd PIC_CMD_READ_ISR s"

definition probe :: "port_reader \<Rightarrow> pic \<Rightarrow> bool \<times> pic" where
  "probe rd s = (let s = set_mask 0x1337 (pic_disable s) in (get_mask rd s = 0x1337, s))"

section \<open>isr.c and irq.c\<close>

record Registers =
  ds :: u32
  edi :: u32
  esi :: u32
  ebp :: u32
  kern_esp :: u32
  ebx :: u32
  edx :: u32
  ecx :: u32
  eax :: u32
  reg_interrupt :: u32
  reg_error :: u32
  eip :: u32
  cs :: u32
  eflags :: u32
  esp :: u32
  ss :: u32

text \<open>What a slot of \<open>isr_handlers\<close> points at.\<close>

datatype isr_handler = No_handler | Irq_handler | Handler addr

record cpu =
  idt :: "IDT_Entry list"
  isr_handlers :: "isr_handler list"
  irq_handlers :: "addr list"
  pic_driver :: bool  \<comment> \<open>\<open>driver\<close> points at the 8259 driver\<close>
  pic_state :: pic

definition PIC_REMAP_OFFSET :: nat where "PIC_REMAP_OFFSET = 0x20"

definition exception_names :: "string list" where
  "exception_names =
     [''Divide by zero error'', ''Debug'', ''Non-maskable Interrupt'', ''Breakpoint'', ''Overflow'',
      ''Bound Range Exceeded'', ''Invalid Opcode'', ''Device Not Availiable'', ''Double Fault'',
      ''Coprocessor Segment Overrun'', ''Invalid TSS'', ''Segment Not Present'', ''Stack-Segment Fault'',
      ''Page Fault'', '''', ''x87 Floating-Point Exception'', ''Alignment Check'', ''Machine Check'',
      ''SIMD Floating-Point Exception'', ''Virtualization Exception'', ''Control Protection Exception'',
      '''', '''', '''', '''', '''', '''', ''Hypervisor Injection Exception'',
      ''VMM Communication Exception'', ''Security Exception'', '''']"

text \<open>The 256 lines of \<open>isrs_gen.c\<close>; \<open>stub\<close> gives the addresses of the assembly entries.\<close>

definition isr_initialize_gates :: "(nat \<Rightarrow> addr) \<Rightarrow> IDT_Entry list \<Rightarrow> IDT_Entry list" where
  "isr_initialize_gates stub table =
     fold (\<lambda>i. idt_set_gate i (stub i) GDT_CODE_SEGMENT (IDT_FLAG_RING0 OR IDT_FLAG_GATE_32BIT_INT))
       [0..<256] table"

definition isr_initialize :: "(nat \<Rightarrow> addr) \<Rightarrow> cpu \<Rightarrow> cpu" where
  "isr_initialize stub s = s\<lparr>idt := fold idt_enable_gate [0..<256] (isr_initialize_gates stub (idt s))\<rparr>"

definition isr_register_handler :: "nat \<Rightarrow> isr_handler \<Rightarrow> cpu \<Rightarrow> cpu" where
  "isr_register_handler interrupt h s =
     s\<lparr>isr_handlers := (isr_handlers s)[interrupt := h], idt := idt_enable_gate interrupt (idt s)\<rparr>"

text \<open>
  What an interrupt leads to; \<open>run\<close> is the effect of a registered handler on the state. A name
  is \<open>None\<close> where the array of names is read past its end.
\<close>

datatype outcome = Called addr | Unhandled_IRQ nat | Unhandled_interrupt | Kernel_panic "string option"

definition irq_handler :: "(addr \<Rightarrow> Registers \<Rightarrow> cpu \<Rightarrow> cpu) \<Rightarrow> Registers \<Rightarrow> cpu \<Rightarrow> outcome \<times> cpu" where
  "irq_handler run regs s =
     (let irq = unat (reg_interrupt regs) - PIC_REMAP_OFFSET;
          h = irq_handlers s ! irq;
          (r, s) = (if h \<noteq> 0 then (Called h, run h regs s) else (Unhandled_IRQ irq, s))
      in (r, s\<lparr>pic_state := send_eoi (int irq) (pic_state s)\<rparr>))"

definition isr_handler_common :: "(addr \<Rightarrow> Registers \<Rightarrow> cpu \<Rightarrow> cpu) \<Rightarrow> Registers \<Rightarrow> cpu \<Rightarrow> outcome \<times> cpu" where
  "isr_handler_common run regs s =
     (let i = unat (reg_interrupt regs);
          unhandled = (if i \<ge> 32 then Unhandled_interrupt
            else Kernel_panic (if i < length exception_names then Some (exception_names ! i) else None))
      in case isr_handlers s ! i of
           Handler h \<Rightarrow> if h \<noteq> 0 then (Called h, run h regs s) else (unhandled, s)
         | Irq_handler \<Rightarrow> irq_handler run regs s
         | No_handler \<Rightarrow> (unhandled, s))"

definition irq_initialize :: "port_reader \<Rightarrow> cpu \<Rightarrow> cpu" where
  "irq_initialize rd s =
     (case probe rd (pic_state s) of
        (found, p) \<Rightarrow>
          let s = s\<lparr>pic_state := p, pic_driver := pic_driver s \<or> found\<rparr>
          in if \<not> pic_driver s then s
             else fold (\<lambda>i. isr_register_handler (PIC_REMAP_OFFSET + i) Irq_handler) [0..<16]
                    (s\<lparr>pic_state := configure (of_nat PIC_REMAP_OFFSET) (of_nat PIC_REMAP_OFFSET + 8) False
                         (pic_state s)\<rparr>))"

text \<open>Without a driver \<open>irq_register_handler\<close> follows a null pointer: \<open>None\<close>.\<close>

definition irq_register_handler :: "nat \<Rightarrow> addr \<Rightarrow> cpu \<Rightarrow> cpu option" where
  "irq_register_handler irq h s =
     (if pic_driver s
      then Some (s\<lparr>irq_handlers := (irq_handlers s)[irq := h], pic_state := unmask_irq irq (pic_state s)\<rparr>)
      else None)"

end
