(* ===== verification/InterruptProperties.thy ===== *)
theory InterruptProperties
  imports Interrupts
begin

text \<open>
  Descriptors encode what they are given, the controller's mask is the one the driver remembers,
  and a registered handler is what its interrupt leads to.
\<close>

section \<open>Descriptors\<close>

definition gdt_base :: "GDT_Entry \<Rightarrow> u32" where
  "gdt_base e = ucast (base_low e) OR push_bit 16 (ucast (base_middle e)) OR push_bit 24 (ucast (base_high e))"

definition gdt_limit :: "GDT_Entry \<Rightarrow> u32" where
  "gdt_limit e = ucast (limit_low e) OR push_bit 16 (ucast (flags_limit_high e AND 0xF))"

definition gate_base :: "IDT_Entry \<Rightarrow> addr" where
  "gate_base e = ucast (gate_base_low e) OR push_bit 16 (ucast (gate_base_high e))"

lemma masks_eq:
  "(0xFFFF :: 'a :: len word) = mask 16" "(0xFF :: 'a word) = mask 8" "(0xF :: 'a word) = mask 4"
  "(0xFFFFF :: 'a word) = mask 20" "(0xF0 :: 'a word) = push_bit 4 (mask 4)"
  by (simp_all add: mask_eq_exp_minus_1 push_bit_eq_mult)

lemma GDT_ENTRY_base: "gdt_base (GDT_ENTRY base limit acc flags) = base"
proof -
  have "bit (gdt_base (GDT_ENTRY base limit acc flags)) n = bit base n" if "n < 32" for n
  proof -
    consider "n < 16" | "16 \<le> n" "n < 24" | "24 \<le> n" by linarith
    then show ?thesis
      using that unfolding gdt_base_def GDT_ENTRY_def masks_eq
      by cases (auto simp: bit_simps)
  qed
  then show ?thesis by (intro bit_word_eqI) simp
qed

lemma GDT_ENTRY_limit: "gdt_limit (GDT_ENTRY base limit acc flags) = limit AND 0xFFFFF"
  unfolding gdt_limit_def GDT_ENTRY_def masks_eq
  by (rule bit_word_eqI) (auto simp: bit_simps not_less)

lemma GDT_ENTRY_flags: "flags_limit_high (GDT_ENTRY base limit acc flags) AND 0xF0 = flags AND 0xF0"
  unfolding GDT_ENTRY_def masks_eq
  by (rule bit_word_eqI) (auto simp: bit_simps not_less)

lemma gate_base_set: "i < length table \<Longrightarrow> gate_base (idt_set_gate i entry seg fl table ! i) = entry"
  unfolding gate_base_def idt_set_gate_def masks_eq
  by (rule bit_word_eqI) (auto simp: bit_simps not_less)

lemma length_idt [simp]:
  "length (idt_set_gate i entry seg fl table) = length table"
  "length (idt_enable_gate i table) = length table"
  by (simp_all add: idt_set_gate_def idt_enable_gate_def)

lemma gate_base_enable [simp]: "j < length table \<Longrightarrow> gate_base (idt_enable_gate i table ! j) = gate_base (table ! j)"
  by (cases "i = j \<and> i < length table") (auto simp: gate_base_def idt_enable_gate_def nth_list_update)

lemma gate_base_disable [simp]: "j < length table \<Longrightarrow> gate_base (idt_disable_gate i table ! j) = gate_base (table ! j)"
  by (cases "i = j \<and> i < length table") (auto simp: gate_base_def idt_disable_gate_def nth_list_update)

text \<open>
  the processor reads back from a segment descriptor the base and the 20 bits of the limit it
  was built from, and from a gate the address of its entry; enabling or disabling a gate does not
  change the address.
\<close>

theorem descriptors_roundtrip:
  assumes "i < length table"
  shows "gdt_base (GDT_ENTRY base limit acc flags) = base \<and>
    gdt_limit (GDT_ENTRY base limit acc flags) = limit AND 0xFFFFF \<and>
    flags_limit_high (GDT_ENTRY base limit acc flags) AND 0xF0 = flags AND 0xF0 \<and>
    (let t = idt_set_gate i entry seg fl table
     in gate_base (t ! i) = entry \<and> gate_base (idt_enable_gate i t ! i) = entry \<and>
        gate_base (idt_disable_gate i t ! i) = entry)"
  using assms by (simp add: GDT_ENTRY_base GDT_ENTRY_limit GDT_ENTRY_flags gate_base_set)

definition blank_gate :: IDT_Entry where
  "blank_gate = \<lparr>gate_base_low = 0, segment_selector = 0, reserved = 0, gate_flags = 0, gate_base_high = 0\<rparr>"

theorem descriptors_roundtrip_witness:
  "gdt_base (GDT_ENTRY 0x12345678 0xFFFFF 0x9A 0xC0) = 0x12345678 \<and>
   gate_base (idt_set_gate 0 0xDEADBEEF 8 0xE [blank_gate] ! 0) = 0xDEADBEEF"
  using descriptors_roundtrip [of 0 "[blank_gate]" "0x12345678" "0xFFFFF" "0x9A" "0xC0" "0xDEADBEEF" 8 "0xE"]
  by (simp add: Let_def)

section \<open>Interrupt requests\<close>

text \<open>What the driver relies on: the controller gives back the two mask bytes last written.\<close>

definition mask_writes :: "u16 \<Rightarrow> port_log" where
  "mask_writes m = [(PIC_PORT_DATA_1, ucast m), (0, 8), (PIC_PORT_DATA_2, ucast (drop_bit 8 m)), (0, 8)]"

definition keeps_masks :: "port_reader \<Rightarrow> bool" where
  "keeps_masks rd \<longleftrightarrow>
     (\<forall>log m. rd PIC_PORT_DATA_1 (log @ mask_writes m) = ucast m \<and>
        rd PIC_PORT_DATA_2 (log @ mask_writes m) = ucast (drop_bit 8 m))"

definition mask_sent :: "pic \<Rightarrow> bool" where
  "mask_sent p \<longleftrightarrow> (\<exists>log. pic_log p = log @ mask_writes (pic_mask p))"

lemma mask_low_byte [simp]: "ucast (m AND 0xFF) = (ucast m :: u8)" for m :: u16
  unfolding masks_eq by (rule bit_word_eqI) (auto simp: bit_simps)

lemma two_bytes: "ucast (ucast m :: u8) OR push_bit 8 (ucast (ucast (drop_bit 8 m) :: u8)) = m" for m :: u16
  by (rule bit_word_eqI) (auto simp: bit_simps not_less)

lemma set_mask_eq: "set_mask m p = \<lparr>pic_mask = m, pic_log = pic_log p @ mask_writes m\<rparr>"
  by (simp add: set_mask_def out_wait_def io_wait_def pic_out_def mask_writes_def)

lemma set_mask_sent [simp]: "mask_sent (set_mask m p)"
  by (auto simp: mask_sent_def set_mask_eq)

lemma pic_mask_set_mask [simp]: "pic_mask (set_mask m p) = m"
  by (simp add: set_mask_eq)

lemma probe_found: "keeps_masks rd \<Longrightarrow> fst (probe rd p)"
  using two_bytes [of "0x1337"]
  by (simp add: probe_def get_mask_def set_mask_eq keeps_masks_def Let_def flip: append_assoc)

lemma configure_mask: "pic_mask (configure a b c p) = 0xFFFF \<and> mask_sent (configure a b c p)"
  by (simp add: configure_def Let_def)

lemma isr_register_many:
  "irq_handlers (fold (\<lambda>i. isr_register_handler (a + i) h) is s) = irq_handlers s \<and>
   pic_driver (fold (\<lambda>i. isr_register_handler (a + i) h) is s) = pic_driver s \<and>
   pic_state (fold (\<lambda>i. isr_register_handler (a + i) h) is s) = pic_state s \<and>
   length (isr_handlers (fold (\<lambda>i. isr_register_handler (a + i) h) is s)) = length (isr_handlers s)"
  by (induction "is" arbitrary: s) (simp_all add: isr_register_handler_def)

lemma isr_register_slot:
  "a + n < length (isr_handlers s) \<Longrightarrow>
   isr_handlers (fold (\<lambda>i. isr_register_handler (a + i) h) is s) ! (a + n) =
     (if n \<in> set is then h else isr_handlers s ! (a + n))"
  by (induction "is" arbitrary: s) (auto simp: isr_register_handler_def nth_list_update)

text \<open>What initialising the interrupt requests establishes and registering a handler keeps.\<close>

definition irq_ready :: "cpu \<Rightarrow> bool" where
  "irq_ready s \<longleftrightarrow> pic_driver s \<and> mask_sent (pic_state s) \<and> length (irq_handlers s) = 16 \<and>
     (\<forall>n<16. isr_handlers s ! (PIC_REMAP_OFFSET + n) = Irq_handler)"

lemma irq_initialize_ready:
  assumes "keeps_masks rd" "length (isr_handlers s) = 256" "length (irq_handlers s) = 16"
  shows "irq_ready (irq_initialize rd s) \<and> irq_handlers (irq_initialize rd s) = irq_handlers s \<and>
    pic_mask (pic_state (irq_initialize rd s)) = 0xFFFF"
  using assms probe_found [OF assms(1), of "pic_state s"]
  by (simp add: irq_initialize_def irq_ready_def Let_def case_prod_beta isr_register_many isr_register_slot
      configure_mask PIC_REMAP_OFFSET_def)

text \<open>The drivers register their handlers one after the other.\<close>

primrec register_all :: "(nat \<times> addr) list \<Rightarrow> cpu \<Rightarrow> cpu option" where
  "register_all [] s = Some s"
| "register_all (r # rs) s =
     (case irq_register_handler (fst r) (snd r) s of None \<Rightarrow> None | Some s \<Rightarrow> register_all rs s)"

lemma unmask_irq_bit:
  "n < 16 \<Longrightarrow> bit (pic_mask (unmask_irq i p)) n \<longleftrightarrow> bit (pic_mask p) n \<and> n \<noteq> i"
  by (auto simp: unmask_irq_def bit_simps)

lemma register_all_effect:
  assumes "irq_ready s" "\<forall>r\<in>set rs. fst r < 16"
  obtains s' where "register_all rs s = Some s'" "irq_ready s'"
    "\<forall>n<16. bit (pic_mask (pic_state s')) n \<longleftrightarrow> bit (pic_mask (pic_state s)) n \<and> n \<notin> fst ` set rs"
    "\<forall>n<16. irq_handlers s' ! n = (case map_of (rev rs) n of None \<Rightarrow> irq_handlers s ! n | Some h \<Rightarrow> h)"
  using assms
proof (induction rs arbitrary: s thesis)
  case Nil
  then show ?case by simp
next
  case (Cons r rs)
  define t where "t = s\<lparr>irq_handlers := (irq_handlers s)[fst r := snd r],
    pic_state := unmask_irq (fst r) (pic_state s)\<rparr>"
  have reg: "irq_register_handler (fst r) (snd r) s = Some t" and len: "length (irq_handlers s) = 16"
    using Cons.prems by (auto simp: irq_register_handler_def irq_ready_def t_def)
  have ready: "irq_ready t"
    using Cons.prems by (auto simp: irq_ready_def t_def unmask_irq_def)
  obtain s' where s': "register_all rs t = Some s'" "irq_ready s'"
    "\<forall>n<16. bit (pic_mask (pic_state s')) n \<longleftrightarrow> bit (pic_mask (pic_state t)) n \<and> n \<notin> fst ` set rs"
    "\<forall>n<16. irq_handlers s' ! n = (case map_of (rev rs) n of None \<Rightarrow> irq_handlers t ! n | Some h \<Rightarrow> h)"
    using Cons.IH [OF _ ready] Cons.prems by auto
  show ?case
  proof (rule Cons.prems(1))
    show "register_all (r # rs) s = Some s'" "irq_ready s'" using reg s' by simp_all
    show "\<forall>n<16. bit (pic_mask (pic_state s')) n \<longleftrightarrow>
        bit (pic_mask (pic_state s)) n \<and> n \<notin> fst ` set (r # rs)"
      using s'(3) by (auto simp: t_def unmask_irq_bit)
    show "\<forall>n<16. irq_handlers s' ! n =
        (case map_of (rev (r # rs)) n of None \<Rightarrow> irq_handlers s ! n | Some h \<Rightarrow> h)"
      using s'(4) len by (auto simp: t_def nth_list_update map_add_def split: option.splits)
  qed
qed

text \<open>
  The end of an interrupt request of line \<open>n\<close>: the command \<open>0x20\<close> for the second controller, at port
  \<open>0xA0\<close>, if the line is one of its lines, then for the first, at port \<open>0x20\<close>; nothing else changes.
\<close>

definition eoi_sent :: "nat \<Rightarrow> cpu \<Rightarrow> cpu" where
  "eoi_sent n t = t\<lparr>pic_state := (pic_state t)\<lparr>pic_log := pic_log (pic_state t) @
     (if 8 \<le> n then [(0xA0, 0x20), (0x20, 0x20)] else [(0x20, 0x20)])\<rparr>\<rparr>"

lemma send_eoi_writes: "t\<lparr>pic_state := send_eoi (int n) (pic_state t)\<rparr> = eoi_sent n t"
  by (simp add: send_eoi_def eoi_sent_def pic_out_def Let_def PIC_PORT_CMD_1_def PIC_PORT_CMD_2_def
      PIC_CMD_END_OF_INTERRUPT_def)

text \<open>What the dispatcher does with an interrupt request.\<close>

lemma irq_dispatch:
  assumes "irq_ready s" "n < 16" "reg_interrupt regs = of_nat (PIC_REMAP_OFFSET + n)"
  shows "isr_handler_common run regs s =
    (let h = irq_handlers s ! n;
         t = (if h \<noteq> 0 then run h regs s else s)
     in (if h \<noteq> 0 then Called h else Unhandled_IRQ n, eoi_sent n t))"
proof -
  have "unat (of_nat k :: u32) = k" if "k < 48" for k
    using that by (simp add: unat_of_nat take_bit_nat_eq_self)
  then have u: "unat (reg_interrupt regs) = PIC_REMAP_OFFSET + n"
    using assms by (simp add: PIC_REMAP_OFFSET_def del: of_nat_add of_nat_numeral)
  show ?thesis
    using assms(1,2) by (simp add: isr_handler_common_def u irq_ready_def irq_handler_def Let_def send_eoi_writes)
qed

lemma irq_lines_correct:
  assumes "keeps_masks rd" "length (isr_handlers s) = 256" "irq_handlers s = replicate 16 0"
    "\<forall>r\<in>set rs. fst r < 16 \<and> snd r \<noteq> 0"
  shows "\<exists>s'. register_all rs (irq_initialize rd s) = Some s' \<and>
    (\<exists>log. pic_log (pic_state s') = log @ mask_writes (pic_mask (pic_state s'))) \<and>
    (\<forall>n<16. bit (pic_mask (pic_state s')) n \<longleftrightarrow> n \<notin> fst ` set rs) \<and>
    (\<forall>n<16. \<forall>regs run. reg_interrupt regs = of_nat (PIC_REMAP_OFFSET + n) \<longrightarrow>
       isr_handler_common run regs s' =
         (case map_of (rev rs) n of
            Some h \<Rightarrow> (Called h, eoi_sent n (run h regs s'))
          | None \<Rightarrow> (Unhandled_IRQ n, eoi_sent n s')))"
proof -
  let ?s = "irq_initialize rd s"
  have init: "irq_ready ?s" "irq_handlers ?s = replicate 16 0" "pic_mask (pic_state ?s) = 0xFFFF"
    using irq_initialize_ready [OF assms(1,2)] assms(3) by auto
  have ff: "bit (0xFFFF :: u16) n" if "n < 16" for n
    using that unfolding masks_eq by (simp add: bit_simps)
  obtain s' where s': "register_all rs ?s = Some s'" "irq_ready s'"
    "\<forall>n<16. bit (pic_mask (pic_state s')) n \<longleftrightarrow> bit (pic_mask (pic_state ?s)) n \<and> n \<notin> fst ` set rs"
    "\<forall>n<16. irq_handlers s' ! n = (case map_of (rev rs) n of None \<Rightarrow> irq_handlers ?s ! n | Some h \<Rightarrow> h)"
    using register_all_effect [OF init(1)] assms(4) by blast
  have nz: "h \<noteq> 0" if "map_of (rev rs) n = Some h" for n h
    using map_of_SomeD [OF that] assms(4) by force
  have "isr_handler_common run regs s' =
      (case map_of (rev rs) n of
         Some h \<Rightarrow> (Called h, eoi_sent n (run h regs s'))
       | None \<Rightarrow> (Unhandled_IRQ n, eoi_sent n s'))"
    if "n < 16" "reg_interrupt regs = of_nat (PIC_REMAP_OFFSET + n)" for n regs run
    using irq_dispatch [OF s'(2) that, of run] s'(4) that(1) init(2) nz
    by (auto simp: Let_def split: option.splits)
  then show ?thesis
    using s' init ff by (auto simp: irq_ready_def mask_sent_def)
qed

text \<open>
  C25: with a controller that gives back the mask bytes last written, initialisation finds it and
  masks every line; after any handlers have been registered the mask in the controller has exactly
  the lines without a handler set, an interrupt of a line runs the handler registered last for it,
  and after any interrupt request, handled or not, the last bytes written to the ports are the end
  of interrupt for the controllers concerned: \<open>0x20\<close> to port \<open>0x20\<close>, and to port \<open>0xA0\<close> before it for
  the lines from 8 on. A request without a handler changes nothing else.
\<close>

theorem irq_lines_dispatched:
  assumes "keeps_masks rd" "length (isr_handlers s) = 256" "irq_handlers s = replicate 16 0"
    "\<forall>r\<in>set rs. fst r < 16 \<and> snd r \<noteq> 0"
  shows "\<exists>s'. register_all rs (irq_initialize rd s) = Some s' \<and>
    (\<exists>log. pic_log (pic_state s') = log @ mask_writes (pic_mask (pic_state s'))) \<and>
    (\<forall>n<16. bit (pic_mask (pic_state s')) n \<longleftrightarrow> n \<notin> fst ` set rs) \<and>
    (\<forall>n<16. \<forall>regs run. reg_interrupt regs = of_nat (PIC_REMAP_OFFSET + n) \<longrightarrow>
       isr_handler_common run regs s' =
         (case map_of (rev rs) n of
            Some h \<Rightarrow> (Called h, eoi_sent n (run h regs s'))
          | None \<Rightarrow> (Unhandled_IRQ n, eoi_sent n s')))"
  using assms by (rule irq_lines_correct)

text \<open>A controller that answers a read of a port with the byte written to it last.\<close>

definition last_byte :: port_reader where
  "last_byte port log = (case filter (\<lambda>w. fst w = port) (rev log) of [] \<Rightarrow> 0 | w # _ \<Rightarrow> snd w)"

lemma last_byte_keeps: "keeps_masks last_byte"
  by (simp add: keeps_masks_def last_byte_def mask_writes_def PIC_PORT_DATA_1_def PIC_PORT_DATA_2_def)

definition reset_cpu :: cpu where
  "reset_cpu = \<lparr>idt = [], isr_handlers = replicate 256 No_handler, irq_handlers = replicate 16 0,
     pic_driver = False, pic_state = \<lparr>pic_mask = 0xFFFF, pic_log = []\<rparr>\<rparr>"

definition blank_registers :: Registers where
  "blank_registers = \<lparr>ds = 0, edi = 0, esi = 0, ebp = 0, kern_esp = 0, ebx = 0, edx = 0, ecx = 0, eax = 0,
     reg_interrupt = 0, reg_error = 0, eip = 0, cs = 0, eflags = 0, esp = 0, ss = 0\<rparr>"

theorem irq_lines_dispatched_witness:
  "\<exists>s'. register_all [(1, 0x1000), (12, 0x2000)] (irq_initialize last_byte reset_cpu) = Some s' \<and>
    \<not> bit (pic_mask (pic_state s')) 12 \<and> bit (pic_mask (pic_state s')) 2 \<and>
    (\<exists>log. pic_log (pic_state (snd (isr_handler_common (\<lambda>h r c. c) (blank_registers\<lparr>reg_interrupt := 0x2C\<rparr>) s'))) =
       log @ [(0xA0, 0x20), (0x20, 0x20)])"
proof -
  have h: "keeps_masks last_byte" "length (isr_handlers reset_cpu) = 256"
    "irq_handlers reset_cpu = replicate 16 0" "\<forall>r\<in>set [(1, 0x1000), (12, 0x2000)]. fst r < (16 :: nat) \<and> snd r \<noteq> (0 :: addr)"
    by (simp_all only: last_byte_keeps) (simp_all add: reset_cpu_def)
  let ?r = "blank_registers\<lparr>reg_interrupt := 0x2C\<rparr>"
  have r: "reg_interrupt ?r = of_nat (PIC_REMAP_OFFSET + 12)" by (simp add: PIC_REMAP_OFFSET_def)
  obtain s' where s': "register_all [(1, 0x1000), (12, 0x2000)] (irq_initialize last_byte reset_cpu) = Some s'"
    "\<forall>n<16. bit (pic_mask (pic_state s')) n \<longleftrightarrow> n \<notin> fst ` set [(1 :: nat, 0x1000 :: addr), (12, 0x2000)]"
    "\<forall>n<16. \<forall>regs run. reg_interrupt regs = of_nat (PIC_REMAP_OFFSET + n) \<longrightarrow>
       isr_handler_common run regs s' =
         (case map_of (rev [(1, 0x1000), (12, 0x2000)]) n of
            Some h \<Rightarrow> (Called h, eoi_sent n (run h regs s'))
          | None \<Rightarrow> (Unhandled_IRQ n, eoi_sent n s'))"
    using irq_lines_dispatched [OF h] by (elim exE conjE) (rule that)
  have "isr_handler_common (\<lambda>h r c. c) ?r s' = (Called 0x2000, eoi_sent 12 s')"
    using s'(3) [rule_format, of 12 ?r "\<lambda>h r c. c"] r by simp
  then show ?thesis using s'(1) s'(2) [rule_format, of 12] s'(2) [rule_format, of 2]
    by (simp add: eoi_sent_def)
qed

end
