(* ===== verification/InterruptTypes.thy ===== *)
theory InterruptTypes
  imports InterruptProperties
begin

text \<open>
  The interrupt tables keep their form: whatever handlers are registered and whatever interrupts
  arrive, each of the 256 vectors enters the kernel through its own stub, and the handler arrays are
  indexed inside their bounds.
\<close>

section \<open>Well-formed tables\<close>

definition gate_ok :: "(nat \<Rightarrow> addr) \<Rightarrow> nat \<Rightarrow> IDT_Entry \<Rightarrow> bool" where
  "gate_ok stub i e \<longleftrightarrow> gate_base e = stub i \<and> segment_selector e = GDT_CODE_SEGMENT \<and> reserved e = 0 \<and>
     gate_flags e = (IDT_FLAG_RING0 OR IDT_FLAG_GATE_32BIT_INT OR IDT_FLAG_PRESENT)"

definition arrays_ok :: "cpu \<Rightarrow> bool" where
  "arrays_ok c \<longleftrightarrow> length (idt c) = 256 \<and> length (isr_handlers c) = 256 \<and> length (irq_handlers c) = 16"

text \<open>\<open>irq_handler\<close> is only in the slots of the 16 interrupt lines.\<close>

definition cpu_typed :: "(nat \<Rightarrow> addr) \<Rightarrow> cpu \<Rightarrow> bool" where
  "cpu_typed stub c \<longleftrightarrow> arrays_ok c \<and> (\<forall>i<256. gate_ok stub i (idt c ! i)) \<and>
     (\<forall>i<256. isr_handlers c ! i = Irq_handler \<longrightarrow> PIC_REMAP_OFFSET \<le> i \<and> i < PIC_REMAP_OFFSET + 16)"

section \<open>Steps\<close>

text \<open>The operations of \<open>irq.c\<close>, \<open>isr.c\<close> and the driver of the controller.\<close>

inductive cpu_step :: "port_reader \<Rightarrow> cpu \<Rightarrow> cpu \<Rightarrow> bool" for rd where
  init: "cpu_step rd c (irq_initialize rd c)"
| isr: "i < 256 \<Longrightarrow> cpu_step rd c (isr_register_handler i (Handler h) c)"
| irq: "n < 16 \<Longrightarrow> irq_register_handler n h c = Some c' \<Longrightarrow> cpu_step rd c c'"
| mask: "cpu_step rd c (c\<lparr>pic_state := mask_irq n (pic_state c)\<rparr>)"
| unmask: "cpu_step rd c (c\<lparr>pic_state := unmask_irq n (pic_state c)\<rparr>)"
| eoi: "cpu_step rd c (c\<lparr>pic_state := send_eoi k (pic_state c)\<rparr>)"

text \<open>These and interrupts.\<close>

inductive cpu_event :: "port_reader \<Rightarrow> (addr \<Rightarrow> Registers \<Rightarrow> cpu \<Rightarrow> cpu) \<Rightarrow> cpu \<Rightarrow> cpu \<Rightarrow> bool" for rd run where
  operation: "cpu_step rd c c' \<Longrightarrow> cpu_event rd run c c'"
| interrupt: "unat (reg_interrupt regs) < 256 \<Longrightarrow> isr_handler_common run regs c = (r, c') \<Longrightarrow> cpu_event rd run c c'"

section \<open>The initial tables\<close>

lemma gate_set:
  assumes "i < length table"
  shows "segment_selector (idt_set_gate i entry seg fl table ! i) = seg"
    and "reserved (idt_set_gate i entry seg fl table ! i) = 0"
    and "gate_flags (idt_set_gate i entry seg fl table ! i) = fl"
  using assms by (simp_all add: idt_set_gate_def)

lemma idt_other [simp]:
  "i \<noteq> j \<Longrightarrow> idt_set_gate i entry seg fl table ! j = table ! j" "i \<noteq> j \<Longrightarrow> idt_enable_gate i table ! j = table ! j"
  by (simp_all add: idt_set_gate_def idt_enable_gate_def)

definition gate_off :: "(nat \<Rightarrow> addr) \<Rightarrow> nat \<Rightarrow> IDT_Entry \<Rightarrow> bool" where
  "gate_off stub i e \<longleftrightarrow> gate_base e = stub i \<and> segment_selector e = GDT_CODE_SEGMENT \<and> reserved e = 0 \<and>
     gate_flags e = (IDT_FLAG_RING0 OR IDT_FLAG_GATE_32BIT_INT)"

lemma set_gates:
  assumes "length table = 256" "n \<le> 256"
  shows "length (fold (\<lambda>i. idt_set_gate i (stub i) GDT_CODE_SEGMENT fl) [0..<n] table) = 256 \<and>
    (\<forall>i<n. gate_base (fold (\<lambda>i. idt_set_gate i (stub i) GDT_CODE_SEGMENT fl) [0..<n] table ! i) = stub i \<and>
       segment_selector (fold (\<lambda>i. idt_set_gate i (stub i) GDT_CODE_SEGMENT fl) [0..<n] table ! i) = GDT_CODE_SEGMENT \<and>
       reserved (fold (\<lambda>i. idt_set_gate i (stub i) GDT_CODE_SEGMENT fl) [0..<n] table ! i) = 0 \<and>
       gate_flags (fold (\<lambda>i. idt_set_gate i (stub i) GDT_CODE_SEGMENT fl) [0..<n] table ! i) = fl)"
  using assms(2)
proof (induction n)
  case (Suc n)
  let ?t = "fold (\<lambda>i. idt_set_gate i (stub i) GDT_CODE_SEGMENT fl) [0..<n] table"
  have t: "length ?t = 256" "n < length ?t" using Suc by simp_all
  note here = gate_base_set [OF t(2)] gate_set [OF t(2)]
  then show ?case using Suc by (auto simp: less_Suc_eq here)
qed (use assms(1) in simp)

lemma enable_gate_ok:
  assumes "i < length table" "gate_off stub i (table ! i) \<or> gate_ok stub i (table ! i)"
  shows "gate_ok stub i (idt_enable_gate i table ! i)"
proof -
  have "gate_base (idt_enable_gate i table ! i) = gate_base (table ! i)" using assms(1) by simp
  moreover have "(0xE OR 0x80) OR 0x80 = (0x8E :: u8)" by simp
  ultimately show ?thesis using assms
    by (auto simp: gate_ok_def gate_off_def idt_enable_gate_def IDT_FLAG_RING0_def IDT_FLAG_GATE_32BIT_INT_def
        IDT_FLAG_PRESENT_def)
qed

lemma enable_gates:
  assumes "length table = 256" "\<forall>i<256. gate_off stub i (table ! i)" "n \<le> 256"
  shows "length (fold idt_enable_gate [0..<n] table) = 256 \<and>
    (\<forall>i<256. if i < n then gate_ok stub i (fold idt_enable_gate [0..<n] table ! i)
             else gate_off stub i (fold idt_enable_gate [0..<n] table ! i))"
  using assms(3)
proof (induction n)
  case (Suc n)
  let ?t = "fold idt_enable_gate [0..<n] table"
  have t: "length ?t = 256" "n < length ?t" "gate_off stub n (?t ! n)" using Suc by (auto dest: spec [of _ n])
  then have "gate_ok stub n (idt_enable_gate n ?t ! n)" by (intro enable_gate_ok) simp_all
  then show ?case using Suc t(1) by (auto simp: less_Suc_eq)
qed (use assms in simp)

lemma isr_initialize_typed:
  assumes "arrays_ok c" "\<forall>i<256. isr_handlers c ! i \<noteq> Irq_handler"
  shows "cpu_typed stub (isr_initialize stub c)"
proof -
  let ?t = "isr_initialize_gates stub (idt c)"
  have "length ?t = 256" "\<forall>i<256. gate_off stub i (?t ! i)"
    using set_gates [of "idt c" 256 stub "IDT_FLAG_RING0 OR IDT_FLAG_GATE_32BIT_INT"] assms(1)
    by (simp_all add: isr_initialize_gates_def arrays_ok_def gate_off_def)
  from enable_gates [OF this order_refl] assms show ?thesis
    by (simp add: cpu_typed_def arrays_ok_def isr_initialize_def)
qed

section \<open>Every operation keeps them\<close>

lemma typed_pic [simp]: "cpu_typed stub (c\<lparr>pic_state := p\<rparr>) = cpu_typed stub c"
  "cpu_typed stub (c\<lparr>pic_driver := b\<rparr>) = cpu_typed stub c"
  by (simp_all add: cpu_typed_def arrays_ok_def)

lemma typed_register:
  assumes "cpu_typed stub c" "i < 256" "h = Irq_handler \<longrightarrow> PIC_REMAP_OFFSET \<le> i \<and> i < PIC_REMAP_OFFSET + 16"
  shows "cpu_typed stub (isr_register_handler i h c)"
proof -
  have "gate_ok stub j (idt_enable_gate i (idt c) ! j)" if "j < 256" for j
    using enable_gate_ok [of i "idt c" stub] assms(1,2) that
    by (cases "j = i") (auto simp: cpu_typed_def arrays_ok_def)
  moreover have "length (idt_enable_gate i (idt c)) = 256" using assms(1) by (simp add: cpu_typed_def arrays_ok_def)
  ultimately show ?thesis using assms
    by (auto simp: cpu_typed_def arrays_ok_def isr_register_handler_def nth_list_update)
qed

lemma typed_register_many:
  assumes "cpu_typed stub c" "\<forall>i\<in>set is. i < 16"
  shows "cpu_typed stub (fold (\<lambda>i. isr_register_handler (PIC_REMAP_OFFSET + i) Irq_handler) is c)"
  using assms
proof (induction "is" arbitrary: c)
  case (Cons i "is")
  have "cpu_typed stub (isr_register_handler (PIC_REMAP_OFFSET + i) Irq_handler c)"
    using Cons.prems by (intro typed_register) (auto simp: PIC_REMAP_OFFSET_def)
  then show ?case using Cons.IH Cons.prems(2) by simp
qed simp

lemma cpu_step_typed: "cpu_step rd c c' \<Longrightarrow> cpu_typed stub c \<Longrightarrow> cpu_typed stub c'"
proof (induction rule: cpu_step.induct)
  case (init c)
  then show ?case by (auto simp: irq_initialize_def Let_def split: prod.split intro!: typed_register_many)
next
  case (isr i c h)
  then show ?case by (intro typed_register) simp_all
next
  case (irq n h c c')
  then have "c' = c\<lparr>irq_handlers := (irq_handlers c)[n := h], pic_state := unmask_irq n (pic_state c)\<rparr>"
    by (simp add: irq_register_handler_def split: if_splits)
  then show ?case using irq.prems by (simp add: cpu_typed_def arrays_ok_def)
qed simp_all

lemma cpu_steps_typed: "(cpu_step rd)\<^sup>*\<^sup>* c c' \<Longrightarrow> cpu_typed stub c \<Longrightarrow> cpu_typed stub c'"
  by (induction rule: rtranclp_induct) (auto intro: cpu_step_typed)

lemma cpu_event_typed:
  assumes "cpu_event rd run c c'" "cpu_typed stub c" "\<And>h regs c. (cpu_step rd)\<^sup>*\<^sup>* c (run h regs c)"
  shows "cpu_typed stub c'"
  using assms(1,2)
proof (induction rule: cpu_event.induct)
  case (operation c c')
  then show ?case by (rule cpu_step_typed)
next
  case (interrupt regs c r c')
  have "cpu_typed stub (run h regs c)" for h using cpu_steps_typed [OF assms(3) interrupt.prems] .
  then show ?case using interrupt.hyps(2) interrupt.prems
    by (auto simp: isr_handler_common_def irq_handler_def Let_def split: isr_handler.splits if_splits)
qed

text \<open>A request that finds no handler is one of the 16 lines.\<close>

lemma unhandled_line:
  assumes "cpu_typed stub c" "unat (reg_interrupt regs) < 256" "fst (isr_handler_common run regs c) = Unhandled_IRQ n"
  shows "n < 16 \<and> unat (reg_interrupt regs) = PIC_REMAP_OFFSET + n"
  using assms by (auto simp: isr_handler_common_def irq_handler_def cpu_typed_def Let_def split: isr_handler.splits if_splits)

section \<open>Properties\<close>

text \<open>
  C40: the interrupt tables stay well-formed. From the tables \<open>isr_initialize\<close> builds, through any
  sequence of registrations, operations of the controller and interrupts whose handlers act on this
  state by its operations only, every one of the 256 gates is present, a 32-bit interrupt gate of
  ring 0 in the kernel's code segment that leads to the stub of its own vector; the arrays keep
  their lengths, and the line number the dispatcher computes is below 16.
\<close>

theorem interrupt_tables_typed:
  assumes "arrays_ok c0" "\<forall>i<256. isr_handlers c0 ! i \<noteq> Irq_handler"
    and "\<And>h regs c. (cpu_step rd)\<^sup>*\<^sup>* c (run h regs c)"
    and "(cpu_event rd run)\<^sup>*\<^sup>* (isr_initialize stub c0) c"
  shows "cpu_typed stub c \<and> (\<forall>regs n. unat (reg_interrupt regs) < 256 \<longrightarrow>
    fst (isr_handler_common run regs c) = Unhandled_IRQ n \<longrightarrow> n < 16 \<and> unat (reg_interrupt regs) = PIC_REMAP_OFFSET + n)"
proof -
  from assms(4) have "cpu_typed stub c"
  proof (induction rule: rtranclp_induct)
    case base
    then show ?case using assms(1,2) by (rule isr_initialize_typed)
  next
    case (step c c')
    from cpu_event_typed [OF step.hyps(2) step.IH assms(3)] show ?case .
  qed
  then show ?thesis using unhandled_line by blast
qed

theorem interrupt_tables_typed_witness:
  "cpu_typed (\<lambda>n. 0x1000 + 16 * of_nat n) (irq_initialize last_byte (isr_initialize (\<lambda>n. 0x1000 + 16 * of_nat n)
    (reset_cpu\<lparr>idt := replicate 256 blank_gate\<rparr>)))"
proof -
  let ?run = "\<lambda>h regs c. c :: cpu" and ?stub = "\<lambda>n. 0x1000 + 16 * of_nat n :: addr"
    and ?c = "reset_cpu\<lparr>idt := replicate 256 blank_gate\<rparr>"
  have "arrays_ok ?c" "\<forall>i<256. isr_handlers ?c ! i \<noteq> Irq_handler"
    by (simp_all add: arrays_ok_def reset_cpu_def)
  moreover have "(cpu_step last_byte)\<^sup>*\<^sup>* c (?run h regs c)" for h regs c by simp
  moreover have "(cpu_event last_byte ?run)\<^sup>*\<^sup>* (isr_initialize ?stub ?c)
      (irq_initialize last_byte (isr_initialize ?stub ?c))"
    by (intro r_into_rtranclp operation init)
  ultimately show ?thesis by (rule interrupt_tables_typed [THEN conjunct1])
qed

end
