(* ===== verification/Acpi.thy ===== *)
theory Acpi
  imports CString
begin

text \<open>
  The search for the ACPI tables, \<open>arch/i686/acpi.c\<close>, over the byte memory. The two search strings
  are static arrays whose addresses \<open>rds_str\<close> and \<open>facp\<close> are arguments; a local variable read
  before it is set is an argument too. The messages are left out.
\<close>

section \<open>Tables\<close>

text \<open>Offsets in \<open>E_RSDP\<close>, \<open>ACPI_SDT_Header\<close>, \<open>RSDT\<close> and \<open>FADT\<close>.\<close>

definition sizeof_E_RSDP :: nat where "sizeof_E_RSDP = 36"
definition rsdp_revision :: "memory \<Rightarrow> addr \<Rightarrow> u8" where "rsdp_revision m p = m (p + 15)"
definition rsdp_rsdt_address :: "memory \<Rightarrow> addr \<Rightarrow> addr" where "rsdp_rsdt_address m p = read32 m (p + 16)"
definition rsdp_xsdt_address :: "memory \<Rightarrow> addr \<Rightarrow> addr" where "rsdp_xsdt_address m p = read32 m (p + 24)"

definition sizeof_SDT_Header :: u32 where "sizeof_SDT_Header = 36"
definition sdt_length :: "memory \<Rightarrow> addr \<Rightarrow> u32" where "sdt_length m p = read32 m (p + 4)"
definition sdt_revision :: "memory \<Rightarrow> addr \<Rightarrow> u8" where "sdt_revision m p = m (p + 8)"
definition rsdt_entries :: "memory \<Rightarrow> addr \<Rightarrow> addr" where
  "rsdt_entries m p = read32 m (p + sizeof_SDT_Header)"
definition boot_architecture_flags :: "memory \<Rightarrow> addr \<Rightarrow> u16" where
  "boot_architecture_flags m p = read16 m (p + 109)"

record acpi =
  rsdt :: addr
  fadt :: addr
  use_xsdt :: bool

definition RSDP_SIZE :: nat where "RSDP_SIZE = 0x8 + 0x1 + 0x6 + 0x1 + 0x4"

section \<open>is_rsdp_valid\<close>

definition byte_sum :: "memory \<Rightarrow> addr \<Rightarrow> nat \<Rightarrow> int" where
  "byte_sum m p n = fold (\<lambda>i checksum. checksum + sint (m (p + of_nat i))) [0..<n] 0"

definition is_rsdp_valid :: "memory \<Rightarrow> addr \<Rightarrow> bool" where
  "is_rsdp_valid m rsdp =
     (let version = rsdp_revision m rsdp
      in if version \<noteq> 0 \<and> version \<noteq> 2 then False
         else if byte_sum m rsdp RSDP_SIZE AND 0xFF \<noteq> 0 then False
         else if version = 2 then byte_sum m rsdp sizeof_E_RSDP AND 0xFF = 0
         else True)"

section \<open>find_table\<close>

text \<open>
  \<open>entries\<close> is declared as a pointer to headers, so what the loop goes through are headers in a row
  from the first table on, a whole header (or two) apart.
\<close>

definition find_table :: "memory \<Rightarrow> acpi \<Rightarrow> addr \<Rightarrow> addr" where
  "find_table m a signature =
     (let entries = (sdt_length m (rsdt a) - sizeof_SDT_Header) div (if use_xsdt a then 8 else 4);
          header = (\<lambda>i. rsdt_entries m (rsdt a) +
                      of_nat (if use_xsdt a then i * 2 else i) * sizeof_SDT_Header)
      in case find (\<lambda>i. memcmp m (header i) signature 4 = 0) [0..<unat entries] of
           Some i \<Rightarrow> header i
         | None \<Rightarrow> 0)"

section \<open>has_valid_checksum\<close>

text \<open>\<open>sum\<close> is not initialised: \<open>junk\<close> is what it holds.\<close>

definition has_valid_checksum :: "u8 \<Rightarrow> memory \<Rightarrow> addr \<Rightarrow> bool" where
  "has_valid_checksum junk m table_header \<longleftrightarrow>
     fold (\<lambda>i sum. sum + m (table_header + of_nat i)) [0..<unat (sdt_length m table_header)] junk = 0"

section \<open>find_rsdp\<close>

text \<open>\<open>None\<close>: the search runs past the top of memory and never ends.\<close>

partial_function (option) rsdp_scan :: "memory \<Rightarrow> addr \<Rightarrow> addr \<Rightarrow> addr \<Rightarrow> addr option" where
  "rsdp_scan m rds_str mem_max current =
     (if current < mem_max
      then if memcmp m current rds_str 8 = 0 \<and> is_rsdp_valid m current then Some current
           else rsdp_scan m rds_str mem_max (current + 16)
      else Some 0)"

text \<open>The arguments are ints and not negative where the function is called.\<close>

definition find_rsdp :: "memory \<Rightarrow> addr \<Rightarrow> nat \<Rightarrow> nat \<Rightarrow> addr option" where
  "find_rsdp m rds_str mem_min mem_max =
     rsdp_scan m rds_str (of_nat mem_max) (of_nat ((mem_min + 0xF) div 0x10))"

section \<open>acpi_initialize\<close>

datatype acpi_panic = No_RSDP | Invalid_RSDT | Invalid_FADT

definition find_any_rsdp :: "memory \<Rightarrow> addr \<Rightarrow> addr option" where
  "find_any_rsdp m rds_str =
     (let ebda = unat (read16 m 0xA0E) * 16
      in case find_rsdp m rds_str ebda (ebda + unat (read16 m 0xA13)) of
           None \<Rightarrow> None
         | Some rsdp \<Rightarrow> if rsdp = 0 then find_rsdp m rds_str 0xE0000 0x00100000 else Some rsdp)"

definition acpi_initialize ::
  "u8 \<Rightarrow> u8 \<Rightarrow> memory \<Rightarrow> addr \<Rightarrow> addr \<Rightarrow> (acpi_panic + acpi) option" where
  "acpi_initialize junk1 junk2 m rds_str facp =
     (case find_any_rsdp m rds_str of
        None \<Rightarrow> None
      | Some rsdp \<Rightarrow>
          if rsdp = 0 then Some (Inl No_RSDP)
          else let a = (if rsdp_revision m rsdp = 0
                        then \<lparr>rsdt = rsdp_rsdt_address m rsdp, fadt = 0, use_xsdt = False\<rparr>
                        else \<lparr>rsdt = rsdp_xsdt_address m rsdp, fadt = 0, use_xsdt = True\<rparr>)
               in if \<not> has_valid_checksum junk1 m (rsdt a) then Some (Inl Invalid_RSDT)
                  else let a = a\<lparr>fadt := find_table m a facp\<rparr>
                       in if \<not> has_valid_checksum junk2 m (fadt a) then Some (Inl Invalid_FADT)
                          else Some (Inr a))"

end
