(* ===== verification/AcpiProperties.thy ===== *)
theory AcpiProperties
  imports Acpi CStringProperties Bytes
begin

text \<open>
  What the search for the ACPI tables finds: the searches end, and \<open>acpi_initialize\<close> is compared
  with a search of a list of candidate addresses.
\<close>

section \<open>The root pointer\<close>

definition rsdp_at :: "memory \<Rightarrow> addr \<Rightarrow> addr \<Rightarrow> bool" where
  "rsdp_at m rds a \<longleftrightarrow> (\<forall>i<8. m (a + of_nat i) = m (rds + of_nat i)) \<and> is_rsdp_valid m a"

text \<open>The addresses looked at: every 16th from \<open>mem_min / 16\<close> (rounded up) on.\<close>

definition candidates :: "nat \<Rightarrow> nat \<Rightarrow> addr list" where
  "candidates lo hi = map (\<lambda>i. of_nat (lo + 16 * i)) [0..<(hi + 15 - lo) div 16]"

lemma candidates_simps:
  "hi \<le> lo \<Longrightarrow> candidates lo hi = []"
  "lo < hi \<Longrightarrow> candidates lo hi = of_nat lo # candidates (lo + 16) hi"
proof -
  show "hi \<le> lo \<Longrightarrow> candidates lo hi = []" by (simp add: candidates_def)
  assume "lo < hi"
  then have "hi + 15 - lo = 16 + (hi + 15 - (lo + 16))" by simp
  then have k: "(hi + 15 - lo) div 16 = Suc ((hi + 15 - (lo + 16)) div 16)"
    by (metis One_nat_def add.commute div_add_self1 plus_1_eq_Suc zero_neq_numeral)
  show "candidates lo hi = of_nat lo # candidates (lo + 16) hi"
    unfolding candidates_def k upt_conv_Cons [OF zero_less_Suc] map_Suc_upt [symmetric] by simp
qed

lemma memcmp_eq_iff: "memcmp m s1 s2 n = 0 \<longleftrightarrow> (\<forall>i < unat n. m (s1 + of_nat i) = m (s2 + of_nat i))"
  using memcmp_loop_spec [OF u32_le_2p32, of m s1 s2 n] sint_diff_zero by (auto simp: memcmp_def)

lemma rsdp_at_memcmp: "rsdp_at m rds a \<longleftrightarrow> memcmp m a rds 8 = 0 \<and> is_rsdp_valid m a"
proof -
  have "unat (8 :: u32) = 8" by simp
  then show ?thesis unfolding rsdp_at_def memcmp_eq_iff by simp
qed

lemma rsdp_scan_candidates:
  assumes "hi + 15 < 2 ^ 32" "lo \<le> hi + 15"
  shows "rsdp_scan m rds (of_nat hi) (of_nat lo) =
    Some (case find (rsdp_at m rds) (candidates lo hi) of None \<Rightarrow> 0 | Some a \<Rightarrow> a)"
  using assms(2)
proof (induction "hi + 15 - lo" arbitrary: lo rule: less_induct)
  case less
  have u: "unat (of_nat hi :: addr) = hi" "unat (of_nat lo :: addr) = lo"
    using assms(1) less.prems by (simp_all add: unat_of_nat take_bit_nat_eq_self_iff)
  have lt: "(of_nat lo :: addr) < of_nat hi \<longleftrightarrow> lo < hi" using u by (simp add: word_less_nat_alt)
  show ?case
  proof (cases "lo < hi")
    case True
    have "rsdp_scan m rds (of_nat hi) (of_nat (lo + 16)) =
        Some (case find (rsdp_at m rds) (candidates (lo + 16) hi) of None \<Rightarrow> 0 | Some a \<Rightarrow> a)"
      using True by (intro less.hyps) simp_all
    then show ?thesis
      using True lt by (subst rsdp_scan.simps) (simp add: candidates_simps(2) rsdp_at_memcmp add.commute)
  next
    case False
    then show ?thesis using lt by (subst rsdp_scan.simps) (simp add: candidates_simps(1))
  qed
qed

text \<open>The search of a range that starts at most at its end.\<close>

lemma find_rsdp_candidates:
  assumes "hi + 15 < 2 ^ 32" "lo \<le> hi"
  shows "find_rsdp m rds lo hi =
    Some (case find (rsdp_at m rds) (candidates ((lo + 15) div 16) hi) of None \<Rightarrow> 0 | Some a \<Rightarrow> a)"
  using rsdp_scan_candidates [of hi "(lo + 15) div 16" m rds] assms by (simp add: find_rsdp_def)

text \<open>
  The addresses of both searches, in order: from the extended BIOS data area, taken from 0xA0E, and
  from 0xE000.
\<close>

definition rsdp_candidates :: "memory \<Rightarrow> addr list" where
  "rsdp_candidates m =
     (let ebda = unat (read16 m 0xA0E)
      in candidates ebda (ebda * 16 + unat (read16 m 0xA13)) @ candidates 0xE000 0x100000)"

lemma candidates_nonzero:
  assumes "0 < lo" "lo + hi + 15 < 2 ^ 32" shows "0 \<notin> set (candidates lo hi)"
proof -
  have "(of_nat (lo + 16 * i) :: addr) \<noteq> 0" if "i < (hi + 15 - lo) div 16" for i
  proof -
    have "lo + 16 * i < 2 ^ 32" using that assms(2) by linarith
    then have "unat (of_nat (lo + 16 * i) :: addr) = lo + 16 * i" by (rule unat_of_nat_small)
    then show ?thesis using assms(1) by (metis add_is_0 less_irrefl unat_0)
  qed
  then show ?thesis unfolding candidates_def set_map by auto
qed

lemma find_append: "find P (xs @ ys) = (case find P xs of None \<Rightarrow> find P ys | Some x \<Rightarrow> Some x)"
  by (induction xs) simp_all

lemma find_any_rsdp_candidates:
  assumes "read16 m 0xA0E \<noteq> 0"
  shows "find_any_rsdp m rds =
    Some (case find (rsdp_at m rds) (rsdp_candidates m) of None \<Rightarrow> 0 | Some a \<Rightarrow> a)"
proof -
  let ?e = "unat (read16 m 0xA0E)" and ?n = "unat (read16 m 0xA13)"
  have b: "0 < ?e" "?e < 65536" "?n < 65536"
    using assms unsigned_less [of "read16 m 0xA0E"] unsigned_less [of "read16 m 0xA13"]
    by (simp_all add: unat_gt_0)
  have "(?e * 16 + 15) div 16 = ?e" by simp
  then have first: "find_rsdp m rds (?e * 16) (?e * 16 + ?n) =
      Some (case find (rsdp_at m rds) (candidates ?e (?e * 16 + ?n)) of None \<Rightarrow> 0 | Some a \<Rightarrow> a)"
    using find_rsdp_candidates [of "?e * 16 + ?n" "?e * 16" m rds] b by simp
  have second: "find_rsdp m rds 0xE0000 0x100000 =
      Some (case find (rsdp_at m rds) (candidates 0xE000 0x100000) of None \<Rightarrow> 0 | Some a \<Rightarrow> a)"
    using find_rsdp_candidates [of "0x100000" "0xE0000" m rds] by simp
  have "0 \<notin> set (candidates ?e (?e * 16 + ?n))" using b by (intro candidates_nonzero) simp_all
  then have "a \<noteq> 0" if "find (rsdp_at m rds) (candidates ?e (?e * 16 + ?n)) = Some a" for a
    using that by (metis find_Some_iff nth_mem)
  then show ?thesis
    by (cases "find (rsdp_at m rds) (candidates ?e (?e * 16 + ?n))")
      (simp_all add: find_any_rsdp_def rsdp_candidates_def Let_def first second find_append)
qed

section \<open>Checksums\<close>

definition checksum_ok :: "memory \<Rightarrow> addr \<Rightarrow> nat \<Rightarrow> bool" where
  "checksum_ok m p n \<longleftrightarrow> 256 dvd (\<Sum>i<n. unat (m (p + of_nat i)))"

lemma fold_plus: "fold (\<lambda>i a. a + f i) [0..<n] a = a + (\<Sum>i<n. f i)" for a :: "'a :: comm_monoid_add"
  by (induction n) (simp_all add: ac_simps)

lemma sint_mod_256: "sint (b :: u8) mod 256 = int (unat b)"
proof -
  have "sint b mod 256 = uint b mod 256"
    unfolding sint_uint by (simp add: signed_take_bit_eq_take_bit_shift take_bit_eq_mod mod_simps)
  also have "\<dots> = uint b" using uint_lt2p [of b] by (intro mod_pos_pos_trivial) simp_all
  finally show ?thesis by simp
qed

lemma byte_sum_ok: "byte_sum m p n AND 0xFF = 0 \<longleftrightarrow> checksum_ok m p n"
proof -
  have "byte_sum m p n AND 0xFF = byte_sum m p n mod 256"
    using take_bit_eq_mask [of 8 "byte_sum m p n"] by (simp add: mask_eq_exp_minus_1 take_bit_eq_mod)
  also have "\<dots> = (\<Sum>i<n. sint (m (p + of_nat i)) mod 256) mod 256"
    by (simp add: byte_sum_def fold_plus mod_sum_eq)
  also have "\<dots> = int (\<Sum>i<n. unat (m (p + of_nat i))) mod 256" by (simp add: sint_mod_256)
  finally show ?thesis unfolding checksum_ok_def by presburger
qed

text \<open>
  What \<open>has_valid_checksum\<close> tests: the bytes of the table and \<open>junk\<close>, which the sum is not cleared
  of, add up to 0. With \<open>junk = 0\<close> this is the checksum of the table.
\<close>

definition sums_to_zero :: "u8 \<Rightarrow> memory \<Rightarrow> addr \<Rightarrow> bool" where
  "sums_to_zero junk m p \<longleftrightarrow>
     256 dvd unat junk + (\<Sum>i<unat (sdt_length m p). unat (m (p + of_nat i)))"

lemma has_valid_checksum_sums: "has_valid_checksum junk m p \<longleftrightarrow> sums_to_zero junk m p"
proof -
  let ?n = "unat (sdt_length m p)"
  have eq: "junk + (\<Sum>i<n. m (p + of_nat i)) = of_nat (unat junk + (\<Sum>i<n. unat (m (p + of_nat i))))" for n
    by simp
  have "has_valid_checksum junk m p \<longleftrightarrow> junk + (\<Sum>i<?n. m (p + of_nat i)) = 0"
    by (simp add: has_valid_checksum_def fold_plus)
  also have "\<dots> \<longleftrightarrow> sums_to_zero junk m p"
    unfolding sums_to_zero_def eq word_of_nat_eq_0_iff by simp
  finally show ?thesis .
qed

lemma sums_to_zero_clear: "sums_to_zero 0 m p \<longleftrightarrow> checksum_ok m p (unat (sdt_length m p))"
  by (simp add: sums_to_zero_def checksum_ok_def)

lemma is_rsdp_valid_iff:
  "is_rsdp_valid m p \<longleftrightarrow> (rsdp_revision m p = 0 \<or> rsdp_revision m p = 2) \<and> checksum_ok m p 20 \<and>
     (rsdp_revision m p = 2 \<longrightarrow> checksum_ok m p 36)"
  by (auto simp: is_rsdp_valid_def byte_sum_ok RSDP_SIZE_def sizeof_E_RSDP_def Let_def)

section \<open>The tables\<close>

text \<open>The table has the four letters of the string at \<open>facp\<close>.\<close>

definition has_name :: "memory \<Rightarrow> addr \<Rightarrow> addr \<Rightarrow> bool" where
  "has_name m facp a \<longleftrightarrow> (\<forall>i<4. m (a + of_nat i) = m (facp + of_nat i))"

lemma has_name_memcmp: "memcmp m a facp 4 = 0 \<longleftrightarrow> has_name m facp a"
proof -
  have "unat (4 :: u32) = 4" by simp
  then show ?thesis unfolding has_name_def memcmp_eq_iff by simp
qed

text \<open>
  The headers the search goes through: one after the other from the address in the root table on, a
  header's 36 bytes apart (two of them in an XSDT), as many as the root table has room for pointers
  of 4 (8) bytes behind its own header.
\<close>

definition table_headers :: "memory \<Rightarrow> acpi \<Rightarrow> addr list" where
  "table_headers m a =
     map (\<lambda>i. rsdt_entries m (rsdt a) + of_nat i * (if use_xsdt a then 72 else 36))
       [0..<unat (sdt_length m (rsdt a) - 36) div (if use_xsdt a then 8 else 4)]"

text \<open>The FADT is the first of them with the name, and the null pointer if none has it.\<close>

definition named_table :: "memory \<Rightarrow> addr \<Rightarrow> acpi \<Rightarrow> addr" where
  "named_table m facp a = (case find (has_name m facp) (table_headers m a) of None \<Rightarrow> 0 | Some t \<Rightarrow> t)"

lemma find_map: "find P (map f xs) = map_option f (find (P \<circ> f) xs)"
  by (induction xs) simp_all

lemma find_table_named: "find_table m a facp = named_table m facp a"
  by (cases "use_xsdt a")
    (simp_all add: find_table_def named_table_def table_headers_def find_map o_def has_name_memcmp
      sizeof_SDT_Header_def unat_div mult.assoc Let_def split: option.split)

lemma find_table_first:
  assumes "0 < (sdt_length m (rsdt a) - sizeof_SDT_Header) div (if use_xsdt a then 8 else 4)"
    "has_name m facp (rsdt_entries m (rsdt a))"
  shows "find_table m a facp = rsdt_entries m (rsdt a)"
proof -
  let ?n = "(sdt_length m (rsdt a) - sizeof_SDT_Header) div (if use_xsdt a then 8 else 4)"
  have "[0..<unat ?n] = 0 # [1..<unat ?n]" using assms(1) by (simp add: upt_rec word_less_nat_alt)
  then show ?thesis using assms(2) by (simp add: find_table_def Let_def has_name_memcmp)
qed

text \<open>The root table a root pointer leads to, without a FADT yet.\<close>

definition root_table :: "memory \<Rightarrow> addr \<Rightarrow> acpi" where
  "root_table m p =
     \<lparr>rsdt = (if rsdp_revision m p = 0 then rsdp_rsdt_address m p else rsdp_xsdt_address m p),
      fadt = 0, use_xsdt = (rsdp_revision m p \<noteq> 0)\<rparr>"

abbreviation table_ok :: "memory \<Rightarrow> addr \<Rightarrow> bool" where
  "table_ok m p \<equiv> checksum_ok m p (unat (sdt_length m p))"

lemma rsdp_candidates_nonzero:
  assumes "read16 m 0xA0E \<noteq> 0" shows "0 \<notin> set (rsdp_candidates m)"
proof -
  have b: "0 < unat (read16 m 0xA0E)" "unat (read16 m 0xA0E) < 65536" "unat (read16 m 0xA13) < 65536"
    using assms unsigned_less [of "read16 m 0xA0E"] unsigned_less [of "read16 m 0xA13"]
    by (simp_all add: unat_gt_0)
  have "0 \<notin> set (candidates (unat (read16 m 0xA0E)) (unat (read16 m 0xA0E) * 16 + unat (read16 m 0xA13)))"
    using b by (intro candidates_nonzero) simp_all
  moreover have "0 \<notin> set (candidates 0xE000 0x100000)" by (intro candidates_nonzero) simp_all
  ultimately show ?thesis by (simp add: rsdp_candidates_def Let_def)
qed

lemma acpi_initialize_steps:
  assumes "read16 m 0xA0E \<noteq> 0"
  shows "acpi_initialize junk1 junk2 m rds facp = Some
    (case find (rsdp_at m rds) (rsdp_candidates m) of
       None \<Rightarrow> Inl No_RSDP
     | Some p \<Rightarrow>
         let a = root_table m p; t = find_table m a facp
         in if \<not> sums_to_zero junk1 m (rsdt a) then Inl Invalid_RSDT
            else if \<not> sums_to_zero junk2 m t then Inl Invalid_FADT
            else Inr (a\<lparr>fadt := t\<rparr>))"
proof (cases "find (rsdp_at m rds) (rsdp_candidates m)")
  case None
  then show ?thesis using find_any_rsdp_candidates [OF assms, of rds] by (simp add: acpi_initialize_def)
next
  case (Some p)
  then have "p \<noteq> 0" using rsdp_candidates_nonzero [OF assms] by (metis find_Some_iff nth_mem)
  moreover have "(if rsdp_revision m p = 0
      then \<lparr>rsdt = rsdp_rsdt_address m p, fadt = 0, use_xsdt = False\<rparr>
      else \<lparr>rsdt = rsdp_xsdt_address m p, fadt = 0, use_xsdt = True\<rparr>) = root_table m p"
    by (simp add: root_table_def)
  moreover have "find_table m (a\<lparr>fadt := t\<rparr>) facp = find_table m a facp" for a t
    by (simp add: find_table_def)
  ultimately show ?thesis
    using Some find_any_rsdp_candidates [OF assms, of rds]
    by (simp add: acpi_initialize_def has_valid_checksum_sums Let_def)
qed

lemma acpi_initialize_eq:
  assumes "read16 m 0xA0E \<noteq> 0"
  shows "acpi_initialize 0 0 m rds facp = Some
    (case find (rsdp_at m rds) (rsdp_candidates m) of
       None \<Rightarrow> Inl No_RSDP
     | Some p \<Rightarrow>
         let a = root_table m p; t = find_table m a facp
         in if \<not> table_ok m (rsdt a) then Inl Invalid_RSDT
            else if \<not> table_ok m t then Inl Invalid_FADT
            else Inr (a\<lparr>fadt := t\<rparr>))"
  using acpi_initialize_steps [OF assms, of 0 0] by (simp only: sums_to_zero_clear)


text \<open>
  A machine with a root pointer at 0x100, where the extended BIOS data area starts, the search
  string behind it, a root table at 0x11C with one FADT at 0x148 and the name at 0x152.
\<close>

definition acpi_image :: "u8 list" where
  "acpi_image =
     [82, 83, 68, 32, 80, 84, 82, 32, 196, 0, 0, 0, 0, 0, 0, 0, 0x1C, 1, 0, 0,
      82, 83, 68, 32, 80, 84, 82, 32,
      82, 83, 68, 84, 44, 0, 0, 0, 1, 77, 0, 0, 0, 0, 0, 0, 0, 0, 0, 0, 0, 0, 0, 0, 0, 0, 0, 0, 0, 0,
      0, 0, 0, 0, 0, 0, 0x48, 1, 0, 0, 0, 0, 0, 0,
      70, 65, 67, 80, 10, 0, 0, 0, 1, 219,
      70, 65, 67, 80]"

definition acpi_memory :: memory where
  "acpi_memory = (store_bytes (\<lambda>a. 0) 0x100 acpi_image)(0xA0F := 1)"

lemma checksum_load: "checksum_ok m p n \<longleftrightarrow> 256 dvd sum_list (map unat (load_bytes m p n))"
  by (simp add: checksum_ok_def load_bytes_def interv_sum_list_conv_sum_set_nat o_def atLeast0LessThan)

lemma acpi_load:
  assumes "k + n \<le> length acpi_image"
  shows "load_bytes acpi_memory (0x100 + of_nat k) n = take n (drop k acpi_image)"
proof (intro nth_equalityI)
  have len: "length acpi_image = 86" by (simp add: acpi_image_def)
  show "length (load_bytes acpi_memory (0x100 + of_nat k) n) = length (take n (drop k acpi_image))"
    using assms by simp
  fix i assume "i < length (load_bytes acpi_memory (0x100 + of_nat k) n)"
  then have i: "i < n" "k + i < 86" using assms len by simp_all
  let ?a = "0x100 + of_nat k + of_nat i :: addr"
  have a: "?a - 0x100 = of_nat (k + i)" by simp
  have u: "unat (of_nat (k + i) :: addr) = k + i" using i by (intro unat_of_nat_small) simp
  have "?a \<noteq> 0xA0F"
  proof
    assume "?a = 0xA0F"
    with a have "of_nat (k + i) = (0xA0F - 0x100 :: addr)" by (simp only:)
    then have "unat (of_nat (k + i) :: addr) = 0x90F" by simp
    then show False using u i by simp
  qed
  then have "acpi_memory ?a =
      (if unat (?a - 0x100) < length acpi_image then acpi_image ! unat (?a - 0x100) else 0)"
    by (simp only: acpi_memory_def fun_upd_apply if_False store_bytes_def)
  then have "acpi_memory ?a = acpi_image ! (k + i)" using i(2) len unfolding a u by simp
  then show "load_bytes acpi_memory (0x100 + of_nat k) n ! i = take n (drop k acpi_image) ! i"
    using i assms by simp
qed

lemma acpi_memory_fields:
  "read16 acpi_memory 0xA0E = 0x100"
  "load_bytes acpi_memory 0x100 20 = take 20 acpi_image"
  "load_bytes acpi_memory 0x100 8 = load_bytes acpi_memory 0x114 8"
  "load_bytes acpi_memory 0x11C 44 = take 44 (drop 28 acpi_image)"
  "load_bytes acpi_memory 0x148 10 = take 10 (drop 72 acpi_image)"
  "load_bytes acpi_memory 0x148 4 = load_bytes acpi_memory 0x152 4"
  using acpi_load [of 0 20] acpi_load [of 0 8] acpi_load [of 20 8] acpi_load [of 28 44] acpi_load [of 72 10]
    acpi_load [of 72 4] acpi_load [of 82 4]
  by (simp_all add: acpi_image_def acpi_memory_def read16_def store_bytes_def)

lemma same_bytes: "load_bytes m a n = load_bytes m b n \<Longrightarrow> i < n \<Longrightarrow> m (a + of_nat i) = m (b + of_nat i)"
  by (metis nth_load_bytes)

lemma acpi_memory_rsdp:
  "rsdp_revision acpi_memory 0x100 = 0" "rsdp_rsdt_address acpi_memory 0x100 = 0x11C"
  "rsdp_at acpi_memory 0x114 0x100"
proof -
  show r: "rsdp_revision acpi_memory 0x100 = 0"
    using nth_load_bytes [of 15 20 acpi_memory "0x100"]
    by (simp add: rsdp_revision_def acpi_memory_fields(2) acpi_image_def)
  show "rsdp_rsdt_address acpi_memory 0x100 = 0x11C"
    using read32_load [of 16 20 acpi_memory "0x100"]
    by (simp add: rsdp_rsdt_address_def acpi_memory_fields(2) acpi_image_def le32_def push_bit_eq_mult)
  have "checksum_ok acpi_memory 0x100 20"
    by (simp add: checksum_load acpi_memory_fields(2) acpi_image_def)
  then show "rsdp_at acpi_memory 0x114 0x100"
    using r same_bytes [OF acpi_memory_fields(3)] by (simp add: rsdp_at_def is_rsdp_valid_iff)
qed

lemma acpi_memory_find: "find (rsdp_at acpi_memory 0x114) (rsdp_candidates acpi_memory) = Some 0x100"
proof -
  have "candidates 0x100 (0x1000 + n) = 0x100 # candidates (0x100 + 16) (0x1000 + n)" for n
    by (subst candidates_simps(2)) simp_all
  then obtain ps where "rsdp_candidates acpi_memory = 0x100 # ps"
    by (simp add: rsdp_candidates_def acpi_memory_fields(1) Let_def)
  then show ?thesis using acpi_memory_rsdp(3) by simp
qed

lemma acpi_memory_tables:
  "sdt_length acpi_memory 0x11C = 44" "rsdt_entries acpi_memory 0x11C = 0x148"
  "sdt_length acpi_memory 0x148 = 10" "table_ok acpi_memory 0x11C" "table_ok acpi_memory 0x148"
  "has_name acpi_memory 0x152 0x148"
proof -
  show l: "sdt_length acpi_memory 0x11C = 44"
    using read32_load [of 4 44 acpi_memory "0x11C"]
    by (simp add: sdt_length_def acpi_memory_fields(4) acpi_image_def le32_def push_bit_eq_mult)
  show "rsdt_entries acpi_memory 0x11C = 0x148"
    using read32_load [of 36 44 acpi_memory "0x11C"]
    by (simp add: rsdt_entries_def sizeof_SDT_Header_def acpi_memory_fields(4) acpi_image_def le32_def
        push_bit_eq_mult)
  show f: "sdt_length acpi_memory 0x148 = 10"
    using read32_load [of 4 10 acpi_memory "0x148"]
    by (simp add: sdt_length_def acpi_memory_fields(5) acpi_image_def le32_def push_bit_eq_mult)
  show "table_ok acpi_memory 0x11C"
    by (simp add: l checksum_load acpi_memory_fields(4) acpi_image_def)
  show "table_ok acpi_memory 0x148"
    by (simp add: f checksum_load acpi_memory_fields(5) acpi_image_def)
  show "has_name acpi_memory 0x152 0x148"
    using same_bytes [OF acpi_memory_fields(6)] by (simp add: has_name_def)
qed


end
