(* ===== verification/Ps2.thy ===== *)
theory Ps2
  imports Ps2Types Ports Acpi Interrupts "HOL-Library.State_Monad"
begin

text \<open>
  The PS/2 controller, \<open>arch/i686/ps2.c\<close>, as programs of the state monad over the static variables
  of the driver and the port trace. What the ports answer is the parameter \<open>dv\<close>. A handler is the
  address of its function, \<open>junk\<close> what an uninitialised local holds; the messages are left out.
\<close>

section \<open>Constants and state\<close>

definition PORT_DATA :: u16 where "PORT_DATA = 0x60"
definition PORT_STATUS :: u16 where "PORT_STATUS = 0x64"
definition PORT_CMD :: u16 where "PORT_CMD = 0x64"
definition PORT_1 :: int where "PORT_1 = 1"
definition PORT_2 :: int where "PORT_2 = 2"
definition CMD_READ_RAM :: u8 where "CMD_READ_RAM = 0x20"
definition CMD_WRITE_RAM :: u8 where "CMD_WRITE_RAM = 0x60"
definition CMD_DISABLE_PORT_2 :: u8 where "CMD_DISABLE_PORT_2 = 0xA7"
definition CMD_ENABLE_PORT_2 :: u8 where "CMD_ENABLE_PORT_2 = 0xA8"
definition CMD_TEST_PORT_2 :: u8 where "CMD_TEST_PORT_2 = 0xA9"
definition CMD_TEST_CONTROLLER :: u8 where "CMD_TEST_CONTROLLER = 0xAA"
definition CMD_TEST_PORT_1 :: u8 where "CMD_TEST_PORT_1 = 0xAB"
definition CMD_DISABLE_PORT_1 :: u8 where "CMD_DISABLE_PORT_1 = 0xAD"
definition CMD_ENABLE_PORT_1 :: u8 where "CMD_ENABLE_PORT_1 = 0xAE"
definition CMD_WRITE_INPUT_2 :: u8 where "CMD_WRITE_INPUT_2 = 0xD4"
definition DEVICE_IDENTIFY :: u8 where "DEVICE_IDENTIFY = 0xF2"
definition DEVICE_ENABLE_SCAN :: u8 where "DEVICE_ENABLE_SCAN = 0xF4"
definition DEVICE_DISABLE_SCAN :: u8 where "DEVICE_DISABLE_SCAN = 0xF5"
definition DEVICE_RESET :: u8 where "DEVICE_RESET = 0xFF"
definition DEVICE_ACK :: u8 where "DEVICE_ACK = 0xFA"
definition ERROR_TIMEOUT :: int where "ERROR_TIMEOUT = -1"
definition ERROR_NOT_PRESENT :: int where "ERROR_NOT_PRESENT = -2"
definition ERROR_FAILURE :: int where "ERROR_FAILURE = -3"
definition WAIT_TIME :: nat where "WAIT_TIME = 0xFFFF"

text \<open>\<open>send_byte\<close> is the port whose function the pointer points to.\<close>

record PS2_Device =
  dev_port :: int
  dev_present :: bool
  dev_type :: PS2_Device_Type
  dev_send_byte :: int
  on_byte_recieved :: addr

record ps2 =
  is_present :: bool
  is_initialized :: bool
  is_dual_channel :: bool
  channel_1_ok :: bool
  channel_2_ok :: bool
  port1_device :: PS2_Device
  port2_device :: PS2_Device
  ps2_io :: io_trace

type_synonym 'a driver = "(ps2, 'a) state"

text \<open>Which of the two device variables a pointer points to.\<close>

datatype device_pointer = Port1_device | Port2_device

fun get_device :: "device_pointer \<Rightarrow> ps2 \<Rightarrow> PS2_Device" where
  "get_device Port1_device s = port1_device s"
| "get_device Port2_device s = port2_device s"

fun set_device :: "device_pointer \<Rightarrow> PS2_Device \<Rightarrow> ps2 \<Rightarrow> ps2" where
  "set_device Port1_device d s = s\<lparr>port1_device := d\<rparr>"
| "set_device Port2_device d s = s\<lparr>port2_device := d\<rparr>"

section \<open>Ports\<close>

definition ps2_out :: "u16 \<Rightarrow> u8 \<Rightarrow> unit driver" where
  "ps2_out port v = State_Monad.update (\<lambda>s. s\<lparr>ps2_io := out_byte port v (ps2_io s)\<rparr>)"

definition ps2_in :: "devices \<Rightarrow> u16 \<Rightarrow> u8 driver" where
  "ps2_in dv port = State (\<lambda>s. case in_byte dv port (ps2_io s) of (v, t) \<Rightarrow> (v, s\<lparr>ps2_io := t\<rparr>))"

definition ps2_wait :: "unit driver" where "ps2_wait = ps2_out 0 8"

section \<open>Waiting\<close>

text \<open>
  The status is read until it is no longer busy or the timer, which starts at \<open>n\<close>, has run down.
\<close>

primrec busy_wait :: "devices \<Rightarrow> (u8 \<Rightarrow> bool) \<Rightarrow> nat \<Rightarrow> unit driver" where
  "busy_wait dv busy 0 = State_Monad.return ()"
| "busy_wait dv busy (Suc n) = do {
     status \<leftarrow> ps2_in dv PORT_STATUS;
     if busy status \<and> n \<noteq> 0 then busy_wait dv busy n else State_Monad.return ()
   }"

definition wait_ps2_cmd :: "devices \<Rightarrow> int driver" where
  "wait_ps2_cmd dv = do {
     ps2_wait;
     busy_wait dv (\<lambda>status. status AND 2 \<noteq> 0) WAIT_TIME;
     status \<leftarrow> ps2_in dv PORT_STATUS;
     State_Monad.return (if status AND 2 \<noteq> 0 then ERROR_TIMEOUT else 0)
   }"

text \<open>
  The result type of \<open>wait_ps2_data\<close> is \<open>bool\<close>, so \<open>ERROR_TIMEOUT\<close> becomes \<open>true\<close>; its callers
  compare the result, an int again, with 0.
\<close>

definition wait_ps2_data :: "devices \<Rightarrow> int driver" where
  "wait_ps2_data dv = do {
     ps2_wait;
     busy_wait dv (\<lambda>status. status AND 1 = 0) WAIT_TIME;
     status \<leftarrow> ps2_in dv PORT_STATUS;
     State_Monad.return (of_bool ((if status AND 1 = 0 then ERROR_TIMEOUT else 0) \<noteq> 0))
   }"

section \<open>The controller\<close>

definition detect_ps2 :: "memory \<Rightarrow> addr \<Rightarrow> bool driver" where
  "detect_ps2 m fadt_ptr = do {
     let acpi_version = sdt_revision m fadt_ptr;
     (if acpi_version = 1 then State_Monad.update (\<lambda>s. s\<lparr>is_present := True\<rparr>)
     else if acpi_version > 1
     then State_Monad.update (\<lambda>s. s\<lparr>is_present := (boot_architecture_flags m fadt_ptr AND 2 \<noteq> 0)\<rparr>)
     else State_Monad.return ());
     s \<leftarrow> State_Monad.get;
     State_Monad.return (is_present s)
   }"

definition enable_port :: "devices \<Rightarrow> int \<Rightarrow> unit driver" where
  "enable_port dv port = do {
     let cmd = (if port = PORT_1 then CMD_ENABLE_PORT_1 else CMD_ENABLE_PORT_2);
     wait_ps2_cmd dv;
     ps2_out PORT_CMD cmd
   }"

definition disable_port :: "devices \<Rightarrow> int \<Rightarrow> unit driver" where
  "disable_port dv port = do {
     let cmd = (if port = PORT_1 then CMD_DISABLE_PORT_1 else CMD_DISABLE_PORT_2);
     wait_ps2_cmd dv;
     ps2_out PORT_CMD cmd
   }"

definition test_port :: "devices \<Rightarrow> int \<Rightarrow> bool driver" where
  "test_port dv port = do {
     let cmd = (if port = PORT_1 then CMD_TEST_PORT_1 else CMD_TEST_PORT_2);
     wait_ps2_cmd dv;
     ps2_out PORT_CMD cmd;
     wait_ps2_data dv;
     v \<leftarrow> ps2_in dv PORT_DATA;
     State_Monad.return (v = 0)
   }"

definition get_configuration :: "devices \<Rightarrow> u8 driver" where
  "get_configuration dv = do {
     wait_ps2_cmd dv;
     ps2_out PORT_CMD CMD_READ_RAM;
     wait_ps2_data dv;
     ps2_in dv PORT_DATA
   }"

definition write_configuration :: "devices \<Rightarrow> u8 \<Rightarrow> unit driver" where
  "write_configuration dv configuration = do {
     wait_ps2_cmd dv;
     ps2_out PORT_CMD CMD_WRITE_RAM;
     wait_ps2_cmd dv;
     ps2_out PORT_DATA configuration
   }"

definition ps2_configure :: "devices \<Rightarrow> u8 driver" where
  "ps2_configure dv = do {
     configuration \<leftarrow> get_configuration dv;
     let configuration = configuration AND NOT 1;
     let configuration = configuration AND NOT (push_bit 1 1);
     let configuration = configuration AND NOT (push_bit 6 1);
     write_configuration dv configuration;
     State_Monad.return configuration
   }"

definition perform_self_test :: "devices \<Rightarrow> bool driver" where
  "perform_self_test dv = do {
     wait_ps2_cmd dv;
     ps2_out PORT_CMD CMD_TEST_CONTROLLER;
     wait_ps2_data dv;
     v \<leftarrow> ps2_in dv PORT_DATA;
     State_Monad.return (v = 0x55)
   }"

definition enable_availiable_channels :: "devices \<Rightarrow> unit driver" where
  "enable_availiable_channels dv = do {
     s \<leftarrow> State_Monad.get;
     (if channel_1_ok s then enable_port dv PORT_1 else State_Monad.return ());
     s \<leftarrow> State_Monad.get;
     if channel_2_ok s then enable_port dv PORT_2 else State_Monad.return ()
   }"

text \<open>The flags are 0 or 1, so \<open>0x02 & channel_2_ok\<close> is 0.\<close>

definition enable_irqs :: "devices \<Rightarrow> unit driver" where
  "enable_irqs dv = do {
     configuration \<leftarrow> get_configuration dv;
     s \<leftarrow> State_Monad.get;
     let configuration = configuration OR (0x01 AND of_bool (channel_1_ok s));
     let configuration = configuration OR (0x02 AND of_bool (channel_2_ok s));
     write_configuration dv configuration
   }"

section \<open>The devices\<close>

definition ps2_send_byte :: "devices \<Rightarrow> int \<Rightarrow> u8 \<Rightarrow> int driver" where
  "ps2_send_byte dv port data = do {
     ok \<leftarrow> (if port = PORT_2
           then do {
             r \<leftarrow> wait_ps2_cmd dv;
             if r < 0 then State_Monad.return False
             else do { ps2_out PORT_CMD CMD_WRITE_INPUT_2; State_Monad.return True }
           }
           else State_Monad.return True);
     if \<not> ok then State_Monad.return ERROR_TIMEOUT
     else do {
       r \<leftarrow> wait_ps2_cmd dv;
       if r < 0 then State_Monad.return ERROR_TIMEOUT
       else do { ps2_out PORT_DATA data; State_Monad.return 0 }
     }
   }"

text \<open>These two have no return statement; only the effect is kept.\<close>

definition send_byte_port_1 :: "devices \<Rightarrow> u8 \<Rightarrow> unit driver" where
  "send_byte_port_1 dv data = do { ps2_send_byte dv PORT_1 data; State_Monad.return () }"

definition send_byte_port_2 :: "devices \<Rightarrow> u8 \<Rightarrow> unit driver" where
  "send_byte_port_2 dv data = do { ps2_send_byte dv PORT_2 data; State_Monad.return () }"

definition set_present :: "device_pointer \<Rightarrow> bool \<Rightarrow> unit driver" where
  "set_present d b = State_Monad.update (\<lambda>s. set_device d ((get_device d s)\<lparr>dev_present := b\<rparr>) s)"

text \<open>A byte is fetched and dropped when one has come.\<close>

definition drop_byte_if_ready :: "devices \<Rightarrow> unit driver" where
  "drop_byte_if_ready dv = do {
     r \<leftarrow> wait_ps2_data dv;
     if r \<ge> 0 then do { ps2_in dv PORT_DATA; State_Monad.return () } else State_Monad.return ()
   }"

definition detect_device :: "devices \<Rightarrow> device_pointer \<Rightarrow> int driver" where
  "detect_device dv d = do {
     set_present d False;
     s \<leftarrow> State_Monad.get;
     ps2_send_byte dv (dev_port (get_device d s)) DEVICE_RESET;
     r \<leftarrow> wait_ps2_data dv;
     if r < 0 then State_Monad.return ERROR_TIMEOUT
     else do {
       v \<leftarrow> ps2_in dv PORT_DATA;
       if v \<noteq> DEVICE_ACK then State_Monad.return ERROR_FAILURE
       else do {
         drop_byte_if_ready dv;
         drop_byte_if_ready dv;
         set_present d True;
         State_Monad.return 0
       }
     }
   }"

definition set_scanning :: "devices \<Rightarrow> device_pointer \<Rightarrow> bool \<Rightarrow> int driver" where
  "set_scanning dv d scan = do {
     s \<leftarrow> State_Monad.get;
     if \<not> dev_present (get_device d s) then State_Monad.return ERROR_NOT_PRESENT
     else do {
       let cmd = (if scan then DEVICE_ENABLE_SCAN else DEVICE_DISABLE_SCAN);
       wait_ps2_cmd dv;
       ps2_send_byte dv (dev_port (get_device d s)) cmd;
       r \<leftarrow> wait_ps2_data dv;
       if r < 0 then State_Monad.return ERROR_NOT_PRESENT
       else do {
         v \<leftarrow> ps2_in dv PORT_DATA;
         State_Monad.return (if v \<noteq> DEVICE_ACK then ERROR_FAILURE else 0)
       }
     }
   }"

definition read_byte_if_ready :: "devices \<Rightarrow> u8 \<Rightarrow> u8 driver" where
  "read_byte_if_ready dv junk = do {
     r \<leftarrow> wait_ps2_data dv;
     if r \<ge> 0 then ps2_in dv PORT_DATA else State_Monad.return junk
   }"

definition initialize_device :: "devices \<Rightarrow> u8 \<Rightarrow> u8 \<Rightarrow> device_pointer \<Rightarrow> int driver" where
  "initialize_device dv junk1 junk2 d = do {
     s \<leftarrow> State_Monad.get;
     if \<not> dev_present (get_device d s) then State_Monad.return ERROR_NOT_PRESENT
     else do {
       r \<leftarrow> wait_ps2_cmd dv;
       if r < 0 then State_Monad.return ERROR_TIMEOUT
       else do {
         ps2_send_byte dv (dev_port (get_device d s)) DEVICE_IDENTIFY;
         r \<leftarrow> wait_ps2_data dv;
         if r < 0 then State_Monad.return ERROR_TIMEOUT
         else do {
           v \<leftarrow> ps2_in dv PORT_DATA;
           if v \<noteq> DEVICE_ACK then State_Monad.return ERROR_FAILURE
           else do {
             byte_1 \<leftarrow> read_byte_if_ready dv junk1;
             byte_2 \<leftarrow> read_byte_if_ready dv junk2;
             State_Monad.update (\<lambda>s.
               set_device d ((get_device d s)\<lparr>dev_type := determine_device_type byte_1 byte_2\<rparr>) s);
             State_Monad.return 0
           }
         }
       }
     }
   }"

definition no_device :: "int \<Rightarrow> PS2_Device" where
  "no_device port = \<lparr>dev_port = port, dev_present = False, dev_type = NONE, dev_send_byte = port,
     on_byte_recieved = 0\<rparr>"

definition initialize_devices :: "devices \<Rightarrow> u8 \<Rightarrow> u8 \<Rightarrow> unit driver" where
  "initialize_devices dv junk1 junk2 = do {
     State_Monad.update (\<lambda>s. s\<lparr>port1_device := no_device PORT_1\<rparr>);
     State_Monad.update (\<lambda>s. s\<lparr>port2_device := no_device PORT_2\<rparr>);
     detect_device dv Port1_device;
     detect_device dv Port2_device;
     set_scanning dv Port1_device False;
     set_scanning dv Port2_device False;
     initialize_device dv junk1 junk2 Port1_device;
     initialize_device dv junk1 junk2 Port2_device;
     set_scanning dv Port1_device True;
     set_scanning dv Port2_device True;
     State_Monad.return ()
   }"

section \<open>Interrupts\<close>

text \<open>The handlers return the function called and its argument, if there is one.\<close>

definition port_interrupt :: "devices \<Rightarrow> device_pointer \<Rightarrow> (addr \<times> u8) option driver" where
  "port_interrupt dv d = do {
     byte \<leftarrow> ps2_in dv PORT_DATA;
     s \<leftarrow> State_Monad.get;
     State_Monad.return
       (let f = on_byte_recieved (get_device d s) in if f \<noteq> 0 then Some (f, byte) else None)
   }"

definition port_1_interrupt :: "devices \<Rightarrow> (addr \<times> u8) option driver" where
  "port_1_interrupt dv = port_interrupt dv Port1_device"

definition port_2_interrupt :: "devices \<Rightarrow> (addr \<times> u8) option driver" where
  "port_2_interrupt dv = port_interrupt dv Port2_device"

definition ps2_configured_ok :: "ps2 \<Rightarrow> bool" where
  "ps2_configured_ok s \<longleftrightarrow> is_present s \<and> is_initialized s"

section \<open>ps2_initialize\<close>

text \<open>
  The channels are tested and enabled. The statement in line 391 compares instead of assigning, so
  the second reading of the configuration has no effect.
\<close>

definition setup_channels :: "devices \<Rightarrow> u8 \<Rightarrow> unit driver" where
  "setup_channels dv configuration = do {
     write_configuration dv configuration;
     s \<leftarrow> State_Monad.get;
     (if is_dual_channel s
     then do {
       enable_port dv PORT_2;
       get_configuration dv;
       disable_port dv PORT_2
     }
     else State_Monad.return ());
     ok \<leftarrow> test_port dv PORT_1;
     State_Monad.update (\<lambda>s. s\<lparr>channel_1_ok := ok\<rparr>);
     ok \<leftarrow> test_port dv PORT_2;
     State_Monad.update (\<lambda>s. s\<lparr>channel_2_ok := ok\<rparr>);
     enable_availiable_channels dv
   }"

text \<open>The steps before, with the configuration written and the result of the self test.\<close>

definition prepare_controller :: "devices \<Rightarrow> (u8 \<times> bool) driver" where
  "prepare_controller dv = do {
     disable_port dv PORT_1;
     disable_port dv PORT_2;
     ps2_in dv PORT_DATA;
     configuration \<leftarrow> ps2_configure dv;
     State_Monad.update (\<lambda>s. s\<lparr>is_dual_channel := (configuration AND push_bit 5 1 \<noteq> 0)\<rparr>);
     passed \<leftarrow> perform_self_test dv;
     State_Monad.return (configuration, passed)
   }"

text \<open>All of it from the detection on; the result says whether the controller passed.\<close>

definition ps2_setup :: "devices \<Rightarrow> memory \<Rightarrow> addr \<Rightarrow> bool driver" where
  "ps2_setup dv m fadt_ptr = do {
     State_Monad.update (\<lambda>s. s\<lparr>is_present := False, is_initialized := False\<rparr>);
     present \<leftarrow> detect_ps2 m fadt_ptr;
     if \<not> present then State_Monad.return False
     else do {
       r \<leftarrow> prepare_controller dv;
       if \<not> snd r then State_Monad.return False
       else do { setup_channels dv (fst r); State_Monad.return True }
     }
   }"

text \<open>\<open>h1\<close> and \<open>h2\<close> are the addresses of the two interrupt handlers. \<open>None\<close>: no interrupt driver.\<close>

definition ps2_initialize ::
  "devices \<Rightarrow> u8 \<Rightarrow> u8 \<Rightarrow> memory \<Rightarrow> addr \<Rightarrow> addr \<Rightarrow> addr \<Rightarrow> ps2 \<Rightarrow> cpu \<Rightarrow> (ps2 \<times> cpu) option" where
  "ps2_initialize dv junk1 junk2 m fadt_ptr h1 h2 s c =
     (case run_state (ps2_setup dv m fadt_ptr) s of
        (passed, s) \<Rightarrow>
          if \<not> passed then Some (s, c)
          else let s = snd (run_state (initialize_devices dv junk1 junk2) s)
               in case irq_register_handler 1 h1 c of
                    None \<Rightarrow> None
                  | Some c \<Rightarrow>
                      case irq_register_handler 12 h2 c of
                        None \<Rightarrow> None
                      | Some c \<Rightarrow>
                          let s = snd (run_state (enable_irqs dv) s)
                          in Some (s\<lparr>is_initialized := True\<rparr>, c))"

end
