(* ===== verification/Ps2Properties.thy ===== *)
theory Ps2Properties
  imports Ps2 InterruptProperties
begin

text \<open>
  The waits of the PS/2 driver are bounded, and after the initialisation the configuration byte in
  the controller is known: what the driver's steps keep is proved program by program, with rules
  for the constructs of the state monad.
\<close>

section \<open>What a program keeps\<close>

definition keeps :: "('s \<Rightarrow> bool) \<Rightarrow> ('s, 'a) state \<Rightarrow> bool" where
  "keeps I p \<longleftrightarrow> (\<forall>s. I s \<longrightarrow> I (snd (run_state p s)))"

named_theorems keeps_rules \<open>what the constructs of the monad keep\<close>

lemma keepsD: "keeps I p \<Longrightarrow> I s \<Longrightarrow> I (snd (run_state p s))"
  by (simp add: keeps_def)

lemma keeps_return [keeps_rules]: "keeps I (State_Monad.return x)"
  by (simp add: keeps_def)

lemma keeps_get [keeps_rules]: "keeps I State_Monad.get"
  by (simp add: keeps_def)

lemma keeps_bind [keeps_rules]:
  assumes "keeps I p" "\<And>x. keeps I (f x)" shows "keeps I (p \<bind> f)"
  using assms by (auto simp: keeps_def split: prod.split)

lemma keeps_if [keeps_rules]: "(b \<Longrightarrow> keeps I p) \<Longrightarrow> (\<not> b \<Longrightarrow> keeps I q) \<Longrightarrow> keeps I (if b then p else q)"
  by simp

lemma run_update [simp]: "run_state (State_Monad.update f) s = ((), f s)"
  by (simp add: State_Monad.update_def)

lemma keeps_update: "(\<And>s. I s \<Longrightarrow> I (f s)) \<Longrightarrow> keeps I (State_Monad.update f)"
  by (simp add: keeps_def)

lemma keeps_busy_wait [keeps_rules]:
  assumes "keeps I (ps2_in dv PORT_STATUS)" shows "keeps I (busy_wait dv busy n)"
  by (induction n) (auto intro!: keeps_rules assms)

section \<open>Waiting\<close>

text \<open>The timer bounds the number of status reads of a wait.\<close>

lemma busy_wait_reads:
  "\<exists>k\<le>n. run_state (busy_wait dv busy n) s = ((), s\<lparr>ps2_io := replicate k (In_byte PORT_STATUS) @ ps2_io s\<rparr>)"
proof (induction n arbitrary: s)
  case (Suc n)
  let ?s = "s\<lparr>ps2_io := In_byte PORT_STATUS # ps2_io s\<rparr>"
  obtain k where k: "k \<le> n" "run_state (busy_wait dv busy n) ?s =
      ((), ?s\<lparr>ps2_io := replicate k (In_byte PORT_STATUS) @ ps2_io ?s\<rparr>)"
    using Suc by blast
  have one: "ps2_in dv PORT_STATUS = State (\<lambda>s. (ucast (dv (In_byte PORT_STATUS) (ps2_io s)),
      s\<lparr>ps2_io := In_byte PORT_STATUS # ps2_io s\<rparr>))"
    by (simp add: ps2_in_def in_byte_def)
  show ?case
  proof (cases "busy (ucast (dv (In_byte PORT_STATUS) (ps2_io s))) \<and> n \<noteq> 0")
    case True
    then have "run_state (busy_wait dv busy (Suc n)) s = run_state (busy_wait dv busy n) ?s"
      by (simp add: one)
    then show ?thesis using k by (intro exI [of _ "Suc k"]) (simp add: replicate_app_Cons_same)
  next
    case False
    then have "run_state (busy_wait dv busy (Suc n)) s = ((), ?s)" by (simp add: one)
    then show ?thesis by (intro exI [of _ 1]) simp
  qed
qed (intro exI [of _ 0], simp)

lemma wait_ps2_cmd_reads:
  "\<exists>k\<le>WAIT_TIME + 1. snd (run_state (wait_ps2_cmd dv) s) =
     s\<lparr>ps2_io := replicate k (In_byte PORT_STATUS) @ Out_byte 0 8 # ps2_io s\<rparr>"
proof -
  let ?s = "s\<lparr>ps2_io := Out_byte 0 8 # ps2_io s\<rparr>"
  obtain k where k: "k \<le> WAIT_TIME" "run_state (busy_wait dv (\<lambda>status. status AND 2 \<noteq> 0) WAIT_TIME) ?s =
      ((), ?s\<lparr>ps2_io := replicate k (In_byte PORT_STATUS) @ ps2_io ?s\<rparr>)"
    using busy_wait_reads by blast
  then show ?thesis
    by (intro exI [of _ "Suc k"])
      (simp add: wait_ps2_cmd_def ps2_wait_def ps2_out_def ps2_in_def in_byte_def out_byte_def)
qed

lemma wait_ps2_data_reads:
  "\<exists>k\<le>WAIT_TIME + 1. snd (run_state (wait_ps2_data dv) s) =
     s\<lparr>ps2_io := replicate k (In_byte PORT_STATUS) @ Out_byte 0 8 # ps2_io s\<rparr>"
proof -
  let ?s = "s\<lparr>ps2_io := Out_byte 0 8 # ps2_io s\<rparr>"
  obtain k where k: "k \<le> WAIT_TIME" "run_state (busy_wait dv (\<lambda>status. status AND 1 = 0) WAIT_TIME) ?s =
      ((), ?s\<lparr>ps2_io := replicate k (In_byte PORT_STATUS) @ ps2_io ?s\<rparr>)"
    using busy_wait_reads by blast
  then show ?thesis
    by (intro exI [of _ "Suc k"])
      (simp add: wait_ps2_data_def ps2_wait_def ps2_out_def ps2_in_def in_byte_def out_byte_def)
qed

text \<open>A timeout is \<open>true\<close>, not negative: no caller notices one.\<close>

lemma wait_ps2_data_not_negative: "0 \<le> fst (run_state (wait_ps2_data dv) s)"
  by (simp add: wait_ps2_data_def split: prod.split)

section \<open>The configuration byte\<close>

text \<open>
  What the controller has been told: the command that waits for a data byte or an answer, and the
  configuration byte written last, unknown before the first one and after a self test.
\<close>

fun ctl_cmd :: "io_trace \<Rightarrow> u8" where
  "ctl_cmd [] = 0"
| "ctl_cmd (Out_byte port v # t) = (if port = 0x64 then v else if port = 0x60 then 0 else ctl_cmd t)"
| "ctl_cmd (In_byte port # t) = (if port = 0x60 then 0 else ctl_cmd t)"
| "ctl_cmd (_ # t) = ctl_cmd t"

fun ctl_config :: "io_trace \<Rightarrow> u8 option" where
  "ctl_config [] = None"
| "ctl_config (Out_byte port v # t) =
     (if port = 0x60 \<and> ctl_cmd t = 0x60 then Some v
      else if port = 0x64 \<and> v = 0xAA then None else ctl_config t)"
| "ctl_config (_ # t) = ctl_config t"

text \<open>
  The contract: asked for its configuration byte, the controller gives back the interrupt and
  translation bits (0, 1 and 6) written last; bits 4 and 5 follow the commands for the ports.
\<close>

definition keeps_config :: "devices \<Rightarrow> bool" where
  "keeps_config dv \<longleftrightarrow> (\<forall>t c. ctl_cmd t = 0x20 \<longrightarrow> ctl_config t = Some c \<longrightarrow>
     (ucast (dv (In_byte 0x60) t) :: u8) AND 0x43 = c AND 0x43)"

text \<open>
  What the controller answers to its tests: \<open>0x55\<close> to the self test exactly when it passes, and 0 to
  the test of a port exactly when the port is in order.
\<close>

definition answers_tests :: "devices \<Rightarrow> bool \<Rightarrow> bool \<Rightarrow> bool \<Rightarrow> bool" where
  "answers_tests dv passes ok1 ok2 \<longleftrightarrow> (\<forall>t.
     (ctl_cmd t = 0xAA \<longrightarrow> ((ucast (dv (In_byte 0x60) t) :: u8) = 0x55 \<longleftrightarrow> passes)) \<and>
     (ctl_cmd t = 0xAB \<longrightarrow> ((ucast (dv (In_byte 0x60) t) :: u8) = 0 \<longleftrightarrow> ok1)) \<and>
     (ctl_cmd t = 0xA9 \<longrightarrow> ((ucast (dv (In_byte 0x60) t) :: u8) = 0 \<longleftrightarrow> ok2)))"

text \<open>
  A configuration byte with these bits is in force, no other is about to be written, and the flags
  of the two channels are \<open>ok\<close>.
\<close>

definition settled :: "u8 \<Rightarrow> bool \<times> bool \<Rightarrow> ps2 \<Rightarrow> bool" where
  "settled k ok s \<longleftrightarrow> (channel_1_ok s, channel_2_ok s) = ok \<and> ctl_cmd (ps2_io s) \<noteq> 0x60 \<and>
     (\<exists>c. ctl_config (ps2_io s) = Some c \<and> c AND 0x43 = k)"

lemmas port_defs = PORT_DATA_def PORT_STATUS_def PORT_CMD_def
lemmas command_defs = CMD_READ_RAM_def CMD_DISABLE_PORT_2_def CMD_ENABLE_PORT_2_def CMD_TEST_PORT_2_def
  CMD_TEST_PORT_1_def CMD_DISABLE_PORT_1_def CMD_ENABLE_PORT_1_def CMD_WRITE_INPUT_2_def

lemma settled_in [keeps_rules]: "keeps (settled k ok) (ps2_in dv port)"
  by (auto simp: keeps_def settled_def ps2_in_def in_byte_def)

lemma settled_data [keeps_rules]: "keeps (settled k ok) (ps2_out PORT_DATA v)"
  by (auto simp: settled_def ps2_out_def out_byte_def port_defs intro!: keeps_update)

lemma settled_cmd: "v \<noteq> 0x60 \<Longrightarrow> v \<noteq> 0xAA \<Longrightarrow> keeps (settled k ok) (ps2_out PORT_CMD v)"
  by (auto simp: settled_def ps2_out_def out_byte_def port_defs intro!: keeps_update)

lemma settled_commands [keeps_rules]:
  "keeps (settled k ok) (ps2_out PORT_CMD CMD_READ_RAM)"
  "keeps (settled k ok) (ps2_out PORT_CMD CMD_WRITE_INPUT_2)"
  "keeps (settled k ok) (ps2_out PORT_CMD (if b then CMD_ENABLE_PORT_1 else CMD_ENABLE_PORT_2))"
  "keeps (settled k ok) (ps2_out PORT_CMD (if b then CMD_DISABLE_PORT_1 else CMD_DISABLE_PORT_2))"
  "keeps (settled k ok) (ps2_out PORT_CMD (if b then CMD_TEST_PORT_1 else CMD_TEST_PORT_2))"
  by (rule settled_cmd; simp add: command_defs)+

lemma settled_wait [keeps_rules]: "keeps (settled k ok) ps2_wait"
  by (auto simp: settled_def ps2_wait_def ps2_out_def out_byte_def intro!: keeps_update)

lemma settled_set_device [keeps_rules]: "keeps (settled k ok) (State_Monad.update (\<lambda>s. set_device d (f s) s))"
  by (cases d) (auto simp: settled_def intro!: keeps_update)

lemma settled_programs [keeps_rules]:
  "keeps (settled k ok) (wait_ps2_cmd dv)"
  "keeps (settled k ok) (wait_ps2_data dv)"
  unfolding wait_ps2_cmd_def wait_ps2_data_def by (intro keeps_rules)+

lemma settled_ports [keeps_rules]:
  "keeps (settled k ok) (enable_port dv port)"
  "keeps (settled k ok) (disable_port dv port)"
  "keeps (settled k ok) (test_port dv port)"
  "keeps (settled k ok) (get_configuration dv)"
  "keeps (settled k ok) (ps2_send_byte dv port v)"
  "keeps (settled k ok) (drop_byte_if_ready dv)"
  "keeps (settled k ok) (read_byte_if_ready dv junk)"
  "keeps (settled k ok) (set_present d b)"
  unfolding enable_port_def disable_port_def test_port_def get_configuration_def ps2_send_byte_def
    drop_byte_if_ready_def read_byte_if_ready_def set_present_def Let_def
  by (intro keeps_rules)+

lemma settled_devices [keeps_rules]:
  "keeps (settled k ok) (detect_device dv d)"
  "keeps (settled k ok) (set_scanning dv d scan)"
  "keeps (settled k ok) (initialize_device dv junk1 junk2 d)"
  "keeps (settled k ok) (enable_availiable_channels dv)"
  unfolding detect_device_def set_scanning_def initialize_device_def enable_availiable_channels_def Let_def
  by (intro keeps_rules)+

lemma settled_initialize_devices: "keeps (settled k ok) (initialize_devices dv junk1 junk2)"
  unfolding initialize_devices_def
  by (intro keeps_rules keeps_update) (auto simp: settled_def)

section \<open>Writing and reading the configuration\<close>

lemma polls_ctl:
  "ctl_cmd (replicate k (In_byte PORT_STATUS) @ t) = ctl_cmd t"
  "ctl_config (replicate k (In_byte PORT_STATUS) @ t) = ctl_config t"
  by (induction k) (simp_all add: port_defs)

lemma wait_ps2_cmd_settles:
  assumes "run_state (wait_ps2_cmd dv) s = (r, s')"
  shows "ctl_cmd (ps2_io s') = ctl_cmd (ps2_io s) \<and> ctl_config (ps2_io s') = ctl_config (ps2_io s) \<and>
    channel_1_ok s' = channel_1_ok s \<and> channel_2_ok s' = channel_2_ok s"
  using assms wait_ps2_cmd_reads [of dv s] by (auto simp: polls_ctl)

lemma wait_ps2_data_settles:
  assumes "run_state (wait_ps2_data dv) s = (r, s')"
  shows "ctl_cmd (ps2_io s') = ctl_cmd (ps2_io s) \<and> ctl_config (ps2_io s') = ctl_config (ps2_io s) \<and>
    channel_1_ok s' = channel_1_ok s \<and> channel_2_ok s' = channel_2_ok s"
  using assms wait_ps2_data_reads [of dv s] by (auto simp: polls_ctl)

lemma write_configuration_settles:
  assumes "(channel_1_ok s, channel_2_ok s) = ok"
  shows "settled (v AND 0x43) ok (snd (run_state (write_configuration dv v) s))"
  using assms
  by (auto simp: write_configuration_def ps2_out_def out_byte_def settled_def port_defs CMD_WRITE_RAM_def
      dest!: wait_ps2_cmd_settles split: prod.split)

lemma get_configuration_settled:
  assumes "keeps_config dv" "settled k ok s" "run_state (get_configuration dv) s = (v, s')"
  shows "v AND 0x43 = k"
proof -
  obtain r1 s1 where s1: "run_state (wait_ps2_cmd dv) s = (r1, s1)" by fastforce
  let ?s2 = "s1\<lparr>ps2_io := Out_byte 0x64 0x20 # ps2_io s1\<rparr>"
  obtain r3 s3 where s3: "run_state (wait_ps2_data dv) ?s2 = (r3, s3)" by fastforce
  have v: "v = ucast (dv (In_byte 0x60) (ps2_io s3))"
    using assms(3) s1 s3
    by (simp add: get_configuration_def ps2_out_def ps2_in_def out_byte_def in_byte_def port_defs CMD_READ_RAM_def)
  have "ctl_cmd (ps2_io s3) = 0x20" "ctl_config (ps2_io s3) = ctl_config (ps2_io s)"
    using wait_ps2_cmd_settles [OF s1] wait_ps2_data_settles [OF s3] by simp_all
  with assms(1,2) show ?thesis unfolding v keeps_config_def settled_def by metis
qed

text \<open>The interrupt of the second port is never switched on: \<open>0x02 & 1\<close> is 0.\<close>

lemma irq_bits:
  assumes "v AND 0x43 = (0 :: u8)"
  shows "((v OR (0x01 AND of_bool a)) OR (0x02 AND of_bool b)) AND 0x43 = of_bool a"
  using assms by (cases a; cases b) (simp_all add: bit.conj_disj_distrib2)

lemma enable_irqs_settles:
  assumes "keeps_config dv" "settled 0 (ok, ok2) s"
  shows "settled (of_bool ok) (ok, ok2) (snd (run_state (enable_irqs dv) s))"
proof -
  obtain v s' where v: "run_state (get_configuration dv) s = (v, s')" by fastforce
  have "settled 0 (ok, ok2) s'" using keepsD [OF settled_ports(4) assms(2), of dv] v by simp
  then have ok: "(channel_1_ok s', channel_2_ok s') = (ok, ok2)" by (simp add: settled_def)
  have "v AND 0x43 = 0" by (rule get_configuration_settled [OF assms v])
  note bits = irq_bits [OF this, of ok ok2]
  let ?w = "(v OR (0x01 AND of_bool ok)) OR (0x02 AND of_bool ok2)"
  have "run_state (enable_irqs dv) s = run_state (write_configuration dv ?w) s'"
    using v ok by (simp only: enable_irqs_def Let_def run_state_bind run_state_get prod.case prod.inject)
  then show ?thesis using write_configuration_settles [OF ok, of ?w dv] unfolding bits by simp
qed

section \<open>The initialisation\<close>

text \<open>The answer to a test is what the test returns.\<close>

lemma perform_self_test_answer:
  assumes "answers_tests dv passes ok1 ok2" "run_state (perform_self_test dv) s = (r, s')" shows "r = passes"
proof -
  obtain r1 s1 where s1: "run_state (wait_ps2_cmd dv) s = (r1, s1)" by fastforce
  let ?s2 = "s1\<lparr>ps2_io := Out_byte 0x64 0xAA # ps2_io s1\<rparr>"
  obtain r3 s3 where s3: "run_state (wait_ps2_data dv) ?s2 = (r3, s3)" by fastforce
  have "ctl_cmd (ps2_io s3) = 0xAA" using wait_ps2_data_settles [OF s3] by simp
  then have "(ucast (dv (In_byte 0x60) (ps2_io s3)) :: u8) = 0x55 \<longleftrightarrow> passes"
    using assms(1) unfolding answers_tests_def by blast
  then show ?thesis
    using assms(2) s1 s3 by (simp add: perform_self_test_def ps2_out_def ps2_in_def out_byte_def in_byte_def
        port_defs CMD_TEST_CONTROLLER_def)
qed

lemma test_port_answer:
  assumes "answers_tests dv passes ok1 ok2" "run_state (test_port dv port) s = (r, s')"
  shows "r = (if port = PORT_1 then ok1 else ok2)"
proof -
  obtain r1 s1 where s1: "run_state (wait_ps2_cmd dv) s = (r1, s1)" by fastforce
  let ?c = "if port = PORT_1 then 0xAB else 0xA9"
  let ?s2 = "s1\<lparr>ps2_io := Out_byte 0x64 ?c # ps2_io s1\<rparr>"
  obtain r3 s3 where s3: "run_state (wait_ps2_data dv) ?s2 = (r3, s3)" by fastforce
  have "ctl_cmd (ps2_io s3) = ?c" using wait_ps2_data_settles [OF s3] by simp
  then have "(ucast (dv (In_byte 0x60) (ps2_io s3)) :: u8) = 0 \<longleftrightarrow> (if port = PORT_1 then ok1 else ok2)"
    using assms(1) unfolding answers_tests_def by (cases "port = PORT_1") auto
  then show ?thesis
    using assms(2) s1 s3
    by (cases "port = PORT_1") (simp_all add: test_port_def ps2_out_def ps2_in_def out_byte_def in_byte_def
        port_defs CMD_TEST_PORT_1_def CMD_TEST_PORT_2_def Let_def)
qed

text \<open>Testing a channel leaves the configuration and the flags of the channels alone.\<close>

lemma test_port_run:
  assumes "answers_tests dv passes ok1 ok2" "settled k ok s"
  obtains s' where "run_state (test_port dv port) s = ((if port = PORT_1 then ok1 else ok2), s')" "settled k ok s'"
proof -
  obtain r s' where r: "run_state (test_port dv port) s = (r, s')" by fastforce
  show thesis
  proof (rule that)
    show "run_state (test_port dv port) s = ((if port = PORT_1 then ok1 else ok2), s')"
      using r test_port_answer [OF assms(1) r] by simp
    show "settled k ok s'" using keepsD [OF settled_ports(3) assms(2), of dv port] r by simp
  qed
qed

lemma setup_channels_settles:
  assumes "answers_tests dv passes ok1 ok2"
  shows "settled (configuration AND 0x43) (ok1, ok2) (snd (run_state (setup_channels dv configuration) s))"
proof -
  let ?k = "configuration AND 0x43"
  obtain s1 where s1: "run_state (write_configuration dv configuration) s = ((), s1)"
    by (metis old.unit.exhaust surj_pair)
  let ?ok = "(channel_1_ok s, channel_2_ok s)"
  have k1: "settled ?k ?ok s1"
    using write_configuration_settles [OF refl, where v = configuration and dv = dv and s = s] s1 by auto
  let ?dual = "if is_dual_channel s1 then do { enable_port dv PORT_2; get_configuration dv; disable_port dv PORT_2 }
     else State_Monad.return ()"
  obtain s2 where s2: "run_state ?dual s1 = ((), s2)" by (metis old.unit.exhaust surj_pair)
  have "keeps (settled ?k ?ok) ?dual"
    by (intro keeps_bind keeps_if keeps_return settled_ports)
  from keepsD [OF this k1] have k2: "settled ?k ?ok s2" using s2 by simp
  obtain s3 where s3: "run_state (test_port dv PORT_1) s2 = (ok1, s3)" "settled ?k ?ok s3"
    using test_port_run [OF assms k2, of PORT_1] by auto
  let ?s3 = "s3\<lparr>channel_1_ok := ok1\<rparr>"
  have k3: "settled ?k (ok1, channel_2_ok s) ?s3" using s3(2) by (simp add: settled_def)
  obtain s4 where s4: "run_state (test_port dv PORT_2) ?s3 = (ok2, s4)" "settled ?k (ok1, channel_2_ok s) s4"
    using test_port_run [OF assms k3, of PORT_2] by (auto simp: PORT_1_def PORT_2_def)
  let ?s4 = "s4\<lparr>channel_2_ok := ok2\<rparr>"
  have "settled ?k (ok1, ok2) ?s4" using s4(2) by (simp add: settled_def)
  from keepsD [OF settled_devices(4) this, of dv] show ?thesis
    by (simp only: setup_channels_def run_state_bind run_state_get prod.case s1 s2 s3(1) s4(1) run_update)
qed

text \<open>Until the controller has passed its test nothing but the port trace and two flags changes.\<close>

definition untouched :: "ps2 \<Rightarrow> ps2 \<Rightarrow> bool" where
  "untouched s s' \<longleftrightarrow> \<not> is_initialized s' \<and> port1_device s' = port1_device s \<and>
     port2_device s' = port2_device s \<and> channel_1_ok s' = channel_1_ok s \<and> channel_2_ok s' = channel_2_ok s"

lemma untouched_io [keeps_rules]:
  "keeps (untouched s) (ps2_in dv port)" "keeps (untouched s) (ps2_out port v)" "keeps (untouched s) ps2_wait"
  by (auto simp: keeps_def untouched_def ps2_in_def in_byte_def ps2_out_def ps2_wait_def)

lemma untouched_wait [keeps_rules]:
  "keeps (untouched s) (wait_ps2_cmd dv)" "keeps (untouched s) (wait_ps2_data dv)"
  unfolding wait_ps2_cmd_def wait_ps2_data_def by (intro keeps_rules)+

lemma untouched_ports [keeps_rules]:
  "keeps (untouched s) (disable_port dv port)"
  "keeps (untouched s) (get_configuration dv)"
  "keeps (untouched s) (write_configuration dv v)"
  "keeps (untouched s) (perform_self_test dv)"
  unfolding disable_port_def get_configuration_def write_configuration_def perform_self_test_def Let_def
  by (intro keeps_rules)+

lemma untouched_configure [keeps_rules]: "keeps (untouched s) (ps2_configure dv)"
  unfolding ps2_configure_def Let_def by (intro keeps_rules)

lemma ps2_configure_bits:
  assumes "run_state (ps2_configure dv) s = (v, s')" shows "v AND 0x43 = 0"
proof -
  have "NOT 1 AND (NOT (push_bit 1 1) AND (NOT (push_bit 6 1) AND 0x43)) = (0 :: u8)" by simp
  then have "(((w AND NOT 1) AND NOT (push_bit 1 1)) AND NOT (push_bit 6 1)) AND 0x43 = 0" for w :: u8
    by (simp only: and.assoc and_zero_eq)
  then show ?thesis using assms by (auto simp: ps2_configure_def Let_def simp del: push_bit_numeral split: prod.splits)
qed

text \<open>The two flags that say how far the initialisation came are left alone by the rest.\<close>

definition flags_are :: "bool \<Rightarrow> bool \<Rightarrow> ps2 \<Rightarrow> bool" where
  "flags_are p i s \<longleftrightarrow> is_present s = p \<and> is_initialized s = i"

lemma flags_io [keeps_rules]:
  "keeps (flags_are p i) (ps2_in dv port)" "keeps (flags_are p i) (ps2_out port v)" "keeps (flags_are p i) ps2_wait"
  by (auto simp: keeps_def flags_are_def ps2_in_def in_byte_def ps2_out_def ps2_wait_def)

lemma flags_update [keeps_rules]:
  "keeps (flags_are p i) (State_Monad.update (\<lambda>s. set_device d (f s) s))"
  "keeps (flags_are p i) (State_Monad.update (\<lambda>s. s\<lparr>channel_1_ok := ok\<rparr>))"
  "keeps (flags_are p i) (State_Monad.update (\<lambda>s. s\<lparr>channel_2_ok := ok\<rparr>))"
  "keeps (flags_are p i) (State_Monad.update (\<lambda>s. s\<lparr>port1_device := x\<rparr>))"
  "keeps (flags_are p i) (State_Monad.update (\<lambda>s. s\<lparr>port2_device := x\<rparr>))"
  "keeps (flags_are p i) (State_Monad.update (\<lambda>s. s\<lparr>is_dual_channel := ok\<rparr>))"
  by (cases d) (auto simp: flags_are_def intro!: keeps_update)

lemma flags_wait [keeps_rules]:
  "keeps (flags_are p i) (wait_ps2_cmd dv)" "keeps (flags_are p i) (wait_ps2_data dv)"
  unfolding wait_ps2_cmd_def wait_ps2_data_def by (intro keeps_rules)+

lemma flags_ports [keeps_rules]:
  "keeps (flags_are p i) (enable_port dv port)" "keeps (flags_are p i) (disable_port dv port)"
  "keeps (flags_are p i) (test_port dv port)" "keeps (flags_are p i) (get_configuration dv)"
  "keeps (flags_are p i) (write_configuration dv v)" "keeps (flags_are p i) (perform_self_test dv)"
  "keeps (flags_are p i) (ps2_send_byte dv port v)" "keeps (flags_are p i) (drop_byte_if_ready dv)"
  "keeps (flags_are p i) (read_byte_if_ready dv junk)" "keeps (flags_are p i) (set_present d b)"
  unfolding enable_port_def disable_port_def test_port_def get_configuration_def write_configuration_def
    perform_self_test_def ps2_send_byte_def drop_byte_if_ready_def read_byte_if_ready_def set_present_def Let_def
  by (intro keeps_rules)+

lemma flags_programs [keeps_rules]:
  "keeps (flags_are p i) (ps2_configure dv)" "keeps (flags_are p i) (enable_availiable_channels dv)"
  "keeps (flags_are p i) (enable_irqs dv)" "keeps (flags_are p i) (detect_device dv d)"
  "keeps (flags_are p i) (set_scanning dv d scan)" "keeps (flags_are p i) (initialize_device dv junk1 junk2 d)"
  unfolding ps2_configure_def enable_availiable_channels_def enable_irqs_def detect_device_def
    set_scanning_def initialize_device_def Let_def
  by (intro keeps_rules)+

lemma flags_stages [keeps_rules]:
  "keeps (flags_are p i) (setup_channels dv v)" "keeps (flags_are p i) (initialize_devices dv junk1 junk2)"
  unfolding setup_channels_def initialize_devices_def by (intro keeps_rules)+

lemma prepare_keeps:
  "keeps (untouched s) (prepare_controller dv)" "keeps (flags_are p i) (prepare_controller dv)"
  unfolding prepare_controller_def
  by (intro keeps_rules keeps_update; simp add: untouched_def flags_are_def)+

lemma prepare_bits:
  "run_state (prepare_controller dv) s = ((v, passed), s') \<Longrightarrow> v AND 0x43 = 0"
  by (auto simp: prepare_controller_def dest!: ps2_configure_bits split: prod.splits)

lemma prepare_passed:
  assumes "answers_tests dv passes ok1 ok2" "run_state (prepare_controller dv) s = ((v, passed), s')"
  shows "passed = passes"
  using assms(2) by (auto simp: prepare_controller_def dest!: perform_self_test_answer [OF assms(1)] split: prod.splits)

text \<open>The controller is there: ACPI 1, or the flag of the FADT.\<close>

definition ps2_listed :: "memory \<Rightarrow> addr \<Rightarrow> bool" where
  "ps2_listed m fadt_ptr \<longleftrightarrow> sdt_revision m fadt_ptr = 1 \<or>
     1 < sdt_revision m fadt_ptr \<and> boot_architecture_flags m fadt_ptr AND 2 \<noteq> 0"

lemma run_detect:
  assumes "\<not> is_present s"
  shows "run_state (detect_ps2 m fadt_ptr) s = (ps2_listed m fadt_ptr, s\<lparr>is_present := ps2_listed m fadt_ptr\<rparr>)"
  using assms by (auto simp: detect_ps2_def ps2_listed_def Let_def)

lemma ps2_setup_cases:
  assumes "answers_tests dv passes ok1 ok2" "run_state (ps2_setup dv m fadt_ptr) s = (passed, s')"
  shows "(passed \<longleftrightarrow> ps2_listed m fadt_ptr \<and> passes) \<and>
    (if passed then is_present s' \<and> \<not> is_initialized s' \<and> settled 0 (ok1, ok2) s' else untouched s s')"
proof -
  let ?p = "ps2_listed m fadt_ptr"
  let ?s = "s\<lparr>is_initialized := False, is_present := ?p\<rparr>"
  have s: "untouched s ?s" "flags_are ?p False ?s" by (simp_all add: untouched_def flags_are_def)
  obtain v ok t where t: "run_state (prepare_controller dv) ?s = ((v, ok), t)" by (metis surj_pair)
  have ok: "ok = passes" by (rule prepare_passed [OF assms(1) t])
  have kt: "untouched s t" "flags_are ?p False t"
    using keepsD [OF prepare_keeps(1) s(1), of dv] keepsD [OF prepare_keeps(2) s(2), of dv] t by simp_all
  let ?u = "snd (run_state (setup_channels dv v) t)"
  have u: "flags_are ?p False ?u" "settled 0 (ok1, ok2) ?u"
    using keepsD [OF flags_stages(1) kt(2), of dv v] setup_channels_settles [OF assms(1), of v t]
    unfolding prepare_bits [OF t] by simp_all
  have "run_state (ps2_setup dv m fadt_ptr) s =
      (if \<not> ?p then (False, ?s) else if \<not> ok then (False, t) else (True, ?u))"
    using t run_detect [of "s\<lparr>is_present := False, is_initialized := False\<rparr>" m fadt_ptr]
    by (cases ?p) (auto simp: ps2_setup_def split: prod.splits)
  with assms(2) s kt u ok show ?thesis by (auto simp: flags_are_def split: if_splits)
qed

text \<open>The driver works: the controller is listed in the FADT and passes its self test.\<close>

lemma ps2_initialize_correct:
  assumes "keeps_config dv" "answers_tests dv passes ok1 ok2" "pic_driver c"
  shows "\<exists>s' c'. ps2_initialize dv junk1 junk2 m fadt_ptr h1 h2 s c = Some (s', c') \<and>
    (if ps2_listed m fadt_ptr \<and> passes
     then ps2_configured_ok s' \<and> channel_1_ok s' = ok1 \<and> channel_2_ok s' = ok2 \<and>
       register_all [(1, h1), (12, h2)] c = Some c' \<and>
       (\<exists>v. ctl_config (ps2_io s') = Some v \<and> v AND 0x43 = of_bool ok1)
     else \<not> ps2_configured_ok s' \<and> \<not> is_initialized s' \<and> c' = c \<and> port1_device s' = port1_device s \<and>
       port2_device s' = port2_device s)"
proof -
  obtain passed t where t: "run_state (ps2_setup dv m fadt_ptr) s = (passed, t)" by fastforce
  note cases = ps2_setup_cases [OF assms(2) t]
  show ?thesis
  proof (cases passed)
    case False
    then show ?thesis using t cases by (auto simp: ps2_initialize_def untouched_def ps2_configured_ok_def)
  next
    case True
    then have ok: "flags_are True False t" "settled 0 (ok1, ok2) t" "ps2_listed m fadt_ptr \<and> passes"
      using cases by (auto simp: flags_are_def)
    let ?u = "snd (run_state (initialize_devices dv junk1 junk2) t)"
    let ?v = "snd (run_state (enable_irqs dv) ?u)"
    have u: "flags_are True False ?u" "settled 0 (ok1, ok2) ?u"
      using keepsD [OF flags_stages(2) ok(1)] keepsD [OF settled_initialize_devices ok(2)] by simp_all
    have v: "flags_are True False ?v" "settled (of_bool ok1) (ok1, ok2) ?v"
      using keepsD [OF flags_programs(3) u(1)] enable_irqs_settles [OF assms(1) u(2)] by simp_all
    obtain c' where c': "register_all [(1, h1), (12, h2)] c = Some c'"
      using assms(3) by (auto simp: irq_register_handler_def)
    then have "ps2_initialize dv junk1 junk2 m fadt_ptr h1 h2 s c = Some (?v\<lparr>is_initialized := True\<rparr>, c')"
      using True t by (auto simp: ps2_initialize_def Let_def split: option.splits)
    then show ?thesis using v c' ok(3) by (auto simp: ps2_configured_ok_def flags_are_def settled_def)
  qed
qed

text \<open>
  C26: the initialisation of the PS/2 controller ends, however long the controller is busy and
  whatever is attached to it. If the controller is not listed in the FADT (\<open>ps2_listed\<close>) or does not
  answer its self test with \<open>0x55\<close>, no handler is registered, the devices are as before and the
  driver says that it does not work. Otherwise it works, the flag of each channel is set exactly when
  the controller answered 0 to the test of that port, lines 1 and 12 have their handlers, and the
  configuration byte left in a controller that keeps its bits has translation off, the interrupt of
  the first port on exactly when its test passed, and the interrupt of the second port off even when
  its test passed.
\<close>

theorem ps2_initialize_configures:
  assumes "keeps_config dv" "answers_tests dv passes ok1 ok2" "pic_driver c"
  shows "\<exists>s' c'. ps2_initialize dv junk1 junk2 m fadt_ptr h1 h2 s c = Some (s', c') \<and>
    (if ps2_listed m fadt_ptr \<and> passes
     then ps2_configured_ok s' \<and> channel_1_ok s' = ok1 \<and> channel_2_ok s' = ok2 \<and>
       register_all [(1, h1), (12, h2)] c = Some c' \<and>
       (\<exists>v. ctl_config (ps2_io s') = Some v \<and> v AND 0x43 = of_bool ok1)
     else \<not> ps2_configured_ok s' \<and> \<not> is_initialized s' \<and> c' = c \<and> port1_device s' = port1_device s \<and>
       port2_device s' = port2_device s)"
  using assms by (rule ps2_initialize_correct)

text \<open>
  A controller that is always ready, passes its tests and keeps its configuration byte, on a machine
  whose FADT is of the first version and whose PCI bus is empty.
\<close>

definition good_controller :: devices where
  "good_controller ev t =
     (if ev = In_byte 0x64 then 1
      else if ev = In_double 0xCFC then 0xFFFFFFFF
     else if ev \<noteq> In_byte 0x60 then 0
      else if ctl_cmd t = 0xAA then 0x55
      else if ctl_cmd t = 0x20 then (case ctl_config t of Some c \<Rightarrow> ucast c | None \<Rightarrow> 0)
      else 0)"

lemma byte_double [simp]: "ucast (ucast c :: u32) = (c :: u8)"
  by (rule bit_word_eqI) (auto simp: bit_simps)

lemma good_keeps_config: "keeps_config good_controller"
  by (simp add: keeps_config_def good_controller_def)

lemma good_answers: "answers_tests good_controller True True True"
  by (simp add: answers_tests_def good_controller_def)

definition ps2_boot :: ps2 where
  "ps2_boot = \<lparr>is_present = False, is_initialized = False, is_dual_channel = False, channel_1_ok = False,
     channel_2_ok = False, port1_device = no_device 0, port2_device = no_device 0, ps2_io = []\<rparr>"

theorem ps2_initialize_configures_witness:
  "\<exists>s' c' v. ps2_initialize good_controller 0 0 (\<lambda>a. 1) 0 0x1000 0x2000 ps2_boot
       (reset_cpu\<lparr>pic_driver := True\<rparr>) = Some (s', c') \<and>
     ps2_configured_ok s' \<and> channel_1_ok s' \<and> channel_2_ok s' \<and>
     ctl_config (ps2_io s') = Some v \<and> v AND 0x43 = 1"
proof -
  have d: "ps2_listed (\<lambda>a. 1) 0" "pic_driver (reset_cpu\<lparr>pic_driver := True\<rparr>)"
    by (simp_all add: ps2_listed_def sdt_revision_def)
  show ?thesis
    using ps2_initialize_configures [OF good_keeps_config good_answers d(2),
        of 0 0 "\<lambda>a. 1" 0 "0x1000" "0x2000" ps2_boot] d(1) by auto
qed

end
