(* ===== verification/PciProperties.thy ===== *)
theory PciProperties
  imports Pci HeapRoom
begin

text \<open>
  The scan refines an enumeration of the functions reachable from a bus: it ends when bridges lead
  to higher buses, and with enough memory \<open>device_list\<close> then holds exactly the functions
  enumerated, the last one first.
\<close>

section \<open>The configuration space\<close>

text \<open>
  The contract of the two ports: after an address was written the data port gives the register at
  that address.
\<close>

definition pci_answers :: "devices \<Rightarrow> (u32 \<Rightarrow> u32) \<Rightarrow> bool" where
  "pci_answers dv cs \<longleftrightarrow> (\<forall>a t. dv (In_double 0xCFC) (Out_double 0xCF8 a # t) = cs a)"

definition config_reg :: "(u32 \<Rightarrow> u32) \<Rightarrow> u8 \<Rightarrow> u8 \<Rightarrow> u8 \<Rightarrow> u8 \<Rightarrow> u32" where
  "config_reg cs b d f off = signed_drop_bit (unat (off AND 0x3) * 8) (cs (config_address b d f off))"

definition is_there :: "(u32 \<Rightarrow> u32) \<Rightarrow> u8 \<Rightarrow> u8 \<Rightarrow> u8 \<Rightarrow> bool" where
  "is_there cs b d f \<longleftrightarrow> (ucast (config_reg cs b d f VENDOR_ID) :: u16) \<noteq> 0xFFFF"

definition class_of :: "(u32 \<Rightarrow> u32) \<Rightarrow> u8 \<Rightarrow> u8 \<Rightarrow> u8 \<Rightarrow> u8 \<times> u8" where
  "class_of cs b d f = (ucast (config_reg cs b d f CLASS), ucast (config_reg cs b d f SUBCLASS))"

definition secondary :: "(u32 \<Rightarrow> u32) \<Rightarrow> u8 \<Rightarrow> u8 \<Rightarrow> u8 \<Rightarrow> u8" where
  "secondary cs b d f = ucast (config_reg cs b d f SECONDARY_BUS)"

definition many_functions :: "(u32 \<Rightarrow> u32) \<Rightarrow> u8 \<Rightarrow> u8 \<Rightarrow> bool" where
  "many_functions cs b d \<longleftrightarrow> (ucast (config_reg cs b d 0 HEADER_TYPE) :: u8) AND 0x80 \<noteq> 0"

text \<open>Bridges lead to higher buses, which is how buses are numbered.\<close>

definition bridges_go_up :: "(u32 \<Rightarrow> u32) \<Rightarrow> bool" where
  "bridges_go_up cs \<longleftrightarrow> (\<forall>b d f. class_of cs b d f = (6, 4) \<longrightarrow> b < secondary cs b d f)"

section \<open>The enumeration\<close>

text \<open>The functions in the order in which they are reported; \<open>sub\<close> enumerates the bus of a bridge.\<close>

definition enum_function :: "(u8 \<Rightarrow> pci_device list) \<Rightarrow> (u32 \<Rightarrow> u32) \<Rightarrow> u8 \<Rightarrow> u8 \<Rightarrow> u8 \<Rightarrow> pci_device list" where
  "enum_function sub cs b d f =
     (if class_of cs b d f = (6, 4) then sub (secondary cs b d f) else []) @ [(b, d, f, class_of cs b d f)]"

definition enum_functions ::
  "(u8 \<Rightarrow> pci_device list) \<Rightarrow> (u32 \<Rightarrow> u32) \<Rightarrow> u8 \<Rightarrow> u8 \<Rightarrow> u8 list \<Rightarrow> pci_device list" where
  "enum_functions sub cs b d fs = concat (map (enum_function sub cs b d) (filter (is_there cs b d) fs))"

definition enum_device :: "(u8 \<Rightarrow> pci_device list) \<Rightarrow> (u32 \<Rightarrow> u32) \<Rightarrow> u8 \<Rightarrow> u8 \<Rightarrow> pci_device list" where
  "enum_device sub cs b d =
     (if \<not> is_there cs b d 0 then []
      else enum_functions sub cs b d (if many_functions cs b d then [0, 1, 2, 3, 4, 5, 6, 7] else [0]))"

primrec enum_bus :: "(u32 \<Rightarrow> u32) \<Rightarrow> nat \<Rightarrow> u8 \<Rightarrow> pci_device list" where
  "enum_bus cs 0 b = []"
| "enum_bus cs (Suc n) b = concat (map (enum_device (enum_bus cs n) cs b) (map of_nat [0..<32]))"

section \<open>The list of devices\<close>

text \<open>
  \<open>device_list\<close> holds the devices \<open>ds\<close>, and there is a run of \<open>k\<close> free bytes.
\<close>

definition devices_are :: "pci_device list \<Rightarrow> nat \<Rightarrow> pci \<Rightarrow> bool" where
  "devices_are ds k s \<longleftrightarrow>
     (\<exists>ps F U D. list_rep (pci_heap s) (device_list s) ps F U \<and> D \<inter> (F \<union> U) = {} \<and> room F k \<and>
        (\<forall>p\<in>set ps. region p 5 \<subseteq> D) \<and> map (pci_device_at (hmem (pci_heap s))) ps = ds)"

lemma pci_device_cong:
  assumes "\<And>x. x \<in> region p 5 \<Longrightarrow> m' x = m x" shows "pci_device_at m' p = pci_device_at m p"
proof -
  have "m' (p + i) = m (p + i)" if "unat i < 5" for i using assms region_offset [OF that] by simp
  from this [of 0] this [of 1] this [of 2] this [of 3] this [of 4] show ?thesis
    by (simp add: pci_device_at_def)
qed

lemma set_pci_device_frame: "unchanged_outside (region p 5) m (set_pci_device m p d)"
proof -
  have "p + i \<in> region p 5" if "unat i < 5" for i using region_offset [OF that] by simp
  from this [of 0] this [of 1] this [of 2] this [of 3] this [of 4] show ?thesis
    by (cases d) (auto simp: unchanged_outside_def)
qed

lemma set_pci_device_get: "pci_device_at (set_pci_device m p d) p = d"
proof -
  have "p + 1 \<noteq> p" "p + 2 \<noteq> p" "p + 3 \<noteq> p" "p + 4 \<noteq> p" by simp_all
  then show ?thesis by (cases d) (simp add: pci_device_at_def)
qed

lemma devices_io [simp]: "devices_are ds k (s\<lparr>pci_io := t\<rparr>) = devices_are ds k s"
  by (simp add: devices_are_def)

lemma add_device_correct:
  assumes "devices_are ds k s" "67 \<le> k"
  obtains s' where "add_device d s = Some (Inr s')" "devices_are (d # ds) (k - 67) s'"
proof -
  obtain ps F U D where a: "list_rep (pci_heap s) (device_list s) ps F U" "D \<inter> (F \<union> U) = {}" "room F k"
    "\<forall>p\<in>set ps. region p 5 \<subseteq> D" "map (pci_device_at (hmem (pci_heap s))) ps = ds"
    using assms(1) unfolding devices_are_def by blast
  have ok: "heap_ok (pci_heap s) F" "U \<inter> F = {}"
    "chain heap_owned list_layout (hmem (pci_heap s)) (device_list s) (map (\<lambda>v. [v]) ps) 0 U"
    using a(1) by (simp_all add: list_rep_def)
  have n: "sizeof_PCI_Device \<noteq> 0" "unat sizeof_PCI_Device + 135 < 2 ^ 32" "unat sizeof_PCI_Device = 5"
    by (simp_all add: sizeof_PCI_Device_def)
  obtain p h1 B where al: "malloc (pci_heap s) sizeof_PCI_Device = Some (p, h1)" "p \<noteq> 0" "B \<subseteq> F"
    "heap_ok h1 (F - B)" "heap_owned (hmem h1) p sizeof_PCI_Device B"
    "unchanged_outside F (hmem (pci_heap s)) (hmem h1)" "room (F - B) (k - 32)"
    using malloc_room [OF ok(1) a(3) n(1,2)] n(3) assms(2) by auto
  let ?m = "set_pci_device (hmem h1) p d"
  let ?h2 = "heap_write ?m h1"
  have p: "region p 5 \<subseteq> B" using heap_owned_region [OF al(5)] n(3) by simp
  have un: "unchanged_outside (region p 5) (hmem h1) ?m" by (rule set_pci_device_frame)
  have un2: "unchanged_outside F (hmem (pci_heap s)) ?m"
    using unchanged_trans [OF al(6) unchanged_mono [OF un]] p al(3) by blast
  have ok2: "heap_ok ?h2 (F - B)"
    by (rule kheap.write_block_ok [OF al(4) _ unchanged_mono [OF un p]]) blast
  have chain2: "chain heap_owned list_layout ?m (device_list s) (map (\<lambda>v. [v]) ps) 0 U"
    using kheap.chain_frame [OF list_layout_ok ok(3) un2] ok(2) by blast
  have rep2: "list_rep ?h2 (device_list s) ps (F - B) U"
    using ok2 chain2 ok(2) by (auto simp: list_rep_def heap_write_def)
  obtain head' h3 F' U' where r: "list_add_head ?h2 (device_list s) p = Some (0, head', h3)"
    "list_rep h3 head' (p # ps) F' U'" "F' \<union> U' = (F - B) \<union> U" "unchanged_outside (F - B) (hmem ?h2) (hmem h3)"
    "room F' (k - 32 - 35)"
    by (rule list_add_head_room [OF rep2 al(7), of p]) (use assms(2) in simp, rule that)
  have m3: "hmem h3 x = ?m x" if "x \<in> B \<union> D" for x
    using unchangedD [OF r(4)] that a(2) by (auto simp: heap_write_def)
  have "pci_device_at (hmem h3) p = d"
    using pci_device_cong [of p "hmem h3" ?m] m3 p set_pci_device_get by auto
  moreover have "pci_device_at (hmem h3) q = pci_device_at (hmem (pci_heap s)) q" if "q \<in> set ps" for q
  proof (rule pci_device_cong)
    fix x assume "x \<in> region q 5"
    then have x: "x \<in> D" using a(4) that by blast
    then have "x \<notin> F" using a(2) by blast
    then show "hmem h3 x = hmem (pci_heap s) x" using m3 [of x] x unchangedD [OF un2] by simp
  qed
  ultimately have "map (pci_device_at (hmem h3)) (p # ps) = d # ds" using a(5) by auto
  moreover have "(B \<union> D) \<inter> (F' \<union> U') = {}" using r(3) a(2) al(3) ok(2) by blast
  moreover have "\<forall>q\<in>set (p # ps). region q 5 \<subseteq> B \<union> D" using p a(4) by auto
  moreover have "room F' (k - 67)" using r(5) by (rule room_mono) simp
  ultimately have "devices_are (d # ds) (k - 67) (s\<lparr>pci_heap := h3, device_list := head'\<rparr>)"
    using r(2) unfolding devices_are_def by (intro exI [of _ "p # ps"] exI conjI) simp_all
  moreover have "add_device d s = Some (Inr (s\<lparr>pci_heap := h3, device_list := head'\<rparr>))"
    using al(1,2) r(1) by (simp add: add_device_def)
  ultimately show thesis using that by blast
qed

section \<open>What a part of the scan finds\<close>

text \<open>With enough memory \<open>f\<close> puts the devices \<open>es\<close> in front of those found before.\<close>

definition finds :: "(pci \<Rightarrow> pci_result) \<Rightarrow> pci_device list \<Rightarrow> bool" where
  "finds f es \<longleftrightarrow> (\<forall>s ds k. devices_are ds k s \<longrightarrow> 67 * length es \<le> k \<longrightarrow>
     (\<exists>s'. f s = Some (Inr s') \<and> devices_are (rev es @ ds) (k - 67 * length es) s'))"

lemma finds_nothing: "finds (\<lambda>s. Some (Inr s)) []"
  by (simp add: finds_def)

lemma finds_io: "finds g es \<Longrightarrow> (\<And>s. \<exists>t. f s = g (s\<lparr>pci_io := t\<rparr>)) \<Longrightarrow> finds f es"
  unfolding finds_def by (metis devices_io)

lemma findsD:
  assumes "finds f es" "devices_are ds k s" "67 * length es \<le> k"
  obtains s' where "f s = Some (Inr s')" "devices_are (rev es @ ds) (k - 67 * length es) s'"
  using assms unfolding finds_def by blast

lemma finds_then:
  assumes "finds f es" "finds g es'" shows "finds (\<lambda>s. pci_and_then (f s) g) (es @ es')"
  unfolding finds_def
proof (intro allI impI)
  fix s ds k assume s: "devices_are ds k s" "67 * length (es @ es') \<le> k"
  then have le: "67 * length es \<le> k" "67 * length es' \<le> k - 67 * length es" by simp_all
  obtain s1 where s1: "f s = Some (Inr s1)" "devices_are (rev es @ ds) (k - 67 * length es) s1"
    by (rule findsD [OF assms(1) s(1) le(1)])
  obtain s2 where "g s1 = Some (Inr s2)"
    "devices_are (rev es' @ rev es @ ds) (k - 67 * length es - 67 * length es') s2"
    by (rule findsD [OF assms(2) s1(2) le(2)])
  then show "\<exists>s'. pci_and_then (f s) g = Some (Inr s') \<and>
      devices_are (rev (es @ es') @ ds) (k - 67 * length (es @ es')) s'"
    using s1(1) by (simp add: pci_and_then_def algebra_simps)
qed

lemma finds_device: "finds (add_device d) [d]"
  unfolding finds_def
proof (intro allI impI)
  fix s ds k assume "devices_are ds k s" "67 * length [d] \<le> k"
  then obtain s' where "add_device d s = Some (Inr s')" "devices_are (d # ds) (k - 67) s'"
    using add_device_correct by (metis One_nat_def length_Cons list.size(3) mult.right_neutral)
  then show "\<exists>s'. add_device d s = Some (Inr s') \<and> devices_are (rev [d] @ ds) (k - 67 * length [d]) s'"
    by simp
qed

text \<open>A register is read.\<close>

lemma pci_read_answers:
  assumes "pci_answers dv cs"
  shows "pci_read dv b d f off s = (config_reg cs b d f off,
    s\<lparr>pci_io := In_double 0xCFC # Out_double 0xCF8 (config_address b d f off) # pci_io s\<rparr>)"
  using assms by (simp add: pci_read_def config_read_reg_def config_reg_def pci_answers_def port_simps
      PORT_CONFIG_ADDR_def PORT_CONFIG_DATA_def Let_def)

lemma check_function_run:
  assumes "pci_answers dv cs"
  shows "\<exists>t. check_function scan dv b d f s = pci_and_then
    ((if class_of cs b d f = (6, 4) then scan (secondary cs b d f) else (\<lambda>s. Some (Inr s))) (s\<lparr>pci_io := t\<rparr>))
    (add_device (b, d, f, class_of cs b d f))"
  by (cases "class_of cs b d f = (6, 4)")
    (auto simp: check_function_def pci_read_answers [OF assms] Let_def class_of_def secondary_def)

lemma scan_functions_run:
  assumes "pci_answers dv cs"
  shows "\<exists>t. scan_functions scan dv b d (f # fs) s = pci_and_then
    ((if is_there cs b d f then check_function scan dv b d f else (\<lambda>s. Some (Inr s))) (s\<lparr>pci_io := t\<rparr>))
    (scan_functions scan dv b d fs)"
  by (auto simp: pci_read_answers [OF assms] is_there_def Let_def)

lemma check_function_finds:
  assumes "pci_answers dv cs" "class_of cs b d f = (6, 4) \<Longrightarrow> finds (scan (secondary cs b d f)) (sub (secondary cs b d f))"
  shows "finds (check_function scan dv b d f) (enum_function sub cs b d f)"
  unfolding enum_function_def
proof (rule finds_io [OF finds_then [OF _ finds_device] check_function_run [OF assms(1)]])
  show "finds (if class_of cs b d f = (6, 4) then scan (secondary cs b d f) else (\<lambda>s. Some (Inr s)))
      (if class_of cs b d f = (6, 4) then sub (secondary cs b d f) else [])"
    using assms(2) finds_nothing by simp
qed

lemma scan_functions_find:
  assumes "pci_answers dv cs"
    "\<And>f. class_of cs b d f = (6, 4) \<Longrightarrow> finds (scan (secondary cs b d f)) (sub (secondary cs b d f))"
  shows "finds (scan_functions scan dv b d fs) (enum_functions sub cs b d fs)"
proof (induction fs)
  case Nil
  then show ?case using finds_nothing by (simp add: enum_functions_def)
next
  case (Cons f fs)
  have step: "finds (check_function scan dv b d f) (enum_function sub cs b d f)"
    by (rule check_function_finds [where cs = cs]) (use assms in auto)
  have "finds (scan_functions scan dv b d (f # fs))
      ((if is_there cs b d f then enum_function sub cs b d f else []) @ enum_functions sub cs b d fs)"
  proof (rule finds_io [OF finds_then [OF _ Cons] scan_functions_run [OF assms(1)]])
    show "finds (if is_there cs b d f then check_function scan dv b d f else (\<lambda>s. Some (Inr s)))
        (if is_there cs b d f then enum_function sub cs b d f else [])"
      using step finds_nothing by simp
  qed
  then show ?case
    by (cases "is_there cs b d f") (simp_all add: enum_functions_def del: scan_functions.simps)
qed

lemma scan_device_run:
  assumes "pci_answers dv cs" "is_there cs b d 0"
  shows "\<exists>t. scan_device scan dv b d s = pci_and_then (check_function scan dv b d 0 (s\<lparr>pci_io := t\<rparr>))
    (\<lambda>s. (if many_functions cs b d then scan_functions scan dv b d [1, 2, 3, 4, 5, 6, 7] else (\<lambda>s. Some (Inr s)))
       (s\<lparr>pci_io := In_double 0xCFC # Out_double 0xCF8 (config_address b d 0 HEADER_TYPE) # pci_io s\<rparr>))"
  using assms(2)
  by (cases "many_functions cs b d")
    (auto simp: scan_device_def pci_read_answers [OF assms(1)] is_there_def many_functions_def Let_def
      simp del: scan_functions.simps)

lemma scan_device_finds:
  assumes "pci_answers dv cs"
    "\<And>f. class_of cs b d f = (6, 4) \<Longrightarrow> finds (scan (secondary cs b d f)) (sub (secondary cs b d f))"
  shows "finds (scan_device scan dv b d) (enum_device sub cs b d)"
proof (cases "is_there cs b d 0")
  case False
  have "finds (scan_device scan dv b d) []"
    using False by (intro finds_io [OF finds_nothing])
      (auto simp: scan_device_def pci_read_answers [OF assms(1)] is_there_def Let_def)
  with False show ?thesis by (simp add: enum_device_def)
next
  case True
  let ?more = "if many_functions cs b d then [1, 2, 3, 4, 5, 6, 7] else []"
  have first: "finds (check_function scan dv b d 0) (enum_function sub cs b d 0)"
    by (rule check_function_finds [where cs = cs]) (use assms in auto)
  have "finds (scan_functions scan dv b d ?more) (enum_functions sub cs b d ?more)"
    by (rule scan_functions_find [where cs = cs]) (use assms in auto)
  then have "finds (if many_functions cs b d then scan_functions scan dv b d [1, 2, 3, 4, 5, 6, 7]
      else (\<lambda>s. Some (Inr s))) (enum_functions sub cs b d ?more)"
    using finds_nothing by (cases "many_functions cs b d") (simp_all add: enum_functions_def del: scan_functions.simps)
  then have "finds (\<lambda>s. (if many_functions cs b d then scan_functions scan dv b d [1, 2, 3, 4, 5, 6, 7]
       else (\<lambda>s. Some (Inr s)))
         (s\<lparr>pci_io := In_double 0xCFC # Out_double 0xCF8 (config_address b d 0 HEADER_TYPE) # pci_io s\<rparr>))
      (enum_functions sub cs b d ?more)"
    by (rule finds_io) blast
  from finds_io [OF finds_then [OF first this] scan_device_run [OF assms(1) True]]
  have "finds (scan_device scan dv b d) (enum_function sub cs b d 0 @ enum_functions sub cs b d ?more)" .
  with True show ?thesis by (cases "many_functions cs b d") (simp_all add: enum_device_def enum_functions_def)
qed

lemma scan_devices_find:
  assumes "\<And>d. finds (scan_device scan dv b d) (enum_device sub cs b d)"
  shows "finds (scan_devices scan dv b ds) (concat (map (enum_device sub cs b) ds))"
proof (induction ds)
  case Nil
  then show ?case using finds_nothing by simp
next
  case (Cons d ds)
  from finds_then [OF assms Cons] show ?case by simp
qed

lemma scan_bus_finds:
  assumes "pci_answers dv cs" "bridges_go_up cs" "256 - unat b \<le> n"
  shows "finds (scan_bus dv n b) (enum_bus cs n b)"
  using assms(3)
proof (induction n arbitrary: b)
  case 0
  have "unat b < 256" using unsigned_less [of b] by simp
  with 0 show ?case by simp
next
  case (Suc n)
  have "finds (scan_device (scan_bus dv n) dv b d) (enum_device (enum_bus cs n) cs b d)" for d
  proof (rule scan_device_finds [OF assms(1)])
    fix f assume "class_of cs b d f = (6, 4)"
    then have "b < secondary cs b d f" using assms(2) by (simp add: bridges_go_up_def)
    then have "unat b < unat (secondary cs b d f)" by (simp add: word_less_nat_alt)
    then show "finds (scan_bus dv n (secondary cs b d f)) (enum_bus cs n (secondary cs b d f))"
      using Suc.prems by (intro Suc.IH) simp
  qed
  then have "finds (scan_devices (scan_bus dv n) dv b (map of_nat [0..<32])) (enum_bus cs (Suc n) b)"
    unfolding enum_bus.simps by (rule scan_devices_find)
  then show ?case by (simp del: enum_bus.simps)
qed

section \<open>Properties\<close>

text \<open>A bridge that leads back to its own bus is followed for ever, as deep as one likes.\<close>

lemma self_bridge_diverges:
  assumes "pci_answers dv cs" "is_there cs b 0 0" "class_of cs b 0 0 = (6, 4)" "secondary cs b 0 0 = b"
  shows "scan_bus dv n b s = None"
proof (induction n arbitrary: s)
  case (Suc n)
  have split: "map of_nat [0..<32] = (0 :: u8) # map of_nat [1..<32]" by (simp add: upt_conv_Cons)
  obtain t where t: "scan_device (scan_bus dv n) dv b 0 s =
      pci_and_then (check_function (scan_bus dv n) dv b 0 0 (s\<lparr>pci_io := t\<rparr>))
    (\<lambda>s. (if many_functions cs b 0 then scan_functions (scan_bus dv n) dv b 0 [1, 2, 3, 4, 5, 6, 7]
         else (\<lambda>s. Some (Inr s)))
       (s\<lparr>pci_io := In_double 0xCFC # Out_double 0xCF8 (config_address b 0 0 HEADER_TYPE) # pci_io s\<rparr>))"
    using scan_device_run [OF assms(1,2)] by blast
  obtain t' where "check_function (scan_bus dv n) dv b 0 0 (s\<lparr>pci_io := t\<rparr>) =
      pci_and_then (scan_bus dv n b (s\<lparr>pci_io := t'\<rparr>)) (add_device (b, 0, 0, 6, 4))"
    using check_function_run [OF assms(1), of "scan_bus dv n" b 0 0 "s\<lparr>pci_io := t\<rparr>"] assms(3,4) by auto
  then have "scan_device (scan_bus dv n) dv b 0 s = None"
    unfolding t using Suc by (simp add: pci_and_then_def)
  then show ?case unfolding scan_bus.simps split by (simp add: pci_and_then_def)
qed simp

text \<open>
  C27: when the ports give the registers of a configuration space whose bridges lead to higher buses,
  and there is a run of 67 free bytes for every function, the scan of a bus ends without a panic,
  and the list then holds exactly the functions enumerated, functions behind a bridge before it,
  the last one found first, before the devices it held already.
\<close>

theorem pci_scan_lists_devices:
  assumes "pci_answers dv cs" "bridges_go_up cs" "256 - unat b \<le> n"
    "devices_are ds k s" "67 * length (enum_bus cs n b) \<le> k"
  shows "\<exists>s'. scan_bus dv n b s = Some (Inr s') \<and>
    devices_are (rev (enum_bus cs n b) @ ds) (k - 67 * length (enum_bus cs n b)) s'"
  using scan_bus_finds [OF assms(1-3)] assms(4,5) unfolding finds_def by blast

text \<open>A machine with one function, a host bridge.\<close>

definition one_host :: "u32 \<Rightarrow> u32" where
  "one_host a = (if a = 0x80000000 then 0x12378086 else if a = 0x80000008 then 0x06000002
     else if a = 0x8000000C then 0 else 0xFFFFFFFF)"

definition config_ports :: "(u32 \<Rightarrow> u32) \<Rightarrow> devices" where
  "config_ports cs ev t =
     (case t of Out_double port a # _ \<Rightarrow> if ev = In_double 0xCFC \<and> port = 0xCF8 then cs a else 0 | _ \<Rightarrow> 0)"

lemma config_ports_answers: "pci_answers (config_ports cs) cs"
  by (simp add: pci_answers_def config_ports_def)

lemma one_host_class:
  "class_of one_host b d f =
     (let a = config_address b d f CLASS
      in if a = 0x80000000 then (0x12, 0x37) else if a = 0x80000008 then (6, 0)
         else if a = 0x8000000C then (0, 0) else (0xFF, 0xFF))"
proof -
  have "config_address b d f SUBCLASS = config_address b d f CLASS"
    by (simp add: config_address_def CLASS_def SUBCLASS_def)
  moreover have "ucast (- 1 :: u32) = (- 1 :: u8)" by (rule bit_word_eqI) (simp add: bit_simps)
  ultimately show ?thesis
    by (simp add: class_of_def config_reg_def one_host_def CLASS_def SUBCLASS_def Let_def)
qed

lemma one_host_go_up: "bridges_go_up one_host"
  by (simp add: bridges_go_up_def one_host_class Let_def)

lemma one_host_there: "is_there one_host 0 d 0 \<longleftrightarrow> config_address 0 d 0 VENDOR_ID \<in> {0x80000000, 0x80000008, 0x8000000C}"
proof -
  have "ucast (- 1 :: u32) = (- 1 :: u16)" by (rule bit_word_eqI) (simp add: bit_simps)
  then show ?thesis by (simp add: is_there_def config_reg_def one_host_def VENDOR_ID_def)
qed

lemma concat_map_if: "concat (map (\<lambda>d. if P d then [x] else []) ds) = map (\<lambda>d. x) (filter P ds)"
  by (induction ds) simp_all

lemma one_host_enum: "enum_bus one_host 256 0 = [(0, 0, 0, 6, 0)]"
proof -
  have n: "(256 :: nat) = Suc 255" by simp
  have z: "\<not> many_functions one_host 0 0" "class_of one_host 0 0 0 = (6, 0)"
    by (simp_all add: many_functions_def config_reg_def one_host_def one_host_class config_address_def
        HEADER_TYPE_def CLASS_def)
  have there: "filter (\<lambda>d. is_there one_host 0 d 0) (map of_nat [0..<32]) = [0]" by code_simp
  have "enum_device sub one_host 0 d = (if is_there one_host 0 d 0 then [(0, 0, 0, 6, 0)] else [])"
    if "is_there one_host 0 d 0 \<Longrightarrow> d = 0" for sub d
    using that z by (auto simp: enum_device_def enum_functions_def enum_function_def)
  moreover have "d = 0" if "is_there one_host 0 d 0" "d \<in> set (map of_nat [0..<32])" for d
    using that arg_cong [OF there, of set] by auto
  ultimately have "enum_bus one_host 256 0 =
      concat (map (\<lambda>d. if is_there one_host 0 d 0 then [(0, 0, 0, 6, 0)] else []) (map of_nat [0..<32]))"
    unfolding n enum_bus.simps by (intro arg_cong [of _ _ concat] map_cong) blast+
  also have "\<dots> = map (\<lambda>d. (0, 0, 0, 6, 0)) (filter (\<lambda>d. is_there one_host 0 d 0) (map of_nat [0..<32]))"
    by (rule concat_map_if)
  finally show ?thesis unfolding there by simp
qed

definition pci_boot :: pci where
  "pci_boot = \<lparr>pci_heap = example_heap, device_list = 0, pci_io = []\<rparr>"

lemma pci_boot_devices: "devices_are [] 100 pci_boot"
proof -
  have "of_nat y \<in> free_region [(4096, 8192)]" if "4096 \<le> y" "y < 4096 + 100" for y
    using that by (simp add: free_region_def unat_of_nat take_bit_eq_mod)
  then have "room (free_region [(4096, 8192)]) 100" by (intro roomI [of 4096]) simp_all
  then show ?thesis
    using list_rep_empty [OF example_heap_F] unfolding devices_are_def pci_boot_def
    by (intro exI [of _ "[]"] exI [of _ "free_region [(4096, 8192)]"] exI [of _ "{}"]) simp
qed

theorem pci_scan_lists_devices_witness:
  "\<exists>s'. scan_bus (config_ports one_host) 256 0 pci_boot = Some (Inr s') \<and> devices_are [(0, 0, 0, 6, 0)] 33 s'"
  using pci_scan_lists_devices [OF config_ports_answers one_host_go_up _ pci_boot_devices, of 0 256]
  by (simp add: one_host_enum del: enum_bus.simps)

end
