(* ===== verification/FatReadSplit.thy ===== *)
theory FatReadSplit
  imports FatReadFile
begin

text \<open>One read of a file is equivalent to two.\<close>

text \<open>
  C31: reading in two steps is the same as reading at once: as long as the file has the bytes, \<open>n1\<close>
  bytes and then \<open>n2\<close> more bring the same bytes to the caller's buffer and leave the file at the
  same position as one read of \<open>n1 + n2\<close>, wherever sector and cluster borders fall.
\<close>

theorem fat_read_split:
  assumes "volume_ok rs V" "n < 2 ^ 32" "file_state V n fd st" "\<not> file_error fd"
    and "region buff (unat n1 + unat n2) \<inter> (region (buffer fd) 512 \<union> partition_bytes st) = {}"
    and "unat n1 + unat n2 \<le> unat (file_size (ffd fd)) - unat (position (ffd fd))"
  shows "\<exists>fd1 st1 fd2 st2 fd' st'. fat_read rs fd buff n1 st = Some (n1, fd1, st1) \<and>
    fat_read rs fd1 (buff + n1) n2 st1 = Some (n2, fd2, st2) \<and>
    fat_read rs fd buff (n1 + n2) st = Some (n1 + n2, fd', st') \<and>
    load_bytes (fat_mem st2) buff (unat n1 + unat n2) = load_bytes (fat_mem st') buff (unat n1 + unat n2) \<and>
    position (ffd fd2) = position (ffd fd')"
proof -
  have small: "unat n1 + unat n2 < 2 ^ 32" using assms(6) unat_lt_2p32 [of "file_size (ffd fd)"] by simp
  have sum: "unat (n1 + n2) = unat n1 + unat n2" using unat_add_small [OF small] .
  have reg: "region buff (unat n1) \<subseteq> region buff (unat n1 + unat n2)"
    "region (buff + n1) (unat n2) \<subseteq> region buff (unat n1 + unat n2)"
    using region_mono [of "unat n1" "unat n1 + unat n2" buff] region_sub [of n1 "unat n2" "unat n1 + unat n2" buff]
    by auto
  have d1: "region buff (unat n1) \<inter> (region (buffer fd) 512 \<union> partition_bytes st) = {}"
    and d2: "region (buff + n1) (unat n2) \<inter> (region (buffer fd) 512 \<union> partition_bytes st) = {}"
    and d: "region buff (unat (n1 + n2)) \<inter> (region (buffer fd) 512 \<union> partition_bytes st) = {}"
    using assms(5) reg unfolding sum by blast+
  have k1: "unat n1 = min (unat n1) (unat (file_size (ffd fd)) - unat (position (ffd fd)))"
    and k2: "unat n2 = min (unat n2) (unat (file_size (ffd fd)) - unat (position (ffd fd)) - unat n1)"
    and k: "unat n1 + unat n2 = min (unat (n1 + n2)) (unat (file_size (ffd fd)) - unat (position (ffd fd)))"
    using assms(6) unfolding sum by simp_all
  obtain fd1 st1 where one: "fat_read rs fd buff n1 st = Some (n1, fd1, st1)"
    "after_read V n fd st buff (unat n1) fd1 st1"
    using fat_read_mounted [OF assms(1-4) d1 k1] by auto
  then have a1: "file_state V n fd1 st1" "load_bytes (fat_mem st1) buff (unat n1) =
      file_bytes V (first_cluster (ffd fd)) (unat (position (ffd fd))) (unat n1)"
    "position (ffd fd1) = position (ffd fd) + n1" "file_size (ffd fd1) = file_size (ffd fd)"
    "first_cluster (ffd fd1) = first_cluster (ffd fd)" "buffer fd1 = buffer fd" "file_error fd1 = file_error fd"
    "fat_partition st1 = fat_partition st"
    by (simp_all add: after_read_def)
  have p1: "unat (position (ffd fd1)) = unat (position (ffd fd)) + unat n1"
  proof -
    have "unat (position (ffd fd)) + unat n1 < 2 ^ 32"
      using assms(6) unat_lt_2p32 [of "file_size (ffd fd)"] unat_lt_2p32 [of "position (ffd fd)"] by linarith
    then show ?thesis using a1 by (simp add: unat_add_small)
  qed
  have part: "partition_bytes st1 = partition_bytes st" using a1 by (simp add: partition_bytes_def)
  have f1: "file_state V n fd1 st1" "\<not> file_error fd1" "buffer fd1 = buffer fd"
    "unat (file_size (ffd fd1)) - unat (position (ffd fd1)) =
      unat (file_size (ffd fd)) - unat (position (ffd fd)) - unat n1"
    "first_cluster (ffd fd1) = first_cluster (ffd fd)"
    using a1 p1 assms(4) by simp_all
  obtain fd2 st2 where two: "fat_read rs fd1 (buff + n1) n2 st1 = Some (n2, fd2, st2)"
    "after_read V n fd1 st1 (buff + n1) (unat n2) fd2 st2"
    using fat_read_mounted [OF assms(1,2) f1(1,2) d2 [folded part f1(3)] k2 [folded f1(4)]] by auto
  then have a2: "load_bytes (fat_mem st2) (buff + n1) (unat n2) =
      file_bytes V (first_cluster (ffd fd1)) (unat (position (ffd fd1))) (unat n2)"
    "position (ffd fd2) = position (ffd fd1) + n2"
    "unchanged_outside (region (buff + n1) (unat n2) \<union> region (buffer fd1) 512) (fat_mem st1) (fat_mem st2)"
    by (simp_all add: after_read_def)
  obtain fd' st' where at_once: "fat_read rs fd buff (n1 + n2) st = Some (n1 + n2, fd', st')"
    "after_read V n fd st buff (unat n1 + unat n2) fd' st'"
    using fat_read_mounted [OF assms(1-4) d k] by auto
  then have a: "load_bytes (fat_mem st') buff (unat n1 + unat n2) =
      file_bytes V (first_cluster (ffd fd)) (unat (position (ffd fd))) (unat n1 + unat n2)"
    "position (ffd fd') = position (ffd fd) + n1 + n2"
    by (simp_all add: after_read_def add.assoc)
  have apart: "region buff (unat n1) \<inter> (region (buff + n1) (unat n2) \<union> region (buffer fd1) 512) = {}"
    using region_append(2) [of "unat n1" "unat n2" buff] small assms(5) reg(1) f1(3) by auto
  have "load_bytes (fat_mem st2) buff (unat n1) = load_bytes (fat_mem st1) buff (unat n1)"
    using a2(3) apart unat_lt_2p32 [of n1] by (intro load_bytes_cong) (auto simp: unchanged_outside_def)
  then have "load_bytes (fat_mem st2) buff (unat n1 + unat n2) =
      file_bytes V (first_cluster (ffd fd)) (unat (position (ffd fd))) (unat n1 + unat n2)"
    using a1(2,5) a2(1) by (simp add: load_bytes_append file_bytes_append p1)
  moreover have "position (ffd fd2) = position (ffd fd')" using a(2) a1(3) a2(2) by simp
  ultimately show ?thesis using one(1) two(1) at_once(1) a(1) by metis
qed

theorem fat_read_split_witness:
  "\<exists>fd1 st1 fd2 st2 fd' st'. fat_read small_read small_file 2000 1 small_fat = Some (1, fd1, st1) \<and>
    fat_read small_read fd1 (2000 + 1) 1 st1 = Some (1, fd2, st2) \<and>
    fat_read small_read small_file 2000 (1 + 1) small_fat = Some (1 + 1, fd', st') \<and>
    load_bytes (fat_mem st2) 2000 2 = load_bytes (fat_mem st') 2000 2 \<and>
    position (ffd fd2) = position (ffd fd')"
proof -
  have f: "buffer small_file = 1000" "\<not> file_error small_file" "unat (position (ffd small_file)) = 1"
    "unat (file_size (ffd small_file)) = 3"
    by (simp_all add: small_file_def)
  have one: "unat (1 :: u32) = 1" by simp
  have "region 2000 2 \<subseteq> region 2000 5" by (rule region_mono) simp
  then have d: "region 2000 (unat (1 :: u32) + unat (1 :: u32)) \<inter>
      (region (buffer small_file) 512 \<union> partition_bytes small_fat) = {}"
    using small_regions(2) [of "()"] unfolding f one by (simp add: numeral_2_eq_2) blast
  have "unat (1 :: u32) + unat (1 :: u32) = 2" by simp
  with fat_read_split [OF small_volume_ok _ small_file_state f(2) d] show ?thesis by (simp only: f) simp
qed

end
