(* ===== verification/Shell.thy ===== *)
theory Shell
  imports Events Keyboard Ports
begin

text \<open>
  The command line of \<open>bash.c\<close>, the key events on their way to it (\<open>on_key_pressed\<close> in
  \<open>keyboard.c\<close>, which puts them on the kernel heap and into the event queue), and the event loop
  of \<open>main.c\<close>. A read or write past the end of \<open>command\<close> is \<open>None\<close>.
\<close>

section \<open>State\<close>

text \<open>What is printed: a character, the prompt, or one of the messages with its values.\<close>

datatype shell_output = Shown u8 | Prompt | Wrote u32 u32 | Answer u32 u8 | Invalid_command

record bash =
  command :: "u8 list"
  command_length :: u8
  bash_io :: io_trace
  shown :: "shell_output list"

definition bash_print :: "shell_output \<Rightarrow> bash \<Rightarrow> bash" where
  "bash_print x s = s\<lparr>shown := shown s @ [x]\<rparr>"

section \<open>Commands\<close>

definition hex_digit :: "u8 \<Rightarrow> u32 option" where
  "hex_digit c =
     (if 0x30 \<le> c \<and> c \<le> 0x39 then Some (ucast (c - 0x30))
      else if 0x41 \<le> c \<and> c \<le> 0x46 then Some (ucast (c - 0x41) + 0xA)
      else if 0x61 \<le> c \<and> c \<le> 0x66 then Some (ucast (c - 0x61) + 0xA)
      else None)"

text \<open>\<open>to_int\<close> on a pointer into \<open>command\<close>, an index here; the new index is the second result.\<close>

function to_int_loop :: "u8 list \<Rightarrow> nat \<Rightarrow> u32 \<Rightarrow> u32 \<times> nat" where
  "to_int_loop cmd i val =
     (case hex_digit (cmd ! i) of
        None \<Rightarrow> (val, i)
      | Some d \<Rightarrow>
          let val = val * 0x10 + d; i = i + 1
          in if i \<ge> 80 then (val, i) else to_int_loop cmd i val)"
  by pat_completeness auto
termination by (relation "measure (\<lambda>(cmd, i, val). 80 - i)") auto

declare to_int_loop.simps [simp del]

definition to_int :: "u8 list \<Rightarrow> nat \<Rightarrow> (u32 \<times> nat) option" where
  "to_int cmd i = (if i < 80 then Some (to_int_loop cmd i 0) else None)"

text \<open>The loop of \<open>cmd_echo\<close> looks at the first character of the command in every turn.\<close>

definition cmd_echo :: "bash \<Rightarrow> bash" where
  "cmd_echo s =
     bash_print (Shown 0x0A)
       (if command s ! 0 = 0 then s else fold (\<lambda>i. bash_print (Shown (command s ! i))) [5..<80] s)"

definition cmd_out :: "nat \<Rightarrow> bash \<Rightarrow> bash option" where
  "cmd_out sz s =
     (case to_int (command s) 5 of
        None \<Rightarrow> None
      | Some (port, i) \<Rightarrow>
          case to_int (command s) (i + 1) of
            None \<Rightarrow> None
          | Some (val, _) \<Rightarrow>
              let s = bash_print (Wrote port val) s; p = ucast port :: u16; t = bash_io s
              in Some (s\<lparr>bash_io :=
                   (if sz = 8 then out_byte p (ucast val) t
                    else if sz = 16 then out_word p val t
                    else if sz = 32 then out_double p val t else t)\<rparr>))"

text \<open>\<open>value\<close> is a \<open>uint8_t\<close> for all sizes.\<close>

definition cmd_in :: "devices \<Rightarrow> nat \<Rightarrow> bash \<Rightarrow> bash option" where
  "cmd_in dv sz s =
     (case to_int (command s) 4 of
        None \<Rightarrow> None
      | Some (port, _) \<Rightarrow>
          let p = ucast port :: u16;
              (v, t) = (if sz = 8 then in_byte dv p (bash_io s)
                        else if sz = 16 then (case in_word dv p (bash_io s) of (w, t) \<Rightarrow> (ucast w, t))
                        else (case in_double dv p (bash_io s) of (w, t) \<Rightarrow> (ucast w, t)))
          in Some (bash_print (Answer port v) (s\<lparr>bash_io := t\<rparr>)))"

definition cmd_unkown :: "bash \<Rightarrow> bash" where
  "cmd_unkown s = bash_print Invalid_command s"

section \<open>process_command\<close>

definition has_prefix :: "bash \<Rightarrow> u8 list \<Rightarrow> bool" where
  "has_prefix s xs \<longleftrightarrow> take (length xs) (command s) = xs"

text \<open>"echo ", "outb ", "outw ", "outd ", "inb ", "inw ", "ind ".\<close>

definition run_command :: "devices \<Rightarrow> bash \<Rightarrow> bash option" where
  "run_command dv s =
     (if has_prefix s [0x65, 0x63, 0x68, 0x6F, 0x20] then Some (cmd_echo s)
      else if has_prefix s [0x6F, 0x75, 0x74, 0x62, 0x20] then cmd_out 8 s
      else if has_prefix s [0x6F, 0x75, 0x74, 0x77, 0x20] then cmd_out 16 s
      else if has_prefix s [0x6F, 0x75, 0x74, 0x64, 0x20] then cmd_out 32 s
      else if has_prefix s [0x69, 0x6E, 0x62, 0x20] then cmd_in dv 8 s
      else if has_prefix s [0x69, 0x6E, 0x77, 0x20] then cmd_in dv 8 s
      else if has_prefix s [0x69, 0x6E, 0x64, 0x20] then cmd_in dv 8 s
      else Some (cmd_unkown s))"

text \<open>Blanks over the command, one position past its end and the positions before it.\<close>

definition clear_command :: "bash \<Rightarrow> bash option" where
  "clear_command s =
     (if unat (command_length s) < 80
      then Some (s\<lparr>command := fold (\<lambda>i cmd. cmd[i := 0x20]) (rev [0..<Suc (unat (command_length s))]) (command s),
                   command_length := 0\<rparr>)
      else None)"

definition process_command :: "devices \<Rightarrow> bash \<Rightarrow> bash option" where
  "process_command dv s =
     (if command_length s = 0 then Some (bash_print Prompt s)
      else case run_command dv s of
             None \<Rightarrow> None
           | Some s \<Rightarrow> map_option (bash_print Prompt) (clear_command s))"

section \<open>Key presses\<close>

definition bash_char :: "devices \<Rightarrow> u8 \<Rightarrow> bash \<Rightarrow> bash option" where
  "bash_char dv ascii s =
     (if ascii = 0x08
      then if command_length s > 0
           then Some (bash_print (Shown 0x08) (s\<lparr>command_length := command_length s - 1\<rparr>))
           else Some s
      else let s = bash_print (Shown ascii) s
           in if ascii = 0x0A then process_command dv s
              else if unat (command_length s) < 80
              then Some (s\<lparr>command := (command s)[unat (command_length s) := ascii],
                           command_length := command_length s + 1\<rparr>)
              else None)"

text \<open>The fields of a \<open>KeypressEvent\<close> in memory.\<close>

definition sizeof_KeypressEvent :: u32 where "sizeof_KeypressEvent = 20"
definition key_ascii :: "memory \<Rightarrow> addr \<Rightarrow> u8" where "key_ascii m p = m p"
definition key_released :: "memory \<Rightarrow> addr \<Rightarrow> bool" where "key_released m p \<longleftrightarrow> m (p + 8) \<noteq> 0"

definition write_key_event :: "memory \<Rightarrow> addr \<Rightarrow> KeypressEvent \<Rightarrow> memory" where
  "write_key_event m p e =
     (let m = m(p := of_char (ev_ascii e));
          m = write32 m (p + 4) (ev_code e);
          m = m(p + 8 := of_bool (ev_released e));
          m = m(p + 9 := of_bool (m_shift (ev_modifiers e)), p + 10 := of_bool (m_alt (ev_modifiers e)),
                p + 11 := of_bool (m_control (ev_modifiers e)), p + 12 := of_bool (m_function (ev_modifiers e)),
                p + 13 := of_bool (m_gui (ev_modifiers e)))
      in m(p + 14 := of_bool (caps_lock (ev_toggles e)), p + 15 := of_bool (num_lock (ev_toggles e)),
           p + 16 := of_bool (scroll_lock (ev_toggles e))))"

text \<open>The kernel: the event queue with its heap, and the shell.\<close>

record kernel = event_queue +
  shell :: bash

text \<open>\<open>keypress_handler\<close> of the shell; it frees the event.\<close>

definition bash_keypress :: "devices \<Rightarrow> addr \<Rightarrow> kernel \<Rightarrow> kernel option" where
  "bash_keypress dv args s =
     (let m = hmem (ev_heap s); ascii = key_ascii m args
      in case (if ascii \<noteq> 0 \<and> \<not> key_released m args then bash_char dv ascii (shell s) else Some (shell s)) of
           None \<Rightarrow> None
         | Some sh \<Rightarrow>
             case free (ev_heap s) args of
               None \<Rightarrow> None | Some h \<Rightarrow> Some (s\<lparr>ev_heap := h, shell := sh\<rparr>))"

definition bash_initialize :: "bash \<Rightarrow> bash" where
  "bash_initialize s = bash_print Prompt (bash_print (Shown 0x0A) s)"

text \<open>
  The end of \<open>on_key_pressed\<close> with a handler registered at address \<open>handler\<close>; the result of
  \<open>malloc\<close> is not checked.
\<close>

definition post_key_event :: "u32 \<Rightarrow> KeypressEvent \<Rightarrow> kernel \<Rightarrow> kernel option" where
  "post_key_event handler e s =
     (case malloc (ev_heap s) sizeof_KeypressEvent of
        None \<Rightarrow> None
      | Some (p, h) \<Rightarrow>
          add_event (s\<lparr>ev_heap := heap_write (write_key_event (hmem h) p e) h\<rparr>) handler p)"

text \<open>\<open>loop\<close> up to the next \<open>halt\<close>.\<close>

partial_function (option) event_loop ::
  "(u32 \<Rightarrow> u32 \<Rightarrow> kernel \<Rightarrow> kernel option) \<Rightarrow> kernel \<Rightarrow> kernel option" where
  "event_loop run s =
     (if get_event_count s > 0
      then (case call_next_event run s of None \<Rightarrow> None | Some s \<Rightarrow> event_loop run s)
      else Some s)"

end
