(* ===== verification/ShellProperties.thy ===== *)
theory ShellProperties
  imports Shell HeapRoom FormatPrintProperties
begin

text \<open>
  What the shell does with the characters typed: the line editor it refines, the \<open>out\<close> commands,
  and key events that travel over the heap and the event queue.
\<close>

section \<open>Editing a line\<close>

text \<open>The editor: a line of at most 80 characters; one more overruns the array.\<close>

primrec edit_line :: "u8 list \<Rightarrow> u8 list \<Rightarrow> u8 list option" where
  "edit_line l [] = Some l"
| "edit_line l (c # cs) =
     (if c = 0x08 then edit_line (butlast l) cs
      else if length l < 80 then edit_line (l @ [c]) cs else None)"

text \<open>What is echoed: the characters, and a backspace when it takes something back.\<close>

primrec edit_echo :: "u8 list \<Rightarrow> u8 list \<Rightarrow> u8 list" where
  "edit_echo l [] = []"
| "edit_echo l (c # cs) =
     (if c = 0x08 then (if l = [] then [] else [c]) @ edit_echo (butlast l) cs
      else c # edit_echo (l @ [c]) cs)"

primrec bash_run :: "devices \<Rightarrow> u8 list \<Rightarrow> bash \<Rightarrow> bash option" where
  "bash_run dv [] s = Some s"
| "bash_run dv (c # cs) s = (case bash_char dv c s of None \<Rightarrow> None | Some s \<Rightarrow> bash_run dv cs s)"

lemma bash_run_append:
  "bash_run dv (cs @ ds) s = (case bash_run dv cs s of None \<Rightarrow> None | Some s \<Rightarrow> bash_run dv ds s)"
  by (induction cs arbitrary: s) (auto split: option.split)

definition shell_ok :: "bash \<Rightarrow> bool" where
  "shell_ok s \<longleftrightarrow> length (command s) = 80 \<and> unat (command_length s) \<le> 80"

definition line :: "bash \<Rightarrow> u8 list" where
  "line s = take (unat (command_length s)) (command s)"

lemma length_line: "shell_ok s \<Longrightarrow> length (line s) = unat (command_length s)"
  by (simp add: shell_ok_def line_def)

lemma bash_print_simps [simp]:
  "command (bash_print x s) = command s" "command_length (bash_print x s) = command_length s"
  "bash_io (bash_print x s) = bash_io s"
  by (simp_all add: bash_print_def)

text \<open>The length is a \<open>uint8_t\<close>.\<close>

lemma unat_pred: "w \<noteq> 0 \<Longrightarrow> unat (w - 1 :: u8) = unat w - 1"
  by (simp add: unat_minus_one)

lemma unat_next: "unat w < 80 \<Longrightarrow> unat (w + 1 :: u8) = unat w + 1"
  by (simp add: unat_word_ariths)

lemma bash_char_back:
  assumes "shell_ok s"
  shows "\<exists>s'. bash_char dv 0x08 s = Some s' \<and> shell_ok s' \<and> line s' = butlast (line s) \<and>
    bash_io s' = bash_io s \<and> command s' = command s \<and>
    shown s' = shown s @ (if line s = [] then [] else [Shown 0x08])"
  using assms unat_pred [of "command_length s"]
  by (cases "command_length s = 0")
    (auto simp: bash_char_def shell_ok_def line_def butlast_take word_gt_0 bash_print_def unat_eq_0)

lemma bash_char_type:
  assumes "shell_ok s" "c \<noteq> 0x08" "c \<noteq> 0x0A"
  shows "bash_char dv c s =
    (if unat (command_length s) < 80
     then Some ((bash_print (Shown c) s)\<lparr>command := (command s)[unat (command_length s) := c],
                  command_length := command_length s + 1\<rparr>)
     else None)"
  using assms by (simp add: bash_char_def Let_def)

lemma line_type:
  assumes "shell_ok s" "unat (command_length s) < 80"
  shows "take (unat (command_length s) + 1) ((command s)[unat (command_length s) := c]) = line s @ [c]"
  using assms by (simp add: shell_ok_def line_def take_Suc_conv_app_nth)

lemma bash_run_edits:
  assumes "shell_ok s" "0x0A \<notin> set cs"
  shows "case edit_line (line s) cs of
      None \<Rightarrow> bash_run dv cs s = None
    | Some l \<Rightarrow> \<exists>s'. bash_run dv cs s = Some s' \<and> shell_ok s' \<and> line s' = l \<and> bash_io s' = bash_io s \<and>
        shown s' = shown s @ map Shown (edit_echo (line s) cs)"
  using assms
proof (induction cs arbitrary: s)
  case (Cons c cs)
  show ?case
  proof (cases "c = 0x08")
    case True
    obtain s1 where s1: "bash_char dv 0x08 s = Some s1" "shell_ok s1" "line s1 = butlast (line s)"
      "bash_io s1 = bash_io s" "shown s1 = shown s @ (if line s = [] then [] else [Shown 0x08])"
      using bash_char_back [OF Cons.prems(1)] by blast
    show ?thesis using Cons.IH [OF s1(2)] Cons.prems(2) s1(1,3,4,5) True by (auto split: option.splits)
  next
    case False
    then have t: "bash_char dv c s = (if unat (command_length s) < 80
      then Some ((bash_print (Shown c) s)\<lparr>command := (command s)[unat (command_length s) := c],
                  command_length := command_length s + 1\<rparr>) else None)"
      using bash_char_type [OF Cons.prems(1)] Cons.prems(2) by simp
    show ?thesis
    proof (cases "unat (command_length s) < 80")
      case room: True
      let ?s1 = "(bash_print (Shown c) s)\<lparr>command := (command s)[unat (command_length s) := c],
                  command_length := command_length s + 1\<rparr>"
      have "shell_ok ?s1" using Cons.prems(1) room by (simp add: shell_ok_def unat_next)
      moreover have "line ?s1 = line s @ [c]" using line_type [OF Cons.prems(1) room] room by (simp add: line_def unat_next)
      ultimately show ?thesis
        using Cons.IH [of ?s1] Cons.prems False t room
        by (auto simp: length_line bash_print_def split: option.splits)
    qed (use t False Cons.prems(1) in \<open>simp add: length_line\<close>)
  qed
qed simp

section \<open>Numbers\<close>

text \<open>Hexadecimal digits, the value of one, and of a string of them.\<close>

definition hex_char :: "u8 \<Rightarrow> bool" where
  "hex_char c \<longleftrightarrow> c \<in> {0x30..0x39} \<or> c \<in> {0x41..0x46} \<or> c \<in> {0x61..0x66}"

definition hex_val :: "u8 \<Rightarrow> nat" where
  "hex_val c = (if c \<le> 0x39 then unat c - 48 else if c \<le> 0x46 then unat c - 55 else unat c - 87)"

primrec hex_value :: "nat \<Rightarrow> u8 list \<Rightarrow> nat" where
  "hex_value v [] = v"
| "hex_value v (c # cs) = hex_value (16 * v + hex_val c) cs"

definition hex_string :: "u8 list \<Rightarrow> bool" where
  "hex_string cs \<longleftrightarrow> (\<forall>c\<in>set cs. hex_char c)"

lemma hex_digit_char: "hex_digit c = (if hex_char c then Some (of_nat (hex_val c)) else None)"
proof -
  have u: "(ucast (c - b) :: u32) = of_nat (unat c - unat b)" if "b \<le> c" for b :: u8
    using that by (simp add: unat_sub [symmetric])
  consider "c \<in> {0x30..0x39}" | "c \<in> {0x41..0x46}" | "c \<in> {0x61..0x66}" | "\<not> hex_char c"
    by (auto simp: hex_char_def)
  then show ?thesis
  proof cases
    case 1
    then show ?thesis using u [where b = "0x30"] by (auto simp: hex_digit_def hex_char_def hex_val_def)
  next
    case 2
    then have "55 + 10 \<le> unat c" by (simp add: word_le_nat_alt)
    then have "unat c - 65 + 10 = unat c - 55" by linarith
    then have "(of_nat (unat c - 65) + 10 :: u32) = of_nat (unat c - 55)" by (metis of_nat_add of_nat_numeral)
    then show ?thesis using 2 u [where b = "0x41"] by (auto simp: hex_digit_def hex_char_def hex_val_def word_le_nat_alt)
  next
    case 3
    then have "87 + 10 \<le> unat c" by (simp add: word_le_nat_alt)
    then have "unat c - 97 + 10 = unat c - 87" by linarith
    then have "(of_nat (unat c - 97) + 10 :: u32) = of_nat (unat c - 87)" by (metis of_nat_add of_nat_numeral)
    then show ?thesis using 3 u [where b = "0x61"] by (auto simp: hex_digit_def hex_char_def hex_val_def word_le_nat_alt)
  next
    case 4
    then show ?thesis by (auto simp: hex_digit_def hex_char_def)
  qed
qed

lemma to_int_loop_string:
  assumes "hex_string ds" "take (length ds) (drop i cmd) = ds" "i + length ds < 80" "length cmd = 80"
    and "hex_digit (cmd ! (i + length ds)) = None"
  shows "to_int_loop cmd i (of_nat v) = (of_nat (hex_value v ds), i + length ds)"
  using assms
proof (induction ds arbitrary: i v)
  case Nil
  then show ?case by (subst to_int_loop.simps) simp
next
  case (Cons d ds)
  have i: "i < length cmd" using Cons.prems(3,4) by simp
  have "drop i cmd = cmd ! i # drop (Suc i) cmd" using i by (simp add: Cons_nth_drop_Suc)
  then have d: "cmd ! i = d" "take (length ds) (drop (Suc i) cmd) = ds" using Cons.prems(2) by simp_all
  have x: "hex_digit d = Some (of_nat (hex_val d))"
    using Cons.prems(1) by (simp add: hex_string_def hex_digit_char)
  have "to_int_loop cmd (Suc i) (of_nat (16 * v + hex_val d)) =
      (of_nat (hex_value (16 * v + hex_val d) ds), Suc i + length ds)"
    using Cons.prems d(2) by (intro Cons.IH) (auto simp: hex_string_def)
  moreover have "of_nat v * 0x10 + of_nat (hex_val d) = (of_nat (16 * v + hex_val d) :: u32)"
    by (simp add: mult.commute)
  ultimately show ?case using x d(1) Cons.prems(3)
    by (subst to_int_loop.simps) (simp add: Let_def mult.commute [of _ "0x10"])
qed

section \<open>Typing and running a command\<close>

text \<open>Between commands: nothing typed, and no digit anywhere in the array.\<close>

definition idle :: "bash \<Rightarrow> bool" where
  "idle s \<longleftrightarrow> length (command s) = 80 \<and> command_length s = 0 \<and> (\<forall>c\<in>set (command s). hex_digit c = None)"

lemma bash_run_types:
  assumes "length (command s) = 80" "unat (command_length s) + length cs \<le> 80" "0x08 \<notin> set cs" "0x0A \<notin> set cs"
  shows "\<exists>s'. bash_run dv cs s = Some s' \<and> unat (command_length s') = unat (command_length s) + length cs \<and>
    command s' = take (unat (command_length s)) (command s) @ cs @ drop (unat (command_length s) + length cs) (command s) \<and>
    bash_io s' = bash_io s"
  using assms
proof (induction cs arbitrary: s)
  case (Cons c cs)
  let ?n = "unat (command_length s)"
  let ?s1 = "(bash_print (Shown c) s)\<lparr>command := (command s)[?n := c], command_length := command_length s + 1\<rparr>"
  have next_len: "unat (command_length s + 1) = ?n + 1" using Cons.prems(2) by (intro unat_next) simp
  have t: "bash_char dv c s = Some ?s1"
    using Cons.prems bash_char_type [of s c dv] by (simp add: shell_ok_def)
  have u: "take (Suc ?n) ((command s)[?n := c]) = take ?n (command s) @ [c]"
    using Cons.prems(1,2) by (simp add: take_Suc_conv_app_nth)
  show ?case using Cons.IH [of ?s1] Cons.prems t u next_len by auto
qed simp

lemma not_control:
  assumes "hex_char c" shows "c \<noteq> 0x08" "c \<noteq> 0x0A"
  using assms by (auto simp: hex_char_def)

lemma hex_string_control: "hex_string ds \<Longrightarrow> 0x08 \<notin> set ds \<and> 0x0A \<notin> set ds"
  using not_control by (force simp: hex_string_def)

lemma hex_blank [simp]: "hex_digit 0x20 = None" by (simp add: hex_digit_def)

lemma clear_command_idle:
  assumes "length (command s) = 80" "unat (command_length s) < 80"
    and "\<And>i. unat (command_length s) < i \<Longrightarrow> i < 80 \<Longrightarrow> hex_digit (command s ! i) = None"
  shows "\<exists>s'. clear_command s = Some s' \<and> idle s' \<and> bash_io s' = bash_io s \<and> shown s' = shown s"
proof -
  have f: "length (fold (\<lambda>i cmd. cmd[i := 0x20]) is cmd) = length cmd \<and>
      (\<forall>j < length cmd. fold (\<lambda>i cmd. cmd[i := 0x20]) is cmd ! j = (if j \<in> set is then 0x20 else cmd ! j))"
    for "is" and cmd :: "u8 list"
    by (induction "is" arbitrary: cmd) (auto simp: nth_list_update)
  define cmd where "cmd = fold (\<lambda>i cmd. cmd[i := 0x20]) (rev [0..<Suc (unat (command_length s))]) (command s)"
  have "length cmd = 80" "\<And>j. j < 80 \<Longrightarrow> cmd ! j = (if j \<le> unat (command_length s) then 0x20 else command s ! j)"
    using f [of "rev [0..<Suc (unat (command_length s))]" "command s"] assms(1)
    by (auto simp: cmd_def less_Suc_eq_le simp del: upt_Suc)
  then have "idle (s\<lparr>command := cmd, command_length := 0\<rparr>)"
    using assms(3) by (auto simp: idle_def in_set_conv_nth)
  then show ?thesis using assms(2) by (simp add: clear_command_def cmd_def)
qed

text \<open>The typed command is in the array, with what was there before behind it.\<close>

definition typed :: "bash \<Rightarrow> u8 list \<Rightarrow> bool" where
  "typed s cs \<longleftrightarrow> length (command s) = 80 \<and> unat (command_length s) = length cs \<and> length cs < 80 \<and>
     take (length cs) (command s) = cs \<and> (\<forall>c\<in>set (drop (length cs) (command s)). hex_digit c = None)"

lemma bash_run_typed:
  assumes "idle s" "length cs < 80" "0x08 \<notin> set cs" "0x0A \<notin> set cs"
  shows "\<exists>s'. bash_run dv cs s = Some s' \<and> typed s' cs \<and> bash_io s' = bash_io s"
  using assms bash_run_types [of s cs dv] by (auto simp: idle_def typed_def) (meson in_set_dropD)

lemma typed_past:
  assumes "typed s cs" "length cs \<le> i" "i < 80" shows "hex_digit (command s ! i) = None"
proof -
  have "command s ! i = drop (length cs) (command s) ! (i - length cs)" "i - length cs < length (drop (length cs) (command s))"
    using assms by (auto simp: typed_def)
  then show ?thesis using assms(1) by (metis nth_mem typed_def)
qed

lemma typed_at:
  assumes "typed s (xs @ ys @ zs)" shows "take (length ys) (drop (length xs) (command s)) = ys"
proof -
  have "take (length xs + length ys) (command s) = take (length xs + length ys) (xs @ ys @ zs)"
    using assms by (metis (no_types, lifting) typed_def length_append add.assoc le_add1 min.absorb1 take_take)
  then have "drop (length xs) (take (length xs + length ys) (command s)) = ys" by simp
  then show ?thesis by (simp add: take_drop add.commute)
qed

lemma to_int_typed:
  assumes "typed s (xs @ ds @ zs)" "hex_string ds" "zs = [] \<or> hex_digit (hd zs) = None"
  shows "to_int (command s) (length xs) = Some (of_nat (hex_value 0 ds), length xs + length ds)"
proof -
  let ?n = "length xs + length ds"
  have l: "?n + length zs < 80" "length (command s) = 80" using assms(1) by (auto simp: typed_def)
  have "hex_digit (command s ! ?n) = None"
  proof (cases zs)
    case Nil
    then show ?thesis using typed_past [OF assms(1), of ?n] l(1) by simp
  next
    case (Cons z zs')
    have "take (length [z]) (drop (length (xs @ ds)) (command s)) = [z]"
      using typed_at [of s "xs @ ds" "[z]" zs'] assms(1) Cons by simp
    then have "command s ! ?n = z" using l Cons by (simp add: take_Suc hd_drop_conv_nth)
    then show ?thesis using assms(3) Cons by simp
  qed
  then show ?thesis
    using to_int_loop_string [OF assms(2) typed_at [OF assms(1)] _ l(2), of 0] l(1) by (simp add: to_int_def)
qed

section \<open>The out commands\<close>

text \<open>"outb ", "outw " and "outd ", and what they do.\<close>

definition out_name :: "nat \<Rightarrow> u8 list" where
  "out_name sz = [0x6F, 0x75, 0x74, if sz = 8 then 0x62 else if sz = 16 then 0x77 else 0x64, 0x20]"

definition out_access :: "nat \<Rightarrow> nat \<Rightarrow> nat \<Rightarrow> io" where
  "out_access sz port val =
     (if sz = 8 then Out_byte (of_nat port) (of_nat val)
      else if sz = 16 then Out_word (of_nat port) (of_nat val)
      else Out_double (of_nat port) (of_nat val))"

lemma ucast_of_nat_word: "LENGTH('a) \<ge> LENGTH('b) \<Longrightarrow> (ucast (of_nat n :: 'a::len word) :: 'b::len word) = of_nat n"
  by (rule bit_word_eqI) (auto simp: bit_simps)

lemma run_out_command:
  assumes "sz = 8 \<or> sz = 16 \<or> sz = 32" "typed s (out_name sz @ ps @ 0x20 # vs)" "hex_string ps" "hex_string vs"
  shows "\<exists>s'. run_command dv s = Some s' \<and> typed s' (out_name sz @ ps @ 0x20 # vs) \<and>
    bash_io s' = out_access sz (hex_value 0 ps) (hex_value 0 vs) # bash_io s"
proof -
  have l: "length (out_name sz) = 5" by (simp add: out_name_def)
  have n: "take 5 (command s) = out_name sz"
    using typed_at [of s "[]" "out_name sz" "ps @ 0x20 # vs"] assms(2) by (simp add: l)
  have n': "has_prefix s xs \<longleftrightarrow> out_name sz = xs" if "length xs = 5" for xs
    using n that by (simp add: has_prefix_def)
  have run: "run_command dv s = cmd_out sz s"
    using assms(1) n' by (auto simp: run_command_def out_name_def)
  have "to_int (command s) 5 = Some (of_nat (hex_value 0 ps), 5 + length ps)"
    using to_int_typed [of s "out_name sz" ps "0x20 # vs"] assms(2,3) by (simp add: l)
  moreover have "to_int (command s) (5 + length ps + 1) = Some (of_nat (hex_value 0 vs), 5 + length ps + 1 + length vs)"
    using to_int_typed [of s "out_name sz @ ps @ [0x20]" vs "[]"] assms(2,4) by (simp add: l)
  ultimately have "cmd_out sz s = Some ((bash_print (Wrote (of_nat (hex_value 0 ps)) (of_nat (hex_value 0 vs))) s)
      \<lparr>bash_io := out_access sz (hex_value 0 ps) (hex_value 0 vs) # bash_io s\<rparr>)"
    using assms(1) by (auto simp: cmd_out_def Let_def out_access_def port_simps ucast_of_nat_word)
  with run assms(2) show ?thesis by (simp add: typed_def)
qed

lemma shell_out_command:
  assumes "sz = 8 \<or> sz = 16 \<or> sz = 32" "idle s" "hex_string ps" "hex_string vs"
    and "length ps + length vs < 74"
  shows "\<exists>s'. bash_run dv (out_name sz @ ps @ 0x20 # vs @ [0x0A]) s = Some s' \<and> idle s' \<and>
    bash_io s' = out_access sz (hex_value 0 ps) (hex_value 0 vs) # bash_io s"
proof -
  let ?cs = "out_name sz @ ps @ 0x20 # vs"
  have c: "0x08 \<notin> set ?cs" "0x0A \<notin> set ?cs" "length ?cs < 80"
    using hex_string_control [OF assms(3)] hex_string_control [OF assms(4)] assms(5)
    by (auto simp: out_name_def)
  obtain s1 where s1: "bash_run dv ?cs s = Some s1" "typed s1 ?cs" "bash_io s1 = bash_io s"
    using bash_run_typed [OF assms(2) c(3,1,2)] by blast
  let ?s = "bash_print (Shown 0x0A) s1"
  have "typed ?s ?cs" using s1(2) by (simp add: typed_def)
  then obtain s2 where s2: "run_command dv ?s = Some s2" "typed s2 ?cs"
    "bash_io s2 = out_access sz (hex_value 0 ps) (hex_value 0 vs) # bash_io s"
    using run_out_command [OF assms(1) _ assms(3,4), of ?s dv] s1(3) by auto
  have len: "length (command s2) = 80" "unat (command_length s2) = length ?cs" using s2(2) by (simp_all add: typed_def)
  obtain s3 where s3: "clear_command s2 = Some s3" "idle s3" "bash_io s3 = bash_io s2"
    using clear_command_idle [OF len(1)] typed_past [OF s2(2)] len(2) c(3) by force
  have "unat (command_length s1) \<noteq> 0" using s1(2) by (simp add: typed_def out_name_def)
  then have "command_length s1 \<noteq> 0" by auto
  then have "bash_char dv 0x0A s1 = Some (bash_print Prompt s3)"
    using s1(2) s2(1) s3(1) by (simp add: bash_char_def process_command_def typed_def out_name_def Let_def)
  then have "bash_run dv (?cs @ [0x0A]) s = Some (bash_print Prompt s3)"
    using s1(1) by (simp add: bash_run_append del: append_assoc)
  then show ?thesis using s3(2,3) s2(3) by (simp add: idle_def)
qed

section \<open>Properties\<close>

definition bash_boot :: bash where
  "bash_boot = \<lparr>command = replicate 80 0, command_length = 0, bash_io = [], shown = []\<rparr>"

lemma bash_boot_idle: "idle bash_boot" "shell_ok bash_boot" "line bash_boot = []"
  by (simp_all add: idle_def shell_ok_def line_def bash_boot_def hex_digit_def)

text \<open>
  C33: without a newline the shell is a line editor of 80 characters: every character goes to the
  end of the line, a backspace takes the last one off and does nothing on an empty line, what
  changes the line is echoed, nothing is executed, and the array is overrun exactly when a
  character comes with the line full.
\<close>

theorem shell_edits_line:
  assumes "shell_ok s" "0x0A \<notin> set cs"
  shows "map_option line (bash_run dv cs s) = edit_line (line s) cs \<and>
    (\<forall>s'. bash_run dv cs s = Some s' \<longrightarrow> shell_ok s' \<and> bash_io s' = bash_io s \<and>
       shown s' = shown s @ map Shown (edit_echo (line s) cs))"
  using bash_run_edits [OF assms, of dv] by (auto split: option.splits)

theorem shell_edits_line_witness:
  "map_option line (bash_run (\<lambda>_ _. 0) [0x08, 0x61, 0x62, 0x08, 0x63] bash_boot) = Some [0x61, 0x63] \<and>
   map_option line (bash_run (\<lambda>_ _. 0) (replicate 81 0x61) bash_boot) = None"
proof -
  have e: "edit_line [] [0x08, 0x61, 0x62, 0x08, 0x63] = Some [0x61, 0x63]" "edit_line [] (replicate 81 0x61) = None"
    by code_simp+
  have n: "0x0A \<notin> set [0x08, 0x61, 0x62, 0x08, 0x63 :: u8]" "0x0A \<notin> set (replicate 81 (0x61 :: u8))" by simp_all
  show ?thesis
    using shell_edits_line [OF bash_boot_idle(2) n(1), THEN conjunct1]
      shell_edits_line [OF bash_boot_idle(2) n(2), THEN conjunct1]
    unfolding bash_boot_idle(3) e by blast
qed

text \<open>
  C34: "outb p v" (and "outw", "outd") typed at the prompt, with hexadecimal numbers of either case,
  writes the value to the port, in 8, 16 or 32 bits, does nothing else on the ports, and leaves the
  shell ready for the next command. The shell is idle before: nothing is typed, and the array
  holds no stale digit of an earlier command (\<open>idle\<close>).
\<close>

theorem shell_writes_port:
  assumes "sz = 8 \<or> sz = 16 \<or> sz = 32" "idle s" "hex_string ps" "hex_string vs"
    and "length ps + length vs < 74"
  shows "\<exists>s'. bash_run dv (out_name sz @ ps @ 0x20 # vs @ [0x0A]) s = Some s' \<and> idle s' \<and>
    bash_io s' = out_access sz (hex_value 0 ps) (hex_value 0 vs) # bash_io s"
  using assms by (rule shell_out_command)

theorem shell_writes_port_witness:
  "\<exists>s'. bash_run (\<lambda>_ _. 0) [0x6F, 0x75, 0x74, 0x62, 0x20, 0x33, 0x46, 0x38, 0x20, 0x34, 0x31, 0x0A] bash_boot = Some s' \<and>
    bash_io s' = [Out_byte 0x3F8 0x41]"
proof -
  have d: "hex_val 0x33 = 3" "hex_val 0x46 = 15" "hex_val 0x38 = 8" "hex_val 0x34 = 4" "hex_val 0x31 = 1"
    "hex_char 0x33" "hex_char 0x46" "hex_char 0x38" "hex_char 0x34" "hex_char 0x31"
    by (simp_all add: hex_val_def hex_char_def)
  have t: "out_name 8 @ [0x33, 0x46, 0x38] @ 0x20 # [0x34, 0x31] @ [0x0A] =
      [0x6F, 0x75, 0x74, 0x62, 0x20, 0x33, 0x46, 0x38, 0x20, 0x34, 0x31, 0x0A]"
    "out_access 8 (hex_value 0 [0x33, 0x46, 0x38]) (hex_value 0 [0x34, 0x31]) = Out_byte 0x3F8 0x41"
    "bash_io bash_boot = []"
    by (simp_all add: out_name_def out_access_def d bash_boot_def)
  show ?thesis
    using shell_writes_port [of 8 bash_boot "[0x33, 0x46, 0x38]" "[0x34, 0x31]" "\<lambda>_ _. 0"] bash_boot_idle(1) d
    unfolding t by (auto simp: hex_string_def)
qed

text \<open>
  A character taken back stays in the array and is still read as part of a number: "outb 60 12",
  backspace, newline writes 0x12.
\<close>

lemma stale_character:
  "map_option bash_io (bash_run (\<lambda>_ _. 0)
     [0x6F, 0x75, 0x74, 0x62, 0x20, 0x36, 0x30, 0x20, 0x31, 0x32, 0x08, 0x0A] bash_boot) = Some [Out_byte 0x60 0x12]"
  by code_simp

text \<open>"ind" reads a byte.\<close>

lemma ind_reads_byte:
  "map_option bash_io (bash_run (\<lambda>_ _. 0) [0x69, 0x6E, 0x64, 0x20, 0x36, 0x30, 0x0A] bash_boot) = Some [In_byte 0x60]"
  by code_simp

text \<open>A full line is executed, but clearing it writes behind the array.\<close>

lemma full_line_overruns: "bash_run (\<lambda>_ _. 0) (replicate 80 0x61 @ [0x0A]) bash_boot = None"
  by code_simp

end
