(* ===== verification/KeyEvents.thy ===== *)
theory KeyEvents
  imports ShellProperties
begin

text \<open>
  Key events on their way from the keyboard interrupt to the shell: each is an object on the kernel
  heap, its address waits in the event queue, and the event loop hands it to the shell, which frees
  it. In the end the shell has seen the characters pressed, in order, and no memory is lost.
\<close>

section \<open>A key event in memory\<close>

definition key_at :: "memory \<Rightarrow> addr \<Rightarrow> KeypressEvent \<Rightarrow> bool" where
  "key_at m p e \<longleftrightarrow> key_ascii m p = of_char (ev_ascii e) \<and> key_released m p = ev_released e"

lemma write_key_event_at:
  assumes "unat p + 20 \<le> 2 ^ 32"
  shows "key_at (write_key_event m p e) p e"
    and "unchanged_outside (region p 20) m (write_key_event m p e)"
proof -
  have u: "p + i \<in> region p 20" if "unat i < 20" for i using that by (rule region_offset)
  have r: "region (p + 4) 4 \<subseteq> region p 20" by (rule region_sub) simp
  have a: "p \<notin> region (p + 4) 4" by (simp add: region_iff)
  show "unchanged_outside (region p 20) m (write_key_event m p e)"
    unfolding write_key_event_def Let_def
    by (intro unchanged_upd unchanged_write32 unchanged_refl r u) (simp_all add: u)
  show "key_at (write_key_event m p e) p e"
    using write32_outside [OF a] by (simp add: key_at_def key_ascii_def key_released_def write_key_event_def Let_def)
qed

lemma key_at_cong:
  assumes "key_at m p e" "unchanged_outside S m m'" "S \<inter> region p 20 = {}" shows "key_at m' p e"
proof -
  have "p \<in> region p 20" "p + 8 \<in> region p 20" by (simp_all add: region_iff)
  then have "m' p = m p" "m' (p + 8) = m (p + 8)" using assms(2,3) by (auto simp: unchanged_outside_def)
  with assms(1) show ?thesis by (simp add: key_at_def key_ascii_def key_released_def)
qed

text \<open>Events at some addresses, each in a block of its own; the blocks make up \<open>K\<close>.\<close>

primrec keys_held :: "memory \<Rightarrow> (addr \<times> KeypressEvent) list \<Rightarrow> addr set \<Rightarrow> bool" where
  "keys_held m [] K \<longleftrightarrow> K = {}"
| "keys_held m (k # ks) K \<longleftrightarrow> (\<exists>B V. heap_owned m (fst k) sizeof_KeypressEvent B \<and> B \<inter> V = {} \<and>
     K = B \<union> V \<and> key_at m (fst k) (snd k) \<and> keys_held m ks V)"

lemma keys_held_frame:
  assumes "keys_held m ks K" "unchanged_outside S m m'" "S \<inter> K = {}" shows "keys_held m' ks K"
  using assms(1,3)
proof (induction ks arbitrary: K)
  case (Cons k ks)
  then obtain B V where k: "heap_owned m (fst k) sizeof_KeypressEvent B" "B \<inter> V = {}" "K = B \<union> V"
    "key_at m (fst k) (snd k)" "keys_held m ks V" by auto
  have "unchanged_outside (- B) m m'" using assms(2) by (rule unchanged_mono) (use Cons.prems(2) k(3) in blast)
  then have "heap_owned m' (fst k) sizeof_KeypressEvent B"
    using kheap.owned_stable [OF k(1)] by (blast intro: unchanged_mono)
  moreover have "region (fst k) 20 \<subseteq> B"
    using heap_owned_region [OF k(1)] by (simp add: sizeof_KeypressEvent_def)
  then have "key_at m' (fst k) (snd k)" using key_at_cong [OF k(4) assms(2)] Cons.prems(2) k(3) by blast
  ultimately show ?case using Cons.IH [OF k(5)] Cons.prems(2) k(2,3) by auto
qed simp

lemma keys_held_snoc:
  assumes "keys_held m ks K" "heap_owned m p sizeof_KeypressEvent B" "key_at m p e" "B \<inter> K = {}"
  shows "keys_held m (ks @ [(p, e)]) (K \<union> B)"
  using assms(1,4)
proof (induction ks arbitrary: K)
  case Nil
  then show ?case using assms(2,3) by auto
next
  case (Cons k ks)
  then obtain A V where k: "heap_owned m (fst k) sizeof_KeypressEvent A" "A \<inter> V = {}" "K = A \<union> V"
    "key_at m (fst k) (snd k)" "keys_held m ks V" by auto
  have "keys_held m (ks @ [(p, e)]) (V \<union> B)" using Cons.IH [OF k(5)] Cons.prems(2) k(3) by blast
  moreover have "A \<inter> (V \<union> B) = {}" "K \<union> B = A \<union> (V \<union> B)" using Cons.prems(2) k(2,3) by auto
  ultimately show ?case using k(1,4) by auto
qed

section \<open>Waiting events\<close>

lemma events_rep_heap:
  assumes "events_rep s q F Q" "heap_ok h F'" "Q \<inter> F' = {}"
    and "unchanged_outside S (hmem (ev_heap s)) (hmem h)" "S \<inter> Q = {}"
  shows "events_rep (s\<lparr>ev_heap := h\<rparr>) q F' Q"
proof -
  have "chain heap_owned event_layout (hmem h) p vs r V"
    if "chain heap_owned event_layout (hmem (ev_heap s)) p vs r V" "V \<subseteq> Q" for p vs r V
    using kheap.chain_frame [OF event_layout_ok that(1) assms(4)] assms(5) that(2) by blast
  then show ?thesis using assms(1-3) unfolding events_rep_def by (auto; blast)
qed

text \<open>The queue holds the handler \<open>hd\<close> with the key events \<open>es\<close>; queue and events use \<open>U\<close>.\<close>

definition waiting :: "u32 \<Rightarrow> KeypressEvent list \<Rightarrow> addr set \<Rightarrow> addr set \<Rightarrow> kernel \<Rightarrow> bool" where
  "waiting hr es F U s \<longleftrightarrow> (\<exists>ks Q K. map snd ks = es \<and> events_rep s (map (\<lambda>k. (hr, fst k)) ks) F Q \<and>
     keys_held (hmem (ev_heap s)) ks K \<and> K \<inter> (F \<union> Q) = {} \<and> U = Q \<union> K)"

lemma post_key_event_waits:
  assumes w: "waiting hr es F U s" and room: "room F n" "86 \<le> n"
  shows "\<exists>s' F' U'. post_key_event hr e s = Some s' \<and> waiting hr (es @ [e]) F' U' s' \<and>
    F' \<union> U' = F \<union> U \<and> shell s' = shell s \<and> room F' (n - 86)"
proof -
  obtain ks Q K where k: "map snd ks = es" "events_rep s (map (\<lambda>k. (hr, fst k)) ks) F Q"
    "keys_held (hmem (ev_heap s)) ks K" "K \<inter> (F \<union> Q) = {}" "U = Q \<union> K"
    using w by (auto simp: waiting_def)
  have ok: "heap_ok (ev_heap s) F" "Q \<inter> F = {}" using k(2) by (simp_all add: events_rep_def)
  obtain p h1 B where b: "malloc (ev_heap s) sizeof_KeypressEvent = Some (p, h1)" "p \<noteq> 0" "B \<subseteq> F"
    "heap_ok h1 (F - B)" "heap_owned (hmem h1) p sizeof_KeypressEvent B"
    "unchanged_outside F (hmem (ev_heap s)) (hmem h1)" "room (F - B) (n - 47)"
    by (rule malloc_room [OF ok(1) room(1), of sizeof_KeypressEvent])
      (use room(2) in \<open>simp_all add: sizeof_KeypressEvent_def\<close>)
  define m where "m = write_key_event (hmem h1) p e"
  have p: "unat p + 20 \<le> 2 ^ 32" "region p 20 \<subseteq> B"
    using heap_owned_region [OF b(5)] by (simp_all add: sizeof_KeypressEvent_def)
  note wr = write_key_event_at [OF p(1), of "hmem h1" e, folded m_def]
  have mB: "unchanged_outside B (hmem h1) m" using wr(2) p(2) by (rule unchanged_mono)
  have unF: "unchanged_outside F (hmem (ev_heap s)) m"
    using unchanged_trans [OF b(6) unchanged_mono [OF mB b(3)]] .
  let ?h = "heap_write m h1" and ?s = "s\<lparr>ev_heap := heap_write m h1\<rparr>"
  have h: "heap_ok ?h (F - B)" "hmem ?h = m"
    using kheap.write_block_ok [OF b(4) _ mB] by (auto simp: heap_write_def)
  have own: "heap_owned m p sizeof_KeypressEvent B"
    using kheap.owned_stable [OF b(5), of m] unchanged_mono [OF wr(2)]
    by (auto simp: sizeof_KeypressEvent_def)
  have rep: "events_rep ?s (map (\<lambda>k. (hr, fst k)) ks) (F - B) Q"
    by (rule events_rep_heap [OF k(2) h(1), where S = F]) (use ok(2) unF h(2) in auto)
  have "keys_held m ks K" using keys_held_frame [OF k(3) unF] k(4) by blast
  then have keys: "keys_held m (ks @ [(p, e)]) (K \<union> B)"
    using keys_held_snoc [OF _ own wr(1)] b(3) k(4) by blast
  obtain q h2 A where a: "malloc ?h sizeof_Event = Some (q, h2)" "q \<noteq> 0" "A \<subseteq> F - B"
    "heap_ok h2 (F - B - A)" "heap_owned (hmem h2) q sizeof_Event A"
    "unchanged_outside (F - B) (hmem ?h) (hmem h2)" "room (F - B - A) (n - 47 - 39)"
    by (rule malloc_room [OF h(1) b(7), of sizeof_Event])
      (use room(2) in \<open>simp_all add: sizeof_Event_def\<close>)
  have "event_block ?s (F - B) q h2 A" using a by (simp add: event_block_def)
  from add_event_block [OF rep this, of hr p] obtain s' where
    s': "add_event ?s hr p = Some s'" "events_rep s' (map (\<lambda>k. (hr, fst k)) ks @ [(hr, p)]) (F - B - A) (Q \<union> A)"
      "event_queue.more s' = event_queue.more ?s" "unchanged_outside (F - B \<union> Q) m (hmem (ev_heap s'))"
    using h(2) by auto
  have held: "keys_held (hmem (ev_heap s')) (ks @ [(p, e)]) (K \<union> B)"
    using keys_held_frame [OF keys s'(4)] k(4) b(3) ok(2) by blast
  have "waiting hr (es @ [e]) (F - B - A) (Q \<union> A \<union> (K \<union> B)) s'"
    unfolding waiting_def using s'(2) held k(1,4) a(3) b(3) ok(2)
    by (intro exI [of _ "ks @ [(p, e)]"] exI [of _ "Q \<union> A"] exI [of _ "K \<union> B"]) auto
  moreover have "post_key_event hr e s = Some s'"
    using b(1) s'(1) by (simp add: post_key_event_def m_def)
  moreover have "(F - B - A) \<union> (Q \<union> A \<union> (K \<union> B)) = F \<union> U" using a(3) b(3) k(5) by blast
  moreover have "shell s' = shell s" using s'(3) by (cases s; cases s') simp
  moreover have "room (F - B - A) (n - 86)" using a(7) by simp
  ultimately show ?thesis by blast
qed

section \<open>The event loop\<close>

text \<open>The handlers there are: the one of the shell, at address \<open>hr\<close>.\<close>

definition shell_handler :: "devices \<Rightarrow> u32 \<Rightarrow> u32 \<Rightarrow> u32 \<Rightarrow> kernel \<Rightarrow> kernel option" where
  "shell_handler dv hr f a s = (if f = hr then bash_keypress dv a s else None)"

definition pressed :: "KeypressEvent \<Rightarrow> bool" where
  "pressed e \<longleftrightarrow> (of_char (ev_ascii e) :: u8) \<noteq> 0 \<and> \<not> ev_released e"

definition typed_chars :: "KeypressEvent list \<Rightarrow> u8 list" where
  "typed_chars es = map (\<lambda>e. of_char (ev_ascii e)) (filter pressed es)"

lemma bash_keypress_frees:
  assumes "heap_ok (ev_heap s) F" "heap_owned (hmem (ev_heap s)) p sizeof_KeypressEvent B" "B \<inter> F = {}"
    and "key_at (hmem (ev_heap s)) p e"
    and "(if pressed e then bash_char dv (of_char (ev_ascii e)) (shell s) else Some (shell s)) = Some sh"
  shows "\<exists>h. bash_keypress dv p s = Some (s\<lparr>ev_heap := h, shell := sh\<rparr>) \<and> heap_ok h (F \<union> B) \<and>
    unchanged_outside (F \<union> B) (hmem (ev_heap s)) (hmem h)"
proof -
  obtain h where "free (ev_heap s) p = Some h" "heap_ok h (F \<union> B)"
    "unchanged_outside (F \<union> B) (hmem (ev_heap s)) (hmem h)"
    using kheap.release_ok [OF assms(1-3)] by blast
  moreover have "(if key_ascii (hmem (ev_heap s)) p \<noteq> 0 \<and> \<not> key_released (hmem (ev_heap s)) p
      then bash_char dv (key_ascii (hmem (ev_heap s)) p) (shell s) else Some (shell s)) = Some sh"
    using assms(4,5) by (auto simp: key_at_def pressed_def split: if_splits)
  ultimately show ?thesis by (simp only: bash_keypress_def Let_def option.case) blast
qed

lemma events_rep_shell: "events_rep (s\<lparr>shell := x\<rparr>) q F Q = events_rep s q F Q"
  unfolding events_rep_def by simp

lemma call_key_event:
  assumes w: "waiting hr (e # es) F U s"
    and sh: "(if pressed e then bash_char dv (of_char (ev_ascii e)) (shell s) else Some (shell s)) = Some sh"
  shows "\<exists>s' F' U'. call_next_event (shell_handler dv hr) s = Some s' \<and> shell s' = sh \<and>
    F \<subseteq> F' \<and> F' \<union> U' = F \<union> U \<and> get_event_count s' = int (length es) \<and>
    (if es = [] then heap_ok (ev_heap s') (F \<union> U) \<and> ev_head s' = 0 else waiting hr es F' U' s')"
proof -
  obtain p ks Q K where k: "map snd ks = es" "events_rep s ((hr, p) # map (\<lambda>k. (hr, fst k)) ks) F Q"
    "keys_held (hmem (ev_heap s)) ((p, e) # ks) K" "K \<inter> (F \<union> Q) = {}" "U = Q \<union> K"
    using w by (auto simp: waiting_def Cons_eq_map_conv)
  have QF: "Q \<inter> F = {}" using k(2) by (simp add: events_rep_def)
  obtain s1 B where c: "call_next_event (shell_handler dv hr) s = shell_handler dv hr hr p s1" "B \<subseteq> Q"
    "event_count s1 = int (length (map (\<lambda>k. (hr, fst k)) ks))" "heap_ok (ev_heap s1) (F \<union> B)"
    "chain heap_owned event_layout (hmem (ev_heap s1)) (ev_head s1) (map event_cell (map (\<lambda>k. (hr, fst k)) ks)) 0 (Q - B)"
    "map (\<lambda>k. (hr, fst k)) ks \<noteq> [] \<longrightarrow> events_rep s1 (map (\<lambda>k. (hr, fst k)) ks) (F \<union> B) (Q - B)"
    "event_queue.more s1 = event_queue.more s"
    "unchanged_outside (F \<union> B) (hmem (ev_heap s)) (hmem (ev_heap s1))"
    using call_next_event_correct [OF k(2), of "shell_handler dv hr"] by blast
  have sh1: "shell s1 = shell s" using c(7) by (cases s; cases s1) simp
  have "keys_held (hmem (ev_heap s1)) ((p, e) # ks) K"
    using keys_held_frame [OF k(3) c(8)] k(4) c(2) by blast
  then obtain A V where a: "heap_owned (hmem (ev_heap s1)) p sizeof_KeypressEvent A" "A \<inter> V = {}" "K = A \<union> V"
    "key_at (hmem (ev_heap s1)) p e" "keys_held (hmem (ev_heap s1)) ks V" by auto
  have "A \<inter> (F \<union> B) = {}" using k(4) c(2) a(3) by blast
  from bash_keypress_frees [OF c(4) a(1) this a(4) sh [folded sh1]] obtain h where
    h: "bash_keypress dv p s1 = Some (s1\<lparr>ev_heap := h, shell := sh\<rparr>)" "heap_ok h (F \<union> B \<union> A)"
      "unchanged_outside (F \<union> B \<union> A) (hmem (ev_heap s1)) (hmem h)" by blast
  let ?s = "s1\<lparr>ev_heap := h, shell := sh\<rparr>"
  have call: "call_next_event (shell_handler dv hr) s = Some ?s" using c(1) h(1) by (simp add: shell_handler_def)
  show ?thesis
  proof (cases "es = []")
    case True
    then have "ks = []" "V = {}" using k(1) a(5) by auto
    then have "Q - B = {}" "ev_head s1 = 0" using c(5) by auto
    then have "F \<union> B \<union> A = F \<union> U" using c(2) a(3) k(5) \<open>V = {}\<close> by blast
    then show ?thesis using call h(2) c(3) \<open>ks = []\<close> \<open>ev_head s1 = 0\<close> True
      by (intro exI [of _ ?s] exI [of _ "F \<union> U"] exI [of _ "{}"]) (simp add: get_event_count_def)
  next
    case False
    then have rep: "events_rep s1 (map (\<lambda>k. (hr, fst k)) ks) (F \<union> B) (Q - B)" using c(6) k(1) by auto
    have disj: "(Q - B) \<inter> (F \<union> B \<union> A) = {}" "(F \<union> B \<union> A) \<inter> V = {}" using QF k(4) a(2,3) c(2) by auto
    have "events_rep (s1\<lparr>ev_heap := h\<rparr>) (map (\<lambda>k. (hr, fst k)) ks) (F \<union> B \<union> A) (Q - B)"
      by (rule events_rep_heap [OF rep h(2) disj(1) h(3)]) (use disj(1) in blast)
    then have "events_rep ?s (map (\<lambda>k. (hr, fst k)) ks) (F \<union> B \<union> A) (Q - B)"
      using events_rep_shell [of sh "s1\<lparr>ev_heap := h\<rparr>"] by simp
    moreover have "keys_held (hmem h) ks V" using keys_held_frame [OF a(5) h(3) disj(2)] .
    moreover have "V \<inter> (F \<union> B \<union> A \<union> (Q - B)) = {}" using k(4) a(2,3) c(2) by blast
    moreover have "map snd ks = es" by (rule k(1))
    ultimately have "waiting hr es (F \<union> B \<union> A) (Q - B \<union> V) ?s"
      unfolding waiting_def
      by (intro exI [of _ ks] exI [of _ "Q - B"] exI [of _ V] conjI) (assumption | simp)+
    moreover have "F \<subseteq> F \<union> B \<union> A" by blast
    moreover have "F \<union> B \<union> A \<union> (Q - B \<union> V) = F \<union> U" using c(2) a(3) k(5) by blast
    moreover have "length ks = length es" using k(1) by auto
    ultimately show ?thesis using call c(3) False
      by (intro exI [of _ ?s] exI [of _ "F \<union> B \<union> A"] exI [of _ "Q - B \<union> V"]) (simp add: get_event_count_def)
  qed
qed

lemma event_loop_waiting:
  assumes "waiting hr es F U s" "bash_run dv (typed_chars es) (shell s) = Some sh"
  shows "\<exists>s'. event_loop (shell_handler dv hr) s = Some s' \<and> shell s' = sh \<and> get_event_count s' = 0 \<and>
    heap_ok (ev_heap s') (F \<union> U) \<and> ev_head s' = 0"
  using assms
proof (induction es arbitrary: F U s)
  case Nil
  then have e: "events_rep s [] F U" "U = {}" by (auto simp: waiting_def events_rep_def)
  then show ?case using Nil.prems(2)
    by (subst event_loop.simps) (auto simp: events_rep_def get_event_count_def typed_chars_def)
next
  case (Cons e es)
  obtain sh1 where sh1: "(if pressed e then bash_char dv (of_char (ev_ascii e)) (shell s) else Some (shell s)) = Some sh1"
    "bash_run dv (typed_chars es) sh1 = Some sh"
    using Cons.prems(2) by (auto simp: typed_chars_def split: if_splits option.splits)
  obtain s1 F' U' where s1: "call_next_event (shell_handler dv hr) s = Some s1" "shell s1 = sh1"
    "F' \<union> U' = F \<union> U" "get_event_count s1 = int (length es)"
    "if es = [] then heap_ok (ev_heap s1) (F \<union> U) \<and> ev_head s1 = 0 else waiting hr es F' U' s1"
    using call_key_event [OF Cons.prems(1) sh1(1)] by blast
  have "get_event_count s > 0"
    using Cons.prems(1) by (auto simp: waiting_def events_rep_def get_event_count_def)
  then have step: "event_loop (shell_handler dv hr) s = event_loop (shell_handler dv hr) s1"
    using s1(1) by (subst event_loop.simps) simp
  show ?case
  proof (cases "es = []")
    case True
    then show ?thesis using step s1 sh1(2) by (subst (asm) (2) event_loop.simps) (simp add: typed_chars_def)
  next
    case False
    then have "waiting hr es F' U' s1" using s1(5) by simp
    from Cons.IH [OF this] show ?thesis using s1(2,3) sh1(2) step by simp
  qed
qed

section \<open>From the interrupt to the shell\<close>

primrec post_key_events :: "u32 \<Rightarrow> KeypressEvent list \<Rightarrow> kernel \<Rightarrow> kernel option" where
  "post_key_events hr [] s = Some s"
| "post_key_events hr (e # es) s =
     (case post_key_event hr e s of None \<Rightarrow> None | Some s \<Rightarrow> post_key_events hr es s)"

lemma post_key_events_wait:
  assumes "waiting hr ds F U s" "room F n" "86 * length es \<le> n"
  shows "\<exists>s' F' U'. post_key_events hr es s = Some s' \<and> waiting hr (ds @ es) F' U' s' \<and>
    F' \<union> U' = F \<union> U \<and> shell s' = shell s"
  using assms
proof (induction es arbitrary: ds F U s n)
  case (Cons e es)
  obtain s1 F1 U1 where s1: "post_key_event hr e s = Some s1" "waiting hr (ds @ [e]) F1 U1 s1"
    "F1 \<union> U1 = F \<union> U" "shell s1 = shell s" "room F1 (n - 86)"
    using post_key_event_waits [OF Cons.prems(1,2), of e] Cons.prems(3) by auto
  show ?case using Cons.IH [OF s1(2,5)] Cons.prems(3) s1(1,3,4) by simp
qed auto

section \<open>Properties\<close>

text \<open>
  C32: key events posted by the keyboard interrupt reach the shell. From an empty queue with memory
  for them, the events are queued, the event loop ends, the shell has been given exactly the
  characters of the keys pressed, in order, the queue is empty, and every byte allocated on the way
  is free again.
\<close>

theorem keypresses_reach_shell:
  assumes "events_rep s [] F {}" "room F (86 * length es)"
    and "bash_run dv (typed_chars es) (shell s) = Some sh"
  shows "\<exists>s1 s2. post_key_events hr es s = Some s1 \<and> event_loop (shell_handler dv hr) s1 = Some s2 \<and>
    shell s2 = sh \<and> get_event_count s2 = 0 \<and> ev_head s2 = 0 \<and> heap_ok (ev_heap s2) F"
proof -
  have "waiting hr [] F {} s" unfolding waiting_def using assms(1) by (intro exI [of _ "[]"]) simp
  from post_key_events_wait [OF this assms(2) order_refl] obtain s1 F' U' where
    s1: "post_key_events hr es s = Some s1" "waiting hr es F' U' s1" "F' \<union> U' = F" "shell s1 = shell s"
    by auto
  from event_loop_waiting [OF s1(2), of dv sh] s1 assms(3) show ?thesis by auto
qed

definition key_press :: "char \<Rightarrow> bool \<Rightarrow> KeypressEvent" where
  "key_press c rel = \<lparr>ev_ascii = c, ev_code = 0, ev_released = rel,
     ev_modifiers = \<lparr>m_shift = False, m_alt = False, m_control = False, m_function = False, m_gui = False\<rparr>,
     ev_toggles = \<lparr>caps_lock = False, num_lock = False, scroll_lock = False\<rparr>\<rparr>"

definition kernel_boot :: kernel where
  "kernel_boot = event_queue.extend events_boot \<lparr>shell = bash_boot\<rparr>"

lemma kernel_boot_empty: "events_rep kernel_boot [] (free_region [(4096, 8192)]) {}"
  using events_boot_rep by (simp add: events_rep_def kernel_boot_def event_queue.extend_def)

lemma kernel_boot_types:
  obtains sh where "bash_run (\<lambda>_ _. 0) [0x61, 0x62] (shell kernel_boot) = Some sh" "line sh = [0x61, 0x62]"
proof -
  have "edit_line (line bash_boot) [0x61, 0x62] = Some [0x61, 0x62]" by (simp add: bash_boot_idle)
  then show thesis
    using that bash_run_edits [OF bash_boot_idle(2), of "[0x61, 0x62]" "\<lambda>_ _. 0"]
    by (auto simp: kernel_boot_def event_queue.extend_def)
qed

lemma kernel_boot_room: "room (free_region [(4096, 8192)]) 258"
proof -
  have "of_nat y \<in> free_region [(4096, 8192)]" if "4096 \<le> y" "y < 4096 + 258" for y
    using that by (simp add: free_region_def free_bytes_def unat_of_nat take_bit_eq_mod)
  then show ?thesis by (intro roomI [of 4096]) simp_all
qed

theorem keypresses_reach_shell_witness:
  "\<exists>s1 s2. post_key_events 1 [key_press CHR ''a'' False, key_press CHR ''a'' True, key_press CHR ''b'' False]
       kernel_boot = Some s1 \<and>
     event_loop (shell_handler (\<lambda>_ _. 0) 1) s1 = Some s2 \<and> line (shell s2) = [0x61, 0x62]"
proof -
  let ?es = "[key_press CHR ''a'' False, key_press CHR ''a'' True, key_press CHR ''b'' False]"
  have t: "typed_chars ?es = [0x61, 0x62]" by (simp add: typed_chars_def pressed_def key_press_def)
  have room: "room (free_region [(4096, 8192)]) (86 * length ?es)" using kernel_boot_room by simp
  obtain sh where sh: "bash_run (\<lambda>_ _. 0) [0x61, 0x62] (shell kernel_boot) = Some sh" "line sh = [0x61, 0x62]"
    by (rule kernel_boot_types)
  from keypresses_reach_shell [OF kernel_boot_empty room sh(1) [folded t], of 1] sh(2) show ?thesis by blast
qed

end
