(* ===== verification/KeySchedules.thy ===== *)
theory KeySchedules
  imports KeyEvents
begin

text \<open>
  The keyboard interrupt against the event loop. A step of the kernel is one interrupt, which posts
  a key event, or one turn of the inner loop of \<open>loop()\<close>, which calls the next event; they alternate
  in any order. A step is not interrupted itself: nothing in \<open>events.c\<close> or \<open>memory.c\<close> keeps the
  interrupt away from a turn, so this is an assumption on the schedule. Another one, that the queue
  is never drained before a further key, is needed because of the tail that the last event leaves
  behind (theorem \<open>last_event_dangles\<close>).
\<close>

section \<open>Steps and runs\<close>

datatype key_action = Press KeypressEvent | Dispatch

inductive kernel_step :: "devices \<Rightarrow> u32 \<Rightarrow> kernel \<Rightarrow> key_action \<Rightarrow> kernel \<Rightarrow> bool" for dv hr where
  interrupt: "post_key_event hr e s = Some s' \<Longrightarrow> kernel_step dv hr s (Press e) s'"
| turn: "get_event_count s > 0 \<Longrightarrow> call_next_event (shell_handler dv hr) s = Some s' \<Longrightarrow>
    kernel_step dv hr s Dispatch s'"

inductive kernel_run :: "devices \<Rightarrow> u32 \<Rightarrow> kernel \<Rightarrow> key_action list \<Rightarrow> kernel \<Rightarrow> bool" for dv hr s where
  start: "kernel_run dv hr s [] s"
| continue: "kernel_run dv hr s as s' \<Longrightarrow> kernel_step dv hr s' a s'' \<Longrightarrow> kernel_run dv hr s (as @ [a]) s''"

inductive_simps press_step: "kernel_step dv hr s (Press e) s'"
inductive_simps dispatch_step: "kernel_step dv hr s Dispatch s'"
inductive_cases kernel_runE: "kernel_run dv hr s as s'"

lemma kernel_step_det: "kernel_step dv hr s a t \<Longrightarrow> kernel_step dv hr s a u \<Longrightarrow> t = u"
  by (cases a) (auto simp: press_step dispatch_step)

lemma kernel_run_Nil: "kernel_run dv hr s [] t \<longleftrightarrow> t = s"
  by (auto elim: kernel_runE intro: start)

lemma kernel_run_snoc:
  "kernel_run dv hr s (as @ [a]) t \<longleftrightarrow> (\<exists>u. kernel_run dv hr s as u \<and> kernel_step dv hr u a t)"
  by (auto elim: kernel_runE intro: continue)

lemma kernel_run_det: "kernel_run dv hr s as t \<Longrightarrow> kernel_run dv hr s as u \<Longrightarrow> t = u"
proof (induction arbitrary: u rule: kernel_run.induct)
  case start
  then show ?case by (simp add: kernel_run_Nil)
next
  case (continue as s' a s'')
  then show ?case using kernel_step_det by (metis kernel_run_snoc)
qed

section \<open>Schedules\<close>

fun presses :: "key_action list \<Rightarrow> KeypressEvent list" where
  "presses [] = []"
| "presses (Press e # as) = e # presses as"
| "presses (Dispatch # as) = presses as"

definition dispatches :: "key_action list \<Rightarrow> nat" where
  "dispatches as = count_list as Dispatch"

lemma schedule_snoc [simp]:
  "presses (as @ [Press e]) = presses as @ [e]" "presses (as @ [Dispatch]) = presses as"
  "dispatches (as @ [Press e]) = dispatches as" "dispatches (as @ [Dispatch]) = Suc (dispatches as)"
  "presses [] = []" "dispatches [] = 0"
proof -
  show "presses (as @ [Press e]) = presses as @ [e]" by (induction as rule: presses.induct) simp_all
  show "presses (as @ [Dispatch]) = presses as" by (induction as rule: presses.induct) simp_all
qed (simp_all add: dispatches_def)

text \<open>A turn needs a waiting event; after the first turn, so does an interrupt.\<close>

definition may_follow :: "key_action list \<Rightarrow> key_action \<Rightarrow> bool" where
  "may_follow as a \<longleftrightarrow>
     dispatches as < length (presses as) \<or> (a \<noteq> Dispatch \<and> dispatches as = 0)"

definition schedule :: "key_action list \<Rightarrow> bool" where
  "schedule as \<longleftrightarrow> (\<forall>i<length as. may_follow (take i as) (as ! i))"

lemma schedule_append: "schedule (as @ [a]) \<longleftrightarrow> schedule as \<and> may_follow as a"
  by (auto simp: schedule_def less_Suc_eq nth_append)

section \<open>The invariant of a run\<close>

definition handled :: "key_action list \<Rightarrow> KeypressEvent list" where
  "handled as = take (dispatches as) (presses as)"

definition pending :: "key_action list \<Rightarrow> KeypressEvent list" where
  "pending as = drop (dispatches as) (presses as)"

definition run_inv :: "devices \<Rightarrow> u32 \<Rightarrow> addr set \<Rightarrow> nat \<Rightarrow> bash \<Rightarrow> key_action list \<Rightarrow> kernel \<Rightarrow> bool" where
  "run_inv dv hr F n sh as s \<longleftrightarrow> dispatches as \<le> length (presses as) \<and>
     bash_run dv (typed_chars (handled as)) sh = Some (shell s) \<and>
     get_event_count s = int (length (pending as)) \<and>
     (pending as = [] \<longrightarrow> ev_head s = 0 \<and> heap_ok (ev_heap s) F) \<and>
     (pending as \<noteq> [] \<or> dispatches as = 0 \<longrightarrow>
       (\<exists>F' U'. waiting hr (pending as) F' U' s \<and> F' \<union> U' = F \<and> room F' (n - 86 * length (presses as))))"

lemma waiting_count: "waiting hr es F U s \<Longrightarrow> get_event_count s = int (length es)"
  by (auto simp: waiting_def events_rep_def get_event_count_def)

lemma run_inv_start:
  assumes "events_rep s [] F {}" "room F n" shows "run_inv dv hr F n (shell s) [] s"
proof -
  have "waiting hr [] F {} s" unfolding waiting_def using assms(1) by (intro exI [of _ "[]"]) simp
  then show ?thesis using assms waiting_count [of hr "[]" F "{}" s]
    by (auto simp: run_inv_def handled_def pending_def typed_chars_def events_rep_def)
qed

lemma run_inv_press:
  assumes inv: "run_inv dv hr F n sh as s" and ok: "may_follow as (Press e)"
    and n: "86 * length (presses (as @ [Press e])) \<le> n"
  shows "\<exists>s'. kernel_step dv hr s (Press e) s' \<and> run_inv dv hr F n sh (as @ [Press e]) s'"
proof -
  have d: "dispatches as \<le> length (presses as)" using inv by (simp add: run_inv_def)
  have "pending as \<noteq> [] \<or> dispatches as = 0" using ok d by (auto simp: may_follow_def pending_def)
  then obtain F1 U1 where w: "waiting hr (pending as) F1 U1 s" "F1 \<union> U1 = F"
    "room F1 (n - 86 * length (presses as))" using inv unfolding run_inv_def by blast
  have "86 \<le> n - 86 * length (presses as)" using n by simp
  from post_key_event_waits [OF w(1,3) this, of e] obtain s' F2 U2 where
    s': "post_key_event hr e s = Some s'" "waiting hr (pending as @ [e]) F2 U2 s'" "F2 \<union> U2 = F"
      "shell s' = shell s" "room F2 (n - 86 * length (presses as) - 86)" using w(2) by auto
  have p: "pending (as @ [Press e]) = pending as @ [e]" "handled (as @ [Press e]) = handled as"
    using d by (simp_all add: pending_def handled_def)
  have "room F2 (n - 86 * length (presses (as @ [Press e])))" using s'(5) by (simp add: algebra_simps)
  moreover have "get_event_count s' = int (length (pending (as @ [Press e])))"
    using waiting_count [OF s'(2)] p by simp
  moreover have "bash_run dv (typed_chars (handled as)) sh = Some (shell s')"
    using inv s'(4) by (simp add: run_inv_def)
  ultimately have "run_inv dv hr F n sh (as @ [Press e]) s'"
    using d s'(2,3) unfolding run_inv_def p by simp blast
  then show ?thesis using interrupt [OF s'(1)] by blast
qed

lemma typed_chars_append: "typed_chars (es @ fs) = typed_chars es @ typed_chars fs"
  by (simp add: typed_chars_def)

lemma bash_run_one:
  "bash_run dv (typed_chars [e]) s = (if pressed e then bash_char dv (of_char (ev_ascii e)) s else Some s)"
  by (simp add: typed_chars_def split: option.split)

lemma room_superset: "room F n \<Longrightarrow> F \<subseteq> F' \<Longrightarrow> room F' n"
  by (auto simp: room_def)

lemma run_inv_dispatch:
  assumes inv: "run_inv dv hr F n sh as s" and ok: "may_follow as Dispatch"
    and sh: "bash_run dv (typed_chars (handled (as @ [Dispatch]))) sh = Some sh'"
  shows "\<exists>s'. kernel_step dv hr s Dispatch s' \<and> run_inv dv hr F n sh (as @ [Dispatch]) s'"
proof -
  have d: "dispatches as < length (presses as)" using ok by (simp add: may_follow_def)
  define e where "e = presses as ! dispatches as"
  have p: "pending as = e # pending (as @ [Dispatch])" "handled (as @ [Dispatch]) = handled as @ [e]"
    using d by (simp_all add: pending_def handled_def e_def Cons_nth_drop_Suc take_Suc_conv_app_nth)
  obtain F1 U1 where w: "waiting hr (e # pending (as @ [Dispatch])) F1 U1 s" "F1 \<union> U1 = F"
    "room F1 (n - 86 * length (presses as))" using inv p(1) unfolding run_inv_def by auto
  have "bash_run dv (typed_chars [e]) (shell s) = Some sh'"
    using sh inv by (simp add: p(2) typed_chars_append bash_run_append run_inv_def)
  from call_key_event [OF w(1) this [unfolded bash_run_one]] obtain s' F2 U2 where
    s': "call_next_event (shell_handler dv hr) s = Some s'" "shell s' = sh'" "F1 \<subseteq> F2" "F2 \<union> U2 = F1 \<union> U1"
      "get_event_count s' = int (length (pending (as @ [Dispatch])))"
      "if pending (as @ [Dispatch]) = [] then heap_ok (ev_heap s') (F1 \<union> U1) \<and> ev_head s' = 0
       else waiting hr (pending (as @ [Dispatch])) F2 U2 s'" by blast
  have "get_event_count s > 0" using waiting_count [OF w(1)] by simp
  from turn [OF this s'(1)] have step: "kernel_step dv hr s Dispatch s'" .
  have "room F2 (n - 86 * length (presses (as @ [Dispatch])))" using room_superset [OF w(3) s'(3)] by simp
  then have "run_inv dv hr F n sh (as @ [Dispatch]) s'"
    using d s'(2,4-6) sh w(2) unfolding run_inv_def by (auto split: if_splits)
  with step show ?thesis by blast
qed

lemma run_exists:
  assumes "events_rep s [] F {}" "room F n" "86 * length (presses as) \<le> n" "schedule as"
    and "bash_run dv (typed_chars (presses as)) (shell s) \<noteq> None"
  shows "\<exists>s'. kernel_run dv hr s as s' \<and> run_inv dv hr F n (shell s) as s'"
  using assms(3-5)
proof (induction as rule: rev_induct)
  case Nil
  then show ?case using run_inv_start [OF assms(1,2)] start by blast
next
  case (snoc a as)
  have sub: "\<exists>fs. presses (as @ [a]) = presses as @ fs" by (cases a) simp_all
  then have "86 * length (presses as) \<le> n" "bash_run dv (typed_chars (presses as)) (shell s) \<noteq> None"
    using snoc.prems(1,3) by (auto simp: typed_chars_append bash_run_append split: option.splits)
  with snoc.IH snoc.prems(2) obtain u where
    u: "kernel_run dv hr s as u" "run_inv dv hr F n (shell s) as u" by (auto simp: schedule_append)
  have "\<exists>s'. kernel_step dv hr u a s' \<and> run_inv dv hr F n (shell s) (as @ [a]) s'"
  proof (cases a)
    case (Press e)
    then show ?thesis using run_inv_press [OF u(2)] snoc.prems(1,2) by (simp add: schedule_append)
  next
    case Dispatch
    obtain fs where "presses (as @ [Dispatch]) = handled (as @ [Dispatch]) @ fs"
      unfolding handled_def by (metis append_take_drop_id)
    then have "bash_run dv (typed_chars (handled (as @ [Dispatch]))) (shell s) \<noteq> None"
      using snoc.prems(3) Dispatch by (auto simp: typed_chars_append bash_run_append split: option.splits)
    then show ?thesis using run_inv_dispatch [OF u(2)] snoc.prems(2) Dispatch by (auto simp: schedule_append)
  qed
  then show ?case using u(1) continue by blast
qed

section \<open>Properties\<close>

text \<open>
  C36: whatever the order in which interrupts and turns of the event loop alternate, as long as the
  queue is not drained before a further key and there is memory, the kernel gets through, in one
  way, and at every moment the shell has been given exactly the characters of the oldest keys, as
  many as there were turns, the others wait in order, and when none is left every byte is free again.
\<close>

theorem keys_in_order:
  assumes "events_rep s [] F {}" "room F (86 * length (presses as))" "schedule as"
    and "bash_run dv (typed_chars (presses as)) (shell s) \<noteq> None"
  shows "\<exists>s'. kernel_run dv hr s as s' \<and> (\<forall>t. kernel_run dv hr s as t \<longrightarrow> t = s') \<and>
    bash_run dv (typed_chars (take (dispatches as) (presses as))) (shell s) = Some (shell s') \<and>
    get_event_count s' = int (length (presses as)) - int (dispatches as) \<and>
    (dispatches as < length (presses as) \<longrightarrow>
      (\<exists>F' U'. waiting hr (drop (dispatches as) (presses as)) F' U' s' \<and> F' \<union> U' = F)) \<and>
    (dispatches as = length (presses as) \<longrightarrow> ev_head s' = 0 \<and> heap_ok (ev_heap s') F)"
proof -
  obtain s' where s': "kernel_run dv hr s as s'" "run_inv dv hr F (86 * length (presses as)) (shell s) as s'"
    using run_exists [OF assms(1,2) order_refl assms(3,4)] by blast
  have "\<forall>t. kernel_run dv hr s as t \<longrightarrow> t = s'" using kernel_run_det [OF s'(1)] by blast
  moreover have "get_event_count s' = int (length (presses as)) - int (dispatches as)"
    using s'(2) by (simp add: run_inv_def pending_def of_nat_diff)
  moreover have "dispatches as < length (presses as) \<longrightarrow>
      (\<exists>F' U'. waiting hr (drop (dispatches as) (presses as)) F' U' s' \<and> F' \<union> U' = F)"
    using s'(2) unfolding run_inv_def pending_def by auto
  moreover have "dispatches as = length (presses as) \<longrightarrow> ev_head s' = 0 \<and> heap_ok (ev_heap s') F"
    "bash_run dv (typed_chars (take (dispatches as) (presses as))) (shell s) = Some (shell s')"
    using s'(2) by (simp_all add: run_inv_def pending_def handled_def)
  ultimately show ?thesis using s'(1) by blast
qed

definition two_keys :: "key_action list" where
  "two_keys = [Press (key_press CHR ''a'' False), Press (key_press CHR ''b'' False), Dispatch,
     Press (key_press CHR ''b'' True), Dispatch, Dispatch]"

theorem keys_in_order_witness:
  "\<exists>s. kernel_run (\<lambda>_ _. 0) 1 kernel_boot two_keys s \<and> line (shell s) = [0x61, 0x62] \<and> get_event_count s = 0"
proof -
  note kernel_boot_room
  moreover have two: "length (presses two_keys) = 3" "dispatches two_keys = 3"
    "typed_chars (presses two_keys) = [0x61, 0x62]"
    by (simp_all add: two_keys_def dispatches_def typed_chars_def pressed_def key_press_def)
  moreover have "schedule two_keys"
    by (simp add: two_keys_def schedule_def may_follow_def dispatches_def less_Suc_eq)
  moreover obtain sh where sh: "bash_run (\<lambda>_ _. 0) [0x61, 0x62] (shell kernel_boot) = Some sh" "line sh = [0x61, 0x62]"
    by (rule kernel_boot_types)
  ultimately show ?thesis
    using keys_in_order [OF kernel_boot_empty, of two_keys "\<lambda>_ _. 0" 1] by auto
qed

end
