(* ===== verification/Descriptors.thy ===== *)
theory Descriptors
  imports Interrupts
begin

text \<open>
  The loading of the descriptor tables: \<open>gdt_initialize\<close> and \<open>idt_initialize\<close> with the assembly
  they call (\<open>gdt_asm.asm\<close>, \<open>idt_asm.asm\<close>). The addresses of the two tables are arguments.
\<close>

text \<open>\<open>GDT_Descriptor\<close> and \<open>IDT_Descriptor\<close> have the same form.\<close>

record table_descriptor =
  table_limit :: u16
  table_base :: addr

record table_registers =
  reg_gdtr :: table_descriptor
  reg_idtr :: table_descriptor
  reg_cs :: u16
  reg_ds :: u16
  reg_es :: u16
  reg_fs :: u16
  reg_gs :: u16
  reg_ss :: u16

definition sizeof_GDT_Entry :: nat where "sizeof_GDT_Entry = 8"
definition sizeof_IDT_Entry :: nat where "sizeof_IDT_Entry = 8"

definition gdt_descriptor :: "addr \<Rightarrow> table_descriptor" where
  "gdt_descriptor table = \<lparr>table_limit = of_nat (length gdt * sizeof_GDT_Entry) - 1, table_base = table\<rparr>"

definition idt_descriptor :: "addr \<Rightarrow> table_descriptor" where
  "idt_descriptor table = \<lparr>table_limit = of_nat (256 * sizeof_IDT_Entry) - 1, table_base = table\<rparr>"

definition gdt_load :: "table_descriptor \<Rightarrow> u16 \<Rightarrow> u16 \<Rightarrow> table_registers \<Rightarrow> table_registers" where
  "gdt_load descriptor code_segment data_segment r =
     r\<lparr>reg_gdtr := descriptor, reg_cs := code_segment, reg_ds := data_segment, reg_es := data_segment,
       reg_fs := data_segment, reg_gs := data_segment, reg_ss := data_segment\<rparr>"

definition gdt_initialize :: "addr \<Rightarrow> table_registers \<Rightarrow> table_registers" where
  "gdt_initialize table r = gdt_load (gdt_descriptor table) GDT_CODE_SEGMENT GDT_DATA_SEGMENT r"

definition idt_load :: "table_descriptor \<Rightarrow> table_registers \<Rightarrow> table_registers" where
  "idt_load descriptor r = r\<lparr>reg_idtr := descriptor\<rparr>"

definition idt_initialize :: "addr \<Rightarrow> table_registers \<Rightarrow> table_registers" where
  "idt_initialize table r = idt_load (idt_descriptor table) r"

text \<open>
  A selector is usable when its entry is not the null one, lies within the limit and is present; a
  code segment must be executable, a stack segment writeable.
\<close>

definition selected :: "table_descriptor \<Rightarrow> u16 \<Rightarrow> GDT_Entry option" where
  "selected d sel =
     (if drop_bit 3 sel = 0 \<or> table_limit d < (sel AND 0xFFF8) + 7 then None
      else Some (gdt ! unat (drop_bit 3 sel)))"

definition usable_code :: "GDT_Entry \<Rightarrow> bool" where
  "usable_code e \<longleftrightarrow> bit (access e) 7 \<and> bit (access e) 4 \<and> bit (access e) 3"

definition usable_stack :: "GDT_Entry \<Rightarrow> bool" where
  "usable_stack e \<longleftrightarrow> bit (access e) 7 \<and> bit (access e) 4 \<and> \<not> bit (access e) 3 \<and> bit (access e) 1"

lemmas gdt_bits = GDT_ACCESS_PRESENT_def GDT_ACCESS_RING0_def GDT_ACCESS_CODE_SEGMENT_def
  GDT_ACCESS_DATA_SEGMENT_def GDT_ACCESS_CODE_READABLE_def GDT_ACCESS_DATA_WRITEABLE_def
  GDT_FLAG_32BIT_def GDT_FLAG_GRANULARITY_4K_def GDT_CODE_SEGMENT_def GDT_DATA_SEGMENT_def

lemma gdt_limit: "table_limit (gdt_descriptor table) = 23" "table_limit (idt_descriptor table) = 2047"
  by (simp_all add: gdt_descriptor_def idt_descriptor_def sizeof_GDT_Entry_def sizeof_IDT_Entry_def gdt_def)

lemma gdt_selected:
  "selected (gdt_descriptor table) GDT_CODE_SEGMENT = Some (gdt ! 1)"
  "selected (gdt_descriptor table) GDT_DATA_SEGMENT = Some (gdt ! 2)"
  by (simp_all add: selected_def gdt_limit GDT_CODE_SEGMENT_def GDT_DATA_SEGMENT_def)

lemma gdt_entries_usable: "usable_code (gdt ! 1)" "usable_stack (gdt ! 2)"
  by (simp_all add: usable_code_def usable_stack_def gdt_def GDT_ENTRY_def gdt_bits)

text \<open>The segments the kernel runs on are in the table it loads.\<close>

lemma gdt_initialize_segments:
  "\<exists>e. selected (reg_gdtr (gdt_initialize table r)) (reg_cs (gdt_initialize table r)) = Some e \<and> usable_code e"
  "\<forall>sel\<in>{reg_ds, reg_es, reg_fs, reg_gs, reg_ss}. \<exists>e.
     selected (reg_gdtr (gdt_initialize table r)) (sel (gdt_initialize table r)) = Some e \<and> usable_stack e"
  by (simp_all add: gdt_initialize_def gdt_load_def gdt_selected gdt_entries_usable [simplified])

text \<open>Every vector of \<open>idt\<close> is inside the limit of the table.\<close>

lemma idt_covers_vectors: "n < 256 \<Longrightarrow> 8 * n + 7 \<le> unat (table_limit (reg_idtr (idt_initialize table r)))"
  by (simp add: idt_initialize_def idt_load_def gdt_limit)

end
