(* ===== verification/Hal.thy ===== *)
theory Hal
  imports Ide Acpi Ps2 Descriptors
begin

text \<open>
  \<open>hal_initialize\<close> of \<open>hal/hal.c\<close>: the start of the drivers in order. The port accesses of the PS/2, PCI and IDE drivers form one trace.
\<close>

text \<open>
  What the machine and the linker supply: the devices, the interrupt controller's answers, the
  addresses of the descriptor tables, the
  entries of the interrupt stubs, the addresses of the constants and of the two PS/2 handlers,
  what uninitialised variables hold, how deep the PCI scan may go, and the boot data.
\<close>

record boot_env =
  env_devices :: devices
  env_pic :: port_reader
  env_gdt :: addr
  env_idt :: addr
  env_stub :: "nat \<Rightarrow> addr"
  env_rds_str :: addr
  env_facp :: addr
  env_port_1 :: addr
  env_port_2 :: addr
  env_junk :: "nat \<Rightarrow> u8"
  env_depth :: nat
  env_pci_v2 :: bool
  env_pci_flags :: u8

record hal =
  hal_tables :: table_registers
  hal_cpu :: cpu
  hal_acpi :: acpi
  hal_ps2 :: ps2
  hal_pci :: pci
  hal_ide :: ide

datatype hal_panic = Acpi_panic acpi_panic | Null_driver | Pci_panic pci_panic

definition hal_initialize :: "boot_env \<Rightarrow> hal \<Rightarrow> (hal_panic + hal) option" where
  "hal_initialize E s =
     (let dv = env_devices E; junk = env_junk E;
          t = idt_initialize (env_idt E) (gdt_initialize (env_gdt E) (hal_tables s));
          c = irq_initialize (env_pic E) (isr_initialize (env_stub E) (hal_cpu s));
          m = hmem (pci_heap (hal_pci s))
      in case acpi_initialize (junk 0) (junk 1) m (env_rds_str E) (env_facp E) of
           None \<Rightarrow> None
         | Some (Inl e) \<Rightarrow> Some (Inl (Acpi_panic e))
         | Some (Inr a) \<Rightarrow>
             case ps2_initialize dv (junk 2) (junk 3) m (fadt a) (env_port_1 E) (env_port_2 E) (hal_ps2 s) c of
               None \<Rightarrow> Some (Inl Null_driver)
             | Some (p, c) \<Rightarrow>
                 case pci_initialize dv (env_depth E) (env_pci_v2 E) (env_pci_flags E)
                        ((hal_pci s)\<lparr>pci_io := ps2_io p\<rparr>) (hal_ide s) of
                   None \<Rightarrow> None
                 | Some (Inl e) \<Rightarrow> Some (Inl (Pci_panic e))
                 | Some (Inr (_, pc, d)) \<Rightarrow>
                     Some (Inr (s\<lparr>hal_tables := t, hal_cpu := c, hal_acpi := a, hal_ps2 := p, hal_pci := pc, hal_ide := d\<rparr>)))"

end
