(* ===== verification/HalProperties.thy ===== *)
theory HalProperties
  imports Hal Ps2Properties AcpiProperties
begin

text \<open>After the start of the drivers the keyboard's interrupts reach the PS/2 driver.\<close>

definition line_handler :: "addr \<Rightarrow> addr \<Rightarrow> nat \<Rightarrow> addr option" where
  "line_handler h1 h2 n = (if n = 1 then Some h1 else if n = 12 then Some h2 else None)"

text \<open>
  The PS/2 controller works: the FADT that ACPI found lists it, and it passes its self test, which
  is what \<open>passes\<close> stands for.
\<close>

definition controller_works :: "hal \<Rightarrow> memory \<Rightarrow> bool \<Rightarrow> bool" where
  "controller_works s' m passes \<longleftrightarrow> ps2_listed m (fadt (hal_acpi s')) \<and> passes"

lemma isr_initialize_keeps [simp]:
  "isr_handlers (isr_initialize stub c) = isr_handlers c" "irq_handlers (isr_initialize stub c) = irq_handlers c"
  by (simp_all add: isr_initialize_def)

lemma hal_initialize_parts:
  assumes "hal_initialize E s = Some (Inr s')"
  shows "ps2_initialize (env_devices E) (env_junk E 2) (env_junk E 3) (hmem (pci_heap (hal_pci s)))
    (fadt (hal_acpi s')) (env_port_1 E) (env_port_2 E) (hal_ps2 s)
    (irq_initialize (env_pic E) (isr_initialize (env_stub E) (hal_cpu s))) = Some (hal_ps2 s', hal_cpu s')"
  using assms by (auto simp: hal_initialize_def Let_def split: option.splits sum.splits prod.splits)

lemma hal_initialize_lines:
  assumes "keeps_masks (env_pic E)" "keeps_config (env_devices E)" "answers_tests (env_devices E) passes ok1 ok2"
    and "env_port_1 E \<noteq> 0" "env_port_2 E \<noteq> 0"
    and "length (isr_handlers (hal_cpu s)) = 256" "irq_handlers (hal_cpu s) = replicate 16 0"
    and "hal_initialize E s = Some (Inr s')"
  defines "works \<equiv> controller_works s' (hmem (pci_heap (hal_pci s))) passes"
  defines "lh \<equiv> (if works then line_handler (env_port_1 E) (env_port_2 E) else (\<lambda>_. None))"
  shows "ps2_configured_ok (hal_ps2 s') \<longleftrightarrow> works"
    and "\<forall>n<16. bit (pic_mask (pic_state (hal_cpu s'))) n \<longleftrightarrow> lh n = None"
    and "\<forall>n<16. \<forall>regs run. reg_interrupt regs = of_nat (PIC_REMAP_OFFSET + n) \<longrightarrow>
      isr_handler_common run regs (hal_cpu s') =
        (case lh n of
           Some h \<Rightarrow> (Called h, eoi_sent n (run h regs (hal_cpu s')))
         | None \<Rightarrow> (Unhandled_IRQ n, eoi_sent n (hal_cpu s')))"
proof -
  let ?c = "irq_initialize (env_pic E) (isr_initialize (env_stub E) (hal_cpu s))"
  let ?rs = "if works then [(1 :: nat, env_port_1 E), (12, env_port_2 E)] else []"
  have len: "length (isr_handlers (isr_initialize (env_stub E) (hal_cpu s))) = 256"
    "irq_handlers (isr_initialize (env_stub E) (hal_cpu s)) = replicate 16 0" using assms(6,7) by simp_all
  have "irq_ready ?c" using irq_initialize_ready [OF assms(1) len(1), THEN conjunct1] len(2) by simp
  then have "pic_driver ?c" unfolding irq_ready_def by (rule conjunct1)
  from ps2_initialize_correct [OF assms(2,3) this, of "env_junk E 2" "env_junk E 3" "hmem (pci_heap (hal_pci s))"
      "fadt (hal_acpi s')" "env_port_1 E" "env_port_2 E" "hal_ps2 s"] hal_initialize_parts [OF assms(8)]
  have ps2: "ps2_configured_ok (hal_ps2 s') \<longleftrightarrow> works" and reg: "register_all ?rs ?c = Some (hal_cpu s')"
    unfolding works_def controller_works_def by (auto split: if_splits)
  show "ps2_configured_ok (hal_ps2 s') \<longleftrightarrow> works" by (rule ps2)
  have rs: "\<forall>r\<in>set ?rs. fst r < 16 \<and> snd r \<noteq> 0" using assms(4,5) by auto
  have lh: "map_of (rev ?rs) n = lh n" "n \<notin> fst ` set ?rs \<longleftrightarrow> lh n = None" for n
    by (cases works; auto simp: lh_def line_handler_def)+
  let ?P = "\<lambda>t. (\<forall>n<16. bit (pic_mask (pic_state t)) n \<longleftrightarrow> n \<notin> fst ` set ?rs) \<and>
    (\<forall>n<16. \<forall>regs run. reg_interrupt regs = of_nat (PIC_REMAP_OFFSET + n) \<longrightarrow>
       isr_handler_common run regs t =
         (case map_of (rev ?rs) n of
            Some h \<Rightarrow> (Called h, eoi_sent n (run h regs t))
          | None \<Rightarrow> (Unhandled_IRQ n, eoi_sent n t)))"
  obtain t where t: "register_all ?rs ?c = Some t" "?P t"
    using irq_lines_correct [OF assms(1) len rs] by blast
  have "t = hal_cpu s'" using t(1) reg by simp
  with t(2) have P: "?P (hal_cpu s')" by (simp only:)
  show "\<forall>n<16. bit (pic_mask (pic_state (hal_cpu s'))) n \<longleftrightarrow> lh n = None"
    using P [THEN conjunct1] unfolding lh .
  show "\<forall>n<16. \<forall>regs run. reg_interrupt regs = of_nat (PIC_REMAP_OFFSET + n) \<longrightarrow>
      isr_handler_common run regs (hal_cpu s') =
        (case lh n of
           Some h \<Rightarrow> (Called h, eoi_sent n (run h regs (hal_cpu s')))
         | None \<Rightarrow> (Unhandled_IRQ n, eoi_sent n (hal_cpu s')))"
    using P [THEN conjunct2] unfolding lh .
qed

section \<open>A machine without PCI devices\<close>

lemma empty_bus_device:
  assumes "\<And>t. dv (In_double 0xCFC) t = 0xFFFFFFFF"
  shows "\<exists>t. scan_device scan dv bus device s = Some (Inr (s\<lparr>pci_io := t\<rparr>))"
proof -
  have "(0xFFFF :: u16) = ucast (0xFFFFFFFF :: u32)" by simp
  then show ?thesis using assms
    by (simp add: scan_device_def pci_read_def config_read_reg_def out_double_def in_double_def
        PORT_CONFIG_DATA_def VENDOR_ID_def Let_def) blast
qed

lemma empty_bus_scan:
  assumes "\<And>t. dv (In_double 0xCFC) t = 0xFFFFFFFF"
  shows "\<exists>t. scan_devices scan dv bus devs s = Some (Inr (s\<lparr>pci_io := t\<rparr>))"
proof (induction devs arbitrary: s)
  case Nil
  then show ?case by (auto intro: exI [of _ "pci_io s"])
next
  case (Cons d devs)
  obtain t where t: "scan_device scan dv bus d s = Some (Inr (s\<lparr>pci_io := t\<rparr>))"
    using empty_bus_device [where dv = dv, OF assms] by blast
  from Cons.IH [of "s\<lparr>pci_io := t\<rparr>"] show ?case by (auto simp: t pci_and_then_def)
qed

lemma pci_initialize_empty:
  assumes "\<And>t. dv (In_double 0xCFC) t = 0xFFFFFFFF" "device_list p = 0"
  shows "\<exists>c p' d'. pci_initialize dv (Suc depth) v2 flags p d = Some (Inr (c, p', d'))"
proof -
  obtain t where "scan_bus dv (Suc depth) 0 p = Some (Inr (p\<lparr>pci_io := t\<rparr>))"
    using empty_bus_scan [where dv = dv, OF assms(1)] by (metis scan_bus.simps(2))
  moreover have "start_devices dv m 0 d' = Some d'" for m d' by (subst start_devices.simps) simp
  ultimately show ?thesis using assms(2) by (simp add: pci_initialize_def Let_def)
qed

definition no_tables :: table_registers where
  "no_tables = \<lparr>reg_gdtr = \<lparr>table_limit = 0, table_base = 0\<rparr>, reg_idtr = \<lparr>table_limit = 0, table_base = 0\<rparr>,
     reg_cs = 0, reg_ds = 0, reg_es = 0, reg_fs = 0, reg_gs = 0, reg_ss = 0\<rparr>"

definition hal_boot :: hal where
  "hal_boot = \<lparr>hal_tables = no_tables, hal_cpu = reset_cpu, hal_acpi = \<lparr>rsdt = 0, fadt = 0, use_xsdt = False\<rparr>, hal_ps2 = ps2_boot,
     hal_pci = \<lparr>pci_heap = \<lparr>hmem = acpi_memory, free_start = 0\<rparr>, device_list = 0, pci_io = []\<rparr>,
     hal_ide = \<lparr>channels = [], drives = [], ide_buffer = [], ide_io = []\<rparr>\<rparr>"

definition good_env :: boot_env where
  "good_env = \<lparr>env_devices = good_controller, env_pic = last_byte, env_gdt = 0x5000, env_idt = 0x6000, env_stub = (\<lambda>n. 0), env_rds_str = 0x114,
     env_facp = 0x152, env_port_1 = 0x1000, env_port_2 = 0x2000, env_junk = (\<lambda>_. 0), env_depth = 256,
     env_pci_v2 = True, env_pci_flags = 1\<rparr>"

lemma acpi_memory_initialize:
  "acpi_initialize 0 0 acpi_memory 0x114 0x152 = Some (Inr \<lparr>rsdt = 0x11C, fadt = 0x148, use_xsdt = False\<rparr>)"
proof -
  let ?a = "\<lparr>rsdt = 0x11C, fadt = 0, use_xsdt = False\<rparr>"
  have root: "root_table acpi_memory 0x100 = ?a" by (simp add: root_table_def acpi_memory_rsdp(1,2))
  have "find_table acpi_memory ?a 0x152 = 0x148"
    using find_table_first [of acpi_memory ?a "0x152"] acpi_memory_tables(1,2,6)
    by (simp add: sizeof_SDT_Header_def)
  moreover have "read16 acpi_memory 0xA0E \<noteq> 0" by (simp add: acpi_memory_fields(1))
  ultimately show ?thesis
    using acpi_initialize_eq [of acpi_memory "0x114" "0x152"] acpi_memory_tables(4,5)
    by (simp add: acpi_memory_find root Let_def)
qed

lemma hal_boot_starts:
  obtains s' where "hal_initialize good_env hal_boot = Some (Inr s')"
    "fadt (hal_acpi s') = 0x148" "ps2_listed acpi_memory 0x148"
proof -
  let ?c = "irq_initialize last_byte (isr_initialize (\<lambda>n. 0) reset_cpu)"
  have reset: "length (isr_handlers reset_cpu) = 256" "irq_handlers reset_cpu = replicate 16 0"
    by (simp_all add: reset_cpu_def)
  have "irq_ready ?c"
    using irq_initialize_ready [OF last_byte_keeps, of "isr_initialize (\<lambda>n. 0) reset_cpu", THEN conjunct1] reset
    by simp
  then have "pic_driver ?c" unfolding irq_ready_def by (rule conjunct1)
  then obtain p c where p:
    "ps2_initialize good_controller 0 0 acpi_memory 0x148 0x1000 0x2000 ps2_boot ?c = Some (p, c)"
    using ps2_initialize_correct [OF good_keeps_config good_answers] by blast
  have dv: "good_controller (In_double 0xCFC) t = 0xFFFFFFFF" for t by (simp add: good_controller_def)
  obtain x pc d where pc: "pci_initialize good_controller 256 True 1
      ((hal_pci hal_boot)\<lparr>pci_io := ps2_io p\<rparr>) (hal_ide hal_boot) = Some (Inr (x, pc, d))"
    using pci_initialize_empty [where dv = good_controller, OF dv, of "(hal_pci hal_boot)\<lparr>pci_io := ps2_io p\<rparr>" 255 True 1 "hal_ide hal_boot"]
    by (auto simp: hal_boot_def)
  have "hal_initialize good_env hal_boot = Some (Inr (hal_boot\<lparr>
      hal_tables := idt_initialize 0x6000 (gdt_initialize 0x5000 no_tables), hal_cpu := c,
      hal_acpi := \<lparr>rsdt = 0x11C, fadt = 0x148, use_xsdt = False\<rparr>, hal_ps2 := p, hal_pci := pc, hal_ide := d\<rparr>))"
    using p(1) pc by (simp add: hal_initialize_def good_env_def hal_boot_def acpi_memory_initialize Let_def)
  moreover have "sdt_revision acpi_memory 0x148 = 1"
    using nth_load_bytes [of 8 10 acpi_memory "0x148"]
    by (simp add: sdt_revision_def acpi_memory_fields(5) acpi_image_def)
  then have "ps2_listed acpi_memory 0x148" by (simp add: ps2_listed_def)
  moreover have "fadt (hal_acpi (hal_boot\<lparr>
      hal_tables := idt_initialize 0x6000 (gdt_initialize 0x5000 no_tables), hal_cpu := c,
      hal_acpi := \<lparr>rsdt = 0x11C, fadt = 0x148, use_xsdt = False\<rparr>, hal_ps2 := p, hal_pci := pc, hal_ide := d\<rparr>)) = 0x148" by simp
  ultimately show thesis by (intro that) 
qed

section \<open>Properties\<close>

text \<open>
  C35: when the drivers have started, the interrupt controller and the PS/2 driver fit together. If
  the PS/2 controller works, that is, the FADT found lists it and it passes its self test, the PS/2
  driver says so, the lines 1 and 12 are unmasked and their interrupts run the two handlers of the
  driver. Every other line (and without a working controller these two) is masked; line 2, over
  which line 12 is chained, is among them. A request on a line without a handler leaves the
  processor's tables as they are and is only acknowledged: the bytes written are the end of interrupt
  for the controllers concerned, as they are after a handler has run.
\<close>

theorem hal_connects_keyboard:
  assumes "keeps_masks (env_pic E)" "keeps_config (env_devices E)" "answers_tests (env_devices E) passes ok1 ok2"
    and "env_port_1 E \<noteq> 0" "env_port_2 E \<noteq> 0"
    and "length (isr_handlers (hal_cpu s)) = 256" "irq_handlers (hal_cpu s) = replicate 16 0"
    and "hal_initialize E s = Some (Inr s')" "n < 16"
    and "works \<longleftrightarrow> controller_works s' (hmem (pci_heap (hal_pci s))) passes"
    and "reg_interrupt regs = of_nat (PIC_REMAP_OFFSET + n)"
  shows "(ps2_configured_ok (hal_ps2 s') \<longleftrightarrow> works) \<and>
    (bit (pic_mask (pic_state (hal_cpu s'))) n \<longleftrightarrow> \<not> works \<or> n \<noteq> 1 \<and> n \<noteq> 12) \<and>
    isr_handler_common run regs (hal_cpu s') =
      (if works \<and> n = 1 then (Called (env_port_1 E), eoi_sent n (run (env_port_1 E) regs (hal_cpu s')))
       else if works \<and> n = 12 then (Called (env_port_2 E), eoi_sent n (run (env_port_2 E) regs (hal_cpu s')))
       else (Unhandled_IRQ n, eoi_sent n (hal_cpu s')))"
proof -
  note lines = hal_initialize_lines [OF assms(1-8), folded assms(10), rule_format]
  show ?thesis
    using lines(1) lines(2) [OF assms(9)] lines(3) [OF assms(9,11), of run]
    by (cases works) (simp_all add: line_handler_def)
qed

theorem hal_connects_keyboard_witness:
  "\<exists>s'. hal_initialize good_env hal_boot = Some (Inr s') \<and> ps2_configured_ok (hal_ps2 s') \<and>
    isr_handler_common (\<lambda>h r c. c) (blank_registers\<lparr>reg_interrupt := 0x21\<rparr>) (hal_cpu s') =
      (Called 0x1000, eoi_sent 1 (hal_cpu s'))"
proof -
  obtain s' where s': "hal_initialize good_env hal_boot = Some (Inr s')"
    "fadt (hal_acpi s') = 0x148" "ps2_listed acpi_memory 0x148"
    by (rule hal_boot_starts)
  have E: "keeps_masks (env_pic good_env)" "keeps_config (env_devices good_env)"
    "answers_tests (env_devices good_env) True True True" "env_port_1 good_env \<noteq> 0"
    "env_port_2 good_env \<noteq> 0" "length (isr_handlers (hal_cpu hal_boot)) = 256"
    "irq_handlers (hal_cpu hal_boot) = replicate 16 0" "env_port_1 good_env = 0x1000"
    using last_byte_keeps good_keeps_config good_answers by (simp_all add: good_env_def hal_boot_def reset_cpu_def)
  have works: "True \<longleftrightarrow> controller_works s' (hmem (pci_heap (hal_pci hal_boot))) True"
    using s'(2,3) by (simp add: controller_works_def hal_boot_def)
  have "reg_interrupt (blank_registers\<lparr>reg_interrupt := 0x21\<rparr>) = of_nat (PIC_REMAP_OFFSET + 1)"
    by (simp add: PIC_REMAP_OFFSET_def)
  from hal_connects_keyboard [OF E(1-7) s'(1) _ works this, of "\<lambda>h r c. c"] E(8) s'(1)
  show ?thesis by simp
qed

end
