(* ===== verification/Apic.thy ===== *)
theory Apic
  imports Prelude
begin

text \<open>
  The local interrupt controller of \<open>apic.c\<close>: detection, the base address in its model-specific
  register and the access to its registers in memory. \<open>cpuid\<close> is a parameter; the model-specific
  registers are a function from their number to the low and the high half. Nothing of this is in use:
  the body of \<open>apic_initialize\<close> is commented out. Addresses have 32 bits
  (\<open>__PHYSICAL_MEMORY_EXTENSION__\<close> is not defined).
\<close>

type_synonym cpu_id = "u32 \<Rightarrow> (u32 \<times> u32 \<times> u32 \<times> u32) option"
type_synonym msrs = "u32 \<Rightarrow> u32 \<times> u32"

definition CPU_FEAT_EDX_APIC :: u32 where "CPU_FEAT_EDX_APIC = push_bit 9 1"
definition IA32_APIC_BASE_MSR :: u32 where "IA32_APIC_BASE_MSR = 0x1B"
definition IA32_APIC_BASE_MSR_BSP :: u32 where "IA32_APIC_BASE_MSR_BSP = push_bit 8 1"
definition IA32_APIC_BASE_MSR_ENABLE :: u32 where "IA32_APIC_BASE_MSR_ENABLE = push_bit 11 1"

record apic =
  is_boot_cpu :: bool
  apic_base :: addr

definition apic_start :: apic where "apic_start = \<lparr>is_boot_cpu = False, apic_base = 0xFEE00000\<rparr>"

text \<open>\<open>junk\<close> is what \<open>edx\<close> holds when the processor has no leaf 1.\<close>

definition is_apic_supported :: "cpu_id \<Rightarrow> u32 \<Rightarrow> bool" where
  "is_apic_supported cpuid junk =
     (let edx = (case cpuid 1 of None \<Rightarrow> junk | Some (_, _, _, edx) \<Rightarrow> edx) in edx AND CPU_FEAT_EDX_APIC \<noteq> 0)"

definition msr_get :: "u32 \<Rightarrow> msrs \<Rightarrow> u32 \<times> u32" where "msr_get msr r = r msr"

definition msr_set :: "u32 \<Rightarrow> u32 \<Rightarrow> u32 \<Rightarrow> msrs \<Rightarrow> msrs" where "msr_set msr low high r = r(msr := (low, high))"

definition determine_if_boot_cpu :: "msrs \<Rightarrow> bool" where
  "determine_if_boot_cpu r = (fst (msr_get IA32_APIC_BASE_MSR r) AND IA32_APIC_BASE_MSR_BSP \<noteq> 0)"

definition get_apic_base :: "msrs \<Rightarrow> addr" where
  "get_apic_base r = fst (msr_get IA32_APIC_BASE_MSR r) AND 0xFFFFF000"

definition set_apic_base :: "addr \<Rightarrow> msrs \<Rightarrow> msrs" where
  "set_apic_base base r =
     msr_set IA32_APIC_BASE_MSR ((base AND 0xFFFFF000) OR IA32_APIC_BASE_MSR_ENABLE) 0 r"

definition read_register :: "memory \<Rightarrow> apic \<Rightarrow> u32 \<Rightarrow> u32" where
  "read_register m s reg_offset = read32 m (apic_base s + reg_offset)"

definition write_register :: "memory \<Rightarrow> apic \<Rightarrow> u32 \<Rightarrow> u32 \<Rightarrow> memory" where
  "write_register m s reg_offset value = write32 m (apic_base s + reg_offset) value"

lemmas apic_defs = get_apic_base_def set_apic_base_def msr_get_def msr_set_def determine_if_boot_cpu_def
  IA32_APIC_BASE_MSR_BSP_def IA32_APIC_BASE_MSR_ENABLE_def

text \<open>
  The page of the base comes back, and the controller is enabled; but the flag of the boot processor
  is lost, and no processor is one afterwards.
\<close>

lemma apic_base_roundtrip: "get_apic_base (set_apic_base base r) = base AND 0xFFFFF000"
proof -
  have "((base AND 0xFFFFF000) OR 0x800) AND 0xFFFFF000 = base AND 0xFFFFF000"
    by (simp add: bit.conj_disj_distrib2 and.assoc)
  then show ?thesis by (simp add: apic_defs)
qed

lemma set_apic_base_enables: "bit (fst (set_apic_base base r IA32_APIC_BASE_MSR)) 11"
  by (simp add: apic_defs bit_simps)

lemma set_apic_base_forgets_boot: "\<not> determine_if_boot_cpu (set_apic_base base r)"
proof -
  have "(0xFFFFF000 OR 0x800) AND 0x100 = (0 :: u32)" by simp
  moreover have "((base AND 0xFFFFF000) OR 0x800) AND 0x100 = (0 :: u32)"
    by (simp add: bit.conj_disj_distrib2 and.assoc)
  ultimately show ?thesis by (simp add: apic_defs)
qed

lemma set_apic_base_frame: "msr \<noteq> IA32_APIC_BASE_MSR \<Longrightarrow> set_apic_base base r msr = r msr"
  by (simp add: apic_defs)

lemma apic_register_roundtrip: "read_register (write_register m s off v) s off = v"
  by (simp add: read_register_def write_register_def)

end
