(* ===== verification/Spec2Isabelle.thy ===== *)
theory Spec2Isabelle
  imports HeapProperties Events KeyboardInit FormatPrintRuns FatDirProperties DriveBoot VgaProperties
    ShowText InterruptTypes AcpiProperties Ps2Properties PciProperties
    FatReadSplit KeySchedules HalProperties Apic
begin

text \<open>
  A model of the C kernel under \<open>src/kernel\<close> of the repository, a small i686 kernel with its own
  heap, interrupt handling, PS/2, PCI and IDE drivers, a FAT file system, a text console and a
  shell, and the theorems that make its parts correct.

  \<^bold>\<open>How the program fits together.\<close> The boot loader hands \<open>Start\<close> (\<open>main.c\<close>) a memory map. \<open>Start\<close>
  builds the kernel heap from it (\<open>libc/memory.c\<close>), starts the drivers (\<open>hal/hal.c\<close>: descriptor
  tables, interrupt controller, ACPI, PS/2, PCI and, found by the PCI scan, IDE), starts the
  keyboard (\<open>keyboard.c\<close>), reads the partition table (\<open>disk.c\<close>), mounts the first FAT volume
  (\<open>fat.c\<close>) and enters \<open>loop\<close>. From then on keyboard interrupts run through
  \<open>isr_handler_common\<close> and \<open>irq_handler\<close> into the PS/2 driver and the scancode decoder, which puts
  key events on the heap and their addresses into the event queue (\<open>events.c\<close>); \<open>loop\<close> calls the
  events, and the shell (\<open>bash.c\<close>) edits its line and runs commands.

  \<^bold>\<open>How the model is written.\<close> Machine integers are words of the width the code gives them, so
  arithmetic wraps where it wraps in C. Memory is byte-addressed, \<open>u32 \<Rightarrow> u8\<close>
  (\<open>Prelude\<close>), and part of the state of every component that follows pointers; what the code keeps
  behind pointers (list nodes, events, partitions, file buffers, key events, the screen) lies in it
  at its C offsets, so aliasing is the code's. Static arrays used by index are lists.
  Static variables of a file are the fields of a record. Port accesses are appended to a trace
  (newest first; the interrupt controller's have a log of their own); what a device answers is a function of the access and the trace before it
  (\<open>devices\<close>, \<open>port_reader\<close>), a parameter whose documented behaviour the theorems state as
  hypotheses (\<open>ata_drive\<close>, \<open>drive_ok\<close>, the PS/2 and interrupt controller's answers), with a
  concrete device in every witness. A function that may fail to return is a
  \<open>partial_function (option)\<close>: \<open>None\<close> is an endless loop, a division by zero or a null call, and
  the theorems prove \<open>Some\<close>. Variables read before they are set are arguments (\<open>junk\<close>).

  \<^bold>\<open>Theories, components and sources.\<close>

  \<^item> Memory vocabulary: \<open>Prelude\<close> (words, regions, little-endian access, frames; the collections
    \<open>mem_simps\<close> and \<open>frame_simps\<close>), \<open>Bytes\<close> (runs of bytes, fields of packed structures),
    \<open>Ports\<close> (\<open>arch/i686/io.h\<close>, \<open>io_asm.asm\<close>).
  \<^item> Kernel heap (\<open>libc/memory.c\<close>): \<open>Allocator\<close> has the record \<open>heap\<close> and \<open>free_memory\<close>,
    \<open>aligned_alloc\<close>, \<open>malloc\<close>, \<open>calloc\<close>, \<open>realloc\<close>, \<open>free\<close>; \<open>FreeList\<close> the abstract sorted
    and coalesced free list; \<open>AllocatorCorrect\<close> the refinement of one by the other (\<open>free_ok\<close>);
    \<open>MemoryInit\<close> the sort of the memory map and the first free list; \<open>HeapProperties\<close> the
    guarantees to callers; \<open>HeapInterface\<close> the locales \<open>heap_allocator\<close> and \<open>heap_manager\<close>, the
    contract of \<open>malloc\<close> and \<open>free\<close> over sets of bytes, interpreted on the model as \<open>kheap\<close>;
    \<open>HeapRoom\<close> when \<open>malloc\<close> must succeed.
  \<^item> Containers: \<open>HeapChain\<close> (chains of heap cells, proved once inside the locales),
    \<open>LinkedList\<close> (\<open>util/list.c\<close>), \<open>Events\<close> (\<open>events.c\<close>, record \<open>event_queue\<close>).
  \<^item> Strings and output: \<open>CString\<close> and \<open>CStringProperties\<close> (\<open>libc/string.c\<close>), \<open>FormatPrint\<close>,
    \<open>FormatPrintProperties\<close>, \<open>FormatPrintRuns\<close> (\<open>libc/format_print.c\<close>), \<open>Files\<close>, \<open>Stdio\<close> and
    \<open>StdioProperties\<close> (\<open>libc/stdio.c\<close>, \<open>hal/vfs.c\<close>, \<open>file.h\<close>), \<open>Debug\<close> (the \<open>printf\<close> family,
    dumps, \<open>debug.c\<close>), \<open>Vga\<close> and \<open>VgaProperties\<close> (\<open>arch/i686/vga_text.c\<close>, \<open>e9.c\<close>).
  \<^item> Processor: \<open>Interrupts\<close> (\<open>gdt.c\<close>, \<open>idt.c\<close>, \<open>isr.c\<close>, \<open>isrs_gen.c\<close>, \<open>irq.c\<close>, \<open>i8259.c\<close>; record
    \<open>cpu\<close>), \<open>Descriptors\<close> (the table loads and their assembly), \<open>InterruptProperties\<close>,
    \<open>InterruptTypes\<close>, \<open>Apic\<close> (\<open>apic.c\<close>, \<open>msr.asm\<close>), \<open>Acpi\<close> and \<open>AcpiProperties\<close> (\<open>acpi.c\<close>).
  \<^item> Buses and devices: \<open>Ps2Types\<close>, \<open>Ps2\<close> and \<open>Ps2Properties\<close> (\<open>ps2.c\<close>, programs of the state
    monad), \<open>Pci\<close> and \<open>PciProperties\<close> (\<open>pci.c\<close>), \<open>Ide\<close> and \<open>IdeProperties\<close> (\<open>ide.c\<close>), \<open>Hal\<close> and
    \<open>HalProperties\<close> (\<open>hal/hal.c\<close>: all of them in order over one trace).
  \<^item> Disk and files: \<open>Partitions\<close> and \<open>Disk\<close> (\<open>disk.c\<close>, record \<open>disk\<close>), \<open>DiskProperties\<close>; \<open>Fat\<close>,
    \<open>FatDir\<close> and \<open>Mount\<close> (\<open>fat.c\<close>, record \<open>fat\<close>); \<open>FatVolume\<close> the abstract volume, its cluster
    chains and file contents; \<open>FatRead\<close>, \<open>FatReadFile\<close>, \<open>FatReadSplit\<close>, \<open>FatDirProperties\<close>,
    \<open>MountProperties\<close>; \<open>BlockDevice\<close> the locale \<open>block_device\<close>, what the clients of a driver rely
    on, with their lemmas inside, among them those of \<open>DriveResult\<close>, what a caller makes of each
    result of a read; \<open>FatOverIde\<close> its interpretation \<open>ide\<close> on the IDE driver, and \<open>DriveBoot\<close> the
    boot through it.
  \<^item> \<open>ShowText\<close>: the text file \<open>Start\<close> shows (\<open>main.c\<close>), over the file system, \<open>fgets\<close> and \<open>printf\<close>.
  \<^item> Keyboard and shell: \<open>KeyTables\<close>, \<open>Keyboard\<close> (\<open>keyboard.c\<close>, record \<open>kbd\<close>),
    \<open>KeyboardProperties\<close>, \<open>KeyboardInit\<close>; \<open>Shell\<close> (\<open>bash.c\<close>, \<open>on_key_pressed\<close> and \<open>loop\<close>; records
    \<open>bash\<close> and \<open>kernel\<close>), \<open>ShellProperties\<close>, \<open>KeyEvents\<close> and \<open>KeySchedules\<close>.

  \<^bold>\<open>What the theorems show.\<close>

  \<^item> The heap refines the abstract free list: freeing inserts and coalesces, allocating takes the
    best fit from the front of a block, both always return; objects are disjoint and a freed
    object restores the list. Lists and the event queue refine HOL lists, and the bytes they hold
    stay accounted for, which is what the interface locales give.
  \<^item> Formatted output renders its pieces and ends on every format string, \<open>vsnprintf\<close> stays in an
    array of at least one byte (for size 0 its limit wraps around), numbers are read back as they were written, and the console refines a scrolling
    terminal of 25 rows of 80 characters.
  \<^item> The decoder turns every sequence of complete keystrokes other than the pause key into one
    event each with the modifiers in force; the initialisation dialogue completes, with the driver
    hooked to the port (\<open>kbd_device\<close>, \<open>kbd_hooked\<close>), or gives up; the static arrays are
    left only by the pause key. \<open>KeySchedules\<close> takes interrupts and turns of the event loop as the
    steps of \<open>kernel_step\<close> and \<open>kernel_run\<close>: whatever the interleaving, keys reach the shell in
    order and no memory is lost. The shell refines a line editor, and its commands reach the ports.
  \<^item> Interrupts: requests reach the handler registered for their line and the mask is the one the
    driver remembers, every request ends with the bytes of its end of interrupt on the ports; \<open>cpu_step\<close> and \<open>cpu_event\<close> are the operations on the tables, and all gates,
    array lengths and line numbers stay well-formed under them; after \<open>hal_initialize\<close> the
    keyboard's and mouse's lines are open if the controller passes its self test, and no other.
  \<^item> Storage: over a drive that keeps the ATA contract \<open>read_sectors\<close> ends and stores the sectors up
    to the first bad one; the partition table is listed entry by entry; the first FAT volume is
    mounted; directories are searched; reads follow the cluster chain, and a read in two parts is a
    read at once. Through \<open>block_device\<close> these hold over the ports, for the values of the
    result register for which they can. A plain text file is typed byte for byte on the terminal
    the screen shows, whatever its lines.
  \<^item> ACPI, PCI and PS/2: the search panics exactly when no pointer is found or a sum, with what
    its uninitialised variable held, is not 0; the scan lists exactly the functions reachable; and
    the outcome of the self test and of the port tests decides what the controller's configuration
    byte and handlers are after the initialisation.

  \<^bold>\<open>Bounds and fuel.\<close> Loops with a counter recurse on it: 80 columns, 25 rows, 256 gates, 512
  bytes of a sector, and the waits of the PS/2 driver on \<open>WAIT_TIME\<close>. \<open>to_int\<close> stops, as the
  code does, at the end of the 80 characters of the command line. The PCI
  scan has a depth, the number of bridges on a path: there are 256 buses, so 256 is enough unless
  a bridge leads back, and then the code recurses for ever (\<open>self_bridge_diverges\<close>). Loops without
  a bound in the code (polls of the IDE status, walks along a cluster chain or a list, the event
  loop, \<open>format_print\<close>) are \<open>partial_function (option)\<close>, with the proofs that they return.

  \<^bold>\<open>Where the code goes wrong.\<close> The model keeps the code's defects, and lemmas name many of them:
  the key lost or overrun in the decoder, the event queue's dangling tail, the command line
  without a bound, \<open>read_sectors\<close> without a return statement, the shifted address in the ACPI
  search, the interrupt of the second PS/2 port that is never enabled, the text file printed as a
  format string, and \<open>fprintbuf\<close> that never
  ends on long buffers. The first region of the memory map alone is cut at
  the first available byte. The result register after a read is a parameter: reads of a
  file need the value 1, the partition table and the mount any but 0, and the theorems state what
  happens with the others.

  \<^bold>\<open>Not modelled.\<close> The progress messages of the initialisers, the order of the calls in
  \<open>Start\<close>, and \<open>print_memory_regions\<close> only write text. \<open>convert_lfn\<close> is unfinished (it
  ends in an empty loop) and nothing calls it. The assembly entries of the interrupts, the
  switching of the interrupt flag, \<open>hlt\<close> and the boot loader are below the level of this model;
  interrupts are atomic steps in it. The write side of \<open>fat.c\<close> consists of stubs in the code, and
  they are modelled as such.
\<close>

end
